(* ===== verification/OS_Prelude.thy ===== *)
theory OS_Prelude
  imports Main "HOL-Library.Word"
begin

text \<open>
  Shared vocabulary of the development: the machine integers of include/type.h, the flat
  byte-addressed memory every kernel module reads and writes, the port trace of the io
  instructions, the results of kernel code that can stop (a failed assertion, a panic, an
  access outside a table, a loop that never ends), and the generic lemmas on memory,
  words and lists that the component theories use.
\<close>

unbundle bit_operations_syntax

section \<open>Machine integers\<close>

type_synonym u8 = "8 word"
type_synonym u16 = "16 word"
type_synonym u32 = "32 word"

text \<open>A C string argument is the list of its bytes before the terminating NUL.\<close>

type_synonym cstring = "u8 list"

text \<open>
  Collections: \<open>mem_simps\<close> holds the facts that compute reads of updated memory,
  \<open>res_simps\<close> the facts that compute the result combinators.
\<close>

named_theorems mem_simps "reads of updated memory"
named_theorems res_simps "result combinators"

section \<open>Results of kernel code\<close>

text \<open>
  \<open>assert\<close> and \<open>panic\<close> (k_assert.c) never return; an index outside a static table is
  undefined behaviour of the C code; a division by zero is exception 0; \<open>Hang\<close> is a loop that never ends. Each is a value of
  the error type, so that no branch of the source is lost.
\<close>

datatype kerror = Assert_failed | Panicked | Out_of_bounds | Divide_error | Hang

type_synonym 'a result = "kerror + 'a"

definition rbind :: "'a result \<Rightarrow> ('a \<Rightarrow> 'b result) \<Rightarrow> 'b result" where
  "rbind r f = (case r of Inl e \<Rightarrow> Inl e | Inr x \<Rightarrow> f x)"

definition kassert :: "bool \<Rightarrow> 'a result \<Rightarrow> 'a result" where
  "kassert b k = (if b then k else Inl Assert_failed)"

text \<open>A loop is a partial function; a run that does not return is \<open>Hang\<close>.\<close>

definition loop_result :: "'a option \<Rightarrow> 'a result" where
  "loop_result r = (case r of None \<Rightarrow> Inl Hang | Some x \<Rightarrow> Inr x)"

lemma rbind_Inr [simp]: "rbind (Inr x) f = f x"
  by (simp add: rbind_def)

lemma rbind_Inl [simp]: "rbind (Inl e) f = Inl e"
  by (simp add: rbind_def)

lemma rbind_eq_Inr [res_simps]: "rbind r f = Inr y \<longleftrightarrow> (\<exists>x. r = Inr x \<and> f x = Inr y)"
  by (cases r) auto

lemma kassert_True [simp]: "kassert True k = k"
  by (simp add: kassert_def)

lemma kassert_False [simp]: "kassert False k = Inl Assert_failed"
  by (simp add: kassert_def)

lemma kassert_eq_Inr [res_simps]: "kassert b k = Inr y \<longleftrightarrow> b \<and> k = Inr y"
  by (simp add: kassert_def)

lemma kassert_holds: "b \<Longrightarrow> kassert b k = k"
  by (simp add: kassert_def)

lemma loop_result_Some [simp]: "loop_result (Some x) = Inr x"
  by (simp add: loop_result_def)

lemma loop_result_None [simp]: "loop_result None = Inl Hang"
  by (simp add: loop_result_def)

lemma loop_result_eq_Inr [res_simps]: "loop_result r = Inr x \<longleftrightarrow> r = Some x"
  by (cases r) auto

lemma rbind_cong [fundef_cong]:
  "r = r' \<Longrightarrow> (\<And>x. r' = Inr x \<Longrightarrow> f x = g x) \<Longrightarrow> rbind r f = rbind r' g"
  by (cases r') auto

section \<open>Memory\<close>

type_synonym mem = "u32 \<Rightarrow> u8"

definition read16 :: "mem \<Rightarrow> u32 \<Rightarrow> u16" where
  "read16 m a = ucast (m a) OR push_bit 8 (ucast (m (a + 1)))"

definition read32 :: "mem \<Rightarrow> u32 \<Rightarrow> u32" where
  "read32 m a = ucast (m a) OR push_bit 8 (ucast (m (a + 1)))
     OR push_bit 16 (ucast (m (a + 2))) OR push_bit 24 (ucast (m (a + 3)))"

definition write32 :: "mem \<Rightarrow> u32 \<Rightarrow> u32 \<Rightarrow> mem" where
  "write32 m a v = m(a := ucast v, a + 1 := ucast (drop_bit 8 v),
     a + 2 := ucast (drop_bit 16 v), a + 3 := ucast (drop_bit 24 v))"

text \<open>The addresses from \<open>a\<close> on, \<open>n\<close> of them, with the wrap-around of 32-bit addresses.\<close>

definition addr_in :: "u32 \<Rightarrow> nat \<Rightarrow> u32 \<Rightarrow> bool" where
  "addr_in a n x \<longleftrightarrow> unat (x - a) < n"

definition disjoint_ranges :: "u32 \<Rightarrow> nat \<Rightarrow> u32 \<Rightarrow> nat \<Rightarrow> bool" where
  "disjoint_ranges a n b k \<longleftrightarrow> n \<le> unat (b - a) \<and> k \<le> unat (a - b)"

text \<open>The byte-at-a-time copy and fill loops of p_kernel.s.\<close>

fun memcpy_loop :: "nat \<Rightarrow> mem \<Rightarrow> u32 \<Rightarrow> u32 \<Rightarrow> mem" where
  "memcpy_loop 0 m d s = m"
| "memcpy_loop (Suc n) m d s = memcpy_loop n (m(d := m s)) (d + 1) (s + 1)"

definition p_asm_memcpy :: "mem \<Rightarrow> u32 \<Rightarrow> u32 \<Rightarrow> u32 \<Rightarrow> mem" where
  "p_asm_memcpy m dest src n = memcpy_loop (unat n) m dest src"

fun memset_loop :: "nat \<Rightarrow> mem \<Rightarrow> u32 \<Rightarrow> u8 \<Rightarrow> mem" where
  "memset_loop 0 m d c = m"
| "memset_loop (Suc n) m d c = memset_loop n (m(d := c)) (d + 1) c"

definition p_asm_memset :: "mem \<Rightarrow> u32 \<Rightarrow> u32 \<Rightarrow> u32 \<Rightarrow> mem" where
  "p_asm_memset m dest c n = memset_loop (unat n) m dest (ucast c)"

section \<open>The machine\<close>

text \<open>
  What the kernel modules share: the memory, and the log of the port and interrupt-flag
  instructions, oldest first. The globals of each C module are a record that extends the
  one before it.
\<close>

datatype io_event = Out8 u16 u8 | Out16 u16 u16 | In8 u16 | Cli | Sti

record machine =
  mem :: mem
  io_log :: "io_event list"

definition io_out8 :: "u16 \<Rightarrow> u8 \<Rightarrow> 'a machine_scheme \<Rightarrow> 'a machine_scheme" where
  "io_out8 port data s = s\<lparr>io_log := io_log s @ [Out8 port data]\<rparr>"

definition io_out16 :: "u16 \<Rightarrow> u16 \<Rightarrow> 'a machine_scheme \<Rightarrow> 'a machine_scheme" where
  "io_out16 port data s = s\<lparr>io_log := io_log s @ [Out16 port data]\<rparr>"

definition disable_int :: "'a machine_scheme \<Rightarrow> 'a machine_scheme" where
  "disable_int s = s\<lparr>io_log := io_log s @ [Cli]\<rparr>"

definition enable_int :: "'a machine_scheme \<Rightarrow> 'a machine_scheme" where
  "enable_int s = s\<lparr>io_log := io_log s @ [Sti]\<rparr>"

definition poke :: "u32 \<Rightarrow> u8 \<Rightarrow> 'a machine_scheme \<Rightarrow> 'a machine_scheme" where
  "poke a v s = s\<lparr>mem := (mem s)(a := v)\<rparr>"

lemmas io_defs = io_out8_def io_out16_def disable_int_def enable_int_def

section \<open>Facts on addresses and memory\<close>

lemma unat_minus_Suc:
  fixes x d :: u32
  assumes "x \<noteq> d"
  shows "unat (x - d) = Suc (unat (x - (d + 1)))"
proof -
  have "x - d \<noteq> 0" using assms by simp
  then have "unat (x - d - 1) = unat (x - d) - 1" "0 < unat (x - d)"
    by (simp_all add: unat_minus_one unat_gt_0)
  then show ?thesis by (simp add: diff_diff_eq)
qed

lemma unat_pred_zero: "unat (- 1 :: u32) = 2 ^ 32 - 1"
  by (simp add: unsigned_minus_1_eq_mask mask_eq_exp_minus_1)

lemma addr_in_Suc: "n < 2 ^ 32 \<Longrightarrow> addr_in d (Suc n) x \<longleftrightarrow> x = d \<or> (x \<noteq> d \<and> addr_in (d + 1) n x)"
  by (cases "x = d") (simp_all add: addr_in_def unat_minus_Suc)

lemma addr_in_0 [simp]: "\<not> addr_in a 0 x"
  by (simp add: addr_in_def)

lemma addr_in_self [simp]: "addr_in a n a \<longleftrightarrow> 0 < n"
  by (simp add: addr_in_def)

lemma addr_in_succ_self: "n < 2 ^ 32 \<Longrightarrow> \<not> addr_in (d + 1) n d"
  by (simp add: addr_in_def unat_pred_zero)

lemma addr_in_offset: "i < n \<Longrightarrow> n \<le> 2 ^ 32 \<Longrightarrow> addr_in a n (a + of_nat i)"
  by (simp add: addr_in_def unat_of_nat)

lemma unat_of_nat32: "n < 2 ^ 32 \<Longrightarrow> unat (of_nat n :: u32) = n"
  by (simp add: unat_of_nat)

lemma disjoint_rangesD:
  fixes a b x :: u32
  assumes dis: "disjoint_ranges a n b k" and ina: "addr_in a n x"
  shows "\<not> addr_in b k x"
proof -
  have lt: "unat (x - a) < unat (b - a)"
    using dis ina by (simp add: disjoint_ranges_def addr_in_def)
  have "unat (p - q) = unat p + 2 ^ 32 - unat q" if "unat p < unat q" for p q :: u32
    using that by (simp add: unat_sub_if')
  from this [OF lt] have "unat (x - b) = unat (x - a) + 2 ^ 32 - unat (b - a)"
    by simp
  moreover have "unat (0 - q) = 2 ^ 32 - unat q" if "0 < unat q" for q :: u32
    using that by (subst unat_sub_if') simp
  from this [of "b - a"] lt have "unat (a - b) = 2 ^ 32 - unat (b - a)"
    by simp
  ultimately show ?thesis
    using dis unfolding disjoint_ranges_def addr_in_def by linarith
qed

lemma disjoint_ranges_sym: "disjoint_ranges a n b k \<longleftrightarrow> disjoint_ranges b k a n"
  by (auto simp: disjoint_ranges_def)

text \<open>The copy loop in closed form, for regions that do not overlap.\<close>

lemma memcpy_loop_apply:
  assumes "n \<le> 2 ^ 32" and "\<And>x. addr_in d n x \<Longrightarrow> \<not> addr_in s n x"
  shows "memcpy_loop n m d s x = (if addr_in d n x then m (s + (x - d)) else m x)"
  using assms
proof (induction n arbitrary: m d s)
  case 0
  then show ?case by simp
next
  case (Suc n)
  have n: "n < 2 ^ 32" using Suc.prems(1) by simp
  note step = addr_in_Suc [OF n]
  have dis: "\<not> addr_in (s + 1) n y" if "addr_in (d + 1) n y" for y
    using Suc.prems(2) [of y] that addr_in_succ_self [OF n] step by metis
  have IH: "memcpy_loop n (m(d := m s)) (d + 1) (s + 1) x
      = (if addr_in (d + 1) n x then (m(d := m s)) (s + 1 + (x - (d + 1))) else (m(d := m s)) x)"
    by (rule Suc.IH) (use n dis in auto)
  have "s + (x - d) \<noteq> d" if "addr_in d (Suc n) x"
  proof
    assume "s + (x - d) = d"
    then have eq: "d - s = x - d" by (simp add: algebra_simps)
    have "\<not> addr_in s (Suc n) d" using Suc.prems(2) [of d] by simp
    then show False using that unfolding addr_in_def eq by simp
  qed
  then show ?case
    using IH step [of d x] addr_in_succ_self [OF n, of d] by (auto simp: algebra_simps)
qed

lemma memcpy_loop_outside:
  "n \<le> 2 ^ 32 \<Longrightarrow> \<not> addr_in d n x \<Longrightarrow> memcpy_loop n m d s x = m x"
proof (induction n arbitrary: m d s)
  case 0
  then show ?case by simp
next
  case (Suc n)
  then have n: "n < 2 ^ 32" and "x \<noteq> d" "\<not> addr_in (d + 1) n x"
    using addr_in_Suc [of n d x] by auto
  then have "memcpy_loop n (m(d := m s)) (d + 1) (s + 1) x = (m(d := m s)) x"
    by (intro Suc.IH) simp_all
  then show ?case using \<open>x \<noteq> d\<close> by simp
qed

lemma memset_loop_apply:
  "n \<le> 2 ^ 32 \<Longrightarrow> memset_loop n m d c x = (if addr_in d n x then c else m x)"
proof (induction n arbitrary: m d)
  case 0
  then show ?case by simp
next
  case (Suc n)
  then have n: "n < 2 ^ 32" by simp
  then have "memset_loop n (m(d := c)) (d + 1) c x
      = (if addr_in (d + 1) n x then c else (m(d := c)) x)"
    by (intro Suc.IH) simp
  then show ?case
    using addr_in_Suc [OF n, of d x] addr_in_succ_self [OF n, of d] by auto
qed

lemma unat_le_32: "unat (n :: u32) \<le> 2 ^ 32"
  using unsigned_less [of n, where ?'a = nat] by simp

lemma p_asm_memcpy_apply:
  assumes "disjoint_ranges d (unat n) s (unat n)"
  shows "p_asm_memcpy m d s n x = (if addr_in d (unat n) x then m (s + (x - d)) else m x)"
  unfolding p_asm_memcpy_def
  by (rule memcpy_loop_apply [OF unat_le_32]) (rule disjoint_rangesD [OF assms])

lemma p_asm_memcpy_outside:
  "\<not> addr_in d (unat n) x \<Longrightarrow> p_asm_memcpy m d s n x = m x"
  unfolding p_asm_memcpy_def by (rule memcpy_loop_outside [OF unat_le_32])

lemma p_asm_memset_apply:
  "p_asm_memset m d c n x = (if addr_in d (unat n) x then ucast c else m x)"
  unfolding p_asm_memset_def by (rule memset_loop_apply [OF unat_le_32])

section \<open>Loops that establish a fact for every value of the counter\<close>

lemma fold_inv: "(\<And>x s. x \<in> set xs \<Longrightarrow> I s \<Longrightarrow> I (f x s)) \<Longrightarrow> I s \<Longrightarrow> I (fold f xs s)"
  by (induction xs arbitrary: s) auto

lemma fold_establishes:
  assumes "\<And>x s. x \<in> set xs \<Longrightarrow> I s \<Longrightarrow> I (f x s) \<and> Q x (f x s)"
    and "\<And>x y s. x \<in> set xs \<Longrightarrow> I s \<Longrightarrow> Q y s \<Longrightarrow> Q y (f x s)"
    and "I s" and "y \<in> set xs \<or> Q y s"
  shows "I (fold f xs s) \<and> Q y (fold f xs s)"
  using assms
proof (induction xs arbitrary: s)
  case Nil
  then show ?case by simp
next
  case (Cons x xs)
  have "I (fold f xs (f x s)) \<and> Q y (fold f xs (f x s))"
  proof (rule Cons.IH)
    show "I (f x s)" using Cons.prems(1,3) by simp
    show "y \<in> set xs \<or> Q y (f x s)" using Cons.prems(1,2,4) Cons.prems(3) by auto
  qed (use Cons.prems in auto)
  then show ?case by simp
qed

section \<open>Linked lists\<close>

text \<open>
  A chain of links from \<open>p\<close> to \<open>q\<close> through the nodes \<open>xs\<close>; with \<open>q = None\<close> it is a
  null-terminated list.
\<close>

primrec chain :: "('a \<Rightarrow> 'a option) \<Rightarrow> 'a option \<Rightarrow> 'a list \<Rightarrow> 'a option \<Rightarrow> bool" where
  "chain nx p [] q \<longleftrightarrow> p = q"
| "chain nx p (x # xs) q \<longleftrightarrow> p = Some x \<and> chain nx (nx x) xs q"

lemma chain_append: "chain nx p (xs @ ys) q \<longleftrightarrow> (\<exists>r. chain nx p xs r \<and> chain nx r ys q)"
  by (induction xs arbitrary: p) auto

lemma chain_cong:
  "(\<And>x. x \<in> set xs \<Longrightarrow> nx x = nx' x) \<Longrightarrow> chain nx p xs q \<longleftrightarrow> chain nx' p xs q"
  by (induction xs arbitrary: p) auto

lemma chain_upd_outside: "a \<notin> set xs \<Longrightarrow> chain (nx(a := b)) p xs q \<longleftrightarrow> chain nx p xs q"
  by (rule chain_cong) auto

lemma chain_None_iff: "chain nx None xs None \<longleftrightarrow> xs = []"
  by (cases xs) auto

lemma last_neq: "a \<notin> set xs \<Longrightarrow> xs \<noteq> [] \<Longrightarrow> last xs \<noteq> a"
  using last_in_set by metis

lemma takeWhile_neq: "a \<notin> set ys \<Longrightarrow> takeWhile (\<lambda>x. x \<noteq> a) (ys @ a # zs) = ys"
  by (induction ys) auto

lemma chain_snoc:
  assumes "chain nx p xs None" and "xs \<noteq> []" and "distinct xs" and "a \<notin> set xs"
  shows "chain (nx(last xs := Some a, a := None)) p (xs @ [a]) None"
proof -
  obtain ys y where xs: "xs = ys @ [y]" using assms(2) by (cases xs rule: rev_cases) auto
  with assms have "chain nx p ys (Some y)" "y \<notin> set ys" "a \<notin> set ys" "a \<noteq> y"
    by (auto simp: chain_append)
  then show ?thesis by (simp add: xs chain_append chain_upd_outside)
qed

lemma chain_remove:
  assumes "chain nx p (ys @ [y] @ f # zs) None" and "distinct (ys @ [y] @ f # zs)"
  shows "chain (nx(y := nx f, f := None)) p (ys @ [y] @ zs) None"
  using assms by (auto simp: chain_append chain_upd_outside)

section \<open>Words as bytes\<close>

text \<open>The constant masks of the C code are truncations; so stated, bit arguments apply.\<close>

lemma and_masks:
  fixes x :: "'a::len word"
  shows "x AND 0xF = take_bit 4 x" "x AND 0xFF = take_bit 8 x" "x AND 0xFFFF = take_bit 16 x"
  by (simp_all add: take_bit_eq_mask mask_eq_exp_minus_1)

lemma unat_ucast_8_32 [simp]: "unat (ucast (x :: u8) :: u32) = unat x"
  using unsigned_less [of x, where ?'a = nat]
  by (simp add: unsigned_ucast_eq take_bit_nat_eq_self less_trans)

lemma unat_ucast_16_32 [simp]: "unat (ucast (x :: u16) :: u32) = unat x"
  using unsigned_less [of x, where ?'a = nat]
  by (simp add: unsigned_ucast_eq take_bit_nat_eq_self less_trans)

lemma word32_bytes:
  "ucast (ucast v :: u8) OR push_bit 8 (ucast (ucast (drop_bit 8 v) :: u8))
     OR push_bit 16 (ucast (ucast (drop_bit 16 v) :: u8))
     OR push_bit 24 (ucast (ucast (drop_bit 24 v) :: u8)) = (v :: u32)" (is "?l = v")
proof (rule bit_word_eqI)
  fix n assume "n < LENGTH(32)"
  then consider "n < 8" | "8 \<le> n \<and> n < 16" | "16 \<le> n \<and> n < 24" | "24 \<le> n \<and> n < 32"
    by force
  then show "bit ?l n = bit v n" by cases (auto simp: bit_simps)
qed

lemma distinct_addrs4:
  "(a :: u32) + 1 \<noteq> a" "a + 2 \<noteq> a" "a + 3 \<noteq> a" "a + 2 \<noteq> a + 1" "a + 3 \<noteq> a + 1" "a + 3 \<noteq> a + 2"
  by simp_all

lemma read32_write32 [simp, mem_simps]: "read32 (write32 m a v) a = v"
  using distinct_addrs4 [of a] by (simp add: read32_def write32_def word32_bytes)

lemma write32_apply:
  "write32 m a v x = (if addr_in a 4 x then ucast (drop_bit (8 * unat (x - a)) v) else m x)"
proof -
  have "addr_in a 4 x \<longleftrightarrow> x = a \<or> x = a + 1 \<or> x = a + 2 \<or> x = a + 3"
  proof -
    have "addr_in a 4 x \<longleftrightarrow> x - a = 0 \<or> x - a = 1 \<or> x - a = 2 \<or> x - a = 3"
      unfolding addr_in_def by unat_arith
    then show ?thesis by (auto simp: algebra_simps)
  qed
  then show ?thesis using distinct_addrs4 [of a] by (auto simp: write32_def)
qed

lemma write32_outside [mem_simps]: "\<not> addr_in a 4 x \<Longrightarrow> write32 m a v x = m x"
  by (simp add: write32_apply)

lemma read32_cong:
  "(\<And>x. addr_in a 4 x \<Longrightarrow> m x = m' x) \<Longrightarrow> read32 m a = read32 m' a"
  by (simp add: read32_def addr_in_def)

lemma read32_write32_other [mem_simps]:
  assumes "disjoint_ranges b 4 a 4"
  shows "read32 (write32 m a v) b = read32 m b"
  by (rule read32_cong) (simp add: write32_outside disjoint_rangesD [OF assms])

end
