(* ===== verification/Protect.thy ===== *)
theory Protect
  imports OS_Prelude
begin

text \<open>
  Segment descriptors and interrupt gates (include/protect.h, and the gate writer
  \<open>init_idt_desc_by_c\<close> of start.c): the packed layouts, the code that fills them and
  the code that reads a base address, a limit or a handler address back.
\<close>

unbundle bit_operations_syntax

section \<open>Layouts and constants\<close>

record Descriptor =
  limit_low :: u16
  base_low :: u16
  base_mid :: u8
  attr1 :: u8
  limit_high_attr2 :: u8
  base_high :: u8

record Gate =
  offset_low :: u16
  selector :: u16
  dcount :: u8
  gate_attr :: u8
  offset_high :: u16

abbreviation (input) SELECTOR_KERNEL_CS :: u16 where "SELECTOR_KERNEL_CS \<equiv> 8"
abbreviation (input) SELECTOR_KERNEL_DS :: u16 where "SELECTOR_KERNEL_DS \<equiv> 16"
abbreviation (input) SELECTOR_KERNEL_GS :: u16 where "SELECTOR_KERNEL_GS \<equiv> 24 + 3"
abbreviation (input) LDT_CODE :: nat where "LDT_CODE \<equiv> 0"
abbreviation (input) LDT_DATA :: nat where "LDT_DATA \<equiv> 1"
abbreviation (input) DA_386IGate :: u8 where "DA_386IGate \<equiv> 0x8E"
abbreviation (input) DA_C :: u16 where "DA_C \<equiv> 0x98"
abbreviation (input) DA_DRW :: u16 where "DA_DRW \<equiv> 0x92"
abbreviation (input) DA_386TSS :: u16 where "DA_386TSS \<equiv> 0x89"
abbreviation (input) DA_LDT :: u16 where "DA_LDT \<equiv> 0x82"
abbreviation (input) DA_32 :: u16 where "DA_32 \<equiv> 0x4000"
abbreviation (input) DA_LIMIT_4K :: u16 where "DA_LIMIT_4K \<equiv> 0x8000"
abbreviation (input) PRIVILEGE_KRNL :: u8 where "PRIVILEGE_KRNL \<equiv> 0"
abbreviation (input) PRIVILEGE_TASK :: u8 where "PRIVILEGE_TASK \<equiv> 1"
abbreviation (input) PRIVILEGE_USER :: u8 where "PRIVILEGE_USER \<equiv> 3"
abbreviation (input) SEL_USE_LDT :: u32 where "SEL_USE_LDT \<equiv> 4"

section \<open>Filling and reading descriptors\<close>

definition init_descriptor :: "u32 \<Rightarrow> u32 \<Rightarrow> u16 \<Rightarrow> Descriptor" where
  "init_descriptor base limit attr =
     \<lparr>limit_low = ucast (limit AND 0xffff),
      base_low = ucast (base AND 0xffff),
      base_mid = ucast (drop_bit 16 base AND 0xff),
      attr1 = ucast (attr AND 0xff),
      limit_high_attr2 =
        ucast ((push_bit 16 limit AND 0x0f) OR (drop_bit 8 (ucast attr) AND 0xf0)),
      base_high = ucast (drop_bit 24 base AND 0xff)\<rparr>"

text \<open>The expression \<open>base_high << 24 | base_mid << 16 | base_low\<close> of \<open>seg2base\<close> and
  \<open>ldt_seg_linear\<close>.\<close>

definition desc_base :: "Descriptor \<Rightarrow> u32" where
  "desc_base d = push_bit 24 (ucast (base_high d)) OR push_bit 16 (ucast (base_mid d))
     OR ucast (base_low d)"

definition seg2base :: "(nat \<Rightarrow> Descriptor) \<Rightarrow> u16 \<Rightarrow> u32" where
  "seg2base gdt seg = desc_base (gdt (unat (drop_bit 3 seg)))"

definition linear2phy :: "u32 \<Rightarrow> u32 \<Rightarrow> u32" where
  "linear2phy base offset = base + offset"

definition reassembly :: "u32 \<Rightarrow> nat \<Rightarrow> u32 \<Rightarrow> nat \<Rightarrow> u32 \<Rightarrow> u32" where
  "reassembly high high_shift mid mid_shift low =
     push_bit high_shift high + push_bit mid_shift mid + low"

text \<open>What \<open>do_fork\<close> computes with \<open>reassembly\<close> from a descriptor: base, limit, size.\<close>

definition fork_base :: "Descriptor \<Rightarrow> u32" where
  "fork_base d = reassembly (ucast (base_high d)) 24 (ucast (base_mid d)) 16 (ucast (base_low d))"

definition fork_limit :: "Descriptor \<Rightarrow> u32" where
  "fork_limit d = reassembly 0 0 (ucast (limit_high_attr2 d) AND 0xF) 16 (ucast (limit_low d))"

definition granularity :: "Descriptor \<Rightarrow> u32" where
  "granularity d =
     (if (ucast (limit_high_attr2 d) :: u32) AND ucast (drop_bit 8 DA_LIMIT_4K) \<noteq> 0
      then 4096 else 1)"

definition init_idt_desc_by_c :: "u8 \<Rightarrow> u8 \<Rightarrow> u32 \<Rightarrow> u8 \<Rightarrow> (u8 \<Rightarrow> Gate) \<Rightarrow> (u8 \<Rightarrow> Gate)" where
  "init_idt_desc_by_c vector_no desc_type handler privilege idt =
     idt(vector_no :=
       \<lparr>offset_low = ucast (handler AND 0xFFFF),
        selector = SELECTOR_KERNEL_CS,
        dcount = 0,
        gate_attr = desc_type OR push_bit 5 privilege,
        offset_high = ucast (drop_bit 16 handler AND 0xFFFF)\<rparr>)"

text \<open>The handler address the processor takes from a gate.\<close>

definition gate_offset :: "Gate \<Rightarrow> u32" where
  "gate_offset g = push_bit 16 (ucast (offset_high g)) OR ucast (offset_low g)"

section \<open>Round trips\<close>

text \<open>
  An interface of descriptor code: a writer and a reader of the base field. The client
  facts are about translating virtual addresses through the segment.
\<close>

locale segment_base =
  fixes mk :: "u32 \<Rightarrow> u32 \<Rightarrow> u16 \<Rightarrow> Descriptor"
    and base_of :: "Descriptor \<Rightarrow> u32"
  assumes base_mk: "base_of (mk b l a) = b"
begin

lemma translate: "base_of (mk b l a) + va = b + va"
  by (simp add: base_mk)

lemma flat_identity: "base_of (mk 0 l a) + va = va"
  by (simp add: base_mk)

lemma translate_inj: "base_of (mk b l a) + va = base_of (mk b l' a') + va' \<longleftrightarrow> va = va'"
  by (simp add: base_mk)

end

lemma desc_base_init: "desc_base (init_descriptor b l a) = b"
proof (rule bit_word_eqI)
  fix n assume "n < LENGTH(32)"
  then consider "n < 16" | "16 \<le> n \<and> n < 24" | "24 \<le> n \<and> n < 32" by force
  then show "bit (desc_base (init_descriptor b l a)) n = bit b n"
    unfolding desc_base_def init_descriptor_def
    by cases (auto simp: and_masks bit_simps)
qed

lemma disjoint_plus_or:
  "ucast (x :: u8) * 2 ^ 24 + ucast (y :: u8) * 2 ^ 16 + ucast (z :: u16)
   = (push_bit 24 (ucast x) OR push_bit 16 (ucast y) OR ucast z :: u32)"
proof -
  have xy: "push_bit 24 (ucast x) + push_bit 16 (ucast y)
      = (push_bit 24 (ucast x) OR push_bit 16 (ucast y) :: u32)"
    by (rule disjunctive_add) (auto simp: bit_simps dest: bit_imp_le_length)
  have "(push_bit 24 (ucast x) OR push_bit 16 (ucast y)) + ucast z
      = ((push_bit 24 (ucast x) OR push_bit 16 (ucast y)) OR ucast z :: u32)"
    by (rule disjunctive_add) (auto simp: bit_simps dest: bit_imp_le_length)
  with xy show ?thesis by (simp add: push_bit_eq_mult or.assoc)
qed

lemma fork_base_desc_base: "fork_base d = desc_base d"
  unfolding fork_base_def desc_base_def reassembly_def
  using disjoint_plus_or [of "base_high d" "base_mid d" "base_low d"]
  by (simp add: push_bit_eq_mult)

interpretation seg: segment_base init_descriptor desc_base
  by unfold_locales (rule desc_base_init)

interpretation fork_seg: segment_base init_descriptor fork_base
  by unfold_locales (simp add: fork_base_desc_base desc_base_init)

lemma bit_0xf0_low:
  assumes "n < 4"
  shows "\<not> bit (0xF0 :: 'a::len word) n" "\<not> bit (0xF0 :: int) n" "\<not> bit (0xF0 :: nat) n"
  using assms less_Suc_eq [of n 3] less_Suc_eq [of n 2] less_Suc_eq [of n 1] by auto

lemma fork_limit_init: "fork_limit (init_descriptor b l a) = l AND 0xffff"
proof -
  have "take_bit 4 (ucast (limit_high_attr2 (init_descriptor b l a)) :: u32) = 0"
    unfolding init_descriptor_def
    by (rule bit_word_eqI) (auto simp: bit_simps and_masks bit_0xf0_low)
  then show ?thesis
    unfolding fork_limit_def reassembly_def
    by (simp add: and_masks init_descriptor_def) (rule bit_word_eqI, auto simp: bit_simps)
qed

lemma granularity_init:
  "granularity (init_descriptor b l a) = (if bit a 15 then 4096 else 1)"
proof -
  have "granularity d = (if bit (limit_high_attr2 d) 7 then 4096 else 1)" for d
    using and_exp_eq_0_iff_not_bit [of "ucast (limit_high_attr2 d) :: u32" 7]
    by (simp add: granularity_def bit_simps)
  moreover have "bit (limit_high_attr2 (init_descriptor b l a)) 7 = bit a 15"
    by (simp add: init_descriptor_def bit_simps)
  ultimately show ?thesis by simp
qed

lemma gate_offset_init:
  "gate_offset (init_idt_desc_by_c v t h p idt v) = h"
proof (rule bit_word_eqI)
  fix n assume "n < LENGTH(32)"
  then consider "n < 16" | "16 \<le> n \<and> n < 32" by force
  then show "bit (gate_offset (init_idt_desc_by_c v t h p idt v)) n = bit h n"
    unfolding gate_offset_def init_idt_desc_by_c_def
    by cases (auto simp: and_masks bit_simps)
qed

end
