(* ===== verification/Kstring.thy ===== *)
theory Kstring
  imports OS_Prelude
begin

text \<open>
  The string, character and byte-order helpers that are inlined into every kernel module:
  include/k_string.h, include/k_ctype.h and include/endian.h, with the byte-at-a-time
  copy of kernel_loader/protected_code.c. A string argument is the list of its bytes
  before the NUL.
\<close>

unbundle bit_operations_syntax

section \<open>Strings\<close>

text \<open>\<open>s_strlen\<close> counts in an \<open>u8\<close>.\<close>

fun s_strlen_loop :: "u8 \<Rightarrow> cstring \<Rightarrow> u8" where
  "s_strlen_loop len [] = len"
| "s_strlen_loop len (c # cs) = s_strlen_loop (len + 1) cs"

definition s_strlen :: "cstring \<Rightarrow> u32" where
  "s_strlen s = ucast (s_strlen_loop 0 s)"

text \<open>\<open>s_strcpy\<close> writes the bytes and the terminator from \<open>dest\<close> on.\<close>

fun s_strcpy :: "mem \<Rightarrow> u32 \<Rightarrow> cstring \<Rightarrow> mem" where
  "s_strcpy m dest [] = m(dest := 0)"
| "s_strcpy m dest (c # cs) = s_strcpy (m(dest := c)) (dest + 1) cs"

definition head_or_nul :: "cstring \<Rightarrow> u8" where
  "head_or_nul s = (case s of [] \<Rightarrow> 0 | c # _ \<Rightarrow> c)"

fun s_strcmp :: "cstring \<Rightarrow> cstring \<Rightarrow> int" where
  "s_strcmp [] s2 = sint (0 - head_or_nul s2)"
| "s_strcmp (c # s1) s2 =
     (let res = c - head_or_nul s2
      in if res \<noteq> 0 \<or> c = 0 then sint res else s_strcmp s1 (tl s2))"

text \<open>
  \<open>s_memcmp\<close> on two memory areas; a null pointer gives the difference of the pointers.
\<close>

fun s_memcmp_loop :: "mem \<Rightarrow> u32 \<Rightarrow> u32 \<Rightarrow> nat \<Rightarrow> int" where
  "s_memcmp_loop m p1 p2 0 = 0"
| "s_memcmp_loop m p1 p2 (Suc n) =
     (if m p1 \<noteq> m p2 then sint (m p1) - sint (m p2)
      else s_memcmp_loop m (p1 + 1) (p2 + 1) n)"

definition s_memcmp :: "mem \<Rightarrow> u32 \<Rightarrow> u32 \<Rightarrow> int \<Rightarrow> int" where
  "s_memcmp m s1 s2 n =
     (if s1 = 0 \<or> s2 = 0 then sint (s1 - s2) else s_memcmp_loop m s1 s2 (nat n))"

text \<open>Reading a NUL-terminated string from memory; \<open>None\<close> if no NUL ever follows.\<close>

partial_function (option) str_at :: "mem \<Rightarrow> u32 \<Rightarrow> cstring option" where
  "str_at m a = (if m a = 0 then Some [] else Option.bind (str_at m (a + 1)) (\<lambda>cs. Some (m a # cs)))"

fun s32_memcpy_loop :: "nat \<Rightarrow> mem \<Rightarrow> u32 \<Rightarrow> u32 \<Rightarrow> mem" where
  "s32_memcpy_loop 0 m dest src = m"
| "s32_memcpy_loop (Suc n) m dest src = s32_memcpy_loop n (m(dest := m src)) (dest + 1) (src + 1)"

definition s32_memcpy :: "mem \<Rightarrow> u32 \<Rightarrow> u32 \<Rightarrow> u32 \<Rightarrow> mem" where
  "s32_memcpy m dest src n = s32_memcpy_loop (unat n) m dest src"

section \<open>Characters\<close>

definition toupper :: "int \<Rightarrow> int" where
  "toupper c = (if 0x61 \<le> c \<and> c \<le> 0x7a then c - 0x20 else c)"

definition tolower :: "int \<Rightarrow> int" where
  "tolower c = (if 0x41 \<le> c \<and> c \<le> 0x5a then c + 0x20 else c)"

section \<open>Byte order\<close>

text \<open>The exclusive-or swap macro on a pair of bytes.\<close>

definition xor_swap :: "u8 \<Rightarrow> u8 \<Rightarrow> u8 \<times> u8" where
  "xor_swap a b = (let a1 = a XOR b; b1 = b XOR a1; a2 = a1 XOR b1 in (a2, b1))"

definition be32tole32 :: "u32 \<Rightarrow> u32" where
  "be32tole32 v =
     (let c0 = ucast v; c1 = ucast (drop_bit 8 v); c2 = ucast (drop_bit 16 v); c3 = ucast (drop_bit 24 v);
          (d0, d3) = xor_swap c0 c3;
          (d1, d2) = xor_swap c1 c2
      in ucast d0 OR push_bit 8 (ucast d1) OR push_bit 16 (ucast d2) OR push_bit 24 (ucast d3))"

definition le32tobe32 :: "u32 \<Rightarrow> u32" where
  "le32tobe32 v = be32tole32 v"

section \<open>Facts\<close>

lemma s_strlen_loop_eq: "s_strlen_loop len s = len + of_nat (length s)"
  by (induction s arbitrary: len) (simp_all add: algebra_simps)

lemma unat_s_strlen: "unat (s_strlen s) = length s mod 256"
  by (simp add: s_strlen_def s_strlen_loop_eq unat_of_nat)

lemma s_strlen_short: "length s < 256 \<Longrightarrow> s_strlen s = of_nat (length s)"
  by (rule unsigned_word_eqI [where ?'a = nat]) (simp add: unat_s_strlen unat_of_nat)

lemma s_strcmp_zero_iff:
  "0 \<notin> set s1 \<Longrightarrow> 0 \<notin> set s2 \<Longrightarrow> s_strcmp s1 s2 = 0 \<longleftrightarrow> s1 = s2"
proof (induction s1 arbitrary: s2)
  case Nil
  then show ?case by (cases s2) (auto simp: head_or_nul_def signed_eq_0_iff)
next
  case (Cons c s1)
  then show ?case by (cases s2) (auto simp: head_or_nul_def Let_def signed_eq_0_iff)
qed

lemma xor_swap_swaps: "xor_swap a b = (b, a)"
  by (auto simp: xor_swap_def Let_def bit_simps intro!: bit_word_eqI)

lemma s32_memcpy_eq: "s32_memcpy m d s n = p_asm_memcpy m d s n"
proof -
  have "s32_memcpy_loop k m d s = memcpy_loop k m d s" for k
    by (induction k arbitrary: m d s) auto
  then show ?thesis by (simp add: s32_memcpy_def p_asm_memcpy_def)
qed

end
