(* ===== verification/Process.thy ===== *)
theory Process
  imports Protect Kstring
begin

text \<open>
  The process table, the scheduler and the message-passing kernel calls: process.c,
  include/process.h and \<open>sys_sendrec\<close> of syscall.c. A process pointer of the C code is the
  index of its slot in the process table (\<open>None\<close> for a null pointer); a message pointer is
  an address in memory, so that the copies of a message are copies of bytes. The theory
  holds the definitions; the invariants and the theorems about them are in Ipc.
\<close>

unbundle bit_operations_syntax

section \<open>Constants and data\<close>

abbreviation (input) NR_TASKS :: nat where "NR_TASKS \<equiv> 3"
abbreviation (input) NR_PROCS :: nat where "NR_PROCS \<equiv> 32"
abbreviation (input) NR_NATIVE_PROCS :: nat where "NR_NATIVE_PROCS \<equiv> 4"
abbreviation (input) NR_SLOTS :: nat where "NR_SLOTS \<equiv> 35"
abbreviation (input) TASK_TTY :: nat where "TASK_TTY \<equiv> 0"
abbreviation (input) TASK_SYS :: nat where "TASK_SYS \<equiv> 1"
abbreviation (input) TASK_MM :: nat where "TASK_MM \<equiv> 2"
abbreviation (input) TASK_STACK :: u32 where "TASK_STACK \<equiv> 0x8000"
abbreviation (input) SELECTOR_LDT_FIRST :: u16 where "SELECTOR_LDT_FIRST \<equiv> 5 * 8"

abbreviation (input) SEND :: int where "SEND \<equiv> 1"
abbreviation (input) RECEIVE :: int where "RECEIVE \<equiv> 2"
abbreviation (input) BOTH :: int where "BOTH \<equiv> 3"
abbreviation (input) ANY :: int where "ANY \<equiv> 45"
abbreviation (input) NO_TASK :: int where "NO_TASK \<equiv> 55"
abbreviation (input) INTERRUPT :: int where "INTERRUPT \<equiv> - 10"

abbreviation (input) SENDING :: u32 where "SENDING \<equiv> 0x02"
abbreviation (input) RECEIVING :: u32 where "RECEIVING \<equiv> 0x04"
abbreviation (input) WAITING :: u32 where "WAITING \<equiv> 0x08"
abbreviation (input) HANGING :: u32 where "HANGING \<equiv> 0x10"
abbreviation (input) FREE_SLOT :: u32 where "FREE_SLOT \<equiv> 0x20"

abbreviation (input) HARD_INT :: u32 where "HARD_INT \<equiv> 1"
abbreviation (input) GET_TICKS :: u32 where "GET_TICKS \<equiv> 2"
abbreviation (input) FORK :: u32 where "FORK \<equiv> 3"
abbreviation (input) SYSCALL_RET :: u32 where "SYSCALL_RET \<equiv> 4"
abbreviation (input) EXIT :: u32 where "EXIT \<equiv> 5"
abbreviation (input) WAIT :: u32 where "WAIT \<equiv> 6"
abbreviation (input) EXEC :: u32 where "EXEC \<equiv> 7"

record StackFrame =
  rg_gs :: u32
  rg_fs :: u32
  rg_es :: u32
  rg_ds :: u32
  rg_edi :: u32
  rg_esi :: u32
  rg_ebp :: u32
  rg_kernel_esp :: u32
  rg_ebx :: u32
  rg_edx :: u32
  rg_ecx :: u32
  rg_eax :: u32
  rg_retaddr :: u32
  rg_eip :: u32
  rg_cs :: u32
  rg_eflags :: u32
  rg_esp :: u32
  rg_ss :: u32

text \<open>
  A message is 48 bytes of memory: \<open>source\<close>, \<open>type\<close> and the largest member \<open>m3\<close> of
  the union (four \<open>int\<close>s, two \<open>u64\<close>s, two pointers). The names of the fields are the
  addresses of include/process.h's macros, relative to the message.
\<close>

abbreviation (input) MSG_SIZE :: u32 where "MSG_SIZE \<equiv> 48"
abbreviation (input) OFF_TYPE :: u32 where "OFF_TYPE \<equiv> 4"
abbreviation (input) OFF_RETVAL :: u32 where "OFF_RETVAL \<equiv> 8"
abbreviation (input) OFF_STATUS :: u32 where "OFF_STATUS \<equiv> 8"
abbreviation (input) OFF_PID :: u32 where "OFF_PID \<equiv> 12"
abbreviation (input) OFF_NAME_LEN :: u32 where "OFF_NAME_LEN \<equiv> 12"
abbreviation (input) OFF_BUF_LEN :: u32 where "OFF_BUF_LEN \<equiv> 16"
abbreviation (input) OFF_PATHNAME :: u32 where "OFF_PATHNAME \<equiv> 40"
abbreviation (input) OFF_BUF :: u32 where "OFF_BUF \<equiv> 44"

record Process =
  regs :: StackFrame
  ldt_sel :: u16
  ldt :: "nat \<Rightarrow> Descriptor"
  pid :: u32
  tty_index :: int
  p_flags :: u32
  msg :: u32
  p_recvfrom :: int
  p_sendto :: int
  has_int_msg :: int
  p_parent :: u32
  q_sending :: "nat option"
  next_sending :: "nat option"
  exit_status :: u32
  p_name :: cstring

type_synonym ptable = "nat \<Rightarrow> Process"

record kernel = machine +
  proc_table :: ptable
  ready_process :: nat
  k_reenter :: int
  ticks :: u32

definition valid_pid :: "int \<Rightarrow> bool" where
  "valid_pid i \<longleftrightarrow> 0 \<le> i \<and> i < int NR_SLOTS"

definition upd_proc :: "nat \<Rightarrow> (Process \<Rightarrow> Process) \<Rightarrow> 'a kernel_scheme \<Rightarrow> 'a kernel_scheme" where
  "upd_proc i f s = s\<lparr>proc_table := (proc_table s)(i := f (proc_table s i))\<rparr>"

section \<open>Segments of a process\<close>

definition ldt_seg_linear :: "Process \<Rightarrow> nat \<Rightarrow> u32" where
  "ldt_seg_linear p ldt_index = desc_base (ldt p ldt_index)"

definition va2la :: "ptable \<Rightarrow> nat \<Rightarrow> u32 \<Rightarrow> u32 result" where
  "va2la pt i va =
     (let la = ldt_seg_linear (pt i) LDT_DATA + va
      in kassert (i < NR_TASKS + NR_NATIVE_PROCS \<longrightarrow> la = va) (Inr la))"

section \<open>Scheduling\<close>

partial_function (option) schedule_loop :: "ptable \<Rightarrow> nat \<Rightarrow> nat option" where
  "schedule_loop pt r =
     (let r' = (if Suc r \<ge> NR_TASKS + NR_PROCS then 0 else Suc r)
      in if p_flags (pt r') = FREE_SLOT then schedule_loop pt r'
         else if p_flags (pt r') = 0 then Some r'
         else schedule_loop pt r')"

definition schedule :: "'a kernel_scheme \<Rightarrow> 'a kernel_scheme result" where
  "schedule s =
     rbind (loop_result (schedule_loop (proc_table s) (ready_process s)))
       (\<lambda>r. Inr (s\<lparr>ready_process := r\<rparr>))"

definition block :: "nat \<Rightarrow> 'a kernel_scheme \<Rightarrow> 'a kernel_scheme result" where
  "block p s = kassert (p_flags (proc_table s p) \<noteq> 0) (schedule s)"

definition unblock :: "nat \<Rightarrow> 'a kernel_scheme \<Rightarrow> 'a kernel_scheme result" where
  "unblock p s = kassert (p_flags (proc_table s p) = 0) (Inr s)"

definition clock_handler :: "'a kernel_scheme \<Rightarrow> 'a kernel_scheme result" where
  "clock_handler s =
     (let s1 = s\<lparr>ticks := ticks s + 1\<rparr>
      in if k_reenter s1 \<noteq> 0 then Inr s1 else schedule s1)"

section \<open>Deadlock detection\<close>

text \<open>
  The search of \<open>deadlock\<close> follows \<open>p_sendto\<close> while the process is sending; once it has
  found \<open>src\<close> it walks the same chain again to print it, asserting that every process on
  it has a message. The printed text is left out.
\<close>

partial_function (option) deadlock_report :: "ptable \<Rightarrow> int \<Rightarrow> nat \<Rightarrow> unit result option" where
  "deadlock_report pt src p =
     (if msg (pt p) = 0 then Some (Inl Assert_failed)
      else if p_sendto (pt p) = src then Some (Inr ())
      else if valid_pid (p_sendto (pt p)) then deadlock_report pt src (nat (p_sendto (pt p)))
      else Some (Inl Out_of_bounds))"

partial_function (option) deadlock_walk :: "ptable \<Rightarrow> int \<Rightarrow> nat \<Rightarrow> bool result option" where
  "deadlock_walk pt src p =
     (if p_flags (pt p) AND SENDING \<noteq> 0 then
        if p_sendto (pt p) = src then Some (Inr True)
        else if valid_pid (p_sendto (pt p)) then deadlock_walk pt src (nat (p_sendto (pt p)))
        else Some (Inl Out_of_bounds)
      else Some (Inr False))"

definition deadlock :: "ptable \<Rightarrow> int \<Rightarrow> int \<Rightarrow> bool result" where
  "deadlock pt src dest =
     (if \<not> valid_pid dest then Inl Out_of_bounds
      else rbind (loop_result (deadlock_walk pt src (nat dest))) (\<lambda>r.
           rbind r (\<lambda>found.
             if found then
               rbind (loop_result (deadlock_report pt src (nat dest))) (\<lambda>r'.
               rbind r' (\<lambda>_. Inr True))
             else Inr False)))"

section \<open>Sending\<close>

partial_function (option) queue_last :: "ptable \<Rightarrow> nat \<Rightarrow> nat option" where
  "queue_last pt p =
     (case next_sending (pt p) of None \<Rightarrow> Some p | Some q \<Rightarrow> queue_last pt q)"

definition enqueue_sender :: "nat \<Rightarrow> nat \<Rightarrow> 'a kernel_scheme \<Rightarrow> 'a kernel_scheme result" where
  "enqueue_sender sender d s =
     rbind (case q_sending (proc_table s d) of
         Some p \<Rightarrow>
           rbind (loop_result (queue_last (proc_table s) p)) (\<lambda>l.
             Inr (upd_proc l (\<lambda>q. q\<lparr>next_sending := Some sender\<rparr>) s))
       | None \<Rightarrow> Inr (upd_proc d (\<lambda>q. q\<lparr>q_sending := Some sender\<rparr>) s))
     (\<lambda>s'. Inr (upd_proc sender (\<lambda>q. q\<lparr>next_sending := None\<rparr>) s'))"

definition deliver :: "nat \<Rightarrow> nat \<Rightarrow> u32 \<Rightarrow> 'a kernel_scheme \<Rightarrow> 'a kernel_scheme result" where
  "deliver sender d m s =
     kassert (msg (proc_table s d) \<noteq> 0) (kassert (m \<noteq> 0)
       (rbind (va2la (proc_table s) d (msg (proc_table s d))) (\<lambda>to.
        rbind (va2la (proc_table s) sender m) (\<lambda>from.
        let s1 = upd_proc d
              (\<lambda>p. p\<lparr>msg := 0, p_flags := p_flags p AND NOT RECEIVING, p_recvfrom := NO_TASK\<rparr>)
              (s\<lparr>mem := p_asm_memcpy (mem s) to from MSG_SIZE\<rparr>)
        in rbind (unblock d s1) (\<lambda>s2.
             kassert (p_flags (proc_table s2 d) = 0 \<and> msg (proc_table s2 d) = 0
               \<and> p_recvfrom (proc_table s2 d) = NO_TASK \<and> p_sendto (proc_table s2 d) = NO_TASK)
             (kassert (p_flags (proc_table s2 sender) = 0 \<and> msg (proc_table s2 sender) = 0
               \<and> p_recvfrom (proc_table s2 sender) = NO_TASK
               \<and> p_sendto (proc_table s2 sender) = NO_TASK)
             (Inr s2)))))))"

definition send_block :: "nat \<Rightarrow> nat \<Rightarrow> u32 \<Rightarrow> 'a kernel_scheme \<Rightarrow> 'a kernel_scheme result" where
  "send_block sender d m s =
     (let s1 = upd_proc sender (\<lambda>p. p\<lparr>p_flags := p_flags p OR SENDING\<rparr>) s
      in kassert (p_flags (proc_table s1 sender) = SENDING)
        (let s2 = upd_proc sender (\<lambda>p. p\<lparr>p_sendto := int d, msg := m\<rparr>) s1
         in rbind (enqueue_sender sender d s2) (\<lambda>s3.
            rbind (block sender s3) (\<lambda>s4.
              kassert (p_flags (proc_table s4 sender) = SENDING
                \<and> msg (proc_table s4 sender) \<noteq> 0
                \<and> p_recvfrom (proc_table s4 sender) = NO_TASK
                \<and> p_sendto (proc_table s4 sender) = int d)
              (Inr s4)))))"

definition msg_send :: "nat \<Rightarrow> int \<Rightarrow> u32 \<Rightarrow> 'a kernel_scheme \<Rightarrow> 'a kernel_scheme result" where
  "msg_send sender dest m s =
     kassert (int sender \<noteq> dest)
     (rbind (deadlock (proc_table s) (int sender) dest) (\<lambda>dl.
        if dl then Inl Panicked
        else
          let d = nat dest; p_dest = proc_table s d
          in if p_flags p_dest AND RECEIVING \<noteq> 0
                \<and> (p_recvfrom p_dest = int sender \<or> p_recvfrom p_dest = ANY)
             then deliver sender d m s
             else send_block sender d m s))"

section \<open>Receiving\<close>

text \<open>
  The search for the predecessor of \<open>from\<close> in the queue of the receiver: the last
  process passed before \<open>from\<close> is found, \<open>None\<close> when it is the first.
\<close>

partial_function (option) find_prev :: "ptable \<Rightarrow> nat \<Rightarrow> nat option \<Rightarrow> nat option \<Rightarrow> nat option option" where
  "find_prev pt from prev p =
     (if p = None \<or> p = Some from then Some prev
      else find_prev pt from p (next_sending (pt (the p))))"

text \<open>The assertions made before a queued message is taken.\<close>

definition ready_to_take :: "ptable \<Rightarrow> nat \<Rightarrow> nat \<Rightarrow> bool" where
  "ready_to_take pt w from \<longleftrightarrow>
     p_flags (pt w) = 0 \<and> msg (pt w) = 0 \<and> p_recvfrom (pt w) = NO_TASK
     \<and> p_sendto (pt w) = NO_TASK \<and> q_sending (pt w) \<noteq> None
     \<and> p_flags (pt from) = SENDING \<and> msg (pt from) \<noteq> 0 \<and> p_recvfrom (pt from) = NO_TASK
     \<and> p_sendto (pt from) = int w"

definition unlink_sender :: "nat \<Rightarrow> nat \<Rightarrow> nat option \<Rightarrow> 'a kernel_scheme \<Rightarrow> 'a kernel_scheme result" where
  "unlink_sender w from prev s =
     (let nx = next_sending (proc_table s from)
      in if q_sending (proc_table s w) = Some from
         then kassert (prev = None)
           (Inr (upd_proc from (\<lambda>p. p\<lparr>next_sending := None\<rparr>)
              (upd_proc w (\<lambda>p. p\<lparr>q_sending := nx\<rparr>) s)))
         else (case prev of
             None \<Rightarrow> Inl Assert_failed
           | Some pr \<Rightarrow>
               Inr (upd_proc from (\<lambda>p. p\<lparr>next_sending := None\<rparr>)
                 (upd_proc pr (\<lambda>p. p\<lparr>next_sending := nx\<rparr>) s))))"

definition take_message :: "nat \<Rightarrow> nat \<Rightarrow> nat option \<Rightarrow> u32 \<Rightarrow> 'a kernel_scheme \<Rightarrow> 'a kernel_scheme result" where
  "take_message w from prev m s =
     rbind (unlink_sender w from prev s) (\<lambda>s1.
       kassert (m \<noteq> 0) (kassert (msg (proc_table s1 from) \<noteq> 0)
       (rbind (va2la (proc_table s1) w m) (\<lambda>to.
        rbind (va2la (proc_table s1) from (msg (proc_table s1 from))) (\<lambda>src.
          unblock from
            (upd_proc from
              (\<lambda>p. p\<lparr>msg := 0, p_sendto := NO_TASK, p_flags := p_flags p AND NOT SENDING\<rparr>)
              (s1\<lparr>mem := p_asm_memcpy (mem s1) to src MSG_SIZE\<rparr>)))))))"

definition receive_block :: "nat \<Rightarrow> int \<Rightarrow> u32 \<Rightarrow> 'a kernel_scheme \<Rightarrow> 'a kernel_scheme result" where
  "receive_block w src m s =
     rbind (block w (upd_proc w
         (\<lambda>p. p\<lparr>p_flags := p_flags p OR RECEIVING, msg := m, p_recvfrom := src\<rparr>) s)) (\<lambda>s1.
       kassert (p_flags (proc_table s1 w) = RECEIVING \<and> msg (proc_table s1 w) \<noteq> 0
         \<and> p_recvfrom (proc_table s1 w) \<noteq> NO_TASK \<and> p_sendto (proc_table s1 w) = NO_TASK
         \<and> has_int_msg (proc_table s1 w) = 0)
       (Inr s1))"

text \<open>The message of a hardware interrupt: 48 zero bytes, then source and type.\<close>

definition interrupt_message :: "u32 \<Rightarrow> mem \<Rightarrow> mem" where
  "interrupt_message a m =
     write32 (write32 (p_asm_memset m a 0 MSG_SIZE) a (word_of_int INTERRUPT))
       (a + OFF_TYPE) HARD_INT"

definition receive_interrupt :: "nat \<Rightarrow> u32 \<Rightarrow> 'a kernel_scheme \<Rightarrow> 'a kernel_scheme result" where
  "receive_interrupt w m s =
     kassert (m \<noteq> 0) (rbind (va2la (proc_table s) w m) (\<lambda>to.
       let s1 = upd_proc w (\<lambda>p. p\<lparr>has_int_msg := 0\<rparr>) (s\<lparr>mem := interrupt_message to (mem s)\<rparr>)
       in kassert (p_flags (proc_table s1 w) = 0 \<and> msg (proc_table s1 w) = 0
            \<and> p_sendto (proc_table s1 w) = NO_TASK) (Inr s1)))"

definition msg_receive :: "nat \<Rightarrow> int \<Rightarrow> u32 \<Rightarrow> 'a kernel_scheme \<Rightarrow> 'a kernel_scheme result" where
  "msg_receive w src m s =
     (let pt = proc_table s
      in kassert (int w \<noteq> src)
       (if has_int_msg (pt w) \<noteq> 0 \<and> (src = ANY \<or> src = INTERRUPT) then receive_interrupt w m s
        else if src = ANY then
          (case q_sending (pt w) of
             Some from \<Rightarrow> kassert (ready_to_take pt w from) (take_message w from None m s)
           | None \<Rightarrow> receive_block w ANY m s)
        else if \<not> valid_pid src then Inl Out_of_bounds
        else
          let from = nat src
          in if p_flags (pt from) AND SENDING \<noteq> 0 \<and> p_sendto (pt from) = int w then
               kassert (q_sending (pt w) \<noteq> None)
               (rbind (loop_result (find_prev pt from None (q_sending (pt w)))) (\<lambda>prev.
                  kassert (ready_to_take pt w from) (take_message w from prev m s)))
             else receive_block w src m s))"

section \<open>The system call\<close>

definition sys_sendrec :: "int \<Rightarrow> int \<Rightarrow> u32 \<Rightarrow> nat \<Rightarrow> 'a kernel_scheme \<Rightarrow> 'a kernel_scheme result" where
  "sys_sendrec function_no src_dest m p s =
     kassert (k_reenter s = 0)
     (kassert (valid_pid src_dest \<or> src_dest = ANY \<or> src_dest = INTERRUPT)
     (rbind (va2la (proc_table s) p m) (\<lambda>a.
        let s1 = s\<lparr>mem := write32 (mem s) a (of_nat p)\<rparr>
        in kassert (int p \<noteq> src_dest)
          (if function_no = SEND then msg_send p src_dest m s1
           else if function_no = RECEIVE then msg_receive p src_dest m s1
           else Inl Panicked))))"

section \<open>The initial process table\<close>

text \<open>
  The names in \<open>task_table\<close> and \<open>user_proc_table\<close>. The entry points of the tasks, the
  address of \<open>task_stack\<close> and the global descriptor table are what the linker and the
  loader provide, and are arguments.
\<close>

definition task_name :: "nat \<Rightarrow> cstring" where
  "task_name i = map of_char
     ([''TTY'', ''SYS'', ''MM'', ''INIT'', ''proc a'', ''proc b'', ''proc c''] ! i)"

definition init_ldt :: "(nat \<Rightarrow> Descriptor) \<Rightarrow> nat \<Rightarrow> u8 \<Rightarrow> (nat \<Rightarrow> Descriptor) \<Rightarrow> (nat \<Rightarrow> Descriptor)" where
  "init_ldt gdt i privilege old =
     (if s_strcmp (task_name i) (map of_char ''INIT'') \<noteq> 0
      then old(LDT_CODE := (gdt (unat (drop_bit 3 SELECTOR_KERNEL_CS)))
                 \<lparr>attr1 := ucast DA_C OR push_bit 5 privilege\<rparr>,
               LDT_DATA := (gdt (unat (drop_bit 3 SELECTOR_KERNEL_DS)))
                 \<lparr>attr1 := ucast DA_DRW OR push_bit 5 privilege\<rparr>)
      else old(LDT_CODE := init_descriptor 0 0x600
                 (DA_32 OR DA_LIMIT_4K OR DA_C OR push_bit 5 (ucast privilege)),
               LDT_DATA := init_descriptor 0 0x600
                 (DA_32 OR DA_LIMIT_4K OR DA_DRW OR push_bit 5 (ucast privilege))))"

definition init_regs :: "u32 \<Rightarrow> u32 \<Rightarrow> u32 \<Rightarrow> u32 \<Rightarrow> StackFrame \<Rightarrow> StackFrame" where
  "init_regs rpl init_eip stack_top eflags r = r\<lparr>
     rg_cs := (0 AND 0xfff8) OR SEL_USE_LDT OR rpl,
     rg_ds := (8 AND 0xfff8) OR SEL_USE_LDT OR rpl,
     rg_es := (8 AND 0xfff8) OR SEL_USE_LDT OR rpl,
     rg_fs := (8 AND 0xfff8) OR SEL_USE_LDT OR rpl,
     rg_ss := (8 AND 0xfff8) OR SEL_USE_LDT OR rpl,
     rg_gs := (ucast SELECTOR_KERNEL_GS AND 0xfff8) OR rpl,
     rg_eip := init_eip,
     rg_esp := stack_top,
     rg_eflags := eflags\<rparr>"

definition init_native ::
  "(nat \<Rightarrow> Descriptor) \<Rightarrow> (nat \<Rightarrow> u32) \<Rightarrow> nat \<Rightarrow> u16 \<Rightarrow> u32 \<Rightarrow> Process \<Rightarrow> Process" where
  "init_native gdt init_eip i selector_ldt stack_top p =
     (let privilege = (if i < NR_TASKS then PRIVILEGE_TASK else PRIVILEGE_USER);
          rpl = (if i < NR_TASKS then 1 else 3);
          eflags = (if i < NR_TASKS then 0x1202 else 0x202)
      in p\<lparr>p_name := task_name i,
          ldt := init_ldt gdt i privilege (ldt p),
          p_parent := word_of_int NO_TASK,
          ldt_sel := selector_ldt,
          regs := init_regs rpl (init_eip i) stack_top eflags (regs p),
          pid := of_nat i,
          tty_index := 0,
          p_flags := 0,
          msg := 0,
          p_recvfrom := NO_TASK,
          p_sendto := NO_TASK,
          has_int_msg := 0,
          q_sending := None,
          next_sending := None\<rparr>)"

text \<open>The loop over the slots: \<open>n\<close> slots are left, \<open>i\<close> is the next one.\<close>

fun init_proc_loop ::
  "(nat \<Rightarrow> Descriptor) \<Rightarrow> (nat \<Rightarrow> u32) \<Rightarrow> nat \<Rightarrow> nat \<Rightarrow> u16 \<Rightarrow> u32 \<Rightarrow> ptable \<Rightarrow> ptable" where
  "init_proc_loop gdt init_eip 0 i selector_ldt stack_top pt = pt"
| "init_proc_loop gdt init_eip (Suc n) i selector_ldt stack_top pt =
     (if i \<ge> NR_TASKS + NR_NATIVE_PROCS
      then init_proc_loop gdt init_eip n (Suc i) (selector_ldt + push_bit 3 1) stack_top
             (pt(i := (pt i)\<lparr>p_flags := FREE_SLOT, ldt_sel := selector_ldt\<rparr>))
      else let top = stack_top + TASK_STACK
           in init_proc_loop gdt init_eip n (Suc i) (selector_ldt + push_bit 3 1) top
                (pt(i := init_native gdt init_eip i selector_ldt top (pt i))))"

definition init_proc ::
  "(nat \<Rightarrow> Descriptor) \<Rightarrow> (nat \<Rightarrow> u32) \<Rightarrow> u32 \<Rightarrow> 'a kernel_scheme \<Rightarrow> 'a kernel_scheme" where
  "init_proc gdt init_eip task_stack s =
     (let pt = init_proc_loop gdt init_eip (NR_TASKS + NR_PROCS) 0 SELECTOR_LDT_FIRST
                 (task_stack + TASK_STACK) (proc_table s)
      in s\<lparr>proc_table := pt(
           NR_TASKS + 0 := (pt (NR_TASKS + 0))\<lparr>tty_index := 0\<rparr>,
           NR_TASKS + 1 := (pt (NR_TASKS + 1))\<lparr>tty_index := 1\<rparr>,
           NR_TASKS + 2 := (pt (NR_TASKS + 2))\<lparr>tty_index := 2\<rparr>)\<rparr>)"

section \<open>The state before any initialisation\<close>

text \<open>All zero, as the kernel finds its uninitialised data.\<close>

definition zero_frame :: StackFrame where
  "zero_frame = \<lparr>rg_gs = 0, rg_fs = 0, rg_es = 0, rg_ds = 0, rg_edi = 0, rg_esi = 0, rg_ebp = 0,
     rg_kernel_esp = 0, rg_ebx = 0, rg_edx = 0, rg_ecx = 0, rg_eax = 0, rg_retaddr = 0, rg_eip = 0,
     rg_cs = 0, rg_eflags = 0, rg_esp = 0, rg_ss = 0\<rparr>"

definition zero_process :: Process where
  "zero_process = \<lparr>regs = zero_frame, ldt_sel = 0, ldt = (\<lambda>_. init_descriptor 0 0 0), pid = 0,
     tty_index = 0, p_flags = 0, msg = 0, p_recvfrom = 0, p_sendto = 0, has_int_msg = 0,
     p_parent = 0, q_sending = None, next_sending = None, exit_status = 0, p_name = []\<rparr>"

definition zero_kernel :: kernel where
  "zero_kernel = \<lparr>mem = (\<lambda>_. 0), io_log = [], proc_table = (\<lambda>_. zero_process), ready_process = 0,
     k_reenter = 0, ticks = 0\<rparr>"

end
