(* ===== verification/Ipc.thy ===== *)
theory Ipc
  imports Process
begin

text \<open>
  Correctness of message passing. The kernel keeps, for every process, a linked queue of
  the processes blocked in a send to it, and a graph of who waits for whom. The
  invariant \<open>ipc_inv\<close> relates the flags, the queues and the graph; the theorems say
  that under it no assertion of \<open>msg_send\<close> and \<open>msg_receive\<close> fails, what each call does
  on every branch, that queues are first-in first-out, that a message arrives byte for
  byte, and that the wait graph never gets a cycle.
\<close>

unbundle bit_operations_syntax

section \<open>Scheduling\<close>

text \<open>The slot after \<open>r\<close>, cyclically.\<close>

definition next_slot :: "nat \<Rightarrow> nat" where
  "next_slot r = (if Suc r \<ge> NR_SLOTS then 0 else Suc r)"

lemma schedule_loop_unfold:
  "schedule_loop pt r =
     (if p_flags (pt (next_slot r)) = 0 then Some (next_slot r) else schedule_loop pt (next_slot r))"
  by (subst schedule_loop.simps) (simp add: next_slot_def Let_def)

lemma next_slot_less: "next_slot r < NR_SLOTS"
  by (simp add: next_slot_def)

lemma schedule_loop_steps:
  "(\<And>j. j < n \<Longrightarrow> p_flags (pt ((next_slot ^^ Suc j) r)) \<noteq> 0) \<Longrightarrow>
   schedule_loop pt r = schedule_loop pt ((next_slot ^^ n) r)"
proof (induction n)
  case 0
  then show ?case by simp
next
  case (Suc n)
  then have "schedule_loop pt r = schedule_loop pt ((next_slot ^^ n) r)" by simp
  also have "\<dots> = schedule_loop pt ((next_slot ^^ Suc n) r)"
    using Suc.prems [of n] by (subst schedule_loop_unfold) simp
  finally show ?case .
qed

lemma next_slot_funpow: "(next_slot ^^ Suc n) r = (if r < NR_SLOTS then (r + Suc n) mod NR_SLOTS else n mod NR_SLOTS)"
proof (induction n)
  case 0
  then show ?case by (auto simp: next_slot_def mod_Suc)
next
  case (Suc n)
  have "next_slot (k mod NR_SLOTS) = Suc k mod NR_SLOTS" for k
    by (auto simp: next_slot_def mod_Suc)
  with Suc show ?case by simp
qed

lemma schedule_loop_finds:
  assumes "i < NR_SLOTS" and "p_flags (pt i) = 0"
  shows "\<exists>n. schedule_loop pt r = Some ((next_slot ^^ Suc n) r) \<and> n < NR_SLOTS
     \<and> p_flags (pt ((next_slot ^^ Suc n) r)) = 0
     \<and> (\<forall>j < n. p_flags (pt ((next_slot ^^ Suc j) r)) \<noteq> 0)"
proof -
  let ?P = "\<lambda>n. p_flags (pt ((next_slot ^^ Suc n) r)) = 0"
  have "\<exists>n < NR_SLOTS. (next_slot ^^ Suc n) r = i"
  proof (cases "r < NR_SLOTS")
    case True
    let ?n = "if r < i then i - r - 1 else i + 34 - r"
    have "(r + Suc ?n) mod NR_SLOTS = i" "?n < NR_SLOTS"
      using True assms(1) by (auto simp: mod_if)
    then show ?thesis using True next_slot_funpow [of ?n r] by auto
  next
    case False
    then show ?thesis using next_slot_funpow [of i r] assms(1) by auto
  qed
  then obtain k where k: "k < NR_SLOTS" "?P k" using assms(2) by auto
  define n where "n = (LEAST n. ?P n)"
  have n: "?P n" "n \<le> k" "\<And>j. j < n \<Longrightarrow> \<not> ?P j"
    using k(2) LeastI [of ?P k] Least_le [of ?P k] not_less_Least [of _ ?P]
    by (auto simp: n_def)
  have "schedule_loop pt r = schedule_loop pt ((next_slot ^^ n) r)"
    by (rule schedule_loop_steps) (use n(3) in auto)
  also have "\<dots> = Some ((next_slot ^^ Suc n) r)"
    using n(1) by (subst schedule_loop_unfold) simp
  finally show ?thesis using n k by (intro exI [of _ n]) auto
qed

lemma schedule_loop_Some:
  assumes "schedule_loop pt r = Some q"
  shows "q < NR_SLOTS \<and> p_flags (pt q) = 0"
  by (rule schedule_loop.raw_induct [where P = "\<lambda>pt r q. q < NR_SLOTS \<and> p_flags (pt q) = 0",
        OF _ assms])
    (auto simp: Let_def split: if_splits)

lemma schedule_loop_None:
  assumes "\<And>i. i < NR_SLOTS \<Longrightarrow> p_flags (pt i) \<noteq> 0"
  shows "schedule_loop pt r = None"
proof (cases "schedule_loop pt r")
  case (Some q)
  then show ?thesis using schedule_loop_Some assms by blast
qed

definition some_runnable :: "ptable \<Rightarrow> bool" where
  "some_runnable pt \<longleftrightarrow> (\<exists>i < NR_SLOTS. p_flags (pt i) = 0)"

lemma schedule_cases:
  "schedule s = (if some_runnable (proc_table s)
     then Inr (s\<lparr>ready_process := the (schedule_loop (proc_table s) (ready_process s))\<rparr>)
     else Inl Hang)"
proof (cases "some_runnable (proc_table s)")
  case True
  then obtain i where "i < NR_SLOTS" "p_flags (proc_table s i) = 0" by (auto simp: some_runnable_def)
  from schedule_loop_finds [where pt = "proc_table s" and r = "ready_process s", OF this] True
  show ?thesis
    by (auto simp: schedule_def)
next
  case False
  then show ?thesis
    using schedule_loop_None [of "proc_table s"] by (simp add: schedule_def some_runnable_def)
qed

section \<open>The invariant\<close>

text \<open>
  Process \<open>i\<close> is blocked sending to \<open>d\<close>; the wait graph has an edge for each such pair.
\<close>

definition sending_to :: "ptable \<Rightarrow> nat \<Rightarrow> nat \<Rightarrow> bool" where
  "sending_to pt i d \<longleftrightarrow> i < NR_SLOTS \<and> p_flags (pt i) AND SENDING \<noteq> 0 \<and> p_sendto (pt i) = int d"

definition wait_graph :: "ptable \<Rightarrow> (nat \<times> nat) set" where
  "wait_graph pt = {(i, d). d < NR_SLOTS \<and> sending_to pt i d}"

text \<open>The four states of a slot as far as message passing is concerned.\<close>

definition idle :: "Process \<Rightarrow> bool" where
  "idle p \<longleftrightarrow> p_flags p = 0 \<and> msg p = 0 \<and> p_recvfrom p = NO_TASK \<and> p_sendto p = NO_TASK
     \<and> has_int_msg p = 0"

definition in_send :: "Process \<Rightarrow> bool" where
  "in_send p \<longleftrightarrow> p_flags p = SENDING \<and> msg p \<noteq> 0 \<and> p_recvfrom p = NO_TASK
     \<and> valid_pid (p_sendto p) \<and> has_int_msg p = 0"

definition in_receive :: "Process \<Rightarrow> bool" where
  "in_receive p \<longleftrightarrow> p_flags p = RECEIVING \<and> msg p \<noteq> 0 \<and> p_recvfrom p \<noteq> NO_TASK
     \<and> p_sendto p = NO_TASK \<and> has_int_msg p = 0"

definition proc_ok :: "Process \<Rightarrow> bool" where
  "proc_ok p \<longleftrightarrow> idle p \<or> in_send p \<or> in_receive p \<or> p_flags p = FREE_SLOT"

definition queues_ok :: "ptable \<Rightarrow> (nat \<Rightarrow> nat list) \<Rightarrow> bool" where
  "queues_ok pt qs \<longleftrightarrow> (\<forall>d < NR_SLOTS.
     chain (\<lambda>i. next_sending (pt i)) (q_sending (pt d)) (qs d) None
     \<and> distinct (qs d) \<and> (\<forall>i. i \<in> set (qs d) \<longleftrightarrow> sending_to pt i d))"

text \<open>The tasks and native processes run in flat segments, as \<open>va2la\<close> asserts.\<close>

definition flat_natives :: "ptable \<Rightarrow> bool" where
  "flat_natives pt \<longleftrightarrow> (\<forall>i < NR_TASKS + NR_NATIVE_PROCS. ldt_seg_linear (pt i) LDT_DATA = 0)"

definition ipc_inv :: "ptable \<Rightarrow> (nat \<Rightarrow> nat list) \<Rightarrow> bool" where
  "ipc_inv pt qs \<longleftrightarrow> (\<forall>i < NR_SLOTS. proc_ok (pt i)) \<and> queues_ok pt qs
     \<and> acyclic (wait_graph pt) \<and> flat_natives pt"

text \<open>
  The part of the invariant that does not depend on the exact flags: the links of the queues, the
  wait graph and the segments, and that a sender has a destination and a message.
\<close>

definition links_ok :: "ptable \<Rightarrow> (nat \<Rightarrow> nat list) \<Rightarrow> bool" where
  "links_ok pt qs \<longleftrightarrow> queues_ok pt qs \<and> acyclic (wait_graph pt) \<and> flat_natives pt
     \<and> (\<forall>i < NR_SLOTS. p_flags (pt i) AND SENDING \<noteq> 0 \<longrightarrow> valid_pid (p_sendto (pt i)) \<and> msg (pt i) \<noteq> 0)"

lemmas slot_defs = idle_def in_send_def in_receive_def

lemma proc_ok_sending: "proc_ok p \<Longrightarrow> p_flags p AND SENDING \<noteq> 0 \<Longrightarrow> in_send p"
  by (auto simp: proc_ok_def slot_defs)

lemma proc_ok_receiving: "proc_ok p \<Longrightarrow> p_flags p AND RECEIVING \<noteq> 0 \<Longrightarrow> in_receive p"
  by (auto simp: proc_ok_def slot_defs)

lemma proc_ok_idle: "proc_ok p \<Longrightarrow> p_flags p = 0 \<Longrightarrow> idle p"
  by (auto simp: proc_ok_def slot_defs)

lemma ipc_inv_proc_ok: "ipc_inv pt qs \<Longrightarrow> i < NR_SLOTS \<Longrightarrow> proc_ok (pt i)"
  by (simp add: ipc_inv_def)

lemma ipc_inv_links: "ipc_inv pt qs \<Longrightarrow> links_ok pt qs"
  using proc_ok_sending by (fastforce simp: ipc_inv_def links_ok_def in_send_def)

lemma links_queue:
  assumes "links_ok pt qs" and "d < NR_SLOTS"
  shows "chain (\<lambda>i. next_sending (pt i)) (q_sending (pt d)) (qs d) None" "distinct (qs d)"
    "i \<in> set (qs d) \<longleftrightarrow> sending_to pt i d"
  using assms by (simp_all add: links_ok_def queues_ok_def)

lemma wait_graph_finite: "finite (wait_graph pt)"
  by (rule finite_subset [of _ "{..<NR_SLOTS} \<times> {..<NR_SLOTS}"])
    (auto simp: wait_graph_def sending_to_def)

lemma wait_graph_functional: "(i, d) \<in> wait_graph pt \<Longrightarrow> (i, e) \<in> wait_graph pt \<Longrightarrow> d = e"
  by (simp add: wait_graph_def sending_to_def)

lemma va2la_flat:
  "(i < NR_TASKS + NR_NATIVE_PROCS \<Longrightarrow> ldt_seg_linear (pt i) LDT_DATA = 0) \<Longrightarrow>
   va2la pt i va = Inr (ldt_seg_linear (pt i) LDT_DATA + va)"
  by (auto simp: va2la_def Let_def kassert_def)

lemma va2la_ok:
  "flat_natives pt \<Longrightarrow> va2la pt i va = Inr (ldt_seg_linear (pt i) LDT_DATA + va)"
  by (rule va2la_flat) (simp add: flat_natives_def)

section \<open>Deadlock detection\<close>

lemma wait_graph_wf: "acyclic (wait_graph pt) \<Longrightarrow> wf ((wait_graph pt)\<inverse>)"
  by (rule finite_acyclic_wf_converse [OF wait_graph_finite])

lemma wait_step:
  assumes "links_ok pt qs" and "p < NR_SLOTS" and "p_flags (pt p) AND SENDING \<noteq> 0"
  shows "msg (pt p) \<noteq> 0" "valid_pid (p_sendto (pt p))" "(p, nat (p_sendto (pt p))) \<in> wait_graph pt"
    "int (nat (p_sendto (pt p))) = p_sendto (pt p)" "nat (p_sendto (pt p)) < NR_SLOTS"
  using assms by (auto simp: links_ok_def wait_graph_def sending_to_def valid_pid_def)

lemma wait_trancl_step:
  assumes "(p, d) \<in> wait_graph pt"
  shows "(p, src) \<in> (wait_graph pt)\<^sup>+ \<longleftrightarrow> d = src \<or> (d, src) \<in> (wait_graph pt)\<^sup>+"
proof
  assume "(p, src) \<in> (wait_graph pt)\<^sup>+"
  then show "d = src \<or> (d, src) \<in> (wait_graph pt)\<^sup>+"
    using assms wait_graph_functional
    by (induction rule: converse_trancl_induct) blast+
next
  assume "d = src \<or> (d, src) \<in> (wait_graph pt)\<^sup>+"
  then show "(p, src) \<in> (wait_graph pt)\<^sup>+" using assms by (auto intro: trancl_into_trancl2)
qed

lemma not_sending_no_wait:
  "p_flags (pt p) AND SENDING = 0 \<Longrightarrow> (p, src) \<notin> (wait_graph pt)\<^sup>+"
  by (auto simp: wait_graph_def sending_to_def dest: tranclD)

lemma links_acyclic: "links_ok pt qs \<Longrightarrow> acyclic (wait_graph pt)"
  by (simp add: links_ok_def)

lemma deadlock_walk_correct:
  assumes links: "links_ok pt qs"
  shows "p < NR_SLOTS \<Longrightarrow> deadlock_walk pt (int src) p = Some (Inr ((p, src) \<in> (wait_graph pt)\<^sup>+))"
proof (induction p rule: wf_induct_rule [OF wait_graph_wf [OF links_acyclic [OF links]]])
  case (1 p)
  show ?case
  proof (cases "p_flags (pt p) AND SENDING = 0")
    case True
    then show ?thesis by (subst deadlock_walk.simps) (simp add: not_sending_no_wait)
  next
    case False
    let ?d = "nat (p_sendto (pt p))"
    note st = wait_step [OF links 1(2) False]
    have "deadlock_walk pt (int src) ?d = Some (Inr ((?d, src) \<in> (wait_graph pt)\<^sup>+))"
      using st(3,5) by (intro 1(1)) auto
    moreover have "p_sendto (pt p) = int src \<longleftrightarrow> ?d = src" using st(4) by auto
    ultimately show ?thesis
      using False st(2) wait_trancl_step [OF st(3), of src]
      by (subst deadlock_walk.simps) auto
  qed
qed

lemma deadlock_report_correct:
  assumes links: "links_ok pt qs"
  shows "p < NR_SLOTS \<Longrightarrow> (p, src) \<in> (wait_graph pt)\<^sup>+ \<Longrightarrow>
    deadlock_report pt (int src) p = Some (Inr ())"
proof (induction p rule: wf_induct_rule [OF wait_graph_wf [OF links_acyclic [OF links]]])
  case (1 p)
  let ?d = "nat (p_sendto (pt p))"
  have snd: "p_flags (pt p) AND SENDING \<noteq> 0" using 1(3) not_sending_no_wait by blast
  note st = wait_step [OF links 1(2) snd]
  note st(1)
  moreover have "p_sendto (pt p) = int src \<longleftrightarrow> ?d = src" using st(4) by auto
  moreover have "deadlock_report pt (int src) ?d = Some (Inr ())" if "?d \<noteq> src"
    using that st(3,5) 1(3) wait_trancl_step [OF st(3), of src] by (intro 1(1)) auto
  ultimately show ?case using st(2) by (subst deadlock_report.simps) auto
qed

lemma deadlock_links:
  assumes "links_ok pt qs" and "d < NR_SLOTS"
  shows "deadlock pt (int src) (int d) = Inr ((d, src) \<in> (wait_graph pt)\<^sup>+)"
  using assms(2) deadlock_walk_correct [OF assms, of src] deadlock_report_correct [OF assms, of src]
  by (auto simp: deadlock_def valid_pid_def)

lemmas deadlock_correct = deadlock_links [OF ipc_inv_links]

section \<open>Blocking in a send\<close>

lemma queue_last_chain:
  "chain (\<lambda>i. next_sending (pt i)) (Some p) xs None \<Longrightarrow> queue_last pt p = Some (last xs)"
proof (induction xs arbitrary: p)
  case Nil
  then show ?case by simp
next
  case (Cons x xs)
  then show ?case
    by (cases xs) (auto simp: queue_last.simps [of pt x])
qed

text \<open>The process table after a blocking send.\<close>

definition blocked_sender :: "nat \<Rightarrow> u32 \<Rightarrow> Process \<Rightarrow> Process" where
  "blocked_sender d m p = p\<lparr>p_flags := SENDING, p_sendto := int d, msg := m, next_sending := None\<rparr>"

definition blocked_table :: "ptable \<Rightarrow> nat \<Rightarrow> nat \<Rightarrow> u32 \<Rightarrow> nat list \<Rightarrow> ptable" where
  "blocked_table pt sender d m q =
     (let pt' = pt(sender := blocked_sender d m (pt sender))
      in if q = [] then pt'(d := (pt' d)\<lparr>q_sending := Some sender\<rparr>)
         else pt'(last q := (pt' (last q))\<lparr>next_sending := Some sender\<rparr>))"

lemma ipc_inv_queue:
  assumes "ipc_inv pt qs" and "d < NR_SLOTS"
  shows "chain (\<lambda>i. next_sending (pt i)) (q_sending (pt d)) (qs d) None" "distinct (qs d)"
    "i \<in> set (qs d) \<longleftrightarrow> sending_to pt i d"
  using assms by (simp_all add: ipc_inv_def queues_ok_def)

lemma idle_not_queued:
  "ipc_inv pt qs \<Longrightarrow> d < NR_SLOTS \<Longrightarrow> idle (pt i) \<Longrightarrow> i \<notin> set (qs d)"
  by (simp add: ipc_inv_queue sending_to_def idle_def)

lemma links_not_queued:
  "links_ok pt qs \<Longrightarrow> d < NR_SLOTS \<Longrightarrow> idle (pt i) \<Longrightarrow> i \<notin> set (qs d)"
  by (simp add: links_queue sending_to_def idle_def)

lemma enqueue_sender_eq:
  assumes inv: "links_ok pt qs" and d: "d < NR_SLOTS" and idl: "idle (pt sender)" and ne: "sender \<noteq> d"
    and s: "proc_table s = pt(sender := (pt sender)\<lparr>p_flags := SENDING, p_sendto := int d, msg := m\<rparr>)"
  shows "enqueue_sender sender d s = Inr (s\<lparr>proc_table := blocked_table pt sender d m (qs d)\<rparr>)"
proof -
  note q = links_queue [OF inv d]
  have nq: "sender \<notin> set (qs d)" by (rule links_not_queued [OF inv d idl])
  have ch: "chain (\<lambda>i. next_sending (proc_table s i)) (q_sending (pt d)) (qs d) None"
    using q(1) nq by (subst chain_cong [where nx' = "\<lambda>i. next_sending (pt i)"]) (auto simp: s)
  have qd: "q_sending (proc_table s d) = q_sending (pt d)" using ne by (simp add: s)
  show ?thesis
  proof (cases "q_sending (pt d)")
    case None
    then have "qs d = []" using q(1) by (simp add: chain_None_iff)
    then show ?thesis using None qd ne
      by (simp add: enqueue_sender_def upd_proc_def blocked_table_def blocked_sender_def s fun_upd_twist)
  next
    case (Some p)
    then have "queue_last (proc_table s) p = Some (last (qs d))"
      using ch queue_last_chain by simp
    moreover have "qs d \<noteq> []" using q(1) Some by auto
    moreover from this have "last (qs d) \<noteq> sender" by (rule last_neq [OF nq])
    ultimately show ?thesis using Some qd ne
      by (simp add: enqueue_sender_def upd_proc_def blocked_table_def blocked_sender_def s fun_upd_twist)
  qed
qed

lemma blocked_table_fields:
  fixes pt :: ptable and m :: u32
  assumes "sender \<noteq> d" and "sender \<notin> set q"
  defines "bt \<equiv> blocked_table pt sender d m q"
  shows "next_sending (bt i) = (if i = sender then None
        else if q \<noteq> [] \<and> i = last q then Some sender else next_sending (pt i))"
    "q_sending (bt i) = (if i = d \<and> q = [] then Some sender else q_sending (pt i))"
    "p_flags (bt i) = (if i = sender then SENDING else p_flags (pt i))"
    "p_sendto (bt i) = (if i = sender then int d else p_sendto (pt i))"
    "msg (bt i) = (if i = sender then m else msg (pt i))"
    "p_recvfrom (bt i) = p_recvfrom (pt i)"
    "has_int_msg (bt i) = has_int_msg (pt i)"
    "ldt (bt i) = ldt (pt i)"
  using assms(1) last_neq [OF assms(2)]
  by (auto simp: bt_def blocked_table_def blocked_sender_def Let_def)

lemma send_block_eq:
  assumes inv: "links_ok (proc_table s) qs" and d: "d < NR_SLOTS"
    and idl: "idle (proc_table s sender)" and ne: "sender \<noteq> d" and m: "m \<noteq> 0"
  defines "bt \<equiv> blocked_table (proc_table s) sender d m (qs d)"
  shows "send_block sender d m s =
    (if some_runnable bt
     then Inr (s\<lparr>proc_table := bt, ready_process := the (schedule_loop bt (ready_process s))\<rparr>)
     else Inl Hang)"
proof -
  have fl: "p_flags (proc_table s sender) = 0" using idl by (simp add: idle_def)
  let ?s2 = "upd_proc sender (\<lambda>p. p\<lparr>p_sendto := int d, msg := m\<rparr>)
      (upd_proc sender (\<lambda>p. p\<lparr>p_flags := p_flags p OR SENDING\<rparr>) s)"
  have enq: "enqueue_sender sender d ?s2 = Inr (?s2\<lparr>proc_table := bt\<rparr>)"
    unfolding bt_def by (rule enqueue_sender_eq [OF inv d idl ne]) (simp add: upd_proc_def fl)
  have s2: "?s2\<lparr>proc_table := bt\<rparr> = s\<lparr>proc_table := bt\<rparr>" by (simp add: upd_proc_def)
  note f = blocked_table_fields
    [where pt = "proc_table s" and m = m, OF ne links_not_queued [OF inv d idl], folded bt_def]
  show ?thesis
    using idl m enq
    by (simp add: send_block_def Let_def s2 block_def schedule_cases f)
      (simp add: upd_proc_def fl idle_def)
qed

lemma blocked_sending_to:
  assumes "sender \<noteq> d" and "sender \<notin> set q" and "sender < NR_SLOTS" and "p_flags (pt sender) = 0"
  shows "sending_to (blocked_table pt sender d m q) i e \<longleftrightarrow> sending_to pt i e \<or> i = sender \<and> e = d"
  using assms by (auto simp: sending_to_def blocked_table_fields)

lemma blocked_wait_graph:
  assumes "sender \<noteq> d" and "sender \<notin> set q" and "sender < NR_SLOTS" and "d < NR_SLOTS"
    and "p_flags (pt sender) = 0"
  shows "wait_graph (blocked_table pt sender d m q) = insert (sender, d) (wait_graph pt)"
  using assms blocked_sending_to [of sender d q pt m] by (auto simp: wait_graph_def)

lemma ipc_inv_blocked:
  assumes inv: "ipc_inv pt qs" and d: "d < NR_SLOTS" and sender: "sender < NR_SLOTS"
    and idl: "idle (pt sender)" and ne: "sender \<noteq> d" and m: "m \<noteq> 0"
    and nodl: "(d, sender) \<notin> (wait_graph pt)\<^sup>+"
  shows "ipc_inv (blocked_table pt sender d m (qs d)) (qs(d := qs d @ [sender]))"
proof -
  let ?bt = "blocked_table pt sender d m (qs d)"
  let ?nx = "\<lambda>i. next_sending (pt i)" and ?nx' = "\<lambda>i. next_sending (?bt i)"
  have fl: "p_flags (pt sender) = 0" using idl by (simp add: idle_def)
  have nq: "sender \<notin> set (qs e)" if "e < NR_SLOTS" for e by (rule idle_not_queued [OF inv that idl])
  note f = blocked_table_fields [OF ne nq [OF d]]
  note st = blocked_sending_to [where pt = pt, OF ne nq [OF d] sender fl]
  have ok: "proc_ok (?bt i)" if "i < NR_SLOTS" for i
    using ipc_inv_proc_ok [OF inv that] idl d m
    by (cases "i = sender") (auto simp: proc_ok_def slot_defs f valid_pid_def)
  have last_q: "last (qs d) \<notin> set (qs e)" if "qs d \<noteq> []" "e \<noteq> d" "e < NR_SLOTS" for e
    using ipc_inv_queue(3) [OF inv] that d last_in_set [of "qs d"] by (auto simp: sending_to_def)
  have other: "chain ?nx' (q_sending (?bt e)) (qs e) None" if e: "e < NR_SLOTS" "e \<noteq> d" for e
  proof -
    have "chain ?nx' (q_sending (pt e)) (qs e) None \<longleftrightarrow> chain ?nx (q_sending (pt e)) (qs e) None"
      by (rule chain_cong) (use nq e last_q in \<open>auto simp: f\<close>)
    then show ?thesis using ipc_inv_queue(1) [OF inv e(1)] e by (simp add: f)
  qed
  have own: "chain ?nx' (q_sending (?bt d)) (qs d @ [sender]) None"
  proof (cases "qs d = []")
    case True
    show ?thesis unfolding True by (simp add: f [unfolded True])
  next
    case False
    have "?nx' = ?nx(last (qs d) := Some sender, sender := None)"
      using False last_neq [OF nq [OF d]] by (auto simp: f)
    then show ?thesis
      using chain_snoc [OF ipc_inv_queue(1) [OF inv d] False ipc_inv_queue(2) [OF inv d] nq [OF d]] False by (simp add: f)
  qed
  have "queues_ok ?bt (qs(d := qs d @ [sender]))"
    using own other nq ipc_inv_queue(2,3) [OF inv] by (auto simp: queues_ok_def st)
  moreover have "acyclic (wait_graph ?bt)"
    using inv nodl ne
    by (auto simp: blocked_wait_graph [where pt = pt, OF ne nq [OF d] sender d fl] ipc_inv_def
        rtrancl_eq_or_trancl)
  moreover have "flat_natives ?bt"
    using inv by (simp add: ipc_inv_def flat_natives_def ldt_seg_linear_def f)
  ultimately show ?thesis using ok by (simp add: ipc_inv_def)
qed

section \<open>Delivering to a waiting receiver\<close>

text \<open>A process whose send or receive has been completed.\<close>

definition woken :: "Process \<Rightarrow> Process" where
  "woken p = p\<lparr>p_flags := 0, msg := 0, p_recvfrom := NO_TASK, p_sendto := NO_TASK\<rparr>"

lemma woken_fields [simp]:
  "p_flags (woken p) = 0" "msg (woken p) = 0" "p_recvfrom (woken p) = NO_TASK"
  "p_sendto (woken p) = NO_TASK" "has_int_msg (woken p) = has_int_msg p" "ldt (woken p) = ldt p"
  "q_sending (woken p) = q_sending p" "next_sending (woken p) = next_sending p"
  by (simp_all add: woken_def)

lemma woken_idle: "has_int_msg p = 0 \<Longrightarrow> idle (woken p)"
  by (simp add: woken_def idle_def)

lemma deliver_eq:
  assumes flat: "flat_natives (proc_table s)" and rcv: "in_receive (proc_table s d)"
    and idl: "idle (proc_table s sender)" and m: "m \<noteq> 0"
  shows "deliver sender d m s = Inr (s\<lparr>
     mem := p_asm_memcpy (mem s) (ldt_seg_linear (proc_table s d) LDT_DATA + msg (proc_table s d))
       (ldt_seg_linear (proc_table s sender) LDT_DATA + m) MSG_SIZE,
     proc_table := (proc_table s)(d := woken (proc_table s d))\<rparr>)"
proof -
  have ne: "sender \<noteq> d" using rcv idl by (auto simp: slot_defs)
  have "(proc_table s d)\<lparr>msg := 0, p_flags := 0, p_recvfrom := NO_TASK\<rparr> = woken (proc_table s d)"
    using rcv by (simp add: woken_def in_receive_def)
  then show ?thesis
    using rcv idl m ne
    by (simp add: deliver_def va2la_ok [OF flat] upd_proc_def unblock_def in_receive_def idle_def)
qed

lemma ipc_inv_woken_receiver:
  assumes inv: "ipc_inv pt qs" and rcv: "in_receive (pt d)"
  shows "ipc_inv (pt(d := woken (pt d))) qs"
proof -
  let ?pt = "pt(d := woken (pt d))"
  have st: "sending_to ?pt i e \<longleftrightarrow> sending_to pt i e" for i e
    using rcv by (auto simp: sending_to_def woken_def in_receive_def)
  have "(\<lambda>i. next_sending (?pt i)) = (\<lambda>i. next_sending (pt i))"
    "q_sending (?pt e) = q_sending (pt e)" "ldt (?pt e) = ldt (pt e)" for e
    by (auto simp: woken_def)
  then show ?thesis
    using inv woken_idle [of "pt d"] rcv
    by (simp add: ipc_inv_def queues_ok_def wait_graph_def flat_natives_def ldt_seg_linear_def st)
      (auto simp: proc_ok_def in_receive_def)
qed

section \<open>Taking a message from the queue\<close>

lemma find_prev_chain:
  "chain (\<lambda>i. next_sending (pt i)) p (ys @ f # zs) None \<Longrightarrow> f \<notin> set ys \<Longrightarrow>
   find_prev pt f prev p = Some (if ys = [] then prev else Some (last ys))"
proof (induction ys arbitrary: p prev)
  case Nil
  then show ?case by (subst find_prev.simps) simp
next
  case (Cons y ys)
  then show ?case by (subst find_prev.simps) auto
qed

text \<open>The process table after \<open>f\<close>, with \<open>ys\<close> before it in the queue of \<open>w\<close>, was taken out.\<close>

definition taken_sender :: "Process \<Rightarrow> Process" where
  "taken_sender p = p\<lparr>next_sending := None, msg := 0, p_sendto := NO_TASK, p_flags := 0\<rparr>"

definition taken_table :: "ptable \<Rightarrow> nat \<Rightarrow> nat \<Rightarrow> nat list \<Rightarrow> ptable" where
  "taken_table pt w f ys =
     (let pt' = pt(f := taken_sender (pt f))
      in if ys = [] then pt'(w := (pt' w)\<lparr>q_sending := next_sending (pt f)\<rparr>)
         else pt'(last ys := (pt' (last ys))\<lparr>next_sending := next_sending (pt f)\<rparr>))"

lemma taken_table_fields:
  fixes pt :: ptable
  assumes "w \<noteq> f" and "f \<notin> set ys"
  defines "tt \<equiv> taken_table pt w f ys"
  shows "next_sending (tt i) = (if i = f then None
        else if ys \<noteq> [] \<and> i = last ys then next_sending (pt f) else next_sending (pt i))"
    "q_sending (tt i) = (if i = w \<and> ys = [] then next_sending (pt f) else q_sending (pt i))"
    "p_flags (tt i) = (if i = f then 0 else p_flags (pt i))"
    "p_sendto (tt i) = (if i = f then NO_TASK else p_sendto (pt i))"
    "msg (tt i) = (if i = f then 0 else msg (pt i))"
    "p_recvfrom (tt i) = p_recvfrom (pt i)"
    "has_int_msg (tt i) = has_int_msg (pt i)"
    "ldt (tt i) = ldt (pt i)"
  using assms(1) last_neq [OF assms(2)]
  by (auto simp: tt_def taken_table_def taken_sender_def Let_def)

lemma chain_head: "chain nx p (ys @ f # zs) q \<Longrightarrow> p = Some (hd (ys @ [f]))"
  by (cases ys) auto

lemma take_message_eq:
  assumes inv: "links_ok (proc_table s) qs" and w: "w < NR_SLOTS"
    and q: "qs w = ys @ f # zs" and idl: "idle (proc_table s w)" and snd: "in_send (proc_table s f)" and m: "m \<noteq> 0"
    and prev: "prev = (if ys = [] then None else Some (last ys))"
  shows "take_message w f prev m s = Inr (s\<lparr>
     mem := p_asm_memcpy (mem s) (ldt_seg_linear (proc_table s w) LDT_DATA + m)
       (ldt_seg_linear (proc_table s f) LDT_DATA + msg (proc_table s f)) MSG_SIZE,
     proc_table := taken_table (proc_table s) w f ys\<rparr>)"
proof -
  let ?pt = "proc_table s"
  have wf: "w \<noteq> f" using snd idl by (auto simp: slot_defs)
  have fy: "f \<notin> set ys" using links_queue(2) [OF inv w] q by auto
  have hd: "q_sending (?pt w) = Some f \<longleftrightarrow> ys = []"
    using chain_head [of _ _ ys f zs] links_queue(1) [OF inv w] q fy by (cases ys) auto
  have flat: "flat_natives ?pt" using inv by (simp add: links_ok_def)
  have flats: "ldt_seg_linear (?pt i) LDT_DATA = 0" if "i < NR_TASKS + NR_NATIVE_PROCS" for i
    using flat that by (simp add: flat_natives_def)
  show ?thesis
  proof (cases "ys = []")
    case True
    then show ?thesis
      using snd wf hd m prev flats
      by (simp add: take_message_def unlink_sender_def upd_proc_def unblock_def va2la_flat
          ldt_seg_linear_def taken_table_def taken_sender_def in_send_def fun_upd_twist)
  next
    case False
    then show ?thesis
      using snd wf hd m prev flats last_neq [OF fy]
      by (simp add: take_message_def unlink_sender_def upd_proc_def unblock_def va2la_flat
          ldt_seg_linear_def taken_table_def taken_sender_def in_send_def fun_upd_twist)
  qed
qed

lemma queued_in_send:
  assumes "ipc_inv pt qs" and "w < NR_SLOTS" and "f \<in> set (qs w)"
  shows "in_send (pt f)" "p_sendto (pt f) = int w" "f < NR_SLOTS"
  using assms ipc_inv_queue(3) [of pt qs w f] ipc_inv_proc_ok [of pt qs f] proc_ok_sending [of "pt f"]
  by (auto simp: sending_to_def)

lemma ipc_inv_taken:
  assumes inv: "ipc_inv pt qs" and w: "w < NR_SLOTS" and q: "qs w = ys @ f # zs"
    and idl: "idle (pt w)"
  shows "ipc_inv (taken_table pt w f ys) (qs(w := ys @ zs))"
proof -
  let ?tt = "taken_table pt w f ys"
  let ?nx = "\<lambda>i. next_sending (pt i)" and ?nx' = "\<lambda>i. next_sending (?tt i)"
  have fq: "f \<in> set (qs w)" by (simp add: q)
  note snd = queued_in_send [OF inv w fq]
  have wf: "w \<noteq> f" using snd(1) idl by (auto simp: slot_defs)
  have dis: "distinct (ys @ f # zs)" using ipc_inv_queue(2) [OF inv w] q by simp
  have fy: "f \<notin> set ys" using dis by simp
  note f = taken_table_fields [where pt = pt, OF wf fy]
  have st: "sending_to ?tt i e \<longleftrightarrow> sending_to pt i e \<and> i \<noteq> f" for i e
    by (auto simp: sending_to_def f)
  have ok: "proc_ok (?tt i)" if "i < NR_SLOTS" for i
    using ipc_inv_proc_ok [OF inv that] snd(1)
    by (cases "i = f") (auto simp: proc_ok_def slot_defs f)
  have here: "i \<notin> set (qs e)" if "i \<in> set (qs w)" "e \<noteq> w" "e < NR_SLOTS" for i e
    using ipc_inv_queue(3) [OF inv] that w by (auto simp: sending_to_def)
  have other: "chain ?nx' (q_sending (?tt e)) (qs e) None" if e: "e < NR_SLOTS" "e \<noteq> w" for e
  proof -
    have "ys \<noteq> [] \<Longrightarrow> last ys \<notin> set (qs e)" using here e q by auto
    then have "chain ?nx' (q_sending (pt e)) (qs e) None \<longleftrightarrow> chain ?nx (q_sending (pt e)) (qs e) None"
      by (intro chain_cong) (use here [OF fq] e in \<open>auto simp: f\<close>)
    then show ?thesis using ipc_inv_queue(1) [OF inv e(1)] e by (simp add: f)
  qed
  have ch: "chain ?nx (q_sending (pt w)) (ys @ f # zs) None" using ipc_inv_queue(1) [OF inv w] q by simp
  have own: "chain ?nx' (q_sending (?tt w)) (ys @ zs) None"
  proof (cases ys rule: rev_cases)
    case Nil
    have "chain ?nx' (?nx f) zs None \<longleftrightarrow> chain ?nx (?nx f) zs None"
      unfolding Nil by (rule chain_cong) (use Nil dis in \<open>auto simp: f [unfolded Nil]\<close>)
    then show ?thesis using ch Nil by (simp add: f(2) [unfolded Nil])
  next
    case (snoc us u)
    have "?nx' = ?nx(u := ?nx f, f := None)" using fy unfolding snoc by (auto simp: f(1) [unfolded snoc])
    then show ?thesis using chain_remove [of ?nx _ us u f zs] ch dis snoc
      by (simp add: f(2) [unfolded snoc])
  qed
  have "sending_to pt i w \<longleftrightarrow> i = f \<or> i \<in> set ys \<or> i \<in> set zs" for i
    using ipc_inv_queue(3) [OF inv w, of i] q by auto
  then have "queues_ok ?tt (qs(w := ys @ zs))"
    using own other ipc_inv_queue(2,3) [OF inv] here [OF fq] dis
    by (auto simp: queues_ok_def st)
  moreover have "wait_graph ?tt \<subseteq> wait_graph pt" by (auto simp: wait_graph_def st)
  then have "acyclic (wait_graph ?tt)" using inv acyclic_subset by (auto simp: ipc_inv_def)
  moreover have "flat_natives ?tt"
    using inv by (simp add: ipc_inv_def flat_natives_def ldt_seg_linear_def f)
  ultimately show ?thesis using ok by (simp add: ipc_inv_def)
qed

section \<open>Blocking in a receive\<close>

definition receiving_table :: "ptable \<Rightarrow> nat \<Rightarrow> int \<Rightarrow> u32 \<Rightarrow> ptable" where
  "receiving_table pt w src m =
     pt(w := (pt w)\<lparr>p_flags := RECEIVING, msg := m, p_recvfrom := src\<rparr>)"

lemma receive_block_eq:
  assumes idl: "idle (proc_table s w)" and m: "m \<noteq> 0" and src: "src \<noteq> NO_TASK"
  defines "rt \<equiv> receiving_table (proc_table s) w src m"
  shows "receive_block w src m s =
    (if some_runnable rt
     then Inr (s\<lparr>proc_table := rt, ready_process := the (schedule_loop rt (ready_process s))\<rparr>)
     else Inl Hang)"
  using assms
  by (simp add: receive_block_def block_def schedule_cases upd_proc_def receiving_table_def idle_def)

lemma ipc_inv_receiving:
  assumes inv: "ipc_inv pt qs" and idl: "idle (pt w)" and m: "m \<noteq> 0" and src: "src \<noteq> NO_TASK"
  shows "ipc_inv (receiving_table pt w src m) qs"
proof -
  let ?rt = "receiving_table pt w src m"
  have st: "sending_to ?rt i e \<longleftrightarrow> sending_to pt i e" for i e
    using idl by (auto simp: sending_to_def receiving_table_def idle_def)
  have "(\<lambda>i. next_sending (?rt i)) = (\<lambda>i. next_sending (pt i))"
    "q_sending (?rt e) = q_sending (pt e)" "ldt (?rt e) = ldt (pt e)" for e
    by (auto simp: receiving_table_def)
  moreover have "in_receive (?rt w)"
    using idl m src by (simp add: receiving_table_def slot_defs)
  ultimately show ?thesis
    using inv
    by (simp add: ipc_inv_def queues_ok_def wait_graph_def flat_natives_def ldt_seg_linear_def st)
      (auto simp: proc_ok_def receiving_table_def)
qed

section \<open>Specification of the two calls\<close>

text \<open>The sender a receive takes: the first in the queue, or the requested one if it is there.\<close>

definition pick_sender :: "int \<Rightarrow> nat list \<Rightarrow> nat option" where
  "pick_sender src q =
     (if src = ANY then (case q of [] \<Rightarrow> None | f # _ \<Rightarrow> Some f)
      else if nat src \<in> set q then Some (nat src) else None)"

text \<open>The state after a call that blocks leaves the process table \<open>pt\<close>.\<close>

definition blocked :: "ptable \<Rightarrow> 'a kernel_scheme \<Rightarrow> 'a kernel_scheme result" where
  "blocked pt s =
     (if some_runnable pt
      then Inr (s\<lparr>proc_table := pt, ready_process := the (schedule_loop pt (ready_process s))\<rparr>)
      else Inl Hang)"

definition data_addr :: "ptable \<Rightarrow> nat \<Rightarrow> u32 \<Rightarrow> u32" where
  "data_addr pt i va = ldt_seg_linear (pt i) LDT_DATA + va"

definition accepts :: "Process \<Rightarrow> nat \<Rightarrow> bool" where
  "accepts p sender \<longleftrightarrow> p_flags p = RECEIVING \<and> (p_recvfrom p = int sender \<or> p_recvfrom p = ANY)"

lemma msg_send_spec:
  assumes inv: "ipc_inv (proc_table s) qs" and d: "d < NR_SLOTS"
    and idl: "idle (proc_table s sender)" and ne: "sender \<noteq> d" and m: "m \<noteq> 0"
  shows "msg_send sender (int d) m s =
    (let pt = proc_table s
     in if (d, sender) \<in> (wait_graph pt)\<^sup>+ then Inl Panicked
        else if accepts (pt d) sender
        then Inr (s\<lparr>
          mem := p_asm_memcpy (mem s) (data_addr pt d (msg (pt d))) (data_addr pt sender m) MSG_SIZE,
          proc_table := pt(d := woken (pt d))\<rparr>)
        else blocked (blocked_table pt sender d m (qs d)) s)"
proof -
  have ok: "proc_ok (proc_table s d)" by (rule ipc_inv_proc_ok [OF inv d])
  have flat: "flat_natives (proc_table s)" using inv by (simp add: ipc_inv_def)
  have rec: "p_flags (proc_table s d) AND RECEIVING \<noteq> 0 \<longleftrightarrow> p_flags (proc_table s d) = RECEIVING"
    using ok by (auto simp: proc_ok_def slot_defs)
  have acc: "p_flags (proc_table s d) AND RECEIVING \<noteq> 0 \<and> (p_recvfrom (proc_table s d) = int sender
      \<or> p_recvfrom (proc_table s d) = ANY) \<longleftrightarrow> accepts (proc_table s d) sender"
    by (simp add: accepts_def rec)
  have "in_receive (proc_table s d)" if "accepts (proc_table s d) sender"
    using ok that by (auto simp: proc_ok_def slot_defs accepts_def)
  note del = deliver_eq [OF flat this idl m]
  have "msg_send sender (int d) m s =
      (if (d, sender) \<in> (wait_graph (proc_table s))\<^sup>+ then Inl Panicked
       else if accepts (proc_table s d) sender then deliver sender d m s else send_block sender d m s)"
    using ne by (simp add: msg_send_def deadlock_correct [OF inv d] acc Let_def)
  then show ?thesis
    using send_block_eq [OF ipc_inv_links [OF inv] d idl ne m] del
    by (simp add: Let_def data_addr_def blocked_def)
qed

lemma idle_ready_to_take:
  assumes inv: "ipc_inv pt qs" and w: "w < NR_SLOTS" and idl: "idle (pt w)" and f: "f \<in> set (qs w)"
  shows "ready_to_take pt w f"
proof -
  have "q_sending (pt w) \<noteq> None"
    using ipc_inv_queue(1) [OF inv w] f by (cases "qs w") auto
  then show ?thesis
    using idl queued_in_send [OF inv w f] by (simp add: ready_to_take_def slot_defs)
qed

lemma not_queued_not_sending:
  assumes "ipc_inv pt qs" and "w < NR_SLOTS" and "f < NR_SLOTS" and "f \<notin> set (qs w)"
  shows "\<not> (p_flags (pt f) AND SENDING \<noteq> 0 \<and> p_sendto (pt f) = int w)"
  using assms ipc_inv_queue(3) [of pt qs w f] by (simp add: sending_to_def)

lemma msg_receive_spec:
  assumes inv: "ipc_inv (proc_table s) qs" and w: "w < NR_SLOTS" and idl: "idle (proc_table s w)"
    and m: "m \<noteq> 0" and src: "src = ANY \<or> valid_pid src \<and> src \<noteq> int w"
  shows "msg_receive w src m s =
    (let pt = proc_table s
     in case pick_sender src (qs w) of
          Some f \<Rightarrow> Inr (s\<lparr>
            mem := p_asm_memcpy (mem s) (data_addr pt w m) (data_addr pt f (msg (pt f))) MSG_SIZE,
            proc_table := taken_table pt w f (takeWhile (\<lambda>x. x \<noteq> f) (qs w))\<rparr>)
        | None \<Rightarrow> blocked (receiving_table pt w src m) s)"
proof -
  let ?pt = "proc_table s"
  have int: "has_int_msg (?pt w) = 0" using idl by (simp add: idle_def)
  have nw: "int w \<noteq> src" using src w by auto
  have ch: "chain (\<lambda>i. next_sending (?pt i)) (q_sending (?pt w)) (qs w) None"
    by (rule ipc_inv_queue(1) [OF inv w])
  have nt: "src \<noteq> NO_TASK" using src by (auto simp: valid_pid_def)
  note blk = receive_block_eq [OF idl m nt]
  have taken: "take_message w f (if ys = [] then None else Some (last ys)) m s = Inr (s\<lparr>
      mem := p_asm_memcpy (mem s) (data_addr ?pt w m) (data_addr ?pt f (msg (?pt f))) MSG_SIZE,
      proc_table := taken_table ?pt w f (takeWhile (\<lambda>x. x \<noteq> f) (qs w))\<rparr>)"
    if q: "qs w = ys @ f # zs" for f ys zs
  proof -
    have "f \<notin> set ys" using ipc_inv_queue(2) [OF inv w] q by auto
    then have "takeWhile (\<lambda>x. x \<noteq> f) (qs w) = ys" by (simp add: q takeWhile_neq)
    then show ?thesis
      using take_message_eq [OF ipc_inv_links [OF inv] w q idl queued_in_send(1) [OF inv w] m refl] q
      by (simp add: data_addr_def)
  qed
  show ?thesis
  proof (cases "src = ANY")
    case True
    show ?thesis
    proof (cases "qs w")
      case Nil
      then show ?thesis using ch int nw blk [unfolded True] unfolding True
        by (simp add: msg_receive_def pick_sender_def blocked_def Let_def)
    next
      case (Cons f zs)
      then show ?thesis
        using True ch int nw taken [of "[]" f zs] idle_ready_to_take [OF inv w idl, of f]
        by (simp add: msg_receive_def pick_sender_def)
    qed
  next
    case False
    then have v: "valid_pid src" using src by simp
    then have f: "nat src < NR_SLOTS" by (auto simp: valid_pid_def)
    show ?thesis
    proof (cases "nat src \<in> set (qs w)")
      case True
      then obtain ys zs where q: "qs w = ys @ nat src # zs" by (auto simp: in_set_conv_decomp)
      have fy: "nat src \<notin> set ys" using ipc_inv_queue(2) [OF inv w] q by auto
      show ?thesis
        using True False v int nw taken [OF q] idle_ready_to_take [OF inv w idl True]
          find_prev_chain [of ?pt _ ys "nat src" zs None] ch q fy
        by (simp add: msg_receive_def pick_sender_def ready_to_take_def Let_def)
    next
      case notin: False
      then show ?thesis
        using False v int nw blk not_queued_not_sending [OF inv w f notin]
        by (auto simp: msg_receive_def pick_sender_def blocked_def Let_def)
    qed
  qed
qed

end
