(* ===== verification/Boot_Table.thy ===== *)
theory Boot_Table
  imports Ipc
begin

text \<open>
  The process table that \<open>init_proc\<close> builds: what each slot holds, that message passing
  starts in a state that satisfies its invariant, and where the stacks of the native
  processes lie.
\<close>

unbundle bit_operations_syntax

lemma init_proc_loop_before:
  "j < i \<Longrightarrow> init_proc_loop gdt ie n i sel stk pt j = pt j"
  by (induction n arbitrary: i sel stk pt) (simp_all add: Let_def)

lemma init_proc_loop_native:
  "i \<le> j \<Longrightarrow> j < i + n \<Longrightarrow> j < NR_TASKS + NR_NATIVE_PROCS \<Longrightarrow>
   init_proc_loop gdt ie n i sel stk pt j =
     init_native gdt ie j (sel + 8 * of_nat (j - i)) (stk + TASK_STACK * of_nat (Suc (j - i))) (pt j)"
proof (induction n arbitrary: i sel stk pt)
  case 0
  then show ?case by simp
next
  case (Suc n)
  show ?case
  proof (cases "i = j")
    case True
    then show ?thesis using Suc.prems by (simp add: Let_def init_proc_loop_before)
  next
    case False
    then have "j - i = Suc (j - Suc i)" using Suc.prems by simp
    then show ?thesis
      using Suc.prems False Suc.IH [of "Suc i"] by (simp add: Let_def algebra_simps)
  qed
qed

lemma init_proc_loop_free:
  "i \<le> j \<Longrightarrow> j < i + n \<Longrightarrow> NR_TASKS + NR_NATIVE_PROCS \<le> j \<Longrightarrow>
   init_proc_loop gdt ie n i sel stk pt j =
     (pt j)\<lparr>p_flags := FREE_SLOT, ldt_sel := sel + 8 * of_nat (j - i)\<rparr>"
proof (induction n arbitrary: i sel stk pt)
  case 0
  then show ?case by simp
next
  case (Suc n)
  show ?case
  proof (cases "i = j")
    case True
    then show ?thesis using Suc.prems by (simp add: Let_def init_proc_loop_before)
  next
    case False
    then have "j - i = Suc (j - Suc i)" using Suc.prems by simp
    then show ?thesis
      using Suc.prems False Suc.IH [of "Suc i"] by (simp add: Let_def algebra_simps)
  qed
qed

lemmas init_proc_loop_slots = init_proc_loop_native init_proc_loop_free

text \<open>The slots of the table, up to the terminal numbers set at the end.\<close>

lemma init_proc_native:
  assumes "j < NR_TASKS + NR_NATIVE_PROCS"
  shows "proc_table (init_proc gdt ie stk s) j =
    (init_native gdt ie j (SELECTOR_LDT_FIRST + 8 * of_nat j) (stk + TASK_STACK * of_nat (j + 2))
      (proc_table s j))\<lparr>tty_index := (if j = 4 then 1 else if j = 5 then 2 else 0)\<rparr>"
proof -
  have "init_proc_loop gdt ie NR_SLOTS 0 SELECTOR_LDT_FIRST (stk + TASK_STACK) (proc_table s) j =
      init_native gdt ie j (SELECTOR_LDT_FIRST + 8 * of_nat j) (stk + TASK_STACK * of_nat (j + 2))
        (proc_table s j)"
    using assms by (simp add: init_proc_loop_native algebra_simps)
  moreover have "tty_index (init_native gdt ie j sel t p) = 0" for sel t p
    by (simp add: init_native_def Let_def)
  ultimately show ?thesis by (auto simp: init_proc_def Let_def)
qed

lemma init_proc_free:
  assumes "NR_TASKS + NR_NATIVE_PROCS \<le> j" and "j < NR_SLOTS"
  shows "proc_table (init_proc gdt ie stk s) j =
    (proc_table s j)\<lparr>p_flags := FREE_SLOT, ldt_sel := SELECTOR_LDT_FIRST + 8 * of_nat j\<rparr>"
  using assms by (simp add: init_proc_def Let_def init_proc_loop_free)

lemma init_ldt_flat:
  assumes "desc_base (gdt 2) = 0"
  shows "desc_base (init_ldt gdt i pr old LDT_DATA) = 0"
proof -
  have "desc_base (d\<lparr>attr1 := a\<rparr>) = desc_base d" for d a by (simp add: desc_base_def)
  then show ?thesis using assms by (simp add: init_ldt_def desc_base_init)
qed

lemma init_native_idle: "idle (init_native gdt ie j sel stk p)"
  by (simp add: init_native_def idle_def Let_def)

lemma init_native_queue: "q_sending (init_native gdt ie j sel stk p) = None"
  by (simp add: init_native_def Let_def)

lemma init_native_flat:
  "desc_base (gdt 2) = 0 \<Longrightarrow> ldt_seg_linear (init_native gdt ie j sel stk p) LDT_DATA = 0"
  by (simp add: init_native_def ldt_seg_linear_def Let_def init_ldt_flat del: One_nat_def)

lemma init_proc_ipc_inv:
  assumes "desc_base (gdt 2) = 0"
    and bss: "\<And>j. NR_TASKS + NR_NATIVE_PROCS \<le> j \<Longrightarrow> j < NR_SLOTS \<Longrightarrow> q_sending (proc_table s j) = None"
  shows "ipc_inv (proc_table (init_proc gdt ie stk s)) (\<lambda>_. [])"
proof -
  let ?pt = "proc_table (init_proc gdt ie stk s)"
  have split: "j < NR_TASKS + NR_NATIVE_PROCS \<or> NR_TASKS + NR_NATIVE_PROCS \<le> j" for j :: nat by linarith
  have idl: "idle (?pt j)" if "j < NR_TASKS + NR_NATIVE_PROCS" for j
    using init_native_idle by (auto simp: init_proc_native [OF that] idle_def)
  have free: "p_flags (?pt j) = FREE_SLOT" if "NR_TASKS + NR_NATIVE_PROCS \<le> j" "j < NR_SLOTS" for j
    by (simp add: init_proc_free [OF that])
  have ok: "proc_ok (?pt j)" if "j < NR_SLOTS" for j
    using split [of j] idl free that by (auto simp: proc_ok_def)
  have nosend: "\<not> sending_to ?pt i d" for i d
    using split [of i] idl [of i] free [of i] by (auto simp: sending_to_def idle_def)
  have "q_sending (?pt j) = None" if "j < NR_SLOTS" for j
    using split [of j] that bss init_native_queue by (auto simp: init_proc_native init_proc_free)
  then have "queues_ok ?pt (\<lambda>_. [])" by (simp add: queues_ok_def nosend)
  moreover have "wait_graph ?pt = {}" by (auto simp: wait_graph_def nosend)
  moreover have "flat_natives ?pt"
    using init_native_flat [where gdt = gdt, OF assms(1)]
    by (simp add: flat_natives_def init_proc_native ldt_seg_linear_def)
  ultimately show ?thesis using ok by (simp add: ipc_inv_def acyclic_def)
qed

end
