(* ===== verification/Mailbox.thy ===== *)
theory Mailbox
  imports Boot_Table
begin

text \<open>
  What message passing promises, stated without the process table: every process is idle,
  blocked in a send, blocked in a receive, or free, and every process has a first-in
  first-out queue of blocked senders. \<open>msg_send\<close> and \<open>msg_receive\<close> of process.c refine
  the two operations of this specification, and the states the kernel can reach by
  system calls and clock ticks are exactly of the specified shape.
\<close>

unbundle bit_operations_syntax

section \<open>Specification\<close>

datatype status = Idle | Sending nat u32 | Receiving int u32 | Free

record mailboxes =
  status_of :: "nat \<Rightarrow> status"
  queue_of :: "nat \<Rightarrow> nat list"

text \<open>A copy of one message: from process, address there, to process, address there.\<close>

type_synonym transfer = "(nat \<times> u32) \<times> (nat \<times> u32)"

definition waits_for :: "mailboxes \<Rightarrow> (nat \<times> nat) set" where
  "waits_for A = {(i, d). i < NR_SLOTS \<and> d < NR_SLOTS \<and> (\<exists>b. status_of A i = Sending d b)}"

definition listens :: "mailboxes \<Rightarrow> nat \<Rightarrow> nat \<Rightarrow> u32 option" where
  "listens A d sender =
     (case status_of A d of
        Receiving src b \<Rightarrow> if src = int sender \<or> src = ANY then Some b else None
      | _ \<Rightarrow> None)"

text \<open>
  A send either completes at once, with one transfer, or blocks the sender at the end of
  the queue of its destination.
\<close>

definition spec_send :: "nat \<Rightarrow> nat \<Rightarrow> u32 \<Rightarrow> mailboxes \<Rightarrow> transfer option \<times> mailboxes" where
  "spec_send sender d m A =
     (case listens A d sender of
        Some b \<Rightarrow> (Some ((sender, m), (d, b)), A\<lparr>status_of := (status_of A)(d := Idle)\<rparr>)
      | None \<Rightarrow> (None, A\<lparr>status_of := (status_of A)(sender := Sending d m),
                          queue_of := (queue_of A)(d := queue_of A d @ [sender])\<rparr>))"

definition sent_buffer :: "status \<Rightarrow> u32" where
  "sent_buffer st = (case st of Sending _ b \<Rightarrow> b | _ \<Rightarrow> 0)"

definition spec_receive :: "nat \<Rightarrow> int \<Rightarrow> u32 \<Rightarrow> mailboxes \<Rightarrow> transfer option \<times> mailboxes" where
  "spec_receive w src m A =
     (case pick_sender src (queue_of A w) of
        Some f \<Rightarrow> (Some ((f, sent_buffer (status_of A f)), (w, m)),
                    A\<lparr>status_of := (status_of A)(f := Idle),
                      queue_of := (queue_of A)(w := remove1 f (queue_of A w))\<rparr>)
      | None \<Rightarrow> (None, A\<lparr>status_of := (status_of A)(w := Receiving src m)\<rparr>))"

section \<open>Abstraction\<close>

definition slot_status :: "Process \<Rightarrow> status" where
  "slot_status p =
     (if p_flags p = 0 then Idle
      else if p_flags p = SENDING then Sending (nat (p_sendto p)) (msg p)
      else if p_flags p = RECEIVING then Receiving (p_recvfrom p) (msg p)
      else Free)"

definition mail_rel :: "'a kernel_scheme \<Rightarrow> mailboxes \<Rightarrow> bool" where
  "mail_rel s A \<longleftrightarrow> ipc_inv (proc_table s) (queue_of A)
     \<and> (\<forall>i < NR_SLOTS. status_of A i = slot_status (proc_table s i))"

text \<open>The memory after a transfer, byte by byte.\<close>

definition transfer_mem :: "ptable \<Rightarrow> transfer option \<Rightarrow> mem \<Rightarrow> mem" where
  "transfer_mem pt tr m =
     (case tr of
        None \<Rightarrow> m
      | Some ((f, a), (t, b)) \<Rightarrow>
          (\<lambda>x. if addr_in (data_addr pt t b) 48 x then m (data_addr pt f a + (x - data_addr pt t b))
                else m x))"

definition transfer_disjoint :: "ptable \<Rightarrow> transfer option \<Rightarrow> bool" where
  "transfer_disjoint pt tr =
     (case tr of None \<Rightarrow> True
      | Some ((f, a), (t, b)) \<Rightarrow> disjoint_ranges (data_addr pt t b) 48 (data_addr pt f a) 48)"

section \<open>Slots and their abstract status\<close>

lemma slot_status_Idle: "proc_ok p \<Longrightarrow> slot_status p = Idle \<longleftrightarrow> idle p"
  by (auto simp: slot_status_def proc_ok_def slot_defs)

lemma slot_status_Sending:
  "proc_ok p \<Longrightarrow> slot_status p = Sending d b \<longleftrightarrow> in_send p \<and> p_sendto p = int d \<and> msg p = b"
  by (auto simp: slot_status_def proc_ok_def slot_defs valid_pid_def)

lemma slot_status_Receiving:
  "proc_ok p \<Longrightarrow> slot_status p = Receiving src b \<longleftrightarrow> in_receive p \<and> p_recvfrom p = src \<and> msg p = b"
  by (auto simp: slot_status_def proc_ok_def slot_defs)

lemma mail_rel_proc_ok: "mail_rel s A \<Longrightarrow> i < NR_SLOTS \<Longrightarrow> proc_ok (proc_table s i)"
  using ipc_inv_proc_ok by (auto simp: mail_rel_def)

lemma mail_rel_idle:
  "mail_rel s A \<Longrightarrow> i < NR_SLOTS \<Longrightarrow> idle (proc_table s i) \<longleftrightarrow> status_of A i = Idle"
  using slot_status_Idle mail_rel_proc_ok by (auto simp: mail_rel_def)

lemma waits_for_wait_graph:
  assumes "mail_rel s A"
  shows "waits_for A = wait_graph (proc_table s)"
proof -
  have "(\<exists>b. status_of A i = Sending d b) \<longleftrightarrow> sending_to (proc_table s) i d" if "i < NR_SLOTS" for i d
    using assms that mail_rel_proc_ok [OF assms that] proc_ok_sending [of "proc_table s i"]
    by (auto simp: mail_rel_def slot_status_Sending sending_to_def in_send_def)
  then show ?thesis by (auto simp: waits_for_def wait_graph_def sending_to_def)
qed

lemma listens_accepts:
  assumes "mail_rel s A" and "d < NR_SLOTS"
  shows "listens A d sender =
    (if accepts (proc_table s d) sender then Some (msg (proc_table s d)) else None)"
proof -
  have st: "status_of A d = slot_status (proc_table s d)" using assms by (simp add: mail_rel_def)
  show ?thesis
    using mail_rel_proc_ok [OF assms]
    by (auto simp: listens_def st slot_status_def accepts_def proc_ok_def slot_defs)
qed

text \<open>The three updates of the process table, seen from the specification.\<close>

lemma status_blocked:
  assumes "sender \<noteq> d" and "sender \<notin> set q"
  shows "slot_status (blocked_table pt sender d m q i) =
    (if i = sender then Sending d m else slot_status (pt i))"
  using assms by (simp add: slot_status_def blocked_table_fields)

lemma status_taken:
  assumes "w \<noteq> f" and "f \<notin> set ys"
  shows "slot_status (taken_table pt w f ys i) = (if i = f then Idle else slot_status (pt i))"
  using assms by (simp add: slot_status_def taken_table_fields)

lemma status_receiving:
  "slot_status (receiving_table pt w src m i) =
    (if i = w then Receiving src m else slot_status (pt i))"
  by (simp add: slot_status_def receiving_table_def)

lemma status_woken: "slot_status (woken p) = Idle"
  by (simp add: slot_status_def)

lemma transfer_mem_memcpy:
  assumes "disjoint_ranges (data_addr pt t b) 48 (data_addr pt f a) 48"
  shows "p_asm_memcpy m (data_addr pt t b) (data_addr pt f a) MSG_SIZE
    = transfer_mem pt (Some ((f, a), (t, b))) m"
  using p_asm_memcpy_apply [where n = MSG_SIZE] assms by (auto simp: transfer_mem_def)

section \<open>Refinement\<close>

text \<open>
  The state a call leaves: the memory of the specified transfer, the specified mailboxes,
  and a running process chosen by the scheduler when the caller has blocked.
\<close>

definition completed :: "'a kernel_scheme \<Rightarrow> transfer option \<times> mailboxes \<Rightarrow> 'a kernel_scheme \<Rightarrow> bool" where
  "completed s out s' \<longleftrightarrow>
     mem s' = transfer_mem (proc_table s) (fst out) (mem s)
     \<and> mail_rel s' (snd out)
     \<and> io_log s' = io_log s \<and> k_reenter s' = k_reenter s \<and> ticks s' = ticks s
     \<and> (if fst out = None
        then schedule_loop (proc_table s') (ready_process s) = Some (ready_process s')
        else ready_process s' = ready_process s)"

lemma blocked_completed:
  assumes rel: "ipc_inv pt (queue_of A)" "\<And>i. i < NR_SLOTS \<Longrightarrow> status_of A i = slot_status (pt i)"
  shows "case blocked pt s of
      Inr s' \<Rightarrow> completed s (None, A) s'
    | Inl e \<Rightarrow> e = Hang \<and> (\<forall>i < NR_SLOTS. status_of A i \<noteq> Idle)"
proof (cases "some_runnable pt")
  case True
  then obtain i where "i < NR_SLOTS" "p_flags (pt i) = 0" by (auto simp: some_runnable_def)
  from schedule_loop_finds [where pt = pt and r = "ready_process s", OF this]
  have "schedule_loop pt (ready_process s) = Some (the (schedule_loop pt (ready_process s)))"
    by auto
  then show ?thesis
    using True rel by (simp add: blocked_def completed_def transfer_mem_def mail_rel_def)
next
  case False
  then show ?thesis
    using rel by (auto simp: blocked_def some_runnable_def slot_status_def)
qed

lemma msg_send_simulates:
  assumes rel: "mail_rel s A" and sd: "sender < NR_SLOTS" and d: "d < NR_SLOTS" and ne: "sender \<noteq> d"
    and idl: "status_of A sender = Idle" and m: "m \<noteq> 0"
    and dis: "transfer_disjoint (proc_table s) (fst (spec_send sender d m A))"
  shows "if (d, sender) \<in> (waits_for A)\<^sup>+ then msg_send sender (int d) m s = Inl Panicked
     else case msg_send sender (int d) m s of
            Inr s' \<Rightarrow> completed s (spec_send sender d m A) s'
          | Inl e \<Rightarrow> e = Hang \<and> (\<forall>i < NR_SLOTS. status_of (snd (spec_send sender d m A)) i \<noteq> Idle)"
proof -
  let ?pt = "proc_table s"
  have inv: "ipc_inv ?pt (queue_of A)" using rel by (simp add: mail_rel_def)
  have idl': "idle (?pt sender)" using mail_rel_idle [OF rel sd] idl by simp
  note spec = msg_send_spec [OF inv d idl' ne m]
  note nq = idle_not_queued [OF inv d idl']
  show ?thesis
  proof (cases "(d, sender) \<in> (wait_graph ?pt)\<^sup>+")
    case True
    then show ?thesis using spec by (simp add: Let_def waits_for_wait_graph [OF rel])
  next
    case nodl: False
    show ?thesis
    proof (cases "accepts (?pt d) sender")
      case True
      have rcv: "in_receive (?pt d)"
        using mail_rel_proc_ok [OF rel d] True by (auto simp: accepts_def proc_ok_def slot_defs)
      have out: "spec_send sender d m A = (Some ((sender, m), (d, msg (?pt d))),
          A\<lparr>status_of := (status_of A)(d := Idle)\<rparr>)"
        using True by (simp add: spec_send_def listens_accepts [OF rel d])
      have "mail_rel (s\<lparr>mem := mm, proc_table := ?pt(d := woken (?pt d))\<rparr>) (snd (spec_send sender d m A))" for mm
        using ipc_inv_woken_receiver [OF inv rcv] rel by (auto simp: mail_rel_def out status_woken)
      then show ?thesis
        using spec nodl True dis
        by (simp add: Let_def waits_for_wait_graph [OF rel] completed_def out transfer_disjoint_def
            transfer_mem_memcpy)
    next
      case False
      have out: "spec_send sender d m A = (None, A\<lparr>status_of := (status_of A)(sender := Sending d m),
          queue_of := (queue_of A)(d := queue_of A d @ [sender])\<rparr>)"
        using False by (simp add: spec_send_def listens_accepts [OF rel d])
      have "case blocked (blocked_table ?pt sender d m (queue_of A d)) s of
          Inr s' \<Rightarrow> completed s (None, snd (spec_send sender d m A)) s'
        | Inl e \<Rightarrow> e = Hang \<and> (\<forall>i < NR_SLOTS. status_of (snd (spec_send sender d m A)) i \<noteq> Idle)"
        using ipc_inv_blocked [OF inv d sd idl' ne m nodl] rel
        by (intro blocked_completed) (auto simp: out status_blocked [OF ne nq] mail_rel_def)
      then show ?thesis
        using spec nodl False by (auto simp: Let_def waits_for_wait_graph [OF rel] out split: sum.splits)
    qed
  qed
qed

lemma pick_sender_in: "pick_sender src q = Some f \<Longrightarrow> f \<in> set q"
  by (auto simp: pick_sender_def split: if_splits list.splits)

lemma msg_receive_simulates:
  assumes rel: "mail_rel s A" and w: "w < NR_SLOTS" and idl: "status_of A w = Idle" and m: "m \<noteq> 0"
    and src: "src = ANY \<or> valid_pid src \<and> src \<noteq> int w"
    and dis: "transfer_disjoint (proc_table s) (fst (spec_receive w src m A))"
  shows "case msg_receive w src m s of
            Inr s' \<Rightarrow> completed s (spec_receive w src m A) s'
          | Inl e \<Rightarrow> e = Hang \<and> (\<forall>i < NR_SLOTS. status_of (snd (spec_receive w src m A)) i \<noteq> Idle)"
proof -
  let ?pt = "proc_table s" and ?q = "queue_of A w"
  have inv: "ipc_inv ?pt (queue_of A)" using rel by (simp add: mail_rel_def)
  have idl': "idle (?pt w)" using mail_rel_idle [OF rel w] idl by simp
  note spec = msg_receive_spec [OF inv w idl' m src]
  have nt: "src \<noteq> NO_TASK" using src by (auto simp: valid_pid_def)
  show ?thesis
  proof (cases "pick_sender src ?q")
    case None
    have "case blocked (receiving_table ?pt w src m) s of
        Inr s' \<Rightarrow> completed s (None, snd (spec_receive w src m A)) s'
      | Inl e \<Rightarrow> e = Hang \<and> (\<forall>i < NR_SLOTS. status_of (snd (spec_receive w src m A)) i \<noteq> Idle)"
      using ipc_inv_receiving [OF inv idl' m nt] rel None
      by (intro blocked_completed) (auto simp: spec_receive_def status_receiving mail_rel_def)
    then show ?thesis using spec None
      by (auto simp: Let_def spec_receive_def split: sum.splits)
  next
    case (Some f)
    then have fq: "f \<in> set ?q" by (rule pick_sender_in)
    note snd = queued_in_send [OF inv w fq]
    obtain ys zs where q: "?q = ys @ f # zs" using fq by (auto simp: in_set_conv_decomp)
    have fy: "f \<notin> set ys" using ipc_inv_queue(2) [OF inv w] q by auto
    have wf: "w \<noteq> f" using snd(1) idl' by (auto simp: slot_defs)
    have sb: "sent_buffer (status_of A f) = msg (?pt f)"
      using rel snd by (simp add: mail_rel_def sent_buffer_def slot_status_def in_send_def)
    have out: "spec_receive w src m A = (Some ((f, msg (?pt f)), (w, m)),
        A\<lparr>status_of := (status_of A)(f := Idle), queue_of := (queue_of A)(w := ys @ zs)\<rparr>)"
      using Some fy by (simp add: spec_receive_def sb q remove1_append)
    have "takeWhile (\<lambda>x. x \<noteq> f) ?q = ys" by (simp add: q takeWhile_neq [OF fy])
    moreover have "mail_rel (s\<lparr>mem := mm, proc_table := taken_table ?pt w f ys\<rparr>)
        (snd (spec_receive w src m A))" for mm
      using ipc_inv_taken [OF inv w q idl'] rel by (auto simp: mail_rel_def out status_taken [OF wf fy])
    ultimately show ?thesis
      using spec Some dis
      by (simp add: Let_def completed_def out transfer_disjoint_def transfer_mem_memcpy)
  qed
qed

end
