(* ===== verification/Kernel_Runs.thy ===== *)
theory Kernel_Runs
  imports Mailbox
begin

text \<open>
  The invariant of message passing as an invariant of the whole kernel: the running process is
  idle, and system calls and clock interrupts keep it so. Under it a system call with legal
  arguments fails no assertion. At the end, clock ticks let every runnable process run.
\<close>

unbundle bit_operations_syntax

section \<open>The invariant of the kernel\<close>

definition running_ok :: "'a kernel_scheme \<Rightarrow> bool" where
  "running_ok s \<longleftrightarrow> ready_process s < NR_SLOTS \<and> idle (proc_table s (ready_process s)) \<and> k_reenter s = 0"

definition kernel_ok :: "'a kernel_scheme \<Rightarrow> bool" where
  "kernel_ok s \<longleftrightarrow> (\<exists>qs. ipc_inv (proc_table s) qs) \<and> running_ok s"

section \<open>Each step keeps the invariant\<close>

lemma schedule_running:
  assumes "ipc_inv pt qs" and "schedule_loop pt r = Some q"
  shows "q < NR_SLOTS" "idle (pt q)"
proof -
  note q = schedule_loop_Some [OF assms(2)]
  then show "q < NR_SLOTS" by simp
  with q show "idle (pt q)" using ipc_inv_proc_ok [OF assms(1)] proc_ok_idle by blast
qed

lemma blocked_kernel_ok:
  assumes "ipc_inv pt qs" and "blocked pt s = Inr s'" and "k_reenter s = 0"
  shows "kernel_ok s'"
proof -
  have run: "some_runnable pt"
    and s': "s' = s\<lparr>proc_table := pt, ready_process := the (schedule_loop pt (ready_process s))\<rparr>"
    using assms(2) by (auto simp: blocked_def split: if_splits)
  obtain i where "i < NR_SLOTS" "p_flags (pt i) = 0" using run by (auto simp: some_runnable_def)
  from schedule_loop_finds [where pt = pt and r = "ready_process s", OF this]
  obtain q where q: "schedule_loop pt (ready_process s) = Some q" by auto
  then show ?thesis
    using assms(1,3) schedule_running [OF assms(1) q] by (auto simp: kernel_ok_def running_ok_def s')
qed

lemma schedule_kernel_ok:
  assumes "kernel_ok s" and "schedule s = Inr s'"
  shows "kernel_ok s'"
proof -
  obtain qs where inv: "ipc_inv (proc_table s) qs" using assms(1) by (auto simp: kernel_ok_def)
  obtain q where "schedule_loop (proc_table s) (ready_process s) = Some q" "s' = s\<lparr>ready_process := q\<rparr>"
    using assms(2) by (auto simp: schedule_def res_simps)
  with schedule_running [OF inv] assms(1) show ?thesis
    by (auto simp: kernel_ok_def running_ok_def)
qed

lemma kernel_ok_ticks: "kernel_ok (s\<lparr>ticks := t\<rparr>) = kernel_ok s"
  by (simp add: kernel_ok_def running_ok_def)

lemma kernel_ok_mem: "kernel_ok (s\<lparr>mem := m\<rparr>) = kernel_ok s"
  by (simp add: kernel_ok_def running_ok_def)

lemma clock_kernel_ok:
  assumes "kernel_ok s" and "clock_handler s = Inr s'"
  shows "kernel_ok s'"
proof -
  have "k_reenter s = 0" using assms(1) by (simp add: kernel_ok_def running_ok_def)
  then have "schedule (s\<lparr>ticks := ticks s + 1\<rparr>) = Inr s'"
    using assms(2) by (simp add: clock_handler_def)
  then show ?thesis using schedule_kernel_ok assms(1) kernel_ok_ticks by metis
qed

lemma msg_send_kernel_ok:
  assumes ok: "kernel_ok s" and m: "m \<noteq> 0" and r: "msg_send (ready_process s) dest m s = Inr s'"
  shows "kernel_ok s'"
proof -
  let ?p = "ready_process s" and ?pt = "proc_table s"
  obtain qs where inv: "ipc_inv ?pt qs" using ok by (auto simp: kernel_ok_def)
  have run: "?p < NR_SLOTS" "idle (?pt ?p)" "k_reenter s = 0"
    using ok by (auto simp: kernel_ok_def running_ok_def)
  have "valid_pid dest" "int ?p \<noteq> dest"
    using r by (auto simp: msg_send_def deadlock_def kassert_def split: if_splits)
  then obtain d where d: "dest = int d" "d < NR_SLOTS" "?p \<noteq> d"
    by (cases dest) (auto simp: valid_pid_def)
  note spec = msg_send_spec [OF inv d(2) run(2) d(3) m]
  have nodl: "(d, ?p) \<notin> (wait_graph ?pt)\<^sup>+"
    using r spec unfolding d(1) by (auto simp: Let_def split: if_splits)
  show ?thesis
  proof (cases "accepts (?pt d) ?p")
    case True
    then have rcv: "in_receive (?pt d)"
      using ipc_inv_proc_ok [OF inv d(2)] by (auto simp: accepts_def proc_ok_def slot_defs)
    have "proc_table s' = ?pt(d := woken (?pt d))" "ready_process s' = ?p" "k_reenter s' = 0"
      using r spec nodl True run(3) unfolding d(1) by (auto simp: Let_def)
    then show ?thesis
      using ipc_inv_woken_receiver [OF inv rcv] run d(3) by (auto simp: kernel_ok_def running_ok_def)
  next
    case False
    then have "blocked (blocked_table ?pt ?p d m (qs d)) s = Inr s'"
      using r spec nodl unfolding d(1) by (simp add: Let_def)
    then show ?thesis
      using blocked_kernel_ok ipc_inv_blocked [OF inv d(2) run(1,2) d(3) m nodl] run(3) by blast
  qed
qed

lemma msg_receive_kernel_ok:
  assumes ok: "kernel_ok s" and m: "m \<noteq> 0" and r: "msg_receive (ready_process s) src m s = Inr s'"
  shows "kernel_ok s'"
proof -
  let ?p = "ready_process s" and ?pt = "proc_table s"
  obtain qs where inv: "ipc_inv ?pt qs" using ok by (auto simp: kernel_ok_def)
  have run: "?p < NR_SLOTS" "idle (?pt ?p)" "k_reenter s = 0"
    using ok by (auto simp: kernel_ok_def running_ok_def)
  have src: "src = ANY \<or> valid_pid src \<and> src \<noteq> int ?p"
    using r run(2) by (auto simp: msg_receive_def Let_def kassert_def idle_def split: if_splits)
  then have nt: "src \<noteq> NO_TASK" by (auto simp: valid_pid_def)
  note spec = msg_receive_spec [OF inv run(1,2) m src]
  show ?thesis
  proof (cases "pick_sender src (qs ?p)")
    case None
    then have "blocked (receiving_table ?pt ?p src m) s = Inr s'" using r spec by (simp add: Let_def)
    then show ?thesis using blocked_kernel_ok ipc_inv_receiving [OF inv run(2) m nt] run(3) by blast
  next
    case (Some f)
    then have fq: "f \<in> set (qs ?p)" by (rule pick_sender_in)
    obtain ys zs where q: "qs ?p = ys @ f # zs" using fq by (auto simp: in_set_conv_decomp)
    have fy: "f \<notin> set ys" using ipc_inv_queue(2) [OF inv run(1)] q by auto
    have wf: "?p \<noteq> f" using queued_in_send(1) [OF inv run(1) fq] run(2) by (auto simp: slot_defs)
    have "proc_table s' = taken_table ?pt ?p f ys" "ready_process s' = ?p" "k_reenter s' = 0"
      using r spec Some run(3) by (auto simp: Let_def q takeWhile_neq [OF fy])
    moreover have "idle (taken_table ?pt ?p f ys ?p)"
      using run(2) wf by (simp add: idle_def taken_table_fields [OF wf fy])
    ultimately show ?thesis
      using ipc_inv_taken [OF inv run(1) q run(2)] run by (auto simp: kernel_ok_def running_ok_def)
  qed
qed

lemma sys_sendrec_kernel_ok:
  assumes "kernel_ok s" and "m \<noteq> 0" and "sys_sendrec fn sd m (ready_process s) s = Inr s'"
  shows "kernel_ok s'"
proof -
  obtain a where r: "(if fn = SEND then msg_send (ready_process s) sd m (s\<lparr>mem := a\<rparr>)
      else if fn = RECEIVE then msg_receive (ready_process s) sd m (s\<lparr>mem := a\<rparr>)
      else Inl Panicked) = Inr s'"
    using assms(3) by (auto simp: sys_sendrec_def Let_def res_simps)
  let ?s = "s\<lparr>mem := a\<rparr>"
  have ok: "kernel_ok ?s" using assms(1) by (simp add: kernel_ok_mem)
  show ?thesis
  proof (cases "fn = SEND")
    case True
    then show ?thesis using r msg_send_kernel_ok [OF ok assms(2), of sd s'] by simp
  next
    case False
    then have "msg_receive (ready_process ?s) sd m ?s = Inr s'" using r by (simp split: if_splits)
    then show ?thesis by (rule msg_receive_kernel_ok [OF ok assms(2)])
  qed
qed

text \<open>What a system call of the running process with legal arguments can come to.\<close>

lemma msg_send_outcome:
  assumes ok: "kernel_ok s" and m: "m \<noteq> 0" and d: "d < NR_SLOTS" "ready_process s \<noteq> d"
  shows "case msg_send (ready_process s) (int d) m s of
      Inr s' \<Rightarrow> kernel_ok s'
    | Inl e \<Rightarrow> e = Hang \<or> e = Panicked \<and> (d, ready_process s) \<in> (wait_graph (proc_table s))\<^sup>+"
proof -
  obtain qs where inv: "ipc_inv (proc_table s) qs" using ok by (auto simp: kernel_ok_def)
  have "idle (proc_table s (ready_process s))" using ok by (simp add: kernel_ok_def running_ok_def)
  note spec = msg_send_spec [OF inv d(1) this d(2) m]
  show ?thesis
  proof (cases "msg_send (ready_process s) (int d) m s")
    case (Inr s')
    then show ?thesis using msg_send_kernel_ok [OF ok m] by simp
  next
    case (Inl e)
    then show ?thesis using spec by (auto simp: Let_def blocked_def split: if_splits)
  qed
qed

lemma msg_receive_outcome:
  assumes ok: "kernel_ok s" and m: "m \<noteq> 0"
    and src: "src = ANY \<or> valid_pid src \<and> src \<noteq> int (ready_process s)"
  shows "case msg_receive (ready_process s) src m s of Inr s' \<Rightarrow> kernel_ok s' | Inl e \<Rightarrow> e = Hang"
proof -
  obtain qs where inv: "ipc_inv (proc_table s) qs" using ok by (auto simp: kernel_ok_def)
  have "idle (proc_table s (ready_process s))" "ready_process s < NR_SLOTS"
    using ok by (auto simp: kernel_ok_def running_ok_def)
  note spec = msg_receive_spec [OF inv this(2) this(1) m src]
  show ?thesis
  proof (cases "msg_receive (ready_process s) src m s")
    case (Inr s')
    then show ?thesis using msg_receive_kernel_ok [OF ok m] by simp
  next
    case (Inl e)
    then show ?thesis using spec by (auto simp: Let_def blocked_def split: if_splits option.splits)
  qed
qed

lemma sys_sendrec_outcome:
  assumes ok: "kernel_ok s" and m: "m \<noteq> 0"
    and fn: "fn = SEND \<and> valid_pid sd \<or> fn = RECEIVE \<and> (valid_pid sd \<or> sd = ANY)"
    and ne: "sd \<noteq> int (ready_process s)"
  shows "case sys_sendrec fn sd m (ready_process s) s of
      Inr s' \<Rightarrow> kernel_ok s'
    | Inl e \<Rightarrow> e = Hang \<or> e = Panicked \<and> fn = SEND
        \<and> (nat sd, ready_process s) \<in> (wait_graph (proc_table s))\<^sup>+"
proof -
  let ?s = "\<lambda>a. s\<lparr>mem := write32 (mem s) a (of_nat (ready_process s))\<rparr>"
  have k: "k_reenter s = 0" using ok by (simp add: kernel_ok_def running_ok_def)
  have "flat_natives (proc_table s)" using ok by (auto simp: kernel_ok_def ipc_inv_def)
  then obtain a where a: "sys_sendrec fn sd m (ready_process s) s =
      (if fn = SEND then msg_send (ready_process s) sd m (?s a) else msg_receive (ready_process s) sd m (?s a))"
    using fn ne k by (auto simp: sys_sendrec_def va2la_ok Let_def)
  have ok': "kernel_ok (?s a)" using ok by (simp add: kernel_ok_mem)
  show ?thesis
  proof (cases "fn = SEND")
    case True
    then obtain d where "sd = int d" "d < NR_SLOTS" using fn by (cases sd) (auto simp: valid_pid_def)
    then show ?thesis
      using msg_send_outcome [OF ok' m, of d] True ne unfolding a by (auto split: sum.splits)
  next
    case False
    then show ?thesis
      using msg_receive_outcome [OF ok' m, of sd] fn ne unfolding a by (auto split: sum.splits)
  qed
qed

lemma init_proc_fields:
  "k_reenter (init_proc gdt ie stk s) = k_reenter s" "mem (init_proc gdt ie stk s) = mem s"
  "ticks (init_proc gdt ie stk s) = ticks s"
  by (simp_all add: init_proc_def Let_def)

lemma init_kernel_ok:
  assumes "desc_base (gdt 2) = 0" and "k_reenter s = 0"
    and bss: "\<And>j. NR_TASKS + NR_NATIVE_PROCS \<le> j \<Longrightarrow> j < NR_SLOTS \<Longrightarrow> q_sending (proc_table s j) = None"
  shows "kernel_ok ((init_proc gdt ie stk s)\<lparr>ready_process := 0\<rparr>)"
proof -
  have "idle (proc_table (init_proc gdt ie stk s) 0)"
    using init_native_idle by (simp add: init_proc_native idle_def)
  moreover have "ipc_inv (proc_table (init_proc gdt ie stk s)) (\<lambda>_. [])"
    by (rule init_proc_ipc_inv [where gdt = gdt, OF assms(1) bss])
  ultimately show ?thesis
    using assms(2) by (auto simp: kernel_ok_def running_ok_def init_proc_fields)
qed

section \<open>Clock ticks and fairness\<close>

fun run_ticks :: "nat \<Rightarrow> 'a kernel_scheme \<Rightarrow> 'a kernel_scheme result" where
  "run_ticks 0 s = Inr s"
| "run_ticks (Suc n) s = rbind (clock_handler s) (run_ticks n)"

lemma clock_handler_idle:
  assumes "k_reenter s = 0" and "schedule_loop (proc_table s) (ready_process s) = Some q"
  shows "clock_handler s = Inr (s\<lparr>ready_process := q, ticks := ticks s + 1\<rparr>)"
  using assms by (simp add: clock_handler_def schedule_def)

lemma next_slot_reaches:
  assumes "i < NR_SLOTS"
  shows "\<exists>k < NR_SLOTS. (next_slot ^^ Suc k) r = i"
proof (cases "r < NR_SLOTS")
  case True
  let ?n = "if r < i then i - r - 1 else i + 34 - r"
  have "(r + Suc ?n) mod NR_SLOTS = i" "?n < NR_SLOTS"
    using True assms(1) by (auto simp: mod_if)
  then show ?thesis using True next_slot_funpow [of ?n r] by auto
next
  case False
  then show ?thesis using next_slot_funpow [of i r] assms(1) by auto
qed

lemma run_ticks_reaches:
  assumes "i < NR_SLOTS" and "p_flags (proc_table s i) = 0" and "k_reenter s = 0"
    and "(next_slot ^^ Suc k) (ready_process s) = i"
  shows "\<exists>n \<le> k. run_ticks (Suc n) s = Inr (s\<lparr>ready_process := i, ticks := ticks s + of_nat (Suc n)\<rparr>)"
  using assms
proof (induction k arbitrary: s rule: less_induct)
  case (less k)
  let ?pt = "proc_table s" and ?r = "ready_process s"
  obtain n where n: "schedule_loop ?pt ?r = Some ((next_slot ^^ Suc n) ?r)"
      "\<And>j. j < n \<Longrightarrow> p_flags (?pt ((next_slot ^^ Suc j) ?r)) \<noteq> 0"
    using schedule_loop_finds [where pt = ?pt and r = ?r, OF less.prems(1,2)] by blast
  have nk: "n \<le> k" using n(2) [of k] less.prems(2,4) by (cases "n \<le> k") auto
  let ?s = "s\<lparr>ready_process := (next_slot ^^ Suc n) ?r, ticks := ticks s + 1\<rparr>"
  have first: "clock_handler s = Inr ?s" by (rule clock_handler_idle [OF less.prems(3) n(1)])
  show ?case
  proof (cases "n = k")
    case True
    then show ?thesis using first less.prems(4) by (intro exI [of _ 0]) simp
  next
    case False
    have "Suc k = Suc (k - Suc n) + Suc n" using False nk by simp
    then have "(next_slot ^^ Suc (k - Suc n)) ((next_slot ^^ Suc n) ?r) = i"
      using less.prems(4) by (metis comp_apply funpow_add)
    then obtain m where m: "m \<le> k - Suc n" "run_ticks (Suc m) ?s = Inr (?s\<lparr>ready_process := i,
        ticks := ticks ?s + of_nat (Suc m)\<rparr>)"
      using less.IH [of "k - Suc n" ?s] less.prems(1-3) False nk by auto
    have "run_ticks (Suc (Suc m)) s = Inr (s\<lparr>ready_process := i, ticks := ticks s + of_nat (Suc (Suc m))\<rparr>)"
      using m(2) first by (subst run_ticks.simps) (simp add: algebra_simps del: run_ticks.simps(2))
    then show ?thesis using m(1) False nk by (intro exI [of _ "Suc m"]) simp
  qed
qed

section \<open>Receiving a whole queue\<close>

fun receive_all :: "nat \<Rightarrow> u32 list \<Rightarrow> 'a kernel_scheme \<Rightarrow> (nat option list \<times> 'a kernel_scheme) result" where
  "receive_all w [] s = Inr ([], s)"
| "receive_all w (m # ms) s =
     (let first = q_sending (proc_table s w)
      in rbind (msg_receive w ANY m s) (\<lambda>s1. rbind (receive_all w ms s1) (\<lambda>(fs, s2). Inr (first # fs, s2))))"

lemma receive_all_fifo:
  assumes "ipc_inv (proc_table s) qs" and "w < NR_SLOTS" and "idle (proc_table s w)"
    and "length ms = length (qs w)" and "0 \<notin> set ms"
  shows "\<exists>s'. receive_all w ms s = Inr (map Some (qs w), s') \<and> ipc_inv (proc_table s') (qs(w := []))"
  using assms
proof (induction ms arbitrary: s qs)
  case Nil
  then show ?case using fun_upd_triv [of qs w] by auto
next
  case (Cons m ms)
  let ?pt = "proc_table s"
  obtain f zs where q: "qs w = f # zs" using Cons.prems(4) by (cases "qs w") auto
  have fq: "f \<in> set (qs w)" by (simp add: q)
  have wf: "w \<noteq> f" using queued_in_send(1) [OF Cons.prems(1,2) fq] Cons.prems(3) by (auto simp: slot_defs)
  have hd: "q_sending (?pt w) = Some f" using ipc_inv_queue(1) [OF Cons.prems(1,2)] q by simp
  let ?tt = "taken_table ?pt w f []"
  let ?s = "s\<lparr>mem := p_asm_memcpy (mem s) (data_addr ?pt w m) (data_addr ?pt f (msg (?pt f))) MSG_SIZE,
      proc_table := ?tt\<rparr>"
  have first: "msg_receive w ANY m s = Inr ?s"
    using msg_receive_spec [OF Cons.prems(1-3), of m ANY] Cons.prems(5)
    by (simp add: Let_def pick_sender_def q)
  define qs' where "qs' = qs(w := zs)"
  have inv: "ipc_inv ?tt qs'"
    using ipc_inv_taken [OF Cons.prems(1,2) _ Cons.prems(3), of "[]" f zs] q by (simp add: qs'_def)
  have upd: "qs'(w := []) = qs(w := [])" "qs' w = zs" by (auto simp: qs'_def)
  have idl: "idle (?tt w)" using Cons.prems(3) wf by (simp add: idle_def taken_table_fields [OF wf])
  have "\<exists>s'. receive_all w ms ?s = Inr (map Some (qs' w), s') \<and> ipc_inv (proc_table s') (qs'(w := []))"
    using inv idl Cons.prems q upd by (intro Cons.IH) auto
  with upd show ?case using first hd by (auto simp: q fun_upd_def)
qed

end
