(* ===== verification/Kstdio.thy ===== *)
theory Kstdio
  imports Process "HOL-Library.Signed_Division"
begin

text \<open>
  The formatting and text-screen routines of io/k_stdio.c, shared by the kernel and its
  loader: number to string conversion, the printf family up to the buffer it fills, and
  direct writes to the text screen at 0xb8000. The \<open>i\<close>-th variadic argument is a
  function of \<open>i\<close>; a format string is the list of its bytes before the NUL; string
  arguments are read from memory while the output is written to it.
\<close>

unbundle bit_operations_syntax

section \<open>State\<close>

record stdio = kernel +
  cur_vb :: u32

abbreviation (input) VB :: u32 where "VB \<equiv> 0xb8000"
abbreviation (input) WHITE :: u8 where "WHITE \<equiv> 7"
abbreviation (input) CH_PERCENT :: u8 where "CH_PERCENT \<equiv> 0x25"
abbreviation (input) CH_MINUS :: u8 where "CH_MINUS \<equiv> 0x2d"

definition blank_stdio :: stdio where
  "blank_stdio = kernel.extend zero_kernel (stdio.fields 0xb80a0)"

section \<open>Direct output to the text screen\<close>

definition s32_put_char :: "u8 \<Rightarrow> u32 \<Rightarrow> mem \<Rightarrow> mem" where
  "s32_put_char ch vb m = m(vb := ch)"

fun s32_print_loop :: "cstring \<Rightarrow> u32 \<Rightarrow> mem \<Rightarrow> mem \<times> u32" where
  "s32_print_loop [] vb m = (m, vb)"
| "s32_print_loop (c # cs) vb m = s32_print_loop cs (vb + 2) (s32_put_char c vb m)"

definition s32_print :: "cstring \<Rightarrow> u32 \<Rightarrow> 'a stdio_scheme \<Rightarrow> 'a stdio_scheme" where
  "s32_print s vb st =
     (let (m, vb') = s32_print_loop s vb (mem st)
      in st\<lparr>mem := m, cur_vb := (if sint vb' \<ge> 0xb8000 + 160 * 24 then VB + 160 else vb')\<rparr>)"

text \<open>The loops of \<open>clear_line\<close> and \<open>clear\<close>: \<open>n\<close> blank cells from \<open>vb\<close> on.\<close>

fun blank_cells :: "nat \<Rightarrow> u32 \<Rightarrow> mem \<Rightarrow> mem" where
  "blank_cells 0 vb m = m"
| "blank_cells (Suc n) vb m = blank_cells n (vb + 2) (m(vb := 0x20, vb + 1 := WHITE))"

definition clear_line :: "u8 \<Rightarrow> 'a machine_scheme \<Rightarrow> 'a machine_scheme" where
  "clear_line line_no s = s\<lparr>mem := blank_cells 80 (VB + 160 * ucast line_no) (mem s)\<rparr>"

definition clear :: "'a machine_scheme \<Rightarrow> 'a machine_scheme" where
  "clear s = s\<lparr>mem := blank_cells (80 * 25) VB (mem s)\<rparr>"

section \<open>Numbers to strings\<close>

definition digit_chars :: "u8 list" where
  "digit_chars = map of_char ''0123456789ABCDEFGHIJKLMNOPQRSTUVWXYZ'' @ [0]"

text \<open>
  The digit loop, least significant digit first. The table \<open>digit\<close> has 37 bytes with its
  NUL; a radix of 0 divides by zero and a radix of 1 never ends.
\<close>

partial_function (option) itoa_loop :: "u32 \<Rightarrow> u32 \<Rightarrow> cstring \<Rightarrow> cstring result option" where
  "itoa_loop n radix acc =
     (if n = 0 then Some (Inr acc)
      else if radix = 0 then Some (Inl Divide_error)
      else if 37 \<le> unat (n mod radix) then Some (Inl Out_of_bounds)
      else itoa_loop (n div radix) radix (acc @ [digit_chars ! unat (n mod radix)]))"

text \<open>The loop that reverses the buffer between the indices \<open>h\<close> and \<open>p\<close>.\<close>

function itoa_reverse :: "nat \<Rightarrow> nat \<Rightarrow> cstring \<Rightarrow> cstring" where
  "itoa_reverse h p s =
     (if h < p
      then itoa_reverse (Suc h) (p - 1) (if s ! (p - 1) \<noteq> CH_MINUS then s[h := s ! p, p := s ! h] else s)
      else s)"
  by auto
termination by (relation "measure (\<lambda>(h, p, s). p - h)") auto

declare itoa_reverse.simps [simp del]

definition s32_itoa :: "u32 \<Rightarrow> int \<Rightarrow> cstring result" where
  "s32_itoa n radix =
     (if n = 0 then Inr [0x30]
      else rbind (loop_result (itoa_loop n (word_of_int radix) [])) (\<lambda>r.
           rbind r (\<lambda>s. Inr (itoa_reverse 0 (length s - 1) s))))"

text \<open>The signed version divides as C does, towards zero.\<close>

partial_function (option) itoa_s_loop :: "int \<Rightarrow> int \<Rightarrow> cstring \<Rightarrow> cstring result option" where
  "itoa_s_loop n radix acc =
     (if n = 0 then Some (Inr acc)
      else if radix = 0 then Some (Inl Divide_error)
      else if n smod radix < 0 \<or> 37 \<le> n smod radix then Some (Inl Out_of_bounds)
      else itoa_s_loop (n sdiv radix) radix (acc @ [digit_chars ! nat (n smod radix)]))"

definition s32_itoa_s :: "int \<Rightarrow> int \<Rightarrow> cstring result" where
  "s32_itoa_s n radix =
     (if n = 0 then Inr [0x30]
      else
        let (start, k) = (if radix = 10 \<and> n < 0 then ([CH_MINUS], - n) else ([], n))
        in rbind (loop_result (itoa_s_loop k radix start)) (\<lambda>r.
           rbind r (\<lambda>s. Inr (itoa_reverse 0 (length s - 1) s))))"

definition s32_print_int :: "u32 \<Rightarrow> u32 \<Rightarrow> int \<Rightarrow> 'a stdio_scheme \<Rightarrow> 'a stdio_scheme result" where
  "s32_print_int i vb radix s = rbind (s32_itoa i radix) (\<lambda>str. Inr (s32_print str vb s))"

definition nibble :: "u8 \<Rightarrow> u8" where
  "nibble l = (if l \<le> 9 then l + 0x30 else l + 0x61 - 0xa)"

definition h2c :: "u8 \<Rightarrow> u8 \<times> u8" where
  "h2c hex = (nibble (drop_bit 4 hex), nibble (hex AND 0x0f))"

fun p_dump_loop :: "nat \<Rightarrow> u32 \<Rightarrow> u32 \<Rightarrow> 'a stdio_scheme \<Rightarrow> 'a stdio_scheme" where
  "p_dump_loop 0 buff vb s = s"
| "p_dump_loop (Suc n) buff vb s =
     (let (c0, c1) = h2c (mem s buff)
      in p_dump_loop n (buff + 1) (vb + 6) (s32_print [c0, c1, 0x20] vb s))"

definition p_dump_u8 :: "u32 \<Rightarrow> int \<Rightarrow> 'a stdio_scheme \<Rightarrow> 'a stdio_scheme" where
  "p_dump_u8 buff len s = p_dump_loop (nat len) buff VB s"

section \<open>Formatted output\<close>

text \<open>Copying a string argument to the output, byte by byte.\<close>

partial_function (option) copy_str :: "mem \<Rightarrow> u32 \<Rightarrow> u32 \<Rightarrow> (mem \<times> u32) option" where
  "copy_str m p a = (if m a = 0 then Some (m, p) else copy_str (m(p := m a)) (p + 1) (a + 1))"

fun put_bytes :: "mem \<Rightarrow> u32 \<Rightarrow> cstring \<Rightarrow> mem \<times> u32" where
  "put_bytes m p [] = (m, p)"
| "put_bytes m p (c # cs) = put_bytes (m(p := c)) (p + 1) cs"

text \<open>
  One conversion. \<open>with_c\<close> is true in \<open>s32_vsprintf\<close>, which alone knows \<open>%c\<close>; any other
  letter prints nothing and still consumes an argument.
\<close>

definition convert :: "bool \<Rightarrow> u8 \<Rightarrow> u32 \<Rightarrow> mem \<Rightarrow> u32 \<Rightarrow> (mem \<times> u32) result" where
  "convert with_c c arg m p =
     (if with_c \<and> c = 0x63 then Inr (m(p := ucast arg), p + 1)
      else if c = 0x64 then rbind (s32_itoa arg 10) (\<lambda>s. Inr (put_bytes m p s))
      else if c = 0x78 then rbind (s32_itoa arg 16) (\<lambda>s. Inr (put_bytes m p s))
      else if c = 0x73 then loop_result (copy_str m p arg)
      else Inr (m, p))"

text \<open>A format that ends in a percent sign is read beyond its NUL.\<close>

fun fmt_loop :: "bool \<Rightarrow> (nat \<Rightarrow> u32) \<Rightarrow> cstring \<Rightarrow> nat \<Rightarrow> mem \<Rightarrow> u32 \<Rightarrow> (mem \<times> u32) result" where
  "fmt_loop with_c args [] i m p = Inr (m, p)"
| "fmt_loop with_c args (c # cs) i m p =
     (if c \<noteq> CH_PERCENT then fmt_loop with_c args cs i (m(p := c)) (p + 1)
      else case cs of
          [] \<Rightarrow> Inl Out_of_bounds
        | d # ds \<Rightarrow> rbind (convert with_c d (args i) m p) (\<lambda>(m', p'). fmt_loop with_c args ds (Suc i) m' p'))"

definition s32_vsprintf :: "u32 \<Rightarrow> cstring \<Rightarrow> (nat \<Rightarrow> u32) \<Rightarrow> mem \<Rightarrow> (int \<times> mem) result" where
  "s32_vsprintf str_buf fmt ap m =
     rbind (fmt_loop True ap fmt 0 m str_buf) (\<lambda>(m', p). Inr (sint (p - str_buf - 1), m'(p := 0)))"

definition s32_sprintf :: "u32 \<Rightarrow> cstring \<Rightarrow> (nat \<Rightarrow> u32) \<Rightarrow> mem \<Rightarrow> (int \<times> mem) result" where
  "s32_sprintf str_buf fmt args m =
     rbind (fmt_loop False args fmt 0 m str_buf) (\<lambda>(m', p). Inr (sint (p - str_buf - 1), m'(p := 0)))"

section \<open>Digits\<close>

fun digits :: "nat \<Rightarrow> nat \<Rightarrow> nat list" where
  "digits r n = (if n = 0 \<or> r < 2 then [] else n mod r # digits r (n div r))"

declare digits.simps [simp del]

lemma digits_0 [simp]: "digits r 0 = []"
  by (simp add: digits.simps)

lemma digits_less: "d \<in> set (digits r n) \<Longrightarrow> d < r"
proof (induction r n rule: digits.induct)
  case (1 r n)
  show ?case
  proof (cases "n = 0 \<or> r < 2")
    case True
    then show ?thesis using "1.prems" by (simp add: digits.simps [of r n])
  next
    case False
    then have "d = n mod r \<or> d \<in> set (digits r (n div r))"
      using "1.prems" by (simp add: digits.simps [of r n])
    then show ?thesis using "1.IH" [OF False] False by auto
  qed
qed

lemma digits_value: "2 \<le> r \<Longrightarrow> foldr (\<lambda>d v. v * r + d) (digits r n) 0 = n"
  by (induction r n rule: digits.induct) (subst digits.simps, auto)

lemma digits_nonempty: "2 \<le> r \<Longrightarrow> n \<noteq> 0 \<Longrightarrow> digits r n \<noteq> []"
  by (subst digits.simps) simp

lemma digits_last: "2 \<le> r \<Longrightarrow> n \<noteq> 0 \<Longrightarrow> last (digits r n) \<noteq> 0"
proof (induction r n rule: digits.induct)
  case (1 r n)
  show ?case
  proof (cases "n div r = 0")
    case True
    then have "digits r n = [n]" using "1.prems" by (subst digits.simps) (simp add: div_eq_0_iff)
    then show ?thesis using "1.prems" by simp
  next
    case False
    then show ?thesis using 1 digits_nonempty [of r "n div r"] by (subst digits.simps) simp
  qed
qed

lemma digits_length: "n < r ^ k \<Longrightarrow> length (digits r n) \<le> k"
proof (induction k arbitrary: n)
  case 0
  then show ?case by simp
next
  case (Suc k)
  then have "n div r < r ^ k" by (simp add: less_mult_imp_div_less mult.commute)
  with Suc.IH show ?case by (subst digits.simps) simp
qed

lemma digit_chars_facts:
  "length digit_chars = 37" "distinct (take 36 digit_chars)" "CH_MINUS \<notin> set digit_chars"
  by (code_simp)+

lemma digit_chars_minus: "d < 37 \<Longrightarrow> digit_chars ! d \<noteq> CH_MINUS"
  using digit_chars_facts(1,3) by (metis nth_mem)

definition digit_val :: "u8 \<Rightarrow> nat" where
  "digit_val c = length (takeWhile (\<lambda>x. x \<noteq> c) digit_chars)"

lemma digit_val_nth:
  assumes "d < 36"
  shows "digit_val (digit_chars ! d) = d"
proof -
  have "\<forall>d \<in> set [0..<36]. digit_val (digit_chars ! d) = d" by code_simp
  then show ?thesis using assms by auto
qed

text \<open>What a string of digits stands for.\<close>

definition num_value :: "nat \<Rightarrow> cstring \<Rightarrow> nat" where
  "num_value r s = foldl (\<lambda>v c. v * r + digit_val c) 0 s"

lemma num_value_digits:
  assumes "2 \<le> r" and "r \<le> 36"
  shows "num_value r (rev (map ((!) digit_chars) (digits r n))) = n"
proof -
  have "foldr (\<lambda>c v. v * r + digit_val c) (map ((!) digit_chars) ds) 0 = foldr (\<lambda>d v. v * r + d) ds 0"
    if "\<And>d. d \<in> set ds \<Longrightarrow> d < 36" for ds
    using that by (induction ds) (auto simp: digit_val_nth)
  moreover have "d < 36" if "d \<in> set (digits r n)" for d using digits_less [OF that] assms(2) by simp
  ultimately show ?thesis
    using digits_value [OF assms(1), of n] by (simp add: num_value_def foldl_conv_foldr)
qed

section \<open>The conversion loops in closed form\<close>

lemma itoa_loop_digits:
  assumes "2 \<le> unat radix" and "unat radix \<le> 36"
  shows "itoa_loop n radix acc = Some (Inr (acc @ map ((!) digit_chars) (digits (unat radix) (unat n))))"
proof (induction "unat n" arbitrary: n acc rule: less_induct)
  case less
  show ?case
  proof (cases "n = 0")
    case True
    then show ?thesis by (subst itoa_loop.simps) simp
  next
    case False
    have "0 < unat n" using False by (simp add: unat_gt_0)
    then have "unat (n div radix) < unat n" using assms(1) by (simp add: unat_div)
    note IH = less [OF this]
    have "unat n mod unat radix < unat radix" using assms(1) by (intro mod_less_divisor) linarith
    then have "unat n mod unat radix < 36" using assms(2) by linarith
    then have d: "unat n mod unat radix < 36" "unat (n mod radix) = unat n mod unat radix"
      "unat (n div radix) = unat n div unat radix"
      by (simp_all add: unat_mod unat_div)
    have ds: "digits (unat radix) (unat n) = unat n mod unat radix # digits (unat radix) (unat n div unat radix)"
      using \<open>0 < unat n\<close> assms(1) by (simp add: digits.simps [of "unat radix" "unat n"])
    have "itoa_loop n radix acc = itoa_loop (n div radix) radix (acc @ [digit_chars ! unat (n mod radix)])"
      using False assms(1) d by (subst itoa_loop.simps) auto
    then show ?thesis by (simp add: IH ds d)
  qed
qed

lemma itoa_reverse_nth:
  assumes "p < length s" and "\<And>i. h < i \<Longrightarrow> i < p \<Longrightarrow> s ! i \<noteq> CH_MINUS"
    and "h + 1 = p \<Longrightarrow> s ! h \<noteq> CH_MINUS"
  shows "length (itoa_reverse h p s) = length s
    \<and> (\<forall>i < length s. itoa_reverse h p s ! i = (if h \<le> i \<and> i \<le> p then s ! (h + p - i) else s ! i))"
  using assms
proof (induction h p s rule: itoa_reverse.induct)
  case (1 h p s)
  show ?case
  proof (cases "h < p")
    case False
    then have "h + p - i = i" if "h \<le> i \<and> i \<le> p" for i using that by arith
    with False show ?thesis by (simp add: itoa_reverse.simps [of h p s])
  next
    case True
    let ?s = "s[h := s ! p, p := s ! h]"
    have chk: "s ! (p - 1) \<noteq> CH_MINUS"
      using "1.prems"(2) [of "p - 1"] "1.prems"(3) True by (cases "h + 1 = p") auto
    have IH: "length (itoa_reverse (Suc h) (p - 1) ?s) = length ?s
      \<and> (\<forall>i < length ?s. itoa_reverse (Suc h) (p - 1) ?s ! i
          = (if Suc h \<le> i \<and> i \<le> p - 1 then ?s ! (Suc h + (p - 1) - i) else ?s ! i))"
      using "1.IH" [OF True] chk "1.prems" True by (auto simp: nth_list_update)
    have "itoa_reverse h p s = itoa_reverse (Suc h) (p - 1) ?s"
      using True chk by (subst itoa_reverse.simps) simp
    then show ?thesis
      using IH True "1.prems"(1) by (auto simp: nth_list_update)
  qed
qed

lemma itoa_reverse_rev:
  assumes "s \<noteq> []" and "\<And>i. 0 < i \<Longrightarrow> i < length s \<Longrightarrow> s ! i \<noteq> CH_MINUS"
    and "length s = 2 \<Longrightarrow> s ! 0 \<noteq> CH_MINUS"
  shows "itoa_reverse 0 (length s - 1) s = rev s"
proof -
  have "length (itoa_reverse 0 (length s - 1) s) = length s
    \<and> (\<forall>i < length s. itoa_reverse 0 (length s - 1) s ! i
        = (if 0 \<le> i \<and> i \<le> length s - 1 then s ! (0 + (length s - 1) - i) else s ! i))"
    by (rule itoa_reverse_nth) (use assms in auto)
  then show ?thesis by (auto simp: list_eq_iff_nth_eq rev_nth)
qed

lemma s32_itoa_digits:
  assumes "2 \<le> radix" and "radix \<le> 36" and "n \<noteq> 0"
  shows "s32_itoa n radix = Inr (rev (map ((!) digit_chars) (digits (nat radix) (unat n))))"
proof -
  let ?ds = "map ((!) digit_chars) (digits (nat radix) (unat n))"
  have r: "unat (word_of_int radix :: u32) = nat radix"
    using assms(1,2) by (simp add: unat_eq_nat_uint uint_word_of_int)
  have n0: "0 < unat n" using assms(3) by (simp add: unat_gt_0)
  have ne: "?ds \<noteq> []" using digits_nonempty [of "nat radix" "unat n"] assms(1) n0 by simp
  have nm: "c \<noteq> CH_MINUS" if c: "c \<in> set ?ds" for c
  proof -
    obtain d where "c = digit_chars ! d" "d \<in> set (digits (nat radix) (unat n))"
      using c unfolding set_map by blast
    then show ?thesis using digits_less [of d "nat radix" "unat n"] digit_chars_minus [of d] assms(2) by simp
  qed
  have "itoa_reverse 0 (length ?ds - 1) ?ds = rev ?ds"
    using nm nth_mem [of _ ?ds] by (intro itoa_reverse_rev [OF ne]) force+
  then show ?thesis
    using assms itoa_loop_digits [of "word_of_int radix" n "[]"] by (simp add: s32_itoa_def r)
qed

text \<open>The signed conversion, for a positive number and for a negative one in decimal.\<close>

lemma itoa_s_loop_digits:
  assumes "2 \<le> radix" and "radix \<le> 36"
  shows "0 \<le> n \<Longrightarrow> itoa_s_loop n radix acc = Some (Inr (acc @ map ((!) digit_chars) (digits (nat radix) (nat n))))"
proof (induction "nat n" arbitrary: n acc rule: less_induct)
  case less
  show ?case
  proof (cases "n = 0")
    case True
    then show ?thesis by (subst itoa_s_loop.simps) simp
  next
    case False
    then have n: "0 < n" using less.prems by simp
    have d: "n smod radix = n mod radix" "n sdiv radix = n div radix"
      using n assms(1) by (simp_all add: signed_modulo_int_def signed_divide_int_def)
    have m: "0 \<le> n mod radix" "n mod radix < 36" using assms pos_mod_bound [of radix n] by (simp, linarith)
    have "n div radix < n" using n assms(1) by (simp add: int_div_less_self)
    then have IH: "itoa_s_loop (n div radix) radix acc
        = Some (Inr (acc @ map ((!) digit_chars) (digits (nat radix) (nat (n div radix)))))" for acc
      using less(1) n assms(1) by (simp add: pos_imp_zdiv_nonneg_iff)
    have "digits (nat radix) (nat n) = nat n mod nat radix # digits (nat radix) (nat n div nat radix)"
      using n assms(1) by (simp add: digits.simps [of "nat radix" "nat n"])
    then have ds: "digits (nat radix) (nat n) = nat (n mod radix) # digits (nat radix) (nat (n div radix))"
      using n assms(1) by (simp add: nat_mod_distrib nat_div_distrib)
    have "itoa_s_loop n radix acc = itoa_s_loop (n div radix) radix (acc @ [digit_chars ! nat (n mod radix)])"
      using n assms(1) m d by (subst itoa_s_loop.simps) (simp add: not_less [symmetric])
    then show ?thesis by (simp add: IH ds)
  qed
qed

lemma map_digits_no_minus:
  "r \<le> 36 \<Longrightarrow> CH_MINUS \<notin> set (map ((!) digit_chars) (digits r n))"
proof
  assume r: "r \<le> 36" and "CH_MINUS \<in> set (map ((!) digit_chars) (digits r n))"
  then obtain d where "CH_MINUS = digit_chars ! d" "d \<in> set (digits r n)" unfolding set_map by blast
  with digit_chars_minus [of d] digits_less [of d r n] r show False by simp
qed

lemma s32_itoa_s_nonneg:
  assumes "2 \<le> radix" and "radix \<le> 36" and "0 < n"
  shows "s32_itoa_s n radix = Inr (rev (map ((!) digit_chars) (digits (nat radix) (nat n))))"
proof -
  let ?ds = "map ((!) digit_chars) (digits (nat radix) (nat n))"
  have ne: "?ds \<noteq> []" using digits_nonempty [of "nat radix" "nat n"] assms by simp
  have "CH_MINUS \<notin> set ?ds" by (rule map_digits_no_minus) (use assms in simp)
  then have "itoa_reverse 0 (length ?ds - 1) ?ds = rev ?ds"
    using nth_mem [of _ ?ds] by (intro itoa_reverse_rev [OF ne]) force+
  then show ?thesis
    using assms itoa_s_loop_digits [of radix n "[]"] by (simp add: s32_itoa_s_def)
qed

lemma s32_itoa_s_negative:
  assumes "n \<le> - 10"
  shows "s32_itoa_s n 10 = Inr (rev (map ((!) digit_chars) (digits 10 (nat (- n)))) @ [CH_MINUS])"
proof -
  let ?ds = "map ((!) digit_chars) (digits 10 (nat (- n)))"
  let ?s = "CH_MINUS # ?ds"
  have two: "2 \<le> length ?ds"
    using assms by (simp add: digits.simps [of 10 "nat (- n)"] digits.simps [of 10 "nat (- n) div 10"]
        div_eq_0_iff)
  have nm: "CH_MINUS \<notin> set ?ds" by (rule map_digits_no_minus) simp
  have "itoa_reverse 0 (length ?s - 1) ?s = rev ?s"
  proof (rule itoa_reverse_rev)
    show "?s ! i \<noteq> CH_MINUS" if "0 < i" "i < length ?s" for i
      using that nm nth_mem [of "i - 1" ?ds] by (cases i) auto
  qed (use two in auto)
  then show ?thesis
    using assms itoa_s_loop_digits [of 10 "- n" "[CH_MINUS]"] by (simp add: s32_itoa_s_def)
qed

section \<open>Screen writes\<close>

lemma s32_print_loop_end: "snd (s32_print_loop cs vb m) = vb + 2 * of_nat (length cs)"
  by (induction cs vb m rule: s32_print_loop.induct) (simp_all add: algebra_simps)

lemma s32_print_loop_outside:
  "(\<And>i. i < length cs \<Longrightarrow> x \<noteq> vb + 2 * of_nat i) \<Longrightarrow> fst (s32_print_loop cs vb m) x = m x"
proof (induction cs arbitrary: vb m)
  case Nil
  then show ?case by simp
next
  case (Cons c cs)
  have ne: "x \<noteq> vb" using Cons.prems [of 0] by simp
  have "fst (s32_print_loop cs (vb + 2) (m(vb := c))) x = (m(vb := c)) x"
  proof (rule Cons.IH)
    show "x \<noteq> vb + 2 + 2 * of_nat i" if "i < length cs" for i
      using Cons.prems [of "Suc i"] that by (simp add: algebra_simps)
  qed
  then show ?case using ne by (simp add: s32_put_char_def)
qed

lemma double_inj:
  assumes "2 * of_nat i = (2 * of_nat j :: u32)" and "i < 2 ^ 31" and "j < 2 ^ 31"
  shows "i = j"
proof -
  have "unat (2 * of_nat k :: u32) = 2 * k" if "k < 2 ^ 31" for k
  proof -
    have "(2 * of_nat k :: u32) = of_nat (2 * k)" by simp
    moreover have "unat (of_nat (2 * k) :: u32) = 2 * k" by (rule unat_of_nat32) (use that in simp)
    ultimately show ?thesis by simp
  qed
  note k = this
  have "unat (2 * of_nat i :: u32) = unat (2 * of_nat j :: u32)" by (simp only: assms(1))
  then show ?thesis unfolding k [OF assms(2)] k [OF assms(3)] by linarith
qed

lemma s32_print_loop_nth:
  "length cs < 2 ^ 31 \<Longrightarrow> i < length cs \<Longrightarrow> fst (s32_print_loop cs vb m) (vb + 2 * of_nat i) = cs ! i"
proof (induction cs arbitrary: vb m i)
  case Nil
  then show ?case by simp
next
  case (Cons c cs)
  show ?case
  proof (cases i)
    case 0
    have "vb \<noteq> vb + 2 + 2 * of_nat j" if "j < length cs" for j
    proof
      assume "vb = vb + 2 + 2 * of_nat j"
      then have "2 * of_nat (Suc j) = (2 * of_nat 0 :: u32)" by (simp add: algebra_simps)
      from double_inj [OF this] show False using that Cons.prems(1) by simp
    qed
    then show ?thesis using 0 by (simp add: s32_print_loop_outside s32_put_char_def)
  next
    case (Suc j)
    then show ?thesis using Cons.IH [of j "vb + 2"] Cons.prems by (simp add: algebra_simps)
  qed
qed

text \<open>White characters in consecutive cells: the common form of all text output.\<close>

fun put_cells :: "cstring \<Rightarrow> u32 \<Rightarrow> mem \<Rightarrow> mem" where
  "put_cells [] vb m = m"
| "put_cells (c # cs) vb m = put_cells cs (vb + 2) (m(vb := c, vb + 1 := WHITE))"

lemma put_cells_outside:
  "length cs \<le> 2 ^ 31 \<Longrightarrow> \<not> addr_in vb (2 * length cs) x \<Longrightarrow> put_cells cs vb m x = m x"
proof (induction cs arbitrary: vb m)
  case Nil
  then show ?case by simp
next
  case (Cons c cs)
  let ?n = "2 * length cs"
  have "\<not> addr_in vb (Suc (Suc ?n)) x" using Cons.prems(2) by simp
  then have "x \<noteq> vb" "x \<noteq> vb + 1" "\<not> addr_in (vb + 1 + 1) ?n x"
    using addr_in_Suc [of "Suc ?n" vb x] addr_in_Suc [of ?n "vb + 1" x] Cons.prems(1) by auto
  moreover have "put_cells cs (vb + 2) (m(vb := c, vb + 1 := WHITE)) x = (m(vb := c, vb + 1 := WHITE)) x"
    using calculation Cons.prems(1) by (intro Cons.IH) (auto simp: add.assoc)
  ultimately show ?case by simp
qed

lemma unat_minus_two: "unat (- 2 :: u32) = 2 ^ 32 - 2"
proof -
  have "unat (- 1 - 1 :: u32) = unat (- 1 :: u32) - 1" by (rule unat_minus_one) simp
  then show ?thesis by (simp add: unat_pred_zero)
qed

lemma put_cells_nth:
  "length cs \<le> 2 ^ 31 \<Longrightarrow> i < length cs \<Longrightarrow>
   put_cells cs vb m (vb + 2 * of_nat i) = cs ! i \<and> put_cells cs vb m (vb + 2 * of_nat i + 1) = WHITE"
proof (induction cs arbitrary: vb m i)
  case Nil
  then show ?case by simp
next
  case (Cons c cs)
  show ?case
  proof (cases i)
    case 0
    have "\<not> addr_in (vb + 2) (2 * length cs) vb" "\<not> addr_in (vb + 2) (2 * length cs) (vb + 1)"
      using Cons.prems(1) by (simp_all add: addr_in_def unat_pred_zero unat_minus_two)
    then show ?thesis using 0 Cons.prems(1) by (simp add: put_cells_outside)
  next
    case (Suc j)
    then show ?thesis using Cons.IH [of j "vb + 2"] Cons.prems by (simp add: algebra_simps)
  qed
qed

lemma blank_cells_put: "blank_cells n vb m = put_cells (replicate n 0x20) vb m"
  by (induction n arbitrary: vb m) auto

section \<open>Formatted output in closed form\<close>

text \<open>What a format prints, given the strings that the arguments point to.\<close>

definition number :: "u32 \<Rightarrow> nat \<Rightarrow> cstring" where
  "number n r = (if n = 0 then [0x30] else rev (map ((!) digit_chars) (digits r (unat n))))"

definition rendered :: "bool \<Rightarrow> (u32 \<Rightarrow> cstring) \<Rightarrow> u8 \<Rightarrow> u32 \<Rightarrow> cstring" where
  "rendered with_c str c arg =
     (if with_c \<and> c = 0x63 then [ucast arg]
      else if c = 0x64 then number arg 10
      else if c = 0x78 then number arg 16
      else if c = 0x73 then str arg
      else [])"

fun render :: "bool \<Rightarrow> (u32 \<Rightarrow> cstring) \<Rightarrow> (nat \<Rightarrow> u32) \<Rightarrow> cstring \<Rightarrow> nat \<Rightarrow> cstring" where
  "render with_c str args [] i = []"
| "render with_c str args (c # cs) i =
     (if c \<noteq> CH_PERCENT then c # render with_c str args cs i
      else case cs of
          [] \<Rightarrow> []
        | d # ds \<Rightarrow> rendered with_c str d (args i) @ render with_c str args ds (Suc i))"

text \<open>The format does not end in a percent sign, and \<open>P\<close> holds of the string arguments.\<close>

fun fmt_ok :: "(nat \<Rightarrow> bool) \<Rightarrow> cstring \<Rightarrow> nat \<Rightarrow> bool" where
  "fmt_ok P [] i = True"
| "fmt_ok P (c # cs) i =
     (if c \<noteq> CH_PERCENT then fmt_ok P cs i
      else case cs of [] \<Rightarrow> False | d # ds \<Rightarrow> (d = 0x73 \<longrightarrow> P i) \<and> fmt_ok P ds (Suc i))"

primrec string_in :: "mem \<Rightarrow> u32 \<Rightarrow> cstring \<Rightarrow> bool" where
  "string_in m a [] \<longleftrightarrow> m a = 0"
| "string_in m a (c # cs) \<longleftrightarrow> m a = c \<and> c \<noteq> 0 \<and> string_in m (a + 1) cs"

primrec avoids :: "u32 \<Rightarrow> nat \<Rightarrow> u32 \<Rightarrow> cstring \<Rightarrow> bool" where
  "avoids q n a [] \<longleftrightarrow> \<not> addr_in q n a"
| "avoids q n a (c # cs) \<longleftrightarrow> \<not> addr_in q n a \<and> avoids q n (a + 1) cs"

lemma string_in_upd:
  "string_in m a cs \<Longrightarrow> avoids q n a cs \<Longrightarrow> addr_in q n x \<Longrightarrow> string_in (m(x := v)) a cs"
  by (induction cs arbitrary: a) auto

lemma put_bytes_append: "put_bytes m p (xs @ ys) = (case put_bytes m p xs of (m', p') \<Rightarrow> put_bytes m' p' ys)"
  by (induction xs arbitrary: m p) auto

lemma put_bytes_end: "snd (put_bytes m p xs) = p + of_nat (length xs)"
  by (induction xs arbitrary: m p) (simp_all add: algebra_simps)

lemma string_in_put_bytes:
  "string_in m a cs \<Longrightarrow> avoids q n a cs \<Longrightarrow> k + length xs \<le> n \<Longrightarrow> n \<le> 2 ^ 32 \<Longrightarrow>
   string_in (fst (put_bytes m (q + of_nat k) xs)) a cs"
proof (induction xs arbitrary: m k)
  case Nil
  then show ?case by simp
next
  case (Cons x xs)
  have "addr_in q n (q + of_nat k)" using Cons.prems by (intro addr_in_offset) auto
  then have "string_in (m(q + of_nat k := x)) a cs" using Cons.prems string_in_upd by blast
  then show ?case using Cons.IH [of "m(q + of_nat k := x)" "Suc k"] Cons.prems by (simp add: algebra_simps fun_upd_def)
qed

lemma copy_str_put_bytes:
  "string_in m a cs \<Longrightarrow> avoids q n a cs \<Longrightarrow> k + length cs \<le> n \<Longrightarrow> n \<le> 2 ^ 32 \<Longrightarrow>
   copy_str m (q + of_nat k) a = Some (put_bytes m (q + of_nat k) cs)"
proof (induction cs arbitrary: m a k)
  case Nil
  then show ?case by (subst copy_str.simps) simp
next
  case (Cons c cs)
  have "addr_in q n (q + of_nat k)" using Cons.prems by (intro addr_in_offset) auto
  then have "string_in (m(q + of_nat k := c)) (a + 1) cs"
    using Cons.prems by (intro string_in_upd [of m "a + 1" cs q n]) simp_all
  then show ?case
    using Cons.IH [of "m(q + of_nat k := c)" "a + 1" "Suc k"] Cons.prems
    by (subst copy_str.simps) (simp add: algebra_simps fun_upd_def)
qed

lemma s32_itoa_number: "2 \<le> r \<Longrightarrow> r \<le> 36 \<Longrightarrow> s32_itoa n (int r) = Inr (number n r)"
  using s32_itoa_digits [of "int r" n] by (auto simp: number_def s32_itoa_def)

lemma convert_rendered:
  assumes "c = 0x73 \<longrightarrow> string_in m arg (str arg) \<and> avoids q n arg (str arg)"
    and "k + length (rendered with_c str c arg) \<le> n" and "n \<le> 2 ^ 32"
  shows "convert with_c c arg m (q + of_nat k) = Inr (put_bytes m (q + of_nat k) (rendered with_c str c arg))"
  using assms copy_str_put_bytes [of m arg "str arg" q n k] s32_itoa_number [of 10 arg] s32_itoa_number [of 16 arg]
  by (auto simp: convert_def rendered_def)

lemma fmt_ok_mono: "fmt_ok P f i \<Longrightarrow> (\<And>j. P j \<Longrightarrow> Q j) \<Longrightarrow> fmt_ok Q f i"
  by (induction P f i rule: fmt_ok.induct) (auto split: list.splits if_splits)

definition arg_readable :: "mem \<Rightarrow> (u32 \<Rightarrow> cstring) \<Rightarrow> u32 \<Rightarrow> nat \<Rightarrow> u32 \<Rightarrow> bool" where
  "arg_readable m str q n a \<longleftrightarrow> string_in m a (str a) \<and> avoids q n a (str a)"

lemma fmt_loop_render:
  assumes "fmt_ok (\<lambda>j. arg_readable m str q n (args j)) fmt i"
    and "k + length (render with_c str args fmt i) \<le> n" and "n \<le> 2 ^ 32"
  shows "fmt_loop with_c args fmt i m (q + of_nat k) = Inr (put_bytes m (q + of_nat k) (render with_c str args fmt i))"
  using assms
proof (induction fmt arbitrary: i m k rule: length_induct)
  case (1 fmt)
  show ?case
  proof (cases fmt)
    case Nil
    then show ?thesis by simp
  next
    case (Cons c cs)
    show ?thesis
    proof (cases "c = CH_PERCENT")
      case False
      let ?m = "m(q + of_nat k := c)"
      have "addr_in q n (q + of_nat k)" using "1.prems" Cons False by (intro addr_in_offset) auto
      then have "fmt_ok (\<lambda>j. arg_readable ?m str q n (args j)) cs i"
        using "1.prems"(1) Cons False
        by (auto elim!: fmt_ok_mono simp: arg_readable_def string_in_upd)
      then have "fmt_loop with_c args cs i ?m (q + of_nat (Suc k))
          = Inr (put_bytes ?m (q + of_nat (Suc k)) (render with_c str args cs i))"
        using "1.prems" Cons False by (intro "1.IH" [rule_format]) auto
      then show ?thesis using Cons False by (simp add: algebra_simps)
    next
      case True
      then obtain d ds where cs: "cs = d # ds" using "1.prems"(1) Cons by (cases cs) auto
      let ?out = "rendered with_c str d (args i)"
      let ?m = "fst (put_bytes m (q + of_nat k) ?out)"
      have room: "k + length ?out + length (render with_c str args ds (Suc i)) \<le> n"
        using "1.prems"(2) True by (simp add: Cons cs)
      have ok: "d = 0x73 \<longrightarrow> arg_readable m str q n (args i)"
        "fmt_ok (\<lambda>j. arg_readable m str q n (args j)) ds (Suc i)"
        using "1.prems"(1) True by (simp_all add: Cons cs)
      have conv: "convert with_c d (args i) m (q + of_nat k) = Inr (put_bytes m (q + of_nat k) ?out)"
        by (rule convert_rendered) (use ok room "1.prems"(3) in \<open>auto simp: arg_readable_def\<close>)
      have "fmt_ok (\<lambda>j. arg_readable ?m str q n (args j)) ds (Suc i)"
        using room "1.prems"(3)
        by (intro fmt_ok_mono [OF ok(2)]) (auto simp: arg_readable_def intro: string_in_put_bytes)
      then have "fmt_loop with_c args ds (Suc i) ?m (q + of_nat (k + length ?out))
          = Inr (put_bytes ?m (q + of_nat (k + length ?out)) (render with_c str args ds (Suc i)))"
        using room "1.prems"(3) by (intro "1.IH" [rule_format]) (auto simp: Cons cs)
      moreover obtain m' where "put_bytes m (q + of_nat k) ?out = (m', q + of_nat (k + length ?out))"
        using put_bytes_end [of m "q + of_nat k" ?out] by (cases "put_bytes m (q + of_nat k) ?out") (simp add: algebra_simps)
      ultimately show ?thesis
        using True conv by (simp add: Cons cs put_bytes_append)
    qed
  qed
qed

lemma put_bytes_outside:
  "length xs \<le> 2 ^ 32 \<Longrightarrow> \<not> addr_in p (length xs) x \<Longrightarrow> fst (put_bytes m p xs) x = m x"
proof (induction xs arbitrary: m p)
  case Nil
  then show ?case by simp
next
  case (Cons c cs)
  then have "x \<noteq> p" "\<not> addr_in (p + 1) (length cs) x" using addr_in_Suc [of "length cs" p x] by auto
  then have "fst (put_bytes (m(p := c)) (p + 1) cs) x = (m(p := c)) x"
    using Cons.prems(1) by (intro Cons.IH) auto
  then show ?case using \<open>x \<noteq> p\<close> by simp
qed

lemma put_bytes_string:
  "0 \<notin> set xs \<Longrightarrow> length xs < 2 ^ 32 \<Longrightarrow>
   string_in ((fst (put_bytes m p xs))(p + of_nat (length xs) := 0)) p xs"
proof (induction xs arbitrary: m p)
  case Nil
  then show ?case by simp
next
  case (Cons c cs)
  let ?m = "fst (put_bytes (m(p := c)) (p + 1) cs)"
  have "string_in (?m(p + 1 + of_nat (length cs) := 0)) (p + 1) cs"
    by (rule Cons.IH) (use Cons.prems in auto)
  moreover have "\<not> addr_in (p + 1) (length cs) p" using Cons.prems(2) by (intro addr_in_succ_self) simp
  then have "?m p = (m(p := c)) p" using Cons.prems(2) by (intro put_bytes_outside) auto
  moreover have "p \<noteq> p + 1 + of_nat (length cs)"
  proof
    assume "p = p + 1 + of_nat (length cs)"
    then have "(of_nat (Suc (length cs)) :: u32) = 0" by (simp add: algebra_simps)
    then have "unat (of_nat (Suc (length cs)) :: u32) = 0" by (simp only: unsigned_0)
    then show False using Cons.prems(2) unat_of_nat32 [of "Suc (length cs)"] by simp
  qed
  ultimately show ?case using Cons.prems(1) by (simp add: algebra_simps fun_upd_def)
qed

section \<open>Properties\<close>

text \<open>C24. Number to string: for every radix from 2 to 36 the conversion returns, the string has the
  value of the number in that radix and no leading zero, and from radix 8 on it fits the
  12-byte buffers of the callers with its NUL.\<close>

theorem itoa_roundtrip:
  assumes "2 \<le> radix" and "radix \<le> 36"
  shows "\<exists>s. s32_itoa n radix = Inr s \<and> num_value (nat radix) s = unat n \<and> s \<noteq> []
    \<and> (n \<noteq> 0 \<longrightarrow> hd s \<noteq> 0x30) \<and> (8 \<le> radix \<longrightarrow> length s \<le> 11)"
proof (cases "n = 0")
  case True
  have "digit_val 0x30 = 0" by code_simp
  with True show ?thesis by (simp add: s32_itoa_def num_value_def)
next
  case False
  let ?r = "nat radix"
  let ?ds = "digits ?r (unat n)"
  have r: "2 \<le> ?r" "?r \<le> 36" and n0: "unat n \<noteq> 0" using assms False by (auto simp: unat_eq_0)
  have ne: "?ds \<noteq> []" by (rule digits_nonempty [OF r(1) n0])
  have "hd (rev (map ((!) digit_chars) ?ds)) = digit_chars ! last ?ds" using ne by (simp add: hd_rev last_map)
  moreover have "digit_chars ! last ?ds \<noteq> 0x30"
  proof
    assume "digit_chars ! last ?ds = 0x30"
    also have "(0x30 :: u8) = digit_chars ! 0" by code_simp
    finally have "digit_val (digit_chars ! last ?ds) = digit_val (digit_chars ! 0)" by simp
    then have "last ?ds = 0"
      using digits_less [OF last_in_set [OF ne]] r(2) digit_val_nth [of "last ?ds"] digit_val_nth [of 0] by simp
    then show False using digits_last [OF r(1) n0] by simp
  qed
  moreover have "length ?ds \<le> 11" if "8 \<le> radix"
  proof (rule digits_length)
    have "unat n < 8 ^ 11" using unsigned_less [of n, where ?'a = nat] by simp
    also have "(8 :: nat) ^ 11 \<le> ?r ^ 11" using that by (intro power_mono) auto
    finally show "unat n < ?r ^ 11" .
  qed
  ultimately show ?thesis
    using s32_itoa_digits [OF assms False] num_value_digits [OF r, of "unat n"] ne by simp
qed

theorem itoa_roundtrip_witness: "\<exists>s. s32_itoa 0xbeef 16 = Inr s \<and> num_value 16 s = 0xbeef \<and> length s \<le> 11"
  using itoa_roundtrip [of 16 "0xbeef"] by auto

text \<open>Also: The signed conversion is right for a positive number, but for a negative number of two or
  more decimal digits it puts the minus sign after the digits.\<close>

theorem itoa_s_sign:
  shows "(0 < n \<longrightarrow> s32_itoa_s n 10 = Inr (rev (map ((!) digit_chars) (digits 10 (nat n)))))
    \<and> (n \<le> - 10 \<longrightarrow> s32_itoa_s n 10 = Inr (rev (map ((!) digit_chars) (digits 10 (nat (- n)))) @ [CH_MINUS]))"
  using s32_itoa_s_nonneg [of 10 n] s32_itoa_s_negative [of n] by simp

theorem itoa_s_sign_witness: "s32_itoa_s (- 12) 10 = Inr (map of_char ''12-'')"
proof -
  have "digits 10 12 = [2, 1]" by (simp add: digits.simps)
  moreover have "digit_chars ! 1 = of_char CHR ''1''" "digit_chars ! 2 = of_char CHR ''2''"
    "(CH_MINUS :: u8) = of_char CHR ''-''" by code_simp+
  ultimately show ?thesis using itoa_s_sign [of "- 12"] by simp
qed

text \<open>C25. \<open>s32_sprintf\<close> leaves at the buffer exactly the string that the format and the arguments
  denote, NUL-terminated, and no other byte of memory changes, provided the string arguments
  do not overlap the buffer; its return value is one less than the length.\<close>

theorem sprintf_renders:
  assumes "fmt_ok (\<lambda>j. arg_readable m str buf (length (render False str args fmt 0)) (args j)) fmt 0"
    and "length (render False str args fmt 0) < 2 ^ 31" and "0 \<notin> set (render False str args fmt 0)"
  shows "\<exists>m'. s32_sprintf buf fmt args m = Inr (int (length (render False str args fmt 0)) - 1, m')
    \<and> string_in m' buf (render False str args fmt 0)
    \<and> (\<forall>x. \<not> addr_in buf (Suc (length (render False str args fmt 0))) x \<longrightarrow> m' x = m x)"
proof -
  let ?out = "render False str args fmt 0"
  let ?n = "length ?out"
  have run: "fmt_loop False args fmt 0 m buf = Inr (put_bytes m buf ?out)"
    using fmt_loop_render [OF assms(1), of 0 False] assms(2) by simp
  have ret: "sint (of_nat ?n - 1 :: u32) = int ?n - 1"
  proof -
    have "(of_nat ?n - 1 :: u32) = word_of_int (int ?n - 1)" by simp
    then show ?thesis using assms(2) by (simp only: sint_sbintrunc') (simp add: signed_take_bit_int_eq_self)
  qed
  have out: "fst (put_bytes m buf ?out) x = m x" if "\<not> addr_in buf (Suc ?n) x" for x
    using that assms(2) by (intro put_bytes_outside) (auto simp: addr_in_def)
  have "addr_in buf (Suc ?n) (buf + of_nat ?n)" using assms(2) by (intro addr_in_offset) auto
  then show ?thesis
    using run ret put_bytes_end [of m buf ?out] put_bytes_string [OF assms(3), of m buf] out assms(2)
    by (auto simp: s32_sprintf_def split: prod.split)
qed

theorem sprintf_renders_witness:
  "\<exists>m'. s32_sprintf 0x1000 (map of_char ''%s_%d'') (\<lambda>i. if i = 0 then 0x2000 else 8)
      ((\<lambda>_. 0)(0x2000 := of_char CHR ''A'')) = Inr (2, m')
    \<and> string_in m' 0x1000 (map of_char ''A_8'')"
proof -
  let ?m = "(\<lambda>_. 0)(0x2000 := of_char CHR ''A'') :: mem" and ?args = "\<lambda>i. if i = 0 then 0x2000 else 8 :: u32"
    and ?str = "\<lambda>_ :: u32. [of_char CHR ''A''] :: cstring"
  have d: "digits 10 8 = [8]" "digit_chars ! 8 = of_char CHR ''8''" by (simp add: digits.simps, code_simp)
  have out: "render False ?str ?args (map of_char ''%s_%d'') 0 = map of_char ''A_8''"
    by (simp add: rendered_def number_def d)
  have "fmt_ok (\<lambda>j. arg_readable ?m ?str 0x1000 (length (map of_char ''A_8'' :: cstring)) (?args j)) (map of_char ''%s_%d'') 0"
    by (simp add: arg_readable_def addr_in_def)
  then show ?thesis
    using sprintf_renders [of ?m ?str "0x1000" ?args "map of_char ''%s_%d''"] unfolding out by auto
qed

text \<open>Also: \<open>s32_print\<close> writes one character into every other byte from the given screen address on,
  leaves every other byte (the colours too) as it was, and keeps the cursor pointer below
  the last screen line, wrapping to the second line.\<close>

theorem print_screen:
  assumes "length s < 2 ^ 31"
  shows "(\<forall>i < length s. mem (s32_print s vb st) (vb + 2 * of_nat i) = s ! i)
    \<and> (\<forall>x. (\<forall>i < length s. x \<noteq> vb + 2 * of_nat i) \<longrightarrow> mem (s32_print s vb st) x = mem st x)
    \<and> sint (cur_vb (s32_print s vb st)) < 0xb8000 + 160 * 24"
  using s32_print_loop_nth [OF assms] s32_print_loop_outside [of s]
  by (auto simp: s32_print_def Let_def case_prod_beta)

theorem print_screen_witness:
  "mem (s32_print [0x41, 0x42] 0xb8000 blank_stdio) 0xb8002 = 0x42"
proof -
  have "(1 :: nat) < length [0x41, 0x42 :: u8]" by simp
  with print_screen [of "[0x41, 0x42]" "0xb8000" blank_stdio]
  have "mem (s32_print [0x41, 0x42] 0xb8000 blank_stdio) (0xb8000 + 2 * of_nat 1) = [0x41, 0x42] ! 1" by auto
  then show ?thesis by simp
qed

end
