(* ===== verification/Draw.thy ===== *)
theory Draw
  imports Kstdio
begin

text \<open>
  Drawing in the 320 x 200 graphics mode: vga/draw_func.c. A pixel is one byte at
  0xa0000 + x + 320 * y. The pictures and fonts are static tables of data; they are
  arguments of the model. A counting loop is a fold over the values of its counter.
\<close>

unbundle bit_operations_syntax

section \<open>Pictures\<close>

record Bitmap =
  bits :: "nat \<Rightarrow> u8"
  bm_w :: nat
  bm_h :: nat

record Picture = Bitmap +
  palette :: "nat \<Rightarrow> u8"

text \<open>The static tables the drawing code uses.\<close>

record Assets =
  font :: "nat \<Rightarrow> u8"
  str_image :: Bitmap
  ch_image :: Bitmap
  bg :: Picture
  os_bg :: Picture
  pe_320_180 :: Picture

abbreviation (input) VGA_MEM :: u32 where "VGA_MEM \<equiv> 0xa0000"
abbreviation (input) PALETTE_MASK :: u16 where "PALETTE_MASK \<equiv> 0x3c6"
abbreviation (input) PALETTE_REGISTER_WR :: u16 where "PALETTE_REGISTER_WR \<equiv> 0x3c8"
abbreviation (input) PALETTE_DATA :: u16 where "PALETTE_DATA \<equiv> 0x3c9"

text \<open>A set of tables with every font byte equal to \<open>c\<close> and empty pictures.\<close>

definition plain_assets :: "u8 \<Rightarrow> Assets" where
  "plain_assets c =
     (let b = \<lparr>bits = \<lambda>_. 0, bm_w = 0, bm_h = 0\<rparr>; p = \<lparr>bits = \<lambda>_. 0, bm_w = 0, bm_h = 0, palette = \<lambda>_. 0\<rparr>
      in \<lparr>font = \<lambda>_. c, str_image = b, ch_image = b, bg = p, os_bg = p, pe_320_180 = p\<rparr>)"

section \<open>Drawing\<close>

definition pixel :: "int \<Rightarrow> int \<Rightarrow> u32" where
  "pixel x y = VGA_MEM + word_of_int x + word_of_int (y * 320)"

definition draw_point :: "int \<Rightarrow> int \<Rightarrow> u8 \<Rightarrow> 'a machine_scheme \<Rightarrow> 'a machine_scheme" where
  "draw_point x y c s = poke (pixel x y) c s"

definition set_palette :: "int \<Rightarrow> u8 \<Rightarrow> u8 \<Rightarrow> u8 \<Rightarrow> 'a machine_scheme \<Rightarrow> 'a machine_scheme" where
  "set_palette index r g b s =
     io_out8 PALETTE_DATA b (io_out8 PALETTE_DATA g (io_out8 PALETTE_DATA r
       (io_out8 PALETTE_REGISTER_WR (word_of_int index) (io_out8 PALETTE_MASK 0xff s))))"

definition draw_box :: "'a machine_scheme \<Rightarrow> 'a machine_scheme" where
  "draw_box = fold (\<lambda>x. fold (\<lambda>y. poke (pixel (int x) (int y)) 1) [0..<200]) [0..<320]"

definition draw_box_1 :: "int \<Rightarrow> int \<Rightarrow> int \<Rightarrow> 'a machine_scheme \<Rightarrow> 'a machine_scheme" where
  "draw_box_1 draw_x draw_y c =
     fold (\<lambda>x. fold (\<lambda>y. poke (pixel (draw_x + int x) (draw_y + int y)) (word_of_int c)) [0..<40]) [0..<40]"

text \<open>The eight pixels of one byte, most significant bit first, from column \<open>x\<close> on.\<close>

definition draw_byte :: "u8 \<Rightarrow> int \<Rightarrow> int \<Rightarrow> u8 \<Rightarrow> 'a machine_scheme \<Rightarrow> 'a machine_scheme" where
  "draw_byte c x y color =
     fold (\<lambda>i s. if drop_bit (7 - i) c AND 1 = 1 then draw_point (x + int i) y color s else s) [0..<8]"

definition draw_str :: "Assets \<Rightarrow> int \<Rightarrow> int \<Rightarrow> u8 \<Rightarrow> 'a machine_scheme \<Rightarrow> 'a machine_scheme" where
  "draw_str A ox oy color =
     (let b = str_image A
      in fold (\<lambda>y. fold (\<lambda>x. draw_byte (bits b (y * bm_w b + x)) (ox + int (8 * x)) (oy + int y) color)
           [0..<bm_w b]) [0..<bm_h b])"

definition draw_char :: "Assets \<Rightarrow> int \<Rightarrow> int \<Rightarrow> u8 \<Rightarrow> 'a machine_scheme \<Rightarrow> 'a machine_scheme" where
  "draw_char A dx dy ch =
     (let b = ch_image A
      in fold (\<lambda>y. fold (\<lambda>x. draw_byte (bits b (y * bm_w b + x)) (dx + int (8 * x)) (dy + int y) 7)
           [0..<bm_w b]) [0..<bm_h b])"

text \<open>\<open>draw_bg\<close> loads the palette and copies the picture; the argument \<open>oy\<close> is not used.\<close>

definition draw_bg :: "int \<Rightarrow> int \<Rightarrow> Picture \<Rightarrow> 'a machine_scheme \<Rightarrow> 'a machine_scheme" where
  "draw_bg ox oy p s =
     fold (\<lambda>y. fold (\<lambda>x. draw_point (ox + int x) (int y) (bits p (y * bm_w p + x))) [0..<bm_w p]) [0..<bm_h p]
       (fold (\<lambda>i. set_palette (int i) (palette p (3 * i)) (palette p (3 * i + 1)) (palette p (3 * i + 2)))
         [0..<256] s)"

definition draw_20x12_grid :: "int \<Rightarrow> int \<Rightarrow> u8 \<Rightarrow> 'a machine_scheme \<Rightarrow> 'a machine_scheme" where
  "draw_20x12_grid x y c = fold (\<lambda>h. fold (\<lambda>w. draw_point (x + int w) (y + int h) c) [0..<20]) [0..<12]"

text \<open>The loops step by 12 and 20, so that there are 17 rows of 16 boxes.\<close>

definition draw_256_grid :: "'a machine_scheme \<Rightarrow> 'a machine_scheme" where
  "draw_256_grid =
     fold (\<lambda>j. fold (\<lambda>i. draw_20x12_grid (int (20 * i)) (int (12 * j)) (of_nat (16 * j + i))) [0..<16]) [0..<17]"

definition draw_8x16_ch :: "Assets \<Rightarrow> int \<Rightarrow> int \<Rightarrow> u8 \<Rightarrow> u8 \<Rightarrow> 'a machine_scheme \<Rightarrow> 'a machine_scheme" where
  "draw_8x16_ch A ox oy ch color =
     fold (\<lambda>y. draw_byte (font A (unat ch * 16 + y)) ox (oy + int y) color) [0..<16]"

section \<open>What a fold of pixel writes changes\<close>

text \<open>Each step changes memory only at addresses in \<open>P\<close>; so does the whole fold.\<close>

definition writes_in :: "(u32 \<Rightarrow> bool) \<Rightarrow> ('a machine_scheme \<Rightarrow> 'a machine_scheme) \<Rightarrow> bool" where
  "writes_in P f \<longleftrightarrow> (\<forall>s x. \<not> P x \<longrightarrow> mem (f s) x = mem s x)"

lemma writes_in_fold: "(\<And>i. i \<in> set is \<Longrightarrow> writes_in P (f i)) \<Longrightarrow> writes_in P (fold f is)"
  by (induction "is") (auto simp: writes_in_def)

lemma writes_in_point: "P (pixel x y) \<Longrightarrow> writes_in P (draw_point x y c)"
  by (auto simp: writes_in_def draw_point_def poke_def)

lemma writes_in_poke: "P a \<Longrightarrow> writes_in P (poke a c)"
  by (auto simp: writes_in_def poke_def)

lemma writes_in_byte:
  "(\<And>i. i < 8 \<Longrightarrow> P (pixel (x + int i) y)) \<Longrightarrow> writes_in P (draw_byte c x y color)"
  unfolding draw_byte_def
  by (rule writes_in_fold) (auto simp: writes_in_def draw_point_def poke_def)

text \<open>Pixels of the visible screen and of the 64 KB window of video memory.\<close>

lemma pixel_offset:
  assumes "0 \<le> x" and "0 \<le> y" and "x + 320 * y < n" and "n \<le> 2 ^ 32"
  shows "unat (pixel x y - VGA_MEM) = nat (x + 320 * y)"
proof -
  have px: "pixel x y - VGA_MEM = word_of_int (x + 320 * y)" by (simp add: pixel_def algebra_simps)
  have "0 \<le> x + 320 * y" "x + 320 * y < 2 ^ 32" using assms by linarith+
  then have "uint (word_of_int (x + 320 * y) :: u32) = x + 320 * y"
    by (simp only: uint_word_of_int_eq) (simp add: take_bit_int_eq_self)
  then show ?thesis unfolding px unat_eq_nat_uint by simp
qed

lemma pixel_in_window:
  assumes "0 \<le> x" and "0 \<le> y" and "x + 320 * y < int n" and "n \<le> 2 ^ 32"
  shows "addr_in VGA_MEM n (pixel x y)"
  using assms pixel_offset [of x y "int n"] by (simp add: addr_in_def nat_less_iff)

lemma pixel_inj:
  assumes "0 \<le> x" "x < 320" "0 \<le> y" "y < 1000" "0 \<le> x'" "x' < 320" "0 \<le> y'" "y' < 1000"
  shows "pixel x y = pixel x' y' \<longleftrightarrow> x = x' \<and> y = y'"
proof
  assume "pixel x y = pixel x' y'"
  moreover have "unat (pixel x y - VGA_MEM) = nat (x + 320 * y)"
    by (rule pixel_offset [of _ _ 1000000]) (use assms in simp_all)
  moreover have "unat (pixel x' y' - VGA_MEM) = nat (x' + 320 * y')"
    by (rule pixel_offset [of _ _ 1000000]) (use assms in simp_all)
  ultimately have "nat (x + 320 * y) = nat (x' + 320 * y')" by metis
  then have eq: "x + 320 * y = x' + 320 * y'" using assms by linarith
  have "(x + 320 * y) div 320 = y" "(x' + 320 * y') div 320 = y'" using assms by simp_all
  with eq show "x = x' \<and> y = y'" by simp
qed simp

section \<open>Characters\<close>

lemma draw_byte_pixels:
  assumes "0 \<le> x" and "x \<le> 312" and "0 \<le> y" and "y < 1000"
  shows "mem (draw_byte c x y color s) a =
    (if \<exists>i < 8. a = pixel (x + int i) y \<and> bit c (7 - i) then color else mem s a)"
proof -
  have bit: "drop_bit (7 - i) c AND 1 = 1 \<longleftrightarrow> bit c (7 - i)" for i
    by (simp add: bit_iff_and_drop_bit_eq_1)
  have "mem (fold (\<lambda>i s. if drop_bit (7 - i) c AND 1 = 1 then draw_point (x + int i) y color s else s) is s) a
    = (if \<exists>i \<in> set is. a = pixel (x + int i) y \<and> bit c (7 - i) then color else mem s a)" for "is"
    by (induction "is" arbitrary: s) (auto simp: bit draw_point_def poke_def)
  then show ?thesis by (auto simp: draw_byte_def)
qed

lemma draw_8x16_ch_pixels:
  assumes "0 \<le> x" and "x \<le> 312" and "0 \<le> y" and "y < 984"
  shows "mem (draw_8x16_ch A x y ch color s) a =
    (if \<exists>i < 8. \<exists>j < 16. a = pixel (x + int i) (y + int j) \<and> bit (font A (unat ch * 16 + j)) (7 - i)
     then color else mem s a)"
proof -
  have "mem (fold (\<lambda>j. draw_byte (font A (unat ch * 16 + j)) x (y + int j) color) js s) a =
    (if \<exists>i < 8. \<exists>j \<in> set js. a = pixel (x + int i) (y + int j) \<and> bit (font A (unat ch * 16 + j)) (7 - i)
     then color else mem s a)" if "set js \<subseteq> {..<16}" for js
    using that
  proof (induction js arbitrary: s)
    case Nil
    then show ?case by simp
  next
    case (Cons j js)
    then have "y + int j < 1000" using assms by auto
    then show ?case using Cons assms by (auto simp: draw_byte_pixels)
  qed
  moreover have "set [0..<16] \<subseteq> {..<16 :: nat}" by auto
  ultimately have "mem (draw_8x16_ch A x y ch color s) a =
    (if \<exists>i < 8. \<exists>j \<in> set [0..<16]. a = pixel (x + int i) (y + int j) \<and> bit (font A (unat ch * 16 + j)) (7 - i)
     then color else mem s a)" unfolding draw_8x16_ch_def by blast
  then show ?thesis by auto
qed

section \<open>Properties\<close>

text \<open>C26. A character drawn on the visible screen is the glyph of the font, pixel by pixel: the pixel
  in column \<open>i\<close> and row \<open>j\<close> of its cell gets the colour exactly when the font has that bit
  set, and no other byte of memory changes.\<close>

theorem draw_ch_glyph:
  assumes "0 \<le> x" and "x \<le> 312" and "0 \<le> y" and "y \<le> 184"
  shows "(\<forall>i < 8. \<forall>j < 16. mem (draw_8x16_ch A x y ch color s) (pixel (x + int i) (y + int j))
        = (if bit (font A (unat ch * 16 + j)) (7 - i) then color else mem s (pixel (x + int i) (y + int j))))
    \<and> (\<forall>a. (\<forall>i < 8. \<forall>j < 16. a \<noteq> pixel (x + int i) (y + int j)) \<longrightarrow> mem (draw_8x16_ch A x y ch color s) a = mem s a)"
proof -
  have inj: "pixel (x + int i) (y + int j) = pixel (x + int k) (y + int l) \<longleftrightarrow> i = k \<and> j = l"
    if "i < 8" "j < 16" "k < 8" "l < 16" for i j k l
    using that assms pixel_inj [of "x + int i" "y + int j" "x + int k" "y + int l"] by simp
  show ?thesis
    using assms by (auto simp: draw_8x16_ch_pixels inj cong: conj_cong)
qed

theorem draw_ch_glyph_witness:
  "mem (draw_8x16_ch (plain_assets 0x80) 8 16 0x41 5 blank_stdio) (pixel 8 17) = 5"
proof -
  let ?s = "draw_8x16_ch (plain_assets 0x80) 8 16 0x41 5 blank_stdio"
  have all: "\<forall>i < 8. \<forall>j < 16. mem ?s (pixel (8 + int i) (16 + int j))
      = (if bit (font (plain_assets 0x80) (unat (0x41 :: u8) * 16 + j)) (7 - i) then 5
         else mem blank_stdio (pixel (8 + int i) (16 + int j)))"
    by (rule conjunct1 [OF draw_ch_glyph]) simp_all
  have "mem ?s (pixel (8 + int 0) (16 + int 1))
      = (if bit (font (plain_assets 0x80) (unat (0x41 :: u8) * 16 + 1)) (7 - 0) then 5
         else mem blank_stdio (pixel (8 + int 0) (16 + int 1)))"
    by (rule all [rule_format]) simp_all
  moreover have "bit (0x80 :: u8) 7" by code_simp
  then have "bit (font (plain_assets 0x80) k) 7" for k by (simp add: plain_assets_def Let_def)
  ultimately show ?thesis by simp
qed

text \<open>Also: The colour grid paints 17 rows of boxes: it stays inside the 64 KB window of video memory,
  though its last row reaches below the 200 visible lines.\<close>

theorem draw_256_grid_window:
  fixes s :: "'a machine_scheme"
  assumes "\<not> addr_in VGA_MEM 65280 a"
  shows "mem (draw_256_grid s) a = mem s a"
proof -
  have "writes_in (addr_in VGA_MEM 65280) (draw_256_grid :: 'a machine_scheme \<Rightarrow> 'a machine_scheme)"
    unfolding draw_256_grid_def draw_20x12_grid_def
  proof (intro writes_in_fold writes_in_point pixel_in_window)
    fix j i h w :: nat
    assume "j \<in> set [0..<17]" "i \<in> set [0..<16]" "h \<in> set [0..<12]" "w \<in> set [0..<20]"
    then have "j \<le> 16" "i \<le> 15" "h \<le> 11" "w \<le> 19" by auto
    then show "int (20 * i) + int w + 320 * (int (12 * j) + int h) < int 65280" by simp
  qed simp_all
  with assms show ?thesis by (simp add: writes_in_def)
qed

theorem draw_256_grid_window_witness: "mem (draw_256_grid blank_stdio) 0xb8000 = mem blank_stdio 0xb8000"
  by (rule draw_256_grid_window) (simp add: addr_in_def)

end
