(* ===== verification/Console.thy ===== *)
theory Console
  imports Draw
begin

text \<open>
  The consoles: tty/console.c and include/console.h. Three text consoles share the video
  memory at 0xb8000, the fourth draws in graphics mode. A console pointer is its index in
  \<open>console_table\<close>; the globals of the module extend the state.
\<close>

unbundle bit_operations_syntax

section \<open>State\<close>

record Console =
  vm_start :: u32
  vm_end :: u32
  cur_vm :: u32
  cur_x :: u32
  cur_y :: u32
  con_type :: u8

record consoles = stdio +
  console_table :: "nat \<Rightarrow> Console"
  cur_console_index :: int
  text_vb :: u32
  text_fg :: u8
  text_bg :: u8
  cur_pos :: u16
  g_cur_x :: u32
  g_cur_y :: u32
  odd_bg :: u8

abbreviation (input) TEXT_CONSOLE :: u8 where "TEXT_CONSOLE \<equiv> 0"
abbreviation (input) GRAPHIC_CONSOLE :: u8 where "GRAPHIC_CONSOLE \<equiv> 1"
abbreviation (input) CONSOLE_NUM :: nat where "CONSOLE_NUM \<equiv> 4"
abbreviation (input) TTY_NUM :: nat where "TTY_NUM \<equiv> 4"
abbreviation (input) VIDEO_RAM_SIZE :: u32 where "VIDEO_RAM_SIZE \<equiv> 10922"
abbreviation (input) CRTC_ADDR :: u16 where "CRTC_ADDR \<equiv> 0x3D4"
abbreviation (input) CRTC_DATA :: u16 where "CRTC_DATA \<equiv> 0x3D5"
abbreviation (input) START_ADDR_H :: u8 where "START_ADDR_H \<equiv> 0xC"
abbreviation (input) START_ADDR_L :: u8 where "START_ADDR_L \<equiv> 0xD"
abbreviation (input) CURSOR_H :: u8 where "CURSOR_H \<equiv> 0xE"
abbreviation (input) CURSOR_L :: u8 where "CURSOR_L \<equiv> 0xF"

definition upd_console :: "nat \<Rightarrow> (Console \<Rightarrow> Console) \<Rightarrow> 'a consoles_scheme \<Rightarrow> 'a consoles_scheme" where
  "upd_console i f s = s\<lparr>console_table := (console_table s)(i := f (console_table s i))\<rparr>"

section \<open>Initialisation and hardware registers\<close>

definition init_console :: "'a consoles_scheme \<Rightarrow> 'a consoles_scheme" where
  "init_console s =
     upd_console (CONSOLE_NUM - 1)
       (\<lambda>c. c\<lparr>con_type := GRAPHIC_CONSOLE, vm_start := 0xa0000, cur_vm := 0xa0000\<rparr>)
       (fold (\<lambda>i. upd_console i (\<lambda>c. c\<lparr>vm_start := 0xb8000 + of_nat i * VIDEO_RAM_SIZE,
           cur_vm := 0xb8000 + of_nat i * VIDEO_RAM_SIZE, cur_x := 0, cur_y := 2, con_type := TEXT_CONSOLE\<rparr>))
         [0..<CONSOLE_NUM - 1] s)"

definition blank_consoles :: consoles where
  "blank_consoles = init_console (stdio.extend blank_stdio (consoles.fields (\<lambda>_. \<lparr>vm_start = 0, vm_end = 0,
     cur_vm = 0, cur_x = 0, cur_y = 0, con_type = 0\<rparr>) 0 0xb8000 0 0 0 0 0 0))"

definition select_console :: "int \<Rightarrow> 'a consoles_scheme \<Rightarrow> int \<times> 'a consoles_scheme" where
  "select_console console_index s =
     (if 0 \<le> console_index \<and> console_index < int TTY_NUM
      then (0, s\<lparr>cur_console_index := console_index\<rparr>) else (- 1, s))"

text \<open>A 16-bit value written to a pair of controller registers, high byte first.\<close>

definition set_cursor :: "u16 \<Rightarrow> 'a machine_scheme \<Rightarrow> 'a machine_scheme" where
  "set_cursor pos s =
     enable_int (io_out8 CRTC_DATA (ucast (pos AND 0xff)) (io_out8 CRTC_ADDR CURSOR_L
       (io_out8 CRTC_DATA (ucast (drop_bit 8 pos AND 0xff)) (io_out8 CRTC_ADDR CURSOR_H (disable_int s)))))"

definition set_video_start_addr :: "u16 \<Rightarrow> 'a machine_scheme \<Rightarrow> 'a machine_scheme" where
  "set_video_start_addr addr s =
     enable_int (io_out8 CRTC_DATA (ucast (addr AND 0xff)) (io_out8 CRTC_ADDR START_ADDR_L
       (io_out8 CRTC_DATA (ucast (drop_bit 8 addr AND 0xff)) (io_out8 CRTC_ADDR START_ADDR_H (disable_int s)))))"

section \<open>The console-less printing functions\<close>

definition s32_set_text_color :: "u8 \<Rightarrow> u8 \<Rightarrow> 'a consoles_scheme \<Rightarrow> 'a consoles_scheme" where
  "s32_set_text_color fg bgc s = s\<lparr>text_fg := fg, text_bg := bgc\<rparr>"

definition printable :: "u8 \<Rightarrow> bool" where
  "printable ch \<longleftrightarrow> 0x20 \<le> ch \<and> ch \<le> 0x7e"

definition print_char_step :: "u8 \<Rightarrow> 'a consoles_scheme \<Rightarrow> 'a consoles_scheme result" where
  "print_char_step ch s =
     (if ch = 0x0d then
        (let tv = text_vb s - (text_vb s - 0xb8000) mod 160;
             s1 = s\<lparr>g_cur_x := 0, text_vb := tv, cur_pos := ucast ((tv - 0xb8000) div 2)\<rparr>
         in s32_print_int (ucast (cur_pos s1)) (0xb8000 + 160 * 1 + 18 * 2 + 20) 16 s1)
      else if ch = 0x0a then
        (let s1 = s\<lparr>text_vb := text_vb s + 160, cur_pos := cur_pos s + 80\<rparr>
         in rbind (s32_print_int (ucast (cur_pos s1)) (0xb8000 + 160 * 1 + 18 * 2 + 40) 16 s1)
              (\<lambda>s2. Inr (s2\<lparr>g_cur_y := g_cur_y s2 + 1\<rparr>)))
      else if printable ch then
        (let s1 = poke (text_vb s + 1) (text_fg s OR text_bg s) (poke (text_vb s) ch s)
         in Inr (s1\<lparr>text_vb := text_vb s + 2, g_cur_x := g_cur_x s + 1, cur_pos := cur_pos s + 1\<rparr>))
      else Inr s)"

definition s32_print_char :: "u8 \<Rightarrow> 'a consoles_scheme \<Rightarrow> 'a consoles_scheme result" where
  "s32_print_char ch s =
     rbind (print_char_step ch s) (\<lambda>s1.
     rbind (s32_print_int (ucast (cur_pos s1)) (0xb8000 + 160 * 1 + 18 * 2 + 60) 16 (set_cursor (cur_pos s1) s1)) (\<lambda>s2.
     rbind (s32_print_int (g_cur_x s2) (0xb8000 + 160 * 18 + 23 * 2 + 40) 10 (clear_line 18 s2)) (\<lambda>s3.
     rbind (s32_print_int (g_cur_y s3) (0xb8000 + 160 * 18 + 23 * 2 + 60) 10 s3) (\<lambda>s4.
       Inr (if g_cur_y s4 \<ge> 25 then set_video_start_addr (ucast (80 * (g_cur_y s4 - 24))) s4 else s4)))))"

fun s32_print_str :: "cstring \<Rightarrow> 'a consoles_scheme \<Rightarrow> 'a consoles_scheme result" where
  "s32_print_str [] s = Inr s"
| "s32_print_str (c # cs) s = rbind (s32_print_char c s) (s32_print_str cs)"

section \<open>Printing on a console\<close>

definition set_xy :: "nat \<Rightarrow> u32 \<Rightarrow> u32 \<Rightarrow> 'a consoles_scheme \<Rightarrow> 'a consoles_scheme" where
  "set_xy i x y = upd_console i (\<lambda>c. c\<lparr>cur_x := x, cur_y := y\<rparr>)"

definition get_xy :: "nat \<Rightarrow> 'a consoles_scheme \<Rightarrow> u32 \<times> u32" where
  "get_xy i s = (cur_x (console_table s i), cur_y (console_table s i))"

text \<open>The back-quote cycles through three background pictures.\<close>

definition next_background :: "Assets \<Rightarrow> 'a consoles_scheme \<Rightarrow> 'a consoles_scheme" where
  "next_background A s =
     (let s1 = draw_256_grid s;
          s2 = (if odd_bg s = 0 then draw_bg 120 0 (bg A) s1
                else if odd_bg s = 1 then draw_bg 0 0 (os_bg A) s1
                else if odd_bg s = 2 then draw_bg 0 0 (pe_320_180 A) s1
                else s1)
      in s2\<lparr>odd_bg := (odd_bg s + 1) mod 3\<rparr>)"

definition graphic_print_char :: "Assets \<Rightarrow> nat \<Rightarrow> u8 \<Rightarrow> 'a consoles_scheme \<Rightarrow> 'a consoles_scheme" where
  "graphic_print_char A i ch s =
     (let c = console_table s i;
          s1 = draw_8x16_ch A (sint (cur_x c)) (sint (cur_y c)) ch 5 s;
          s2 = upd_console i (\<lambda>c. if cur_x c + 8 \<ge> 320 then c\<lparr>cur_x := 0, cur_y := cur_y c + 16\<rparr>
                                    else c\<lparr>cur_x := cur_x c + 8\<rparr>) s1
      in if ch = 0x60 then next_background A s2 else s2)"

definition cell :: "Console \<Rightarrow> u32" where
  "cell c = vm_start c + (cur_x c + cur_y c * 80) * 2"

text \<open>What a character does to the cursor of a text console.\<close>

definition advance :: "u8 \<Rightarrow> Console \<Rightarrow> Console" where
  "advance ch c =
     (if ch = 0x0d then c\<lparr>cur_x := 0\<rparr>
      else if ch = 0x0a then c\<lparr>cur_y := cur_y c + 1\<rparr>
      else if printable ch then
        (if cur_x c + 1 \<ge> 80 then c\<lparr>cur_x := 0, cur_y := cur_y c + 1\<rparr> else c\<lparr>cur_x := cur_x c + 1\<rparr>)
      else c)"

definition text_print_char :: "nat \<Rightarrow> u8 \<Rightarrow> 'a consoles_scheme \<Rightarrow> 'a consoles_scheme" where
  "text_print_char i ch s =
     (if cur_y (console_table s i) \<ge> 50 then s
      else
        let a = cell (console_table s i);
            s1 = (if printable ch then poke (a + 1) 7 (poke a ch s) else s);
            s2 = upd_console i (advance ch) s1;
            c = console_table s2 i;
            s3 = (if cur_y c \<ge> 25 then set_video_start_addr (ucast (80 * (cur_y c - 24))) s2 else s2);
            s4 = set_cursor (ucast ((vm_start c - 0xb8000) div 2 + cur_x c + cur_y c * 80)) s3
        in upd_console i (\<lambda>c. c\<lparr>cur_vm := cell c\<rparr>) s4)"

definition s32_console_print_char :: "Assets \<Rightarrow> nat \<Rightarrow> u8 \<Rightarrow> 'a consoles_scheme \<Rightarrow> 'a consoles_scheme" where
  "s32_console_print_char A i ch s =
     (if con_type (console_table s i) = GRAPHIC_CONSOLE then graphic_print_char A i ch s
      else text_print_char i ch s)"

fun s32_console_print_str :: "Assets \<Rightarrow> nat \<Rightarrow> cstring \<Rightarrow> 'a consoles_scheme \<Rightarrow> 'a consoles_scheme" where
  "s32_console_print_str A i [] s = s"
| "s32_console_print_str A i (c # cs) s = s32_console_print_str A i cs (s32_console_print_char A i c s)"

definition s32_console_print_char_xy :: "Assets \<Rightarrow> nat \<Rightarrow> u8 \<Rightarrow> u32 \<Rightarrow> u32 \<Rightarrow> 'a consoles_scheme \<Rightarrow> 'a consoles_scheme" where
  "s32_console_print_char_xy A i ch x y s = s32_console_print_char A i ch (set_xy i x y s)"

fun s32_console_print_str_xy :: "Assets \<Rightarrow> nat \<Rightarrow> cstring \<Rightarrow> u32 \<Rightarrow> u32 \<Rightarrow> 'a consoles_scheme \<Rightarrow> 'a consoles_scheme" where
  "s32_console_print_str_xy A i [] x y s = s"
| "s32_console_print_str_xy A i (c # cs) x y s =
     s32_console_print_str_xy A i cs (x + 1) y (s32_console_print_char_xy A i c x y s)"

definition clear_console :: "Assets \<Rightarrow> nat \<Rightarrow> 'a consoles_scheme \<Rightarrow> 'a consoles_scheme" where
  "clear_console A i s =
     set_xy i 0 2
       (fold (\<lambda>y. fold (\<lambda>x. s32_console_print_char_xy A i 0x20 (of_nat x) (of_nat y)) [0..<80]) [0..<50] s)"

section \<open>Text consoles\<close>

text \<open>The slice of video memory of console \<open>i\<close>, and what holds of a text console at any time.\<close>

definition slice :: "nat \<Rightarrow> u32" where
  "slice i = 0xb8000 + of_nat i * VIDEO_RAM_SIZE"

definition text_ok :: "nat \<Rightarrow> 'a consoles_scheme \<Rightarrow> bool" where
  "text_ok i s \<longleftrightarrow> con_type (console_table s i) = TEXT_CONSOLE \<and> vm_start (console_table s i) = slice i
     \<and> cur_x (console_table s i) < 80 \<and> cur_y (console_table s i) \<le> 50"

lemma cell_offset:
  assumes "vm_start c = v" and "cur_x c < 80" and "cur_y c < 50"
  shows "cell c = v + of_nat (2 * (unat (cur_x c) + 80 * unat (cur_y c)))"
    "2 * (unat (cur_x c) + 80 * unat (cur_y c)) \<le> 7998"
proof -
  have "(cur_x c + cur_y c * 80) * 2 = of_nat (2 * (unat (cur_x c) + 80 * unat (cur_y c)))"
    by (simp add: algebra_simps)
  then show "cell c = v + of_nat (2 * (unat (cur_x c) + 80 * unat (cur_y c)))"
    using assms(1) by (simp add: cell_def)
  have "unat (cur_x c) < 80" "unat (cur_y c) < 50" using assms(2,3) by (simp_all add: word_less_nat_alt)
  then have "unat (cur_x c) \<le> 79" "unat (cur_y c) \<le> 49" by simp_all
  then have "unat (cur_x c) + 80 * unat (cur_y c) \<le> 79 + 80 * 49" by (intro add_mono mult_le_mono2)
  then show "2 * (unat (cur_x c) + 80 * unat (cur_y c)) \<le> 7998" by simp
qed

lemma cell_in_slice:
  assumes "text_ok i s" and "cur_y (console_table s i) < 50"
  shows "addr_in (slice i) 8000 (cell (console_table s i))"
    "addr_in (slice i) 8000 (cell (console_table s i) + 1)"
proof -
  let ?c = "console_table s i" and ?n = "2 * (unat (cur_x (console_table s i)) + 80 * unat (cur_y (console_table s i)))"
  have f: "vm_start ?c = slice i" "cur_x ?c < 80" using assms(1) by (simp_all add: text_ok_def)
  note o = cell_offset [OF f assms(2)]
  show "addr_in (slice i) 8000 (cell ?c)" unfolding o(1) using o(2) by (intro addr_in_offset) auto
  have "cell ?c + 1 = slice i + of_nat (Suc ?n)" unfolding o(1) by (simp add: algebra_simps)
  then show "addr_in (slice i) 8000 (cell ?c + 1)" using o(2) by (simp only:) (rule addr_in_offset, auto)
qed

lemma advance_fields [simp]:
  "con_type (advance ch c) = con_type c" "vm_start (advance ch c) = vm_start c"
  by (simp_all add: advance_def)

lemma advance_bounds:
  assumes "cur_x c < 80" and "cur_y c < 50"
  shows "cur_x (advance ch c) < 80 \<and> cur_y (advance ch c) \<le> 50"
  using assms unfolding advance_def by (auto simp: not_le) (unat_arith)+

lemma io_mem [simp]:
  "mem (set_cursor p s) = mem s" "mem (set_video_start_addr p s) = mem s"
  "console_table (set_cursor p s') = console_table s'" "console_table (set_video_start_addr p s') = console_table s'"
  by (simp_all add: set_cursor_def set_video_start_addr_def io_defs)

lemma poke_console [simp]:
  "console_table (poke a v s) = console_table s" "mem (upd_console i f s) = mem s"
  "console_table (upd_console i f s) = (console_table s)(i := f (console_table s i))"
  by (simp_all add: poke_def upd_console_def)

lemma text_print_char_table:
  "console_table (text_print_char i ch s) =
    (if cur_y (console_table s i) \<ge> 50 then console_table s
     else (console_table s)(i := (advance ch (console_table s i))\<lparr>cur_vm := cell (advance ch (console_table s i))\<rparr>))"
  by (simp add: text_print_char_def Let_def cell_def)

lemma text_print_char_mem:
  "mem (text_print_char i ch s) =
    (if cur_y (console_table s i) < 50 \<and> printable ch
     then (mem s)(cell (console_table s i) := ch, cell (console_table s i) + 1 := 7) else mem s)"
  by (auto simp: text_print_char_def Let_def poke_def not_le)

text \<open>
  The interface of a display: printing keeps the display well-formed and writes only to
  the display's own region of video memory.
\<close>

locale display =
  fixes put :: "u8 \<Rightarrow> 's \<Rightarrow> 's"
    and ok :: "'s \<Rightarrow> bool"
    and memory :: "'s \<Rightarrow> mem"
    and region :: "u32 \<Rightarrow> bool"
  assumes put_ok: "ok s \<Longrightarrow> ok (put ch s)"
    and put_region: "ok s \<Longrightarrow> \<not> region a \<Longrightarrow> memory (put ch s) a = memory s a"
begin

lemma string_ok: "ok s \<Longrightarrow> ok (fold put cs s)"
  by (induction cs arbitrary: s) (auto intro: put_ok)

lemma string_region: "ok s \<Longrightarrow> \<not> region a \<Longrightarrow> memory (fold put cs s) a = memory s a"
  by (induction cs arbitrary: s) (auto simp: put_ok put_region)

end

lemma text_console_put_ok: "text_ok i s \<Longrightarrow> text_ok i (s32_console_print_char A i ch s)"
  using advance_bounds [of "console_table s i" ch]
  by (auto simp: s32_console_print_char_def text_ok_def text_print_char_table not_le)

lemma text_console_put_region:
  "text_ok i s \<Longrightarrow> \<not> addr_in (slice i) 8000 a \<Longrightarrow> mem (s32_console_print_char A i ch s) a = mem s a"
  using cell_in_slice [of i s]
  by (auto simp: s32_console_print_char_def text_ok_def text_print_char_mem)

interpretation con: display "s32_console_print_char A i" "text_ok i" mem "addr_in (slice i) 8000" for A i
  by unfold_locales (rule text_console_put_ok, assumption, rule text_console_put_region)

lemma print_str_fold: "s32_console_print_str A i cs s = fold (s32_console_print_char A i) cs s"
  by (induction cs arbitrary: s) auto

lemma slices_disjoint:
  assumes "i < 3" and "j < 3" and "i \<noteq> j"
  shows "disjoint_ranges (slice i) 8000 (slice j) 8000"
proof -
  have "i \<in> {0, 1, 2}" "j \<in> {0, 1, 2}" using assms by auto
  then show ?thesis using assms(3) by (auto simp: slice_def disjoint_ranges_def)
qed

section \<open>A line of text\<close>

text \<open>Printing one printable character inside a line.\<close>

lemma print_char_inline:
  fixes s :: "'a consoles_scheme" and A :: Assets
  assumes ok: "text_ok i s" and y: "cur_y (console_table s i) < 50" and x: "unat (cur_x (console_table s i)) + 1 < 80"
    and ch: "printable ch"
  defines "s' \<equiv> s32_console_print_char A i ch s"
  shows "text_ok i s'" "cur_y (console_table s' i) = cur_y (console_table s i)"
    "unat (cur_x (console_table s' i)) = unat (cur_x (console_table s i)) + 1"
    "mem s' = (mem s)(cell (console_table s i) := ch, cell (console_table s i) + 1 := 7)"
    "cell (console_table s' i) = cell (console_table s i) + 2"
proof -
  let ?c = "console_table s i"
  have t: "con_type ?c = TEXT_CONSOLE" using ok by (simp add: text_ok_def)
  have ne: "ch \<noteq> 0x0d" "ch \<noteq> 0x0a" using ch by (auto simp: printable_def)
  have x2: "unat (cur_x ?c + 1) = unat (cur_x ?c) + 1" using x by (simp add: unat_word_ariths)
  have x1: "cur_x ?c + 1 < 80" using x by (simp add: word_less_nat_alt x2)
  have adv: "advance ch ?c = ?c\<lparr>cur_x := cur_x ?c + 1\<rparr>"
    using ne ch x1 by (simp add: advance_def not_le [symmetric])
  have tab: "console_table s' i = (advance ch ?c)\<lparr>cur_vm := cell (advance ch ?c)\<rparr>"
    using t y by (simp add: s'_def s32_console_print_char_def text_print_char_table not_le [symmetric])
  show "text_ok i s'" unfolding s'_def by (rule text_console_put_ok [OF ok])
  show "cur_y (console_table s' i) = cur_y ?c" "unat (cur_x (console_table s' i)) = unat (cur_x ?c) + 1"
    "cell (console_table s' i) = cell ?c + 2"
    using x2 by (simp_all add: tab adv cell_def algebra_simps)
  show "mem s' = (mem s)(cell ?c := ch, cell ?c + 1 := 7)"
    using t y ch by (simp add: s'_def s32_console_print_char_def text_print_char_mem)
qed

lemma print_str_inline:
  assumes "text_ok i s" and "cur_y (console_table s i) < 50"
    and "unat (cur_x (console_table s i)) + length cs < 80" and "\<And>c. c \<in> set cs \<Longrightarrow> printable c"
  shows "mem (s32_console_print_str A i cs s) = put_cells cs (cell (console_table s i)) (mem s)
    \<and> text_ok i (s32_console_print_str A i cs s)
    \<and> cur_y (console_table (s32_console_print_str A i cs s) i) = cur_y (console_table s i)
    \<and> unat (cur_x (console_table (s32_console_print_str A i cs s) i)) = unat (cur_x (console_table s i)) + length cs"
  using assms
proof (induction cs arbitrary: s)
  case Nil
  then show ?case by simp
next
  case (Cons c cs)
  have pre: "unat (cur_x (console_table s i)) + 1 < 80" "printable c" using Cons.prems by auto
  note one = print_char_inline [OF Cons.prems(1,2) pre, of A]
  show ?case
    using Cons.IH [of "s32_console_print_char A i c s"] Cons.prems one by (simp del: fun_upd_apply)
qed

section \<open>Clearing a console\<close>

definition text_console :: "nat \<Rightarrow> 'a consoles_scheme \<Rightarrow> bool" where
  "text_console i s \<longleftrightarrow> con_type (console_table s i) = TEXT_CONSOLE \<and> vm_start (console_table s i) = slice i"

definition blank_at :: "nat \<Rightarrow> nat \<Rightarrow> 'a machine_scheme \<Rightarrow> bool" where
  "blank_at i k s \<longleftrightarrow> mem s (slice i + of_nat (2 * k)) = 0x20 \<and> mem s (slice i + of_nat (Suc (2 * k))) = 7"

lemma print_char_xy_cell:
  fixes s :: "'a consoles_scheme" and A :: Assets
  assumes "text_console i s" and "x < 80" and "y < 50"
  defines "s' \<equiv> s32_console_print_char_xy A i 0x20 (of_nat x) (of_nat y) s"
  shows "mem s' = (mem s)(slice i + of_nat (2 * (x + 80 * y)) := 0x20, slice i + of_nat (Suc (2 * (x + 80 * y))) := 7)"
    "text_console i s'"
proof -
  let ?s = "set_xy i (of_nat x) (of_nat y) s"
  have u: "unat (of_nat x :: u32) = x" "unat (of_nat y :: u32) = y" using assms(2,3) by (simp_all add: unat_of_nat)
  have b: "(of_nat x :: u32) < 80" "(of_nat y :: u32) < 50"
    using assms(2,3) by (simp_all add: word_less_nat_alt u)
  have c: "console_table ?s i = (console_table s i)\<lparr>cur_x := of_nat x, cur_y := of_nat y\<rparr>" "mem ?s = mem s"
    by (simp_all add: set_xy_def)
  have ok: "text_ok i ?s"
    using assms(1) b by (simp add: text_ok_def text_console_def c less_imp_le)
  have pr: "printable 0x20" by (simp add: printable_def)
  have "cell (console_table ?s i) = slice i + of_nat (2 * (x + 80 * y))"
    using cell_offset(1) [of "console_table ?s i" "slice i"] b assms(1) by (simp add: c u text_console_def)
  then show "mem s' = (mem s)(slice i + of_nat (2 * (x + 80 * y)) := 0x20, slice i + of_nat (Suc (2 * (x + 80 * y))) := 7)"
    using ok b pr
    by (simp add: s'_def s32_console_print_char_xy_def s32_console_print_char_def text_ok_def text_print_char_mem c(2)
        add.assoc add.commute [of 1]) (simp add: c(1))
  show "text_console i s'"
    using text_console_put_ok [OF ok, of A "0x20"]
    by (simp add: s'_def s32_console_print_char_xy_def text_ok_def text_console_def)
qed

lemma blank_at_upd:
  assumes "k < 4000" and "j < 4000"
    and "mem s' = (mem s)(slice i + of_nat (2 * j) := 0x20, slice i + of_nat (Suc (2 * j)) := 7)"
  shows "blank_at i k s \<or> k = j \<Longrightarrow> blank_at i k s'"
proof -
  have inj: "(of_nat a :: u32) = of_nat b \<longleftrightarrow> a = b" if "a < 8001" "b < 8001" for a b
    using that unat_of_nat32 [of a] unat_of_nat32 [of b] by (auto simp: word_unat_eq_iff)
  have "2 * k \<noteq> Suc (2 * j)" "2 * j \<noteq> Suc (2 * k)" by presburger+
  then show "blank_at i k s \<or> k = j \<Longrightarrow> blank_at i k s'"
    using assms inj [of "2 * k" "2 * j"] inj [of "2 * k" "Suc (2 * j)"] inj [of "Suc (2 * k)" "2 * j"]
      inj [of "Suc (2 * k)" "Suc (2 * j)"]
    by (auto simp: blank_at_def simp del: of_nat_Suc of_nat_mult)
qed

lemma clear_row:
  fixes s :: "'a consoles_scheme"
  assumes "text_console i s" and "y < 50"
  defines "row \<equiv> \<lambda>A. fold (\<lambda>x. s32_console_print_char_xy A i 0x20 (of_nat x) (of_nat y)) [0..<80]"
  shows "text_console i (row A s)" "x < 80 \<Longrightarrow> blank_at i (x + 80 * y) (row A s)"
    "k < 4000 \<Longrightarrow> blank_at i k s \<Longrightarrow> blank_at i k (row A s)"
proof -
  let ?f = "\<lambda>x. s32_console_print_char_xy A i 0x20 (of_nat x) (of_nat y) :: 'a consoles_scheme \<Rightarrow> 'a consoles_scheme"
  have step: "text_console i (?f x t)" "k < 4000 \<Longrightarrow> blank_at i k t \<or> k = x + 80 * y \<Longrightarrow> blank_at i k (?f x t)"
    if "x \<in> set [0..<80]" "text_console i t" for x k t
    using print_char_xy_cell [of i t x y A] blank_at_upd [of k "x + 80 * y" "?f x t" t i] that assms(2) by auto
  have all: "text_console i (row A s) \<and> (k < 4000 \<longrightarrow> blank_at i k (row A s))"
    if "(\<exists>x < 80. k = x + 80 * y) \<or> blank_at i k s" for k
  proof -
    have "text_console i (row A s) \<and> ((\<lambda>x s. x + 80 * y < 4000 \<longrightarrow> blank_at i (x + 80 * y) s) z (row A s))"
      if "z \<in> set [0..<80] \<or> (z + 80 * y < 4000 \<longrightarrow> blank_at i (z + 80 * y) s)" for z
      unfolding row_def
      by (rule fold_establishes [where Q = "\<lambda>x s. x + 80 * y < 4000 \<longrightarrow> blank_at i (x + 80 * y) s"])
        (use step assms(1) that in auto)
    note new = this
    have keep: "text_console i (row A s) \<and> (k < 4000 \<longrightarrow> blank_at i k (row A s))" if "blank_at i k s"
      unfolding row_def by (rule fold_inv) (use step assms(1) that in auto)
    show ?thesis using that new keep by auto
  qed
  show "text_console i (row A s)" using all [of "0 + 80 * y"] by (metis zero_less_numeral)
  show "blank_at i (x + 80 * y) (row A s)" if "x < 80" using all [of "x + 80 * y"] that assms(2) by auto
  show "blank_at i k (row A s)" if "k < 4000" "blank_at i k s" using all [of k] that by auto
qed

lemma clear_console_cells:
  fixes s :: "'a consoles_scheme"
  assumes "text_console i s" and "x < 80" and "y < 50"
  shows "blank_at i (x + 80 * y) (clear_console A i s)"
proof -
  have grid: "x + 80 * y < 4000" if "y < 50" for y using that assms(2) by linarith
  let ?row = "\<lambda>y. fold (\<lambda>x. s32_console_print_char_xy A i 0x20 (of_nat x) (of_nat y)) [0..<80]"
  have keep: "blank_at i (x + 80 * z) (?row y t)"
    if "y < 50" "z < 50" "text_console i t" "blank_at i (x + 80 * z) t" for y z and t :: "'a consoles_scheme"
    by (rule clear_row(3) [OF that(3,1) grid [OF that(2)] that(4)])
  have "text_console i (fold ?row [0..<50] s) \<and> blank_at i (x + 80 * y) (fold ?row [0..<50] s)"
    by (rule fold_establishes [where Q = "\<lambda>y s. y < 50 \<longrightarrow> blank_at i (x + 80 * y) s" and y = y, simplified assms(3) simp_thms])
      (use clear_row(1,2) keep assms in auto)
  then show ?thesis by (simp add: clear_console_def set_xy_def blank_at_def)
qed

section \<open>Properties\<close>

lemma blank_consoles_ok: "text_ok 1 blank_consoles" "text_console 1 blank_consoles"
  by (simp_all add: blank_consoles_def init_console_def text_ok_def text_console_def slice_def upt_rec)

lemma blank_consoles_cursor: "get_xy 1 blank_consoles = (0, 2)"
  by (simp add: blank_consoles_def init_console_def get_xy_def upt_rec)

text \<open>C27. The text consoles are isolated: printing any string on console \<open>i\<close> keeps its cursor inside
  the 80 x 50 area and changes no byte of the screen memory of another console.\<close>

theorem console_isolated:
  assumes "i < 3" and "j < 3" and "i \<noteq> j" and "text_ok i s" and "addr_in (slice j) 8000 a"
  shows "text_ok i (s32_console_print_str A i cs s) \<and> mem (s32_console_print_str A i cs s) a = mem s a"
proof -
  have "\<not> addr_in (slice i) 8000 a"
    using disjoint_rangesD [OF slices_disjoint [OF assms(2,1)] assms(5)] assms(3) by simp
  then show ?thesis
    unfolding print_str_fold using con.string_ok [OF assms(4)] con.string_region [OF assms(4)] by blast
qed

theorem console_isolated_witness:
  "mem (s32_console_print_str (plain_assets 0) 1 [0x41, 0x0a] blank_consoles) 0xb8000 = mem blank_consoles 0xb8000"
  using console_isolated [of 1 0 blank_consoles "0xb8000" "plain_assets 0" "[0x41, 0x0a]"] blank_consoles_ok
  by (simp add: slice_def)

text \<open>C28. Text appears: printable characters printed on a text console, short enough to stay on the
  line, stand in consecutive cells from the cursor on, in white, and the cursor moves behind
  them; nothing else in memory changes.\<close>

theorem console_text_appears:
  assumes "text_ok i s" and "cur_y (console_table s i) < 50"
    and "unat (cur_x (console_table s i)) + length cs < 80" and "\<forall>c \<in> set cs. printable c"
  shows "mem (s32_console_print_str A i cs s) = put_cells cs (cell (console_table s i)) (mem s)
    \<and> cur_y (console_table (s32_console_print_str A i cs s) i) = cur_y (console_table s i)
    \<and> unat (cur_x (console_table (s32_console_print_str A i cs s) i)) = unat (cur_x (console_table s i)) + length cs"
  using print_str_inline [OF assms(1-3)] assms(4) by blast

theorem console_text_appears_witness:
  "mem (s32_console_print_str (plain_assets 0) 1 [0x4f, 0x4b] blank_consoles)
    = put_cells [0x4f, 0x4b] (cell (console_table blank_consoles 1)) (mem blank_consoles)"
  using console_text_appears [of 1 blank_consoles "[0x4f, 0x4b]" "plain_assets 0"] blank_consoles_ok blank_consoles_cursor
  by (simp add: get_xy_def printable_def)

text \<open>Also: Clearing a text console blanks all 4000 cells of its 50 lines and puts its cursor at the
  start of line 2.\<close>

theorem clear_console_blanks:
  assumes "text_console i s" and "x < 80" and "y < 50"
  shows "mem (clear_console A i s) (slice i + of_nat (2 * (x + 80 * y))) = 0x20
    \<and> mem (clear_console A i s) (slice i + of_nat (Suc (2 * (x + 80 * y)))) = 7
    \<and> get_xy i (clear_console A i s) = (0, 2)"
  using clear_console_cells [OF assms, of A]
  by (simp add: blank_at_def get_xy_def clear_console_def set_xy_def)

theorem clear_console_blanks_witness:
  "get_xy 1 (clear_console (plain_assets 0) 1 blank_consoles) = (0, 2)"
  using clear_console_blanks [OF blank_consoles_ok(2), of 5 7] by simp

text \<open>Also: After \<open>init_console\<close> consoles 0 to 2 are well-formed text consoles, each in its own slice
  of video memory, and console 3 is the graphic one.\<close>

theorem init_console_establishes:
  "text_ok 0 (init_console s) \<and> text_ok 1 (init_console s) \<and> text_ok 2 (init_console s)
   \<and> con_type (console_table (init_console s) 3) = GRAPHIC_CONSOLE"
  by (simp add: init_console_def text_ok_def slice_def upt_rec)

text \<open>Also: Moving the hardware cursor disables interrupts around four port writes that select the
  high and low cursor registers and load them with the two halves of the position.\<close>

theorem set_cursor_registers:
  "\<exists>h l. io_log (set_cursor pos s) = io_log s @ [Cli, Out8 0x3D4 0xE, Out8 0x3D5 h, Out8 0x3D4 0xF, Out8 0x3D5 l, Sti]
     \<and> push_bit 8 (ucast h) OR ucast l = pos"
proof (intro exI conjI)
  show "io_log (set_cursor pos s) = io_log s @ [Cli, Out8 0x3D4 0xE, Out8 0x3D5 (ucast (drop_bit 8 pos AND 0xff)),
      Out8 0x3D4 0xF, Out8 0x3D5 (ucast (pos AND 0xff)), Sti]"
    by (simp add: set_cursor_def io_defs)
  show "push_bit 8 (ucast (ucast (drop_bit 8 pos AND 0xff) :: u8)) OR ucast (ucast (pos AND 0xff) :: u8) = pos"
    by (rule bit_word_eqI) (auto simp: and_masks bit_simps)
qed

end
