(* ===== verification/Irq.thy ===== *)
theory Irq
  imports Console
begin

text \<open>
  Interrupt requests: the 8259 controllers as start.c programs them, the mask operations
  of asm_func.S and include/irq.h, and the table of handlers. The mask of a controller is
  what was last written to its data port, and what reading that port returns.
\<close>

unbundle bit_operations_syntax

datatype irq_handler = spurious_irq_handler | clock_irq_handler | keyboard_irq_handler

record irqs = consoles +
  irq_table :: "nat \<Rightarrow> irq_handler"
  mask_m :: u8
  mask_s :: u8

abbreviation (input) INT_M_PORT :: u16 where "INT_M_PORT \<equiv> 0x20"
abbreviation (input) INT_S_PORT :: u16 where "INT_S_PORT \<equiv> 0xa0"
abbreviation (input) INT_M_CTLMASK :: u16 where "INT_M_CTLMASK \<equiv> 0x21"
abbreviation (input) INT_S_CTLMASK :: u16 where "INT_S_CTLMASK \<equiv> 0xa1"
abbreviation (input) INT_VECTOR_IRQ0 :: u8 where "INT_VECTOR_IRQ0 \<equiv> 0x20"
abbreviation (input) INT_VECTOR_IRQ8 :: u8 where "INT_VECTOR_IRQ8 \<equiv> 0x28"
abbreviation (input) NR_IRQ :: nat where "NR_IRQ \<equiv> 16"
abbreviation (input) CLOCK_IRQ :: nat where "CLOCK_IRQ \<equiv> 0"
abbreviation (input) KEYBOARD_IRQ :: nat where "KEYBOARD_IRQ \<equiv> 1"

section \<open>Masks\<close>

text \<open>
  The assembly writes the new mask of the slave controller to the port of the master, so
  that for requests 8 to 15 the master's mask is overwritten.
\<close>

definition irq_bit :: "nat \<Rightarrow> u8" where
  "irq_bit irq = push_bit (irq mod 8) 1"

definition disable_irq :: "nat \<Rightarrow> 'a irqs_scheme \<Rightarrow> int \<times> 'a irqs_scheme" where
  "disable_irq irq s =
     (if irq < 8 then
        (if irq_bit irq AND mask_m s \<noteq> 0 then (0, s)
         else (1, (io_out8 INT_M_CTLMASK (mask_m s OR irq_bit irq) s)\<lparr>mask_m := mask_m s OR irq_bit irq\<rparr>))
      else
        (if irq_bit irq AND mask_s s \<noteq> 0 then (0, s)
         else (1, (io_out8 INT_M_CTLMASK (mask_s s OR irq_bit irq) s)\<lparr>mask_m := mask_s s OR irq_bit irq\<rparr>)))"

definition enable_irq :: "nat \<Rightarrow> 'a irqs_scheme \<Rightarrow> 'a irqs_scheme" where
  "enable_irq irq s =
     (let m = NOT (irq_bit irq) AND (if irq < 8 then mask_m s else mask_s s)
      in (io_out8 INT_M_CTLMASK m s)\<lparr>mask_m := m\<rparr>)"

definition put_irq_handler :: "nat \<Rightarrow> irq_handler \<Rightarrow> 'a irqs_scheme \<Rightarrow> 'a irqs_scheme" where
  "put_irq_handler irq handler s =
     (let s1 = snd (disable_irq irq s) in s1\<lparr>irq_table := (irq_table s1)(irq := handler)\<rparr>)"

section \<open>Initialisation\<close>

definition init_8259a :: "'a irqs_scheme \<Rightarrow> 'a irqs_scheme" where
  "init_8259a s =
     (let s1 = fold (\<lambda>(p, v). io_out8 p v)
          [(INT_M_PORT, 0x11), (INT_S_PORT, 0x11), (INT_M_CTLMASK, INT_VECTOR_IRQ0),
           (INT_S_CTLMASK, INT_VECTOR_IRQ8), (INT_M_CTLMASK, 0x4), (INT_S_CTLMASK, 0x2),
           (INT_M_CTLMASK, 0x1), (INT_S_CTLMASK, 0x1), (INT_M_CTLMASK, 0xFF), (INT_S_CTLMASK, 0xFF)] s
      in fold (\<lambda>i s. s\<lparr>irq_table := (irq_table s)(i := spurious_irq_handler)\<rparr>) [0..<NR_IRQ]
           (s1\<lparr>mask_m := 0xFF, mask_s := 0xFF\<rparr>))"

definition spurious_irq :: "u32 \<Rightarrow> 'a irqs_scheme \<Rightarrow> 'a irqs_scheme result" where
  "spurious_irq irq s =
     rbind (s32_itoa irq 16) (\<lambda>str.
       Inr (s32_print str (0xb8000 + 160 * 7)
         (s32_print (map of_char ''spurious_irq'') (0xb8000 + 160 * 6) (clear s))))"

definition blank_irqs :: irqs where
  "blank_irqs = init_8259a (consoles.extend blank_consoles (irqs.fields (\<lambda>_. clock_irq_handler) 0 0))"

section \<open>Facts\<close>

lemma irq_bit_set: "irq < 8 \<Longrightarrow> bit (irq_bit irq) n \<longleftrightarrow> n = irq"
  by (auto simp: irq_bit_def bit_simps)

lemma irq_bit_and_0: "irq < 8 \<Longrightarrow> irq_bit irq AND m = 0 \<longleftrightarrow> \<not> bit m irq"
proof -
  assume a: "irq < 8"
  have "irq_bit irq AND m = (if bit m irq then irq_bit irq else 0)"
    by (rule bit_word_eqI) (auto simp: bit_simps irq_bit_set [OF a])
  moreover have "irq_bit irq \<noteq> 0" using irq_bit_set [OF a, of irq] by auto
  ultimately show ?thesis by simp
qed

lemma fold_irq_table:
  "irq_table (fold (\<lambda>i s. s\<lparr>irq_table := (irq_table s)(i := h)\<rparr>) is s) j = (if j \<in> set is then h else irq_table s j)"
  by (induction "is" arbitrary: s) auto

lemma fold_irq_masks:
  "mask_m (fold (\<lambda>i s. s\<lparr>irq_table := (irq_table s)(i := h)\<rparr>) is s) = mask_m s"
  "mask_s (fold (\<lambda>i s. s\<lparr>irq_table := (irq_table s)(i := h)\<rparr>) is s) = mask_s s"
  by (induction "is" arbitrary: s) auto

lemma fold_irq_consoles:
  "console_table (fold (\<lambda>i s. s\<lparr>irq_table := (irq_table s)(i := h)\<rparr>) is s) = console_table s"
  by (induction "is" arbitrary: s) auto

section \<open>Properties\<close>

text \<open>Also: After the controllers are programmed every request is masked and has the spurious handler;
  installing the clock and keyboard handlers and enabling their requests unmasks exactly
  requests 0 and 1 and leaves every other handler alone.\<close>

theorem irq_setup:
  fixes s :: "'a irqs_scheme"
  defines "t \<equiv> enable_irq KEYBOARD_IRQ (put_irq_handler KEYBOARD_IRQ keyboard_irq_handler
      (enable_irq CLOCK_IRQ (put_irq_handler CLOCK_IRQ clock_irq_handler (init_8259a s))))"
  shows "mask_m (init_8259a s) = 0xFF \<and> mask_s (init_8259a s) = 0xFF \<and> mask_m t = 0xFC
    \<and> irq_table t 0 = clock_irq_handler \<and> irq_table t 1 = keyboard_irq_handler
    \<and> (\<forall>i. 2 \<le> i \<and> i < 16 \<longrightarrow> irq_table t i = spurious_irq_handler)"
  by (simp add: t_def init_8259a_def enable_irq_def put_irq_handler_def disable_irq_def irq_bit_def io_defs
      fold_irq_table fold_irq_masks Let_def)

theorem irq_setup_witness:
  "irq_table (enable_irq KEYBOARD_IRQ (put_irq_handler KEYBOARD_IRQ keyboard_irq_handler
      (enable_irq CLOCK_IRQ (put_irq_handler CLOCK_IRQ clock_irq_handler (init_8259a blank_irqs))))) 9
    = spurious_irq_handler"
  using irq_setup [of blank_irqs] by simp

text \<open>Also: Enabling a request of the slave controller writes the slave's mask to the master's port, so
  that from the state after initialisation it unmasks a request of the master instead.\<close>

theorem enable_slave_hits_master:
  assumes "irq < 16" and "8 \<le> irq"
  shows "mask_s (enable_irq irq s) = mask_s s \<and> mask_m (enable_irq irq s) = NOT (irq_bit irq) AND mask_s s"
  using assms by (simp add: enable_irq_def io_defs Let_def)

theorem enable_slave_hits_master_witness:
  "mask_m (enable_irq 8 blank_irqs) = 0xFE \<and> mask_s (enable_irq 8 blank_irqs) = 0xFF"
  using enable_slave_hits_master [of 8 blank_irqs]
  by (simp add: blank_irqs_def init_8259a_def fold_irq_masks irq_bit_def Let_def)

end
