(* ===== verification/Ring.thy ===== *)
theory Ring
  imports OS_Prelude
begin

text \<open>
  The ring-buffer contract. The keyboard driver and every terminal keep a fixed array with
  a head, a tail and a count, each with its own copy of the same code. The locale states
  what that code does to the four fields; its lemmas say that such a buffer is a bounded
  first-in first-out queue. The two buffers of the kernel are interpretations of it.
\<close>

text \<open>One step of an index around an array of \<open>n\<close> cells.\<close>

definition ring_next :: "nat \<Rightarrow> nat \<Rightarrow> nat" where
  "ring_next n i = (if Suc i = n then 0 else Suc i)"

locale ring_buffer =
  fixes size :: nat
    and data :: "'s \<Rightarrow> nat \<Rightarrow> 'v"
    and head :: "'s \<Rightarrow> nat"
    and tail :: "'s \<Rightarrow> nat"
    and count :: "'s \<Rightarrow> nat"
    and put :: "'v \<Rightarrow> 's \<Rightarrow> 's"
    and take_one :: "'s \<Rightarrow> 'v \<times> 's"
  assumes size_pos: "0 < size"
    and put_full: "size \<le> count s \<Longrightarrow> put v s = s"
    and put_data: "count s < size \<Longrightarrow> data (put v s) = (data s)(head s := v)"
    and put_head: "count s < size \<Longrightarrow> head (put v s) = ring_next size (head s)"
    and put_tail: "tail (put v s) = tail s"
    and put_count: "count s < size \<Longrightarrow> count (put v s) = Suc (count s)"
    and take_value: "0 < count s \<Longrightarrow> fst (take_one s) = data s (tail s)"
    and take_data: "0 < count s \<Longrightarrow> data (snd (take_one s)) = data s"
    and take_head: "0 < count s \<Longrightarrow> head (snd (take_one s)) = head s"
    and take_tail: "0 < count s \<Longrightarrow> tail (snd (take_one s)) = ring_next size (tail s)"
    and take_count: "0 < count s \<Longrightarrow> count (snd (take_one s)) = count s - 1"
begin

text \<open>The well-formed buffers, and the queue one stands for, oldest first.\<close>

definition wf :: "'s \<Rightarrow> bool" where
  "wf s \<longleftrightarrow> tail s < size \<and> count s \<le> size \<and> head s = (tail s + count s) mod size"

definition content :: "'s \<Rightarrow> 'v list" where
  "content s = map (\<lambda>i. data s ((tail s + i) mod size)) [0..<count s]"

lemma ring_next_mod: "i < size \<Longrightarrow> ring_next size i = Suc i mod size"
  using size_pos by (auto simp: ring_next_def)

lemma wf_put: "wf s \<Longrightarrow> wf (put v s)"
proof (cases "count s < size")
  case True
  assume w: "wf s"
  then have "head s < size" using size_pos by (simp add: wf_def)
  then have "ring_next size (head s) = Suc (tail s + count s) mod size"
    using w by (simp add: ring_next_mod wf_def mod_Suc_eq)
  then show "wf (put v s)" using w True by (simp add: wf_def put_tail put_count put_head)
next
  case False
  assume "wf s"
  then show "wf (put v s)" using False by (simp add: put_full)
qed

lemma wf_take: "wf s \<Longrightarrow> 0 < count s \<Longrightarrow> wf (snd (take_one s))"
proof -
  assume w: "wf s" and c: "0 < count s"
  have "ring_next size (tail s) = Suc (tail s) mod size" using w by (simp add: ring_next_mod wf_def)
  moreover have "(Suc (tail s) mod size + (count s - 1)) mod size = (tail s + count s) mod size"
    using c by (cases "count s") (simp_all add: mod_add_left_eq)
  ultimately show "wf (snd (take_one s))"
    using w c size_pos by (simp add: wf_def take_tail take_count take_head) linarith
qed

lemma slots_distinct:
  assumes "t < size" and "i < c" and "c < size"
  shows "(t + i) mod size \<noteq> (t + c) mod size"
proof
  assume "(t + i) mod size = (t + c) mod size"
  then have "size dvd (t + c) - (t + i)" using assms(2) by (intro mod_eq_dvd_iff_nat [THEN iffD1]) auto
  then have "size dvd c - i" by simp
  then show False using assms(2,3) by (auto dest: dvd_imp_le)
qed

lemma content_put:
  assumes "wf s"
  shows "content (put v s) = (if count s < size then content s @ [v] else content s)"
proof (cases "count s < size")
  case True
  have h: "head s = (tail s + count s) mod size" and t: "tail s < size" using assms by (auto simp: wf_def)
  have "data (put v s) ((tail s + i) mod size) = data s ((tail s + i) mod size)" if "i < count s" for i
    using slots_distinct [OF t that True] True by (simp add: put_data h)
  then show ?thesis using True by (auto simp: content_def put_tail put_count put_data h)
qed (simp add: put_full)

lemma content_take:
  assumes "wf s" and "0 < count s"
  shows "content s = fst (take_one s) # content (snd (take_one s))"
proof -
  have t: "tail s < size" using assms by (simp add: wf_def)
  have "data s ((Suc (tail s) mod size + i) mod size) = data s ((tail s + Suc i) mod size)" for i
    by (simp add: mod_add_left_eq)
  moreover have "[0..<count s] = 0 # map Suc [0..<count s - 1]" using assms(2) by (simp add: map_Suc_upt upt_conv_Cons)
  ultimately show ?thesis
    using assms(2) t by (simp add: content_def take_value take_data take_tail take_count ring_next_mod)
qed

lemma content_empty: "content s = [] \<longleftrightarrow> count s = 0"
  by (simp add: content_def)

lemma length_content: "length (content s) = count s"
  by (simp add: content_def)

text \<open>As many elements as fit come back in the order in which they were put.\<close>

fun take_n :: "nat \<Rightarrow> 's \<Rightarrow> 'v list \<times> 's" where
  "take_n 0 s = ([], s)"
| "take_n (Suc n) s = (let (v, s1) = take_one s; (vs, s2) = take_n n s1 in (v # vs, s2))"

lemma take_n_content:
  "wf s \<Longrightarrow> n = count s \<Longrightarrow> fst (take_n n s) = content s"
proof (induction n arbitrary: s)
  case 0
  then show ?case by (simp add: content_def)
next
  case (Suc n)
  then have "0 < count s" by simp
  then have "fst (take_n n (snd (take_one s))) = content (snd (take_one s))"
    using Suc by (intro Suc.IH) (auto simp: wf_take take_count)
  then show ?case
    using content_take [OF Suc.prems(1) \<open>0 < count s\<close>] by (simp add: case_prod_beta Let_def)
qed

lemma wf_puts: "wf s \<Longrightarrow> wf (fold put vs s)"
  by (induction vs arbitrary: s) (auto intro: wf_put)

lemma content_puts:
  "wf s \<Longrightarrow> count s + length vs \<le> size \<Longrightarrow> content (fold put vs s) = content s @ vs"
proof (induction vs arbitrary: s)
  case (Cons v vs)
  then show ?case by (simp add: wf_put content_put put_count)
qed simp

lemma put_then_take:
  assumes "wf s" and "count s = 0" and "length vs \<le> size"
  shows "fst (take_n (length vs) (fold put vs s)) = vs"
proof -
  have c: "content (fold put vs s) = vs" using assms content_puts [of s vs] by (simp add: content_empty)
  then have "count (fold put vs s) = length vs" using length_content [of "fold put vs s"] by simp
  then show ?thesis using take_n_content [OF wf_puts [OF assms(1)], of "length vs" vs] c by simp
qed

end

end
