(* ===== verification/Tty.thy ===== *)
theory Tty
  imports Irq Ring
begin

text \<open>
  The terminals of tty/tty.c: each has a ring buffer of 256 keys and writes to the console
  of the same number. A terminal pointer is its index in \<open>tty_table\<close>, a buffer pointer the
  index in the buffer.
\<close>

unbundle bit_operations_syntax

section \<open>State\<close>

abbreviation (input) TTY_IN_BYTES_NUM :: nat where "TTY_IN_BYTES_NUM \<equiv> 256"
abbreviation (input) KEY_ENTER :: u32 where "KEY_ENTER \<equiv> 0x01000005"

record Tty =
  inbuf :: "nat \<Rightarrow> u32"
  inbuf_head :: nat
  inbuf_tail :: nat
  inbuf_count :: nat
  ready :: u32
  tty_console :: nat

record ttys = irqs +
  tty_table :: "nat \<Rightarrow> Tty"
  cur_tty_index :: int

definition upd_tty :: "nat \<Rightarrow> (Tty \<Rightarrow> Tty) \<Rightarrow> 'a ttys_scheme \<Rightarrow> 'a ttys_scheme" where
  "upd_tty i f s = s\<lparr>tty_table := (tty_table s)(i := f (tty_table s i))\<rparr>"

section \<open>The input buffer\<close>

definition inbuf_put :: "u32 \<Rightarrow> Tty \<Rightarrow> Tty" where
  "inbuf_put key t =
     (if inbuf_count t < TTY_IN_BYTES_NUM
      then t\<lparr>inbuf := (inbuf t)(inbuf_head t := key),
             inbuf_head := (if Suc (inbuf_head t) = TTY_IN_BYTES_NUM then 0 else Suc (inbuf_head t)),
             inbuf_count := Suc (inbuf_count t)\<rparr>
      else t)"

text \<open>The start of \<open>tty_do_write\<close>: the oldest key leaves the buffer.\<close>

definition inbuf_take :: "Tty \<Rightarrow> u32 \<times> Tty" where
  "inbuf_take t =
     (inbuf t (inbuf_tail t),
      t\<lparr>inbuf_tail := (if Suc (inbuf_tail t) = TTY_IN_BYTES_NUM then 0 else Suc (inbuf_tail t)),
        inbuf_count := inbuf_count t - 1\<rparr>)"

definition put_key :: "nat \<Rightarrow> u32 \<Rightarrow> 'a ttys_scheme \<Rightarrow> 'a ttys_scheme" where
  "put_key i key s =
     (if inbuf_count (tty_table s i) < TTY_IN_BYTES_NUM
      then upd_tty i (inbuf_put key) (s\<lparr>mem := s32_put_char (ucast key) (0xb8000 + 160 * 20) (mem s)\<rparr>)
      else s)"

text \<open>
  \<open>get_data_from_tty_buf\<close> reads the tail and counts down, but never moves the tail: the
  test that would wrap it is never true.
\<close>

definition get_data_from_tty_buf :: "nat \<Rightarrow> 'a ttys_scheme \<Rightarrow> int \<times> 'a ttys_scheme" where
  "get_data_from_tty_buf i s =
     (let t = tty_table s i
      in if inbuf_count t \<noteq> 0
         then (uint (ucast (inbuf t (inbuf_tail t)) :: u8),
               upd_tty i (\<lambda>t. t\<lparr>inbuf_tail := (if inbuf_tail t = TTY_IN_BYTES_NUM then 0 else inbuf_tail t),
                                 inbuf_count := inbuf_count t - 1\<rparr>) s)
         else (- 1, s))"

section \<open>Terminals\<close>

definition init_tty :: "nat \<Rightarrow> 'a ttys_scheme \<Rightarrow> 'a ttys_scheme" where
  "init_tty i = upd_tty i (\<lambda>t. t\<lparr>inbuf_count := 0, inbuf_tail := 0, inbuf_head := 0, tty_console := i, ready := 1\<rparr>)"

definition is_current_tty :: "nat \<Rightarrow> 'a ttys_scheme \<Rightarrow> bool" where
  "is_current_tty i s \<longleftrightarrow> int i = cur_tty_index s"

definition tty_banner :: "int \<Rightarrow> cstring" where
  "tty_banner i = map of_char ''simple os tty ''
     @ (if i = 0 then map of_char ''1'' else if i = 1 then map of_char ''2'' else if i = 2 then map of_char ''3'' else [])
     @ [0x0d, 0x0a] @ map of_char ''fake login: '' @ [0x0d, 0x0a, 0x0d, 0x0a]"

text \<open>
  \<open>select_tty\<close> checks the old index instead of its argument; with an argument outside the
  table the terminal it then uses is outside the table. It prints the banner of the
  terminal, restores the position, and shows the console.
\<close>

definition select_tty :: "Assets \<Rightarrow> int \<Rightarrow> 'a ttys_scheme \<Rightarrow> (int \<times> 'a ttys_scheme) result" where
  "select_tty A index s =
     (let (ret, s1) = (if 0 \<le> cur_tty_index s \<and> cur_tty_index s < int TTY_NUM
                       then (0, s\<lparr>cur_tty_index := index\<rparr>) else (- 1, s))
      in if cur_tty_index s1 < 0 \<or> int TTY_NUM \<le> cur_tty_index s1 then Inl Out_of_bounds
         else
           let c = tty_console (tty_table s1 (nat (cur_tty_index s1)));
               (org_x, org_y) = get_xy c s1;
               s2 = s32_console_print_str A c (tty_banner (cur_tty_index s1)) (set_xy c 0 0 s1);
               s3 = set_xy c org_x org_y s2;
               start = ucast ((vm_start (console_table s3 c) - 0xb8000) div 2) :: u16;
               s4 = set_video_start_addr start s3
           in Inr (ret, set_cursor (start + ucast org_x + ucast org_y * 80) s4))"

definition tty_do_write :: "Assets \<Rightarrow> nat \<Rightarrow> 'a ttys_scheme \<Rightarrow> 'a ttys_scheme result" where
  "tty_do_write A i s =
     (if inbuf_count (tty_table s i) = 0 then Inr s
      else if cur_tty_index s < 0 \<or> int TTY_NUM \<le> cur_tty_index s then Inl Out_of_bounds
      else
        let (ch, t) = inbuf_take (tty_table s i);
            s1 = upd_tty i (\<lambda>_. t) s;
            c = tty_console (tty_table s1 (nat (cur_tty_index s1)))
        in Inr (if ch = KEY_ENTER
                then s32_console_print_char A c 0x0a (s32_console_print_char A c 0x0d s1)
                else s32_console_print_char A c (ucast ch) s1))"

fun tty_write_loop :: "Assets \<Rightarrow> nat \<Rightarrow> u32 \<Rightarrow> nat \<Rightarrow> 'a ttys_scheme \<Rightarrow> 'a ttys_scheme" where
  "tty_write_loop A i buf 0 s = s"
| "tty_write_loop A i buf (Suc n) s =
     tty_write_loop A i (buf + 1) n
       (if ready (tty_table s i) = 1
        then s32_console_print_char A (tty_console (tty_table s i)) (mem s buf) s else s)"

definition tty_write :: "Assets \<Rightarrow> nat \<Rightarrow> u32 \<Rightarrow> int \<Rightarrow> 'a ttys_scheme \<Rightarrow> 'a ttys_scheme" where
  "tty_write A i buf len s = tty_write_loop A i buf (nat len) s"

section \<open>The input buffer is a bounded queue\<close>

interpretation tty_ring: ring_buffer TTY_IN_BYTES_NUM inbuf inbuf_head inbuf_tail inbuf_count inbuf_put inbuf_take
  by unfold_locales (auto simp: inbuf_put_def inbuf_take_def ring_next_def)

end
