(* ===== verification/Keyboard.thy ===== *)
theory Keyboard
  imports Tty
begin

text \<open>
  The keyboard driver and the terminal task: tty/keyboard.c and \<open>task_tty\<close> of tty/tty.c.
  The interrupt handler puts scan codes into a ring buffer of 32 bytes; the terminal task
  takes them out, translates them and echoes them on the current console. The code that
  switches the display mode is assembly; it is an argument. Where a loop waits for the
  buffer to fill, the scan codes that arrive meanwhile are an argument too.
\<close>

unbundle bit_operations_syntax

section \<open>Constants and state\<close>

abbreviation (input) KEY_SHIFT_R :: int where "KEY_SHIFT_R \<equiv> 0x01000220"
abbreviation (input) KEY_SHIFT_L :: int where "KEY_SHIFT_L \<equiv> 0x01000020"
abbreviation (input) KEY_CAPSLOCK :: int where "KEY_CAPSLOCK \<equiv> 0x01000024"
abbreviation (input) KEY_F1 :: int where "KEY_F1 \<equiv> 0x01000030"
abbreviation (input) KEY_F2 :: int where "KEY_F2 \<equiv> 0x01000031"
abbreviation (input) KEY_F3 :: int where "KEY_F3 \<equiv> 0x01000032"
abbreviation (input) KEY_F6 :: int where "KEY_F6 \<equiv> 0x01000035"
abbreviation (input) KEY_ALT_L :: int where "KEY_ALT_L \<equiv> 0x01000023"
abbreviation (input) KB_NUM :: nat where "KB_NUM \<equiv> 32"
abbreviation (input) PRESS :: u8 where "PRESS \<equiv> 0"
abbreviation (input) RELEASE :: u8 where "RELEASE \<equiv> 1"
abbreviation (input) ASCII_MODE :: int where "ASCII_MODE \<equiv> 2"
abbreviation (input) TEXT_MODE :: int where "TEXT_MODE \<equiv> 0"
abbreviation (input) VGA_320X200X256 :: int where "VGA_320X200X256 \<equiv> 1"

record KeyboardBuf =
  kb_head :: nat
  kb_tail :: nat
  kb_count :: nat
  kb_data :: "nat \<Rightarrow> u8"

record KeyStatus =
  key :: int
  press :: u8

text \<open>
  The statics of the module: \<open>handler_pos\<close> of \<open>keyboard_handler\<close>, \<open>keymap_col\<close> of
  \<open>parse_scan_code\<close>, \<open>alt_l\<close> of \<open>keyboard_read\<close>, \<open>tty_turns\<close> of \<open>task_tty\<close>.
\<close>

record keyboard = ttys +
  kb_buf :: KeyboardBuf
  capslock :: u8
  shift_r :: u8
  shift_l :: u8
  vga_mode :: int
  handler_pos :: u32
  keymap_col :: u8
  alt_l :: u8
  tty_turns :: u32

section \<open>The scan-code buffer\<close>

definition kb_put :: "u8 \<Rightarrow> KeyboardBuf \<Rightarrow> KeyboardBuf" where
  "kb_put c b =
     (if kb_count b < KB_NUM
      then b\<lparr>kb_data := (kb_data b)(kb_head b := c),
             kb_head := (if Suc (kb_head b) = KB_NUM then 0 else Suc (kb_head b)),
             kb_count := Suc (kb_count b)\<rparr>
      else b)"

definition kb_take :: "KeyboardBuf \<Rightarrow> u8 \<times> KeyboardBuf" where
  "kb_take b =
     (kb_data b (kb_tail b),
      b\<lparr>kb_tail := (if Suc (kb_tail b) = KB_NUM then 0 else Suc (kb_tail b)), kb_count := kb_count b - 1\<rparr>)"

text \<open>The interrupt handler, given the byte it reads from port 0x60.\<close>

definition keyboard_handler :: "u8 \<Rightarrow> 'a keyboard_scheme \<Rightarrow> 'a keyboard_scheme result" where
  "keyboard_handler scan_code s =
     (let s1 = s\<lparr>io_log := io_log s @ [In8 0x60], kb_buf := kb_put scan_code (kb_buf s)\<rparr>
      in rbind (s32_print_int (ucast scan_code) (0xb8000 + 160 * 22 + handler_pos s1 * 2) 16 s1)
           (\<lambda>s2. Inr (s2\<lparr>handler_pos := handler_pos s2 + 3\<rparr>)))"

text \<open>The loop \<open>while (kb_buf.count <= 0)\<close>: it ends when an interrupt fills the buffer.\<close>

fun kb_wait :: "u8 list \<Rightarrow> 'a keyboard_scheme \<Rightarrow> (u8 list \<times> 'a keyboard_scheme) result" where
  "kb_wait [] s = (if 0 < kb_count (kb_buf s) then Inr ([], s) else Inl Hang)"
| "kb_wait (b # bs) s =
     (if 0 < kb_count (kb_buf s) then Inr (b # bs, s) else rbind (keyboard_handler b s) (kb_wait bs))"

definition get_byte_from_kb_buf ::
  "u8 list \<Rightarrow> 'a keyboard_scheme \<Rightarrow> (u8 \<times> u8 list \<times> 'a keyboard_scheme) result" where
  "get_byte_from_kb_buf arrivals s =
     rbind (kb_wait arrivals s) (\<lambda>(rest, s1).
       let (scan_code, b) = kb_take (kb_buf s1)
       in Inr (scan_code, rest, enable_int ((disable_int s1)\<lparr>kb_buf := b\<rparr>)))"

definition init_keyboard :: "'a keyboard_scheme \<Rightarrow> 'a keyboard_scheme" where
  "init_keyboard s =
     (let s1 = s32_print (map of_char ''init keyboard'') (0xb8000 + 160 * 23) s;
          s2 = s1\<lparr>kb_buf := (kb_buf s1)\<lparr>kb_count := 0, kb_tail := 0, kb_head := 0\<rparr>\<rparr>
      in enable_irq KEYBOARD_IRQ (put_irq_handler KEYBOARD_IRQ keyboard_irq_handler s2))"

section \<open>Key codes\<close>

text \<open>The table of 128 scan codes, with and without shift.\<close>

definition keymap :: "int list" where
  "keymap = [
     0, 0, 0x1000000, 0x1000000, 0x31, 0x21, 0x32, 0x40,
     0x33, 0x23, 0x34, 0x24, 0x35, 0x25, 0x36, 0x5e,
     0x37, 0x26, 0x38, 0x2a, 0x39, 0x28, 0x30, 0x29,
     0x2d, 0x5f, 0x3d, 0x2b, 0x1000003, 0x1000003, 0x1000001, 0x1000001,
     0x71, 0x51, 0x77, 0x57, 0x65, 0x45, 0x72, 0x52,
     0x74, 0x54, 0x79, 0x59, 0x75, 0x55, 0x69, 0x49,
     0x6f, 0x4f, 0x70, 0x50, 0x5b, 0x7b, 0x5d, 0x7d,
     0x1000005, 0x1000005, 0x1000021, 0x1000021, 0x61, 0x41, 0x73, 0x53,
     0x64, 0x44, 0x66, 0x46, 0x67, 0x47, 0x68, 0x48,
     0x6a, 0x4a, 0x6b, 0x4b, 0x6c, 0x4c, 0x3b, 0x3a,
     0x27, 0x22, 0x60, 0x7e, 0x1000020, 0x1000020, 0x5c, 0x7c,
     0x7a, 0x5a, 0x78, 0x58, 0x63, 0x43, 0x76, 0x56,
     0x62, 0x42, 0x6e, 0x4e, 0x6d, 0x4d, 0x2c, 0x3c,
     0x2e, 0x3e, 0x2f, 0x3f, 0x1000220, 0x1000220, 0x2a, 0x2a,
     0x1000023, 0x1000023, 0x20, 0x20, 0x1000024, 0x1000024, 0x1000030, 0x1000030,
     0x1000031, 0x1000031, 0x1000032, 0x1000032, 0x1000033, 0x1000033, 0x1000034, 0x1000034,
     0x1000035, 0x1000035, 0x1000036, 0x1000036, 0x1000037, 0x1000037, 0x1000038, 0x1000038,
     0x1000039, 0x1000039, 0x1000025, 0x1000025, 0x1000026, 0x1000026, 0x1000010, 0x1000010,
     0x1000013, 0x1000013, 0x1000016, 0x1000016, 0x1000160, 0x1000160, 0x1000012, 0x1000012,
     0x1000161, 0x1000161, 0x1000014, 0x1000014, 0x1000162, 0x1000162, 0x1000011, 0x1000011,
     0x1000015, 0x1000015, 0x1000017, 0x1000017, 0x1000006, 0x1000006, 0x1000163, 0x1000163,
     0, 0, 0, 0, 0, 0, 0x100003a, 0x100003a,
     0x100003b, 0x100003b, 0, 0, 0, 0, 0, 0,
     0, 0, 0, 0, 0, 0, 0, 0,
     0, 0, 0, 0, 0, 0, 0, 0,
     0, 0, 0, 0, 0, 0, 0, 0,
     0, 0, 0, 0, 0, 0, 0, 0,
     0, 0, 0, 0, 0, 0, 0, 0,
     0, 0, 0, 0, 0, 0, 0, 0,
     0, 0, 0, 0, 0, 0, 0, 0,
     0, 0, 0, 0, 0, 0, 0, 0,
     0, 0, 0, 0, 0, 0, 0, 0]"

definition lookup_key :: "u8 \<Rightarrow> u8 \<Rightarrow> int" where
  "lookup_key scan_code col = keymap ! (unat scan_code * 2 + unat col)"

definition to_shift_key :: "int \<Rightarrow> 'a keyboard_scheme \<Rightarrow> int" where
  "to_shift_key k s =
     (if 0x61 \<le> k \<and> k \<le> 0x7a then
        (if capslock s = 0
         then (if shift_r s = 1 \<or> shift_l s = 1 then toupper k else tolower k)
         else (if shift_r s = 1 \<or> shift_l s = 1 then tolower k else toupper k))
      else k)"

definition decode :: "u8 \<Rightarrow> u8 \<Rightarrow> KeyStatus" where
  "decode scan_code col =
     \<lparr>key = lookup_key (scan_code AND 0x7f) col, press = (if scan_code AND 0x80 \<noteq> 0 then RELEASE else PRESS)\<rparr>"

text \<open>
  The shift and caps-lock bookkeeping of \<open>parse_scan_code\<close>. It looks at the key status left
  by the previous call.
\<close>

definition shift_state :: "KeyStatus \<Rightarrow> 'a keyboard_scheme \<Rightarrow> 'a keyboard_scheme" where
  "shift_state ks s =
     (if press ks = PRESS then
        (if key ks = KEY_SHIFT_R then s\<lparr>shift_r := 1\<rparr>
         else if key ks = KEY_SHIFT_L then s\<lparr>shift_l := 1\<rparr> else s)
      else if press ks = RELEASE then
        (if key ks = KEY_SHIFT_R then s\<lparr>shift_r := 0\<rparr>
         else if key ks = KEY_SHIFT_L then s\<lparr>shift_l := 0\<rparr>
         else if key ks = KEY_CAPSLOCK then s\<lparr>capslock := (if capslock s = 0 then 1 else 0)\<rparr> else s)
      else s)"

definition column :: "'a keyboard_scheme \<Rightarrow> u8" where
  "column s =
     (if capslock s = 0 then (if shift_r s = 1 \<or> shift_l s = 1 then 1 else 0)
      else (if shift_r s = 1 \<or> shift_l s = 1 then 0 else 1))"

definition parse_scan_code ::
  "u8 list \<Rightarrow> KeyStatus \<Rightarrow> int \<Rightarrow> 'a keyboard_scheme \<Rightarrow> (int \<times> KeyStatus \<times> u8 list \<times> 'a keyboard_scheme) result" where
  "parse_scan_code arrivals ks keyboard_mode s =
     (if kb_count (kb_buf s) = 0 then Inr (1, ks, arrivals, s)
      else rbind (get_byte_from_kb_buf arrivals s) (\<lambda>(scan_code, rest, s1).
        if scan_code = 0xe1 then Inr (0, ks, rest, s1)
        else if scan_code = 0xe0 then
          rbind (get_byte_from_kb_buf rest s1) (\<lambda>(code, rest', s2).
            Inr (0, decode code (keymap_col s2), rest', s2))
        else
          let s2 = (if keyboard_mode = ASCII_MODE then shift_state ks s1 else s1);
              s3 = s2\<lparr>keymap_col := column s2\<rparr>
          in Inr (0, decode scan_code (keymap_col s3), rest, s3)))"

section \<open>Display modes\<close>

definition switch_mode ::
  "Assets \<Rightarrow> ('a keyboard_scheme \<Rightarrow> 'a keyboard_scheme) \<Rightarrow> ('a keyboard_scheme \<Rightarrow> 'a keyboard_scheme)
   \<Rightarrow> int \<Rightarrow> 'a keyboard_scheme \<Rightarrow> 'a keyboard_scheme" where
  "switch_mode A set_03_mode set_vga_mode mode s =
     (if mode = TEXT_MODE then
        (if vga_mode s \<noteq> TEXT_MODE
         then fold (clear_console A) [0..<CONSOLE_NUM - 1] ((set_03_mode s)\<lparr>vga_mode := TEXT_MODE\<rparr>)
         else s)
      else if mode = VGA_320X200X256 then
        (if vga_mode s \<noteq> VGA_320X200X256 then (set_vga_mode s)\<lparr>vga_mode := VGA_320X200X256\<rparr> else s)
      else s)"

section \<open>The terminal task\<close>

definition keyboard_read ::
  "Assets \<Rightarrow> ('a keyboard_scheme \<Rightarrow> 'a keyboard_scheme) \<Rightarrow> ('a keyboard_scheme \<Rightarrow> 'a keyboard_scheme)
   \<Rightarrow> u8 list \<Rightarrow> nat \<Rightarrow> 'a keyboard_scheme \<Rightarrow> (u8 list \<times> 'a keyboard_scheme) result" where
  "keyboard_read A set_03_mode set_vga_mode arrivals i s =
     (if kb_count (kb_buf s) = 0 then Inr (arrivals, s)
      else rbind (get_byte_from_kb_buf arrivals s) (\<lambda>(scan_code, rest, s1).
        let ks = decode scan_code 0; hot = (alt_l s1 = 1 \<and> press ks = PRESS)
        in if key ks = KEY_F1 \<or> key ks = KEY_F2 \<or> key ks = KEY_F3 then
             (if hot
              then rbind (select_tty A (key ks - KEY_F1) (switch_mode A set_03_mode set_vga_mode TEXT_MODE s1))
                     (\<lambda>(_, s2). Inr (rest, s2\<lparr>alt_l := 0\<rparr>))
              else Inr (rest, s1\<lparr>alt_l := 0\<rparr>))
           else if key ks = KEY_F6 then
             (if hot
              then rbind (select_tty A 3 s1) (\<lambda>(_, s2).
                let s3 = switch_mode A set_03_mode set_vga_mode VGA_320X200X256 s2;
                    s4 = draw_str A 20 100 15 (draw_bg 0 0 (os_bg A) (draw_256_grid s3))
                in Inr (rest, s4\<lparr>alt_l := 0\<rparr>))
              else Inr (rest, s1\<lparr>alt_l := 0\<rparr>))
           else if key ks = KEY_ALT_L then Inr (rest, s1\<lparr>alt_l := 1\<rparr>)
           else Inr (rest, (if press ks = PRESS then put_key i (word_of_int (key ks)) s1 else s1)\<lparr>alt_l := 0\<rparr>)))"

definition tty_do_read ::
  "Assets \<Rightarrow> ('a keyboard_scheme \<Rightarrow> 'a keyboard_scheme) \<Rightarrow> ('a keyboard_scheme \<Rightarrow> 'a keyboard_scheme)
   \<Rightarrow> u8 list \<Rightarrow> nat \<Rightarrow> 'a keyboard_scheme \<Rightarrow> (u8 list \<times> 'a keyboard_scheme) result" where
  "tty_do_read A set_03_mode set_vga_mode arrivals i s =
     (if is_current_tty i s then keyboard_read A set_03_mode set_vga_mode arrivals i s else Inr (arrivals, s))"

definition task_tty_init :: "Assets \<Rightarrow> 'a keyboard_scheme \<Rightarrow> 'a keyboard_scheme result" where
  "task_tty_init A s =
     rbind (select_tty A 0 (fold init_tty [0..<TTY_NUM] (init_console s))) (\<lambda>(_, s1). Inr s1)"

text \<open>One turn of the endless loop of \<open>task_tty\<close>: all terminals from \<open>i\<close> on.\<close>

fun tty_turn ::
  "Assets \<Rightarrow> ('a keyboard_scheme \<Rightarrow> 'a keyboard_scheme) \<Rightarrow> ('a keyboard_scheme \<Rightarrow> 'a keyboard_scheme)
   \<Rightarrow> u8 list \<Rightarrow> nat list \<Rightarrow> 'a keyboard_scheme \<Rightarrow> (u8 list \<times> 'a keyboard_scheme) result" where
  "tty_turn A set_03_mode set_vga_mode arrivals [] s = Inr (arrivals, s)"
| "tty_turn A set_03_mode set_vga_mode arrivals (i # is) s =
     (if ready (tty_table s i) = 1
      then rbind (tty_do_read A set_03_mode set_vga_mode arrivals i s) (\<lambda>(rest, s1).
           rbind (tty_do_write A i s1) (\<lambda>s2. tty_turn A set_03_mode set_vga_mode rest is s2))
      else tty_turn A set_03_mode set_vga_mode arrivals is s)"

definition task_tty_loop ::
  "Assets \<Rightarrow> ('a keyboard_scheme \<Rightarrow> 'a keyboard_scheme) \<Rightarrow> ('a keyboard_scheme \<Rightarrow> 'a keyboard_scheme)
   \<Rightarrow> u8 list \<Rightarrow> 'a keyboard_scheme \<Rightarrow> (u8 list \<times> 'a keyboard_scheme) result" where
  "task_tty_loop A set_03_mode set_vga_mode arrivals s =
     rbind (s32_print_int (tty_turns s) (0xb8000 + 160 * 23) 10 s) (\<lambda>s1.
       tty_turn A set_03_mode set_vga_mode arrivals [0..<TTY_NUM] (s1\<lparr>tty_turns := tty_turns s1 + 1\<rparr>))"

text \<open>\<open>parse_key\<close> of tty.c, which translates from the terminal's buffer; its \<open>keymap_col\<close> stays 0.\<close>

definition parse_key :: "nat \<Rightarrow> KeyStatus \<Rightarrow> 'a keyboard_scheme \<Rightarrow> KeyStatus \<times> 'a keyboard_scheme" where
  "parse_key i ks s =
     (let (scan_code, s1) = get_data_from_tty_buf i s
      in if scan_code = - 1 \<or> scan_code = 0xe1 then (ks, s1)
         else if scan_code = 0xe0 then
           (let (code, s2) = get_data_from_tty_buf i s1 in (decode (word_of_int code) 0, s2))
         else (decode (word_of_int scan_code) 0, s1))"

definition blank_keyboard :: keyboard where
  "blank_keyboard = ttys.extend (irqs.extend blank_irqs (ttys.fields
       (\<lambda>i. \<lparr>inbuf = \<lambda>_. 0, inbuf_head = 0, inbuf_tail = 0, inbuf_count = 0, ready = 1, tty_console = i\<rparr>) 1))
     (keyboard.fields \<lparr>kb_head = 0, kb_tail = 0, kb_count = 0, kb_data = \<lambda>_. 0\<rparr> 0 0 0 0 0 0 0 0)"

lemmas blank_keyboard_defs = blank_keyboard_def keyboard.defs ttys.defs irqs.defs

section \<open>The scan-code buffer is a bounded queue\<close>

interpretation kb_ring: ring_buffer KB_NUM kb_data kb_head kb_tail kb_count kb_put kb_take
  by unfold_locales (auto simp: kb_put_def kb_take_def ring_next_def)

section \<open>Which fields an operation leaves alone\<close>

lemma s32_print_upd:
  "s32_print str vb st = st\<lparr>mem := fst (s32_print_loop str vb (mem st)),
     cur_vb := (if sint (snd (s32_print_loop str vb (mem st))) \<ge> 0xb8000 + 160 * 24 then VB + 160
                else snd (s32_print_loop str vb (mem st)))\<rparr>"
  by (simp add: s32_print_def case_prod_beta Let_def)

lemma s32_print_int_hex: "s32_print_int i vb 16 s = Inr (s32_print (number i 16) vb s)"
  using s32_itoa_number [of 16 i] by (simp add: s32_print_int_def)

lemmas console_unfold = s32_console_print_char_def text_print_char_def Let_def upd_console_def poke_def
  set_cursor_def set_video_start_addr_def io_defs

lemma print_char_keeps:
  fixes s :: "'a keyboard_scheme"
  assumes "con_type (console_table s c) = TEXT_CONSOLE"
  shows "kb_buf (s32_console_print_char A c ch s) = kb_buf s" "tty_table (s32_console_print_char A c ch s) = tty_table s"
    "cur_tty_index (s32_console_print_char A c ch s) = cur_tty_index s" "alt_l (s32_console_print_char A c ch s) = alt_l s"
  using assms by (simp_all add: console_unfold)

section \<open>From a key to the screen\<close>

lemma keyboard_handler_puts:
  "\<exists>m vb log p. keyboard_handler sc s =
    Inr (s\<lparr>io_log := log, kb_buf := kb_put sc (kb_buf s), mem := m, cur_vb := vb, handler_pos := p\<rparr>)"
  by (simp add: keyboard_handler_def s32_print_int_hex s32_print_upd Let_def) blast

lemma kb_put_take:
  assumes "kb_ring.wf b" and "kb_count b = 0"
  shows "kb_count (kb_put c b) = 1" "fst (kb_take (kb_put c b)) = c" "kb_count (snd (kb_take (kb_put c b))) = 0"
    "kb_ring.wf (snd (kb_take (kb_put c b)))"
proof -
  show one: "kb_count (kb_put c b) = 1" using assms(2) by (simp add: kb_put_def)
  then have "kb_ring.content (kb_put c b) = [c]"
    using kb_ring.content_put [OF assms(1), of c] assms(2) kb_ring.content_empty [of b] by simp
  then show "fst (kb_take (kb_put c b)) = c"
    using kb_ring.content_take [OF kb_ring.wf_put [OF assms(1)], of c] one by simp
  show "kb_count (snd (kb_take (kb_put c b))) = 0" using one kb_ring.take_count [of "kb_put c b"] by simp
  show "kb_ring.wf (snd (kb_take (kb_put c b)))"
    using one by (intro kb_ring.wf_take kb_ring.wf_put assms(1)) simp
qed

lemma inbuf_put_take:
  assumes "tty_ring.wf t" and "inbuf_count t = 0"
  shows "inbuf_count (inbuf_put c t) = 1" "fst (inbuf_take (inbuf_put c t)) = c"
    "inbuf_count (snd (inbuf_take (inbuf_put c t))) = 0"
proof -
  show one: "inbuf_count (inbuf_put c t) = 1" using assms(2) by (simp add: inbuf_put_def)
  then have "tty_ring.content (inbuf_put c t) = [c]"
    using tty_ring.content_put [OF assms(1), of c] assms(2) tty_ring.content_empty [of t] by simp
  then show "fst (inbuf_take (inbuf_put c t)) = c"
    using tty_ring.content_take [OF tty_ring.wf_put [OF assms(1)], of c] one by simp
  show "inbuf_count (snd (inbuf_take (inbuf_put c t))) = 0" using one tty_ring.take_count [of "inbuf_put c t"] by simp
qed

lemma keyboard_read_char:
  fixes s :: "'a keyboard_scheme"
  assumes kb: "0 < kb_count (kb_buf s)" "kb_take (kb_buf s) = (sc, b)" and sc: "sc < 0x80"
    and k: "0x20 \<le> lookup_key sc 0" "lookup_key sc 0 \<le> 0x7e"
  shows "\<exists>log. keyboard_read A m3 vga [] i s =
    Inr ([], (put_key i (word_of_int (lookup_key sc 0)) (s\<lparr>kb_buf := b, io_log := log\<rparr>))\<lparr>alt_l := 0\<rparr>)"
proof -
  have "sc AND 0x7f = sc" "sc AND 0x80 = 0"
  proof -
    have "unat sc < 2 ^ 7" using sc by (simp add: word_less_nat_alt)
    then have t: "take_bit 7 sc = sc" 
      by (intro unsigned_word_eqI [where ?'a = nat]) (simp add: unsigned_take_bit_eq take_bit_nat_eq_self)
    have "(0x7f :: u8) = mask 7" by (simp add: mask_eq_exp_minus_1)
    then show "sc AND 0x7f = sc" using t by (simp add: take_bit_eq_mask)
    have "\<not> bit sc 7" using t by (metis bit_take_bit_iff less_irrefl)
    then show "sc AND 0x80 = 0" using and_exp_eq_0_iff_not_bit [of sc 7] by simp
  qed
  then have d: "decode sc 0 = \<lparr>key = lookup_key sc 0, press = PRESS\<rparr>" by (simp add: decode_def)
  have "kb_wait [] s = Inr ([], s)" using kb(1) by simp
  then show ?thesis
    using kb k by (auto simp: keyboard_read_def get_byte_from_kb_buf_def d io_defs Let_def)
qed

lemma tty_write_char:
  fixes s :: "'a keyboard_scheme"
  assumes cur: "cur_tty_index s = int i" "i < TTY_NUM" and con: "tty_console (tty_table s i) = c"
    and buf: "0 < inbuf_count (tty_table s i)" "inbuf_take (tty_table s i) = (word_of_int k, t)"
    and k: "0x20 \<le> k" "k \<le> 0x7e" and ok: "text_ok c s" "cur_y (console_table s c) < 50" and tc: "tty_console t = c"
  shows "\<exists>s'. tty_do_write A i s = Inr s' \<and> mem s' (cell (console_table s c)) = word_of_int k
    \<and> kb_buf s' = kb_buf s \<and> tty_table s' i = t"
proof -
  have "k \<in> {0x20..0x7e}" using k by simp
  then have "uint (word_of_int k :: u32) = k" "uint (word_of_int k :: u8) = k"
    by (simp_all add: uint_word_of_int_eq take_bit_int_eq_self)
  moreover have "take_bit 8 k = k" using k by (simp add: take_bit_int_eq_self)
  ultimately have ne: "(word_of_int k :: u32) \<noteq> KEY_ENTER" and uc: "(ucast (word_of_int k :: u32) :: u8) = word_of_int k"
    and pr: "printable (word_of_int k)"
    using k by (auto simp: printable_def word_le_def unsigned_ucast_eq intro!: word_uint_eqI)
  let ?s = "upd_tty i (\<lambda>_. t) s"
  have t: "con_type (console_table ?s c) = TEXT_CONSOLE" "console_table ?s = console_table s"
    using ok(1) by (simp_all add: upd_tty_def text_ok_def)
  have run: "tty_do_write A i s = Inr (s32_console_print_char A c (word_of_int k) ?s)"
    using cur buf con tc ne uc by (simp add: tty_do_write_def upd_tty_def Let_def)
  have "mem (s32_console_print_char A c (word_of_int k) ?s) (cell (console_table s c)) = word_of_int k"
    using t pr ok by (simp add: s32_console_print_char_def text_print_char_mem)
  then show ?thesis
    using run print_char_keeps [OF t(1)] by (auto simp: upd_tty_def)
qed

section \<open>Properties\<close>

text \<open>C30. The scan-code buffer is a first-in first-out queue of 32 bytes: as many codes as fit, put by
  the interrupt handler into an empty buffer, are taken out in the order in which they came,
  and a code that arrives at a full buffer is dropped without disturbing it.\<close>

theorem keyboard_buffer_fifo:
  assumes "kb_ring.wf b" and "kb_count b = 0" and "length cs \<le> KB_NUM"
  shows "fst (kb_ring.take_n (length cs) (fold kb_put cs b)) = cs
    \<and> (length cs = KB_NUM \<longrightarrow> kb_put c (fold kb_put cs b) = fold kb_put cs b)"
proof -
  have "kb_ring.content (fold kb_put cs b) = cs"
    using kb_ring.content_puts [OF assms(1), of cs] assms(2,3) kb_ring.content_empty [of b] by simp
  then have "kb_count (fold kb_put cs b) = length cs" using kb_ring.length_content by metis
  then show ?thesis using kb_ring.put_then_take [OF assms] by (simp add: kb_put_def)
qed

theorem keyboard_buffer_fifo_witness:
  "fst (kb_ring.take_n 2 (fold kb_put [0x1e, 0x9e] (kb_buf blank_keyboard))) = [0x1e, 0x9e]"
proof -
  have "kb_ring.wf (kb_buf blank_keyboard)" "kb_count (kb_buf blank_keyboard) = 0"
    by (simp_all add: blank_keyboard_defs kb_ring.wf_def)
  from keyboard_buffer_fifo [OF this, of "[0x1e, 0x9e]"] show ?thesis by (simp add: numeral_2_eq_2)
qed

text \<open>C29. A key press reaches the screen: after the interrupt for a key with a printable code and one
  turn of the current terminal, the character stands at the place where the cursor of its
  console was, and both buffers are empty again.\<close>

theorem keystroke_echo:
  fixes s :: "'a keyboard_scheme"
  assumes kb: "kb_ring.wf (kb_buf s)" "kb_count (kb_buf s) = 0"
    and tty: "cur_tty_index s = int i" "i < TTY_NUM" "tty_ring.wf (tty_table s i)" "inbuf_count (tty_table s i) = 0"
    and con: "tty_console (tty_table s i) = c" "text_ok c s" "cur_y (console_table s c) < 50"
    and sc: "sc < 0x80" and k: "0x20 \<le> lookup_key sc 0" "lookup_key sc 0 \<le> 0x7e"
  shows "\<exists>s1 s2 s3. keyboard_handler sc s = Inr s1 \<and> tty_do_read A m3 vga [] i s1 = Inr ([], s2)
    \<and> tty_do_write A i s2 = Inr s3 \<and> mem s3 (cell (console_table s c)) = word_of_int (lookup_key sc 0)
    \<and> kb_count (kb_buf s3) = 0 \<and> inbuf_count (tty_table s3 i) = 0"
proof -
  obtain m vb log p where h: "keyboard_handler sc s =
      Inr (s\<lparr>io_log := log, kb_buf := kb_put sc (kb_buf s), mem := m, cur_vb := vb, handler_pos := p\<rparr>)"
    using keyboard_handler_puts by blast
  define s1 where "s1 = s\<lparr>io_log := log, kb_buf := kb_put sc (kb_buf s), mem := m, cur_vb := vb, handler_pos := p\<rparr>"
  define b where "b = snd (kb_take (kb_put sc (kb_buf s)))"
  note pt = kb_put_take [OF kb, of sc]
  have take_eq: "kb_take (kb_buf s1) = (sc, b)" using pt(2) by (simp add: s1_def b_def prod_eq_iff)
  have "0 < kb_count (kb_buf s1)" using pt(1) by (simp add: s1_def)
  from keyboard_read_char [OF this take_eq sc k, of A m3 vga i]
  obtain log2 where rd: "keyboard_read A m3 vga [] i s1 =
      Inr ([], (put_key i (word_of_int (lookup_key sc 0)) (s1\<lparr>kb_buf := b, io_log := log2\<rparr>))\<lparr>alt_l := 0\<rparr>)" by blast
  define s2 where "s2 = (put_key i (word_of_int (lookup_key sc 0)) (s1\<lparr>kb_buf := b, io_log := log2\<rparr>))\<lparr>alt_l := 0\<rparr>"
  have cur: "is_current_tty i s1" using tty(1) by (simp add: is_current_tty_def s1_def)
  note ip = inbuf_put_take [OF tty(3,4), of "word_of_int (lookup_key sc 0)"]
  have s2: "tty_table s2 i = inbuf_put (word_of_int (lookup_key sc 0)) (tty_table s i)" "console_table s2 = console_table s"
    "kb_buf s2 = b" "cur_tty_index s2 = int i"
    using tty by (simp_all add: s2_def s1_def put_key_def upd_tty_def)
  define t where "t = snd (inbuf_take (tty_table s2 i))"
  have t: "inbuf_take (tty_table s2 i) = (word_of_int (lookup_key sc 0), t)" using ip(2) by (simp add: t_def s2 prod_eq_iff)
  have tc: "tty_console t = c" "tty_console (tty_table s2 i) = c"
    using con(1) by (simp_all add: t_def s2 inbuf_take_def inbuf_put_def)
  have "text_ok c s2" using con(2) by (simp add: text_ok_def s2)
  with tty_write_char [OF s2(4) tty(2) tc(2) _ t k _ _ tc(1), of A] ip con(3)
  obtain s3 where "tty_do_write A i s2 = Inr s3" "mem s3 (cell (console_table s c)) = word_of_int (lookup_key sc 0)"
    "kb_buf s3 = b" "tty_table s3 i = t" by (auto simp: s2)
  moreover have "kb_count b = 0" "inbuf_count t = 0" using pt(3) ip(3) by (simp_all add: b_def t_def s2)
  ultimately show ?thesis
    using h rd cur by (auto simp: tty_do_read_def s1_def [symmetric] s2_def [symmetric])
qed

theorem keystroke_echo_witness:
  "\<exists>s1 s2 s3. keyboard_handler 0x1e blank_keyboard = Inr s1 \<and> tty_do_read (plain_assets 0) id id [] 1 s1 = Inr ([], s2)
    \<and> tty_do_write (plain_assets 0) 1 s2 = Inr s3 \<and> mem s3 (cell (console_table blank_keyboard 1)) = 0x61
    \<and> kb_count (kb_buf s3) = 0 \<and> inbuf_count (tty_table s3 1) = 0"
proof -
  have k: "lookup_key 0x1e 0 = 0x61" by (simp add: lookup_key_def keymap_def)
  have con: "console_table blank_keyboard = console_table blank_consoles"
    by (simp add: blank_keyboard_defs blank_irqs_def init_8259a_def fold_irq_consoles Let_def io_defs consoles.defs)
  have f: "kb_buf blank_keyboard = \<lparr>kb_head = 0, kb_tail = 0, kb_count = 0, kb_data = \<lambda>_. 0\<rparr>"
    "tty_table blank_keyboard 1 = \<lparr>inbuf = \<lambda>_. 0, inbuf_head = 0, inbuf_tail = 0, inbuf_count = 0, ready = 1, tty_console = 1\<rparr>"
    "cur_tty_index blank_keyboard = int 1"
    by (simp_all add: blank_keyboard_defs)
  have "text_ok 1 blank_keyboard" "cur_y (console_table blank_keyboard 1) < 50"
    using blank_consoles_ok(1) blank_consoles_cursor by (simp_all add: text_ok_def con get_xy_def)
  with keystroke_echo [of blank_keyboard 1 1 "0x1e" "plain_assets 0" id id] k show ?thesis
    by (simp add: f f(2) [unfolded One_nat_def] kb_ring.wf_def tty_ring.wf_def)
qed

text \<open>Also: Every byte the keyboard can send is translated inside the 256-entry table, and the second
  column is the shifted key: a capital letter for every letter.\<close>

theorem keymap_total:
  fixes scan_code col :: u8
  assumes "col < 2"
  shows "unat (scan_code AND 0x7f) * 2 + unat col < length keymap
    \<and> (0x61 \<le> lookup_key (scan_code AND 0x7f) 0 \<and> lookup_key (scan_code AND 0x7f) 0 \<le> 0x7a
       \<longrightarrow> lookup_key (scan_code AND 0x7f) 1 = toupper (lookup_key (scan_code AND 0x7f) 0))"
proof -
  have len: "length keymap = 256" by (simp add: keymap_def)
  have "(0x7f :: u8) = mask 7" by (simp add: mask_eq_exp_minus_1)
  then have "unat (scan_code AND 0x7f) = take_bit 7 (unat scan_code)"
    by (simp only: take_bit_eq_mask [symmetric] unsigned_take_bit_eq)
  then have b: "unat (scan_code AND 0x7f) < 128" using take_bit_nat_less_exp [of 7 "unat scan_code"] by simp
  have c: "unat col < 2" using assms by (simp add: word_less_nat_alt)
  have "list_all (\<lambda>i. 0x61 \<le> keymap ! (2 * i) \<and> keymap ! (2 * i) \<le> 0x7a
      \<longrightarrow> keymap ! (2 * i + 1) = toupper (keymap ! (2 * i))) [0..<128]"
    by code_simp
  then have "0x61 \<le> keymap ! (2 * i) \<and> keymap ! (2 * i) \<le> 0x7a \<longrightarrow> keymap ! (2 * i + 1) = toupper (keymap ! (2 * i))"
    if "i < 128" for i using that by (simp add: list_all_iff)
  from this [OF b] b c show ?thesis by (simp add: len lookup_key_def mult.commute)
qed

theorem keymap_total_witness: "lookup_key (0x9e AND 0x7f) 1 = toupper (lookup_key (0x9e AND 0x7f) 0)"
proof -
  have "lookup_key (0x9e AND 0x7f) 0 = 0x61" by (simp add: lookup_key_def keymap_def)
  then show ?thesis using keymap_total [of 0 "0x9e"] by (simp add: toupper_def)
qed

text \<open>Also: The interrupt handler prints every scan code three columns further on and never goes back: at
  the 4877th interrupt the digits it prints are stored behind the end of video memory.\<close>

theorem keyboard_handler_walks_off:
  assumes "handler_pos s = 3 * 4876" and "keyboard_handler sc s = Inr s'"
  shows "mem s' 0xc0008 = hd (number (ucast sc) 16)"
proof -
  have ne: "number n r \<noteq> []" if "2 \<le> r" for n r
    using digits_nonempty [OF that, of "unat n"] by (simp add: number_def unat_eq_0)
  have len: "length (number (ucast sc) 16) < 2 ^ 31"
  proof -
    have "unat (ucast sc :: u32) < 16 ^ 8" using unsigned_less [of "ucast sc :: u32", where ?'a = nat] by simp
    then show ?thesis using digits_length [of "unat (ucast sc :: u32)" 16 8] by (simp add: number_def)
  qed
  have "fst (s32_print_loop (number (ucast sc) 16) a m) (a + 2 * of_nat 0) = number (ucast sc) 16 ! 0" for a m
    by (rule s32_print_loop_nth [OF len]) (use ne [of 16] in simp)
  then show ?thesis
    using assms ne [of 16 "ucast sc"]
    by (auto simp: keyboard_handler_def s32_print_int_hex s32_print_upd Let_def hd_conv_nth)
qed

theorem keyboard_handler_walks_off_witness:
  "\<exists>s'. keyboard_handler 0x1e (blank_keyboard\<lparr>handler_pos := 3 * 4876\<rparr>) = Inr s' \<and> mem s' 0xc0008 = hd (number 0x1e 16)"
proof -
  let ?s = "blank_keyboard\<lparr>handler_pos := 3 * 4876\<rparr>"
  obtain s' where h: "keyboard_handler 0x1e ?s = Inr s'" using keyboard_handler_puts [of "0x1e" ?s] by blast
  have "mem s' 0xc0008 = hd (number (ucast (0x1e :: u8)) 16)"
    by (rule keyboard_handler_walks_off [OF _ h]) simp
  with h show ?thesis by simp
qed

end
