(* ===== verification/Syscall.thy ===== *)
theory Syscall
  imports Kernel_Runs Keyboard
begin

text \<open>
  System calls from both sides: the library functions a process calls (syscall.c,
  \<open>send_recv\<close> of process.c, io/k_stdio_k.c) and the kernel's part of them. The code of a
  process is a resumption: it runs up to its next message-passing system call, the kernel
  carries the call out, and the process goes on when it is scheduled again, in whatever state
  the others have left. The address of a local variable of type \<open>Message\<close> is an argument.
\<close>

unbundle bit_operations_syntax

section \<open>The code of a process\<close>

datatype ('s, 'a) prog =
    Return 'a 's
  | Stop kerror
  | Suspend 's "'s \<Rightarrow> ('s, 'a) prog"

primrec pbind :: "('s, 'a) prog \<Rightarrow> ('a \<Rightarrow> 's \<Rightarrow> ('s, 'b) prog) \<Rightarrow> ('s, 'b) prog" where
  "pbind (Return a s) f = f a s"
| "pbind (Stop e) f = Stop e"
| "pbind (Suspend s k) f = Suspend s (\<lambda>s'. pbind (k s') f)"

text \<open>A process that goes on after its system call with the return value 0, and one that has ended its turn.\<close>

definition resume :: "'s \<Rightarrow> ('s, int) prog" where
  "resume s = Return 0 s"

definition turn_over :: "'a \<Rightarrow> 's \<Rightarrow> ('s, unit) prog" where
  "turn_over _ s = Return () s"

lemma pbind_resume [simp]: "pbind (resume s) f = f 0 s"
  by (simp add: resume_def)

definition prog_of :: "'s result \<Rightarrow> ('s, unit) prog" where
  "prog_of r = (case r of Inl e \<Rightarrow> Stop e | Inr s \<Rightarrow> Return () s)"

text \<open>An address in the data segment of the running process, and the fields of a message there.\<close>

definition self_addr :: "'a kernel_scheme \<Rightarrow> u32 \<Rightarrow> u32" where
  "self_addr s a = data_addr (proc_table s) (ready_process s) a"

definition get_field :: "u32 \<Rightarrow> 'a kernel_scheme \<Rightarrow> u32" where
  "get_field a s = read32 (mem s) (self_addr s a)"

definition put_field :: "u32 \<Rightarrow> u32 \<Rightarrow> 'a kernel_scheme \<Rightarrow> 'a kernel_scheme" where
  "put_field a v s = s\<lparr>mem := write32 (mem s) (self_addr s a) v\<rparr>"

definition reset_msg :: "u32 \<Rightarrow> 'a kernel_scheme \<Rightarrow> 'a kernel_scheme" where
  "reset_msg m s = s\<lparr>mem := p_asm_memset (mem s) (self_addr s m) 0 MSG_SIZE\<rparr>"

section \<open>Message passing as a process sees it\<close>

text \<open>
  The interrupt runs \<open>sys_sendrec\<close> for the running process. A return value other than 0 does
  not occur: the failures of the system call stop the kernel.
\<close>

definition sendrec :: "int \<Rightarrow> int \<Rightarrow> u32 \<Rightarrow> 'a kernel_scheme \<Rightarrow> ('a kernel_scheme, int) prog" where
  "sendrec function_no src_dest m s =
     (case sys_sendrec function_no src_dest m (ready_process s) s of
        Inl e \<Rightarrow> Stop e
      | Inr s' \<Rightarrow> Suspend s' resume)"

definition send_recv :: "int \<Rightarrow> int \<Rightarrow> u32 \<Rightarrow> 'a kernel_scheme \<Rightarrow> ('a kernel_scheme, int) prog" where
  "send_recv function_no src_dest m s =
     (let s1 = (if function_no = RECEIVE then reset_msg m s else s)
      in if function_no = BOTH then
           pbind (sendrec SEND src_dest m s1) (\<lambda>ret s2.
             if ret = 0 then sendrec RECEIVE src_dest m s2 else Return ret s2)
         else if function_no = SEND \<or> function_no = RECEIVE then sendrec function_no src_dest m s1
         else Stop Assert_failed)"

definition get_ticks :: "u32 \<Rightarrow> 'a kernel_scheme \<Rightarrow> ('a kernel_scheme, u32) prog" where
  "get_ticks m s =
     pbind (send_recv BOTH (int TASK_SYS) m (put_field (m + OFF_TYPE) GET_TICKS (reset_msg m s)))
       (\<lambda>_ s1. Return (get_field (m + OFF_RETVAL) s1) s1)"

definition fork :: "u32 \<Rightarrow> 'a kernel_scheme \<Rightarrow> ('a kernel_scheme, u32) prog" where
  "fork m s =
     pbind (send_recv BOTH (int TASK_MM) m (put_field (m + OFF_TYPE) FORK s))
       (\<lambda>_ s1. Return (get_field (m + OFF_PID) s1) s1)"

definition exit :: "u32 \<Rightarrow> u32 \<Rightarrow> 'a kernel_scheme \<Rightarrow> ('a kernel_scheme, unit) prog" where
  "exit m st s =
     pbind (send_recv BOTH (int TASK_MM) m
         (put_field (m + OFF_STATUS) st (put_field (m + OFF_TYPE) EXIT s)))
       (\<lambda>_ s1. if get_field (m + OFF_TYPE) s1 = SYSCALL_RET then Return () s1 else Stop Assert_failed)"

definition wait :: "u32 \<Rightarrow> u32 \<Rightarrow> 'a kernel_scheme \<Rightarrow> ('a kernel_scheme, u32) prog" where
  "wait m status_ptr s =
     pbind (send_recv BOTH (int TASK_MM) m (put_field (m + OFF_TYPE) WAIT s))
       (\<lambda>_ s1.
         let s2 = put_field status_ptr (get_field (m + OFF_STATUS) s1) s1;
             child = get_field (m + OFF_PID) s2
         in Return (if child = word_of_int NO_TASK then - 1 else child) s2)"

definition execl :: "u32 \<Rightarrow> u32 \<Rightarrow> 'a kernel_scheme \<Rightarrow> ('a kernel_scheme, u32) prog" where
  "execl m path s =
     (let s1 = put_field (m + OFF_PATHNAME) path (put_field (m + OFF_TYPE) EXEC s)
      in case str_at (mem s1) (self_addr s1 path) of
           None \<Rightarrow> Stop Hang
         | Some name \<Rightarrow>
             let s2 = put_field (m + OFF_BUF_LEN) 0 (put_field (m + OFF_BUF) 0
                        (put_field (m + OFF_NAME_LEN) (s_strlen name) s1))
             in pbind (send_recv BOTH (int TASK_MM) m s2) (\<lambda>_ s3.
                  if get_field (m + OFF_TYPE) s3 = SYSCALL_RET
                  then Return (get_field (m + OFF_RETVAL) s3) s3 else Stop Assert_failed))"

text \<open>
  \<open>milli_delay\<close> of start.c asks for the time until enough of it has passed. A program is
  finite, so that the number of questions is bounded by \<open>n\<close>; a delay that asks more often
  ends in \<open>Hang\<close>.
\<close>

abbreviation (input) HZ :: u32 where "HZ \<equiv> 100"

fun delay_loop :: "nat \<Rightarrow> u32 \<Rightarrow> u32 \<Rightarrow> u32 \<Rightarrow> 'a stdio_scheme \<Rightarrow> ('a stdio_scheme, unit) prog" where
  "delay_loop 0 m t milli_sec s = Stop Hang"
| "delay_loop (Suc n) m t milli_sec s =
     pbind (get_ticks m s) (\<lambda>t2 s1.
       case s32_print_int t2 (0xb8000 + 160 * 20) 10 s1 of
         Inl e \<Rightarrow> Stop e
       | Inr s2 \<Rightarrow>
           if (t2 - t) * 1000 div HZ \<ge> milli_sec then Return () s2
           else delay_loop n m t milli_sec s2)"

definition milli_delay :: "nat \<Rightarrow> u32 \<Rightarrow> u32 \<Rightarrow> 'a stdio_scheme \<Rightarrow> ('a stdio_scheme, unit) prog" where
  "milli_delay n m milli_sec s =
     pbind (get_ticks m s) (\<lambda>t s1. delay_loop n m t milli_sec s1)"

section \<open>The system task\<close>

text \<open>One turn of the endless loop of \<open>task_sys\<close> (systask.c).\<close>

definition task_sys :: "u32 \<Rightarrow> 'a kernel_scheme \<Rightarrow> ('a kernel_scheme, unit) prog" where
  "task_sys m s =
     pbind (send_recv RECEIVE ANY m s) (\<lambda>_ s1.
       let src = get_field m s1
       in if get_field (m + OFF_TYPE) s1 = GET_TICKS then
            pbind (send_recv SEND (sint src) m (put_field (m + OFF_RETVAL) (ticks s1) s1)) turn_over
          else Stop Panicked)"

section \<open>The other system calls\<close>

definition sys_get_ticks :: "'a kernel_scheme \<Rightarrow> u32" where
  "sys_get_ticks s = ticks s"

definition sys_set_vga_mode :: "('s \<Rightarrow> 's) \<Rightarrow> 's \<Rightarrow> int \<times> 's" where
  "sys_set_vga_mode switch_vga_mode s = (0, switch_vga_mode s)"

text \<open>The buffer of \<open>sys_write\<close> is not translated: the kernel reads it at its own address.\<close>

definition sys_write :: "Assets \<Rightarrow> u32 \<Rightarrow> int \<Rightarrow> nat \<Rightarrow> 'a ttys_scheme \<Rightarrow> (int \<times> 'a ttys_scheme) result" where
  "sys_write A buf len p s =
     (let t = tty_index (proc_table s p)
      in if t < 0 \<or> int TTY_NUM \<le> t then Inl Out_of_bounds
         else Inr (0, tty_write A (nat t) buf len s))"

definition sys_app_print :: "u32 \<Rightarrow> nat \<Rightarrow> 'a stdio_scheme \<Rightarrow> (int \<times> 'a stdio_scheme) result" where
  "sys_app_print str p s =
     rbind (if k_reenter s = 0
            then rbind (va2la (proc_table s) p str) (\<lambda>a. loop_result (str_at (mem s) a))
            else if k_reenter s > 0 then loop_result (str_at (mem s) str)
            else Inr (map of_char ''fail string'')) (\<lambda>text.
       Inr (0, s32_print text (0xb8000 + 160 * 20) s))"

text \<open>
  A message that begins with the panic character, or with the assertion character while a task
  runs, fills the video memory: the text in red, again and again, each time up to the next
  multiple of 1280 bytes. The pointer into video memory is even at every test and is kept as
  the number \<open>w\<close> of the cell it points to.
\<close>

abbreviation (input) V_MEM_BASE :: u32 where "V_MEM_BASE \<equiv> 0xb8000"
abbreviation (input) V_MEM_SIZE :: nat where "V_MEM_SIZE \<equiv> 0x8000"
abbreviation (input) SCR_WIDTH :: nat where "SCR_WIDTH \<equiv> 80"
abbreviation (input) RED_CHAR :: u8 where "RED_CHAR \<equiv> 0x9"
abbreviation (input) GRAY_CHAR :: u8 where "GRAY_CHAR \<equiv> 0x7"
abbreviation (input) MAG_CH_PANIC :: u8 where "MAG_CH_PANIC \<equiv> 2"
abbreviation (input) MAG_CH_ASSERT :: u8 where "MAG_CH_ASSERT \<equiv> 3"

definition screen_cell :: "nat \<Rightarrow> u32" where
  "screen_cell w = V_MEM_BASE + of_nat (2 * w)"

function panic_pad :: "nat \<Rightarrow> mem \<Rightarrow> nat \<times> mem" where
  "panic_pad w m =
     (if 2 * w mod (SCR_WIDTH * 16) \<noteq> 0
      then panic_pad (Suc w) (m(screen_cell w + 1 := GRAY_CHAR))
      else (w, m))"
  by auto
termination
proof (relation "measure (\<lambda>(w, m). (640 - w mod 640) mod 640)")
  show "((Suc w, m'), (w, m)) \<in> measure (\<lambda>(w, m). (640 - w mod 640) mod 640)"
    if "2 * w mod (SCR_WIDTH * 16) \<noteq> 0" for w and m m' :: mem
  proof -
    have "w mod 640 < 640" and "w mod 640 \<noteq> 0" using that by (auto simp: mod_mult_mult1 [of 2 w 640, simplified])
    then show ?thesis by (cases "w mod 640 = 639") (auto simp: mod_Suc)
  qed
qed simp

declare panic_pad.simps [simp del]

lemma panic_pad_ge: "w \<le> fst (panic_pad w m)"
proof (induction w m rule: panic_pad.induct)
  case (1 w m)
  then show ?case by (cases "2 * w mod (SCR_WIDTH * 16) = 0") (simp_all add: panic_pad.simps [of w m] fun_upd_def)
qed

lemma panic_pad_less: "w < fst (panic_pad (Suc w) m)"
  using panic_pad_ge [of "Suc w" m] by simp

function panic_fill :: "u32 \<Rightarrow> u32 \<Rightarrow> nat \<Rightarrow> mem \<Rightarrow> mem" where
  "panic_fill p q w m =
     (if 2 * w < V_MEM_SIZE then
        let m1 = m(screen_cell w := m q, screen_cell w + 1 := RED_CHAR)
        in if m1 (q + 1) = 0
           then let r = panic_pad (Suc w) m1 in panic_fill p (p + 1) (fst r) (snd r)
           else panic_fill p (q + 1) (Suc w) m1
      else m)"
  by auto
termination by (relation "measure (\<lambda>(p, q, w, m). V_MEM_SIZE - w)") 
  (auto simp: case_prod_beta intro!: diff_less_mono2 panic_pad_less)

declare panic_fill.simps [simp del]

text \<open>
  \<open>sys_printk\<close> says whether it has halted the processor. The local array with the text for a
  negative re-entry count is at the address \<open>err\<close>.
\<close>

partial_function (option) printk_loop ::
  "Assets \<Rightarrow> nat \<Rightarrow> u32 \<Rightarrow> 'a ttys_scheme \<Rightarrow> 'a ttys_scheme option" where
  "printk_loop A t p s =
     (let ch = mem s p
      in if ch = 0 then Some s
         else if ch = MAG_CH_PANIC \<or> ch = MAG_CH_ASSERT then printk_loop A t (p + 1) s
         else printk_loop A t (p + 1) (s32_console_print_char A (tty_console (tty_table s t)) ch s))"

definition printk_text :: "u32 \<Rightarrow> u32 \<Rightarrow> nat \<Rightarrow> 'a kernel_scheme \<Rightarrow> u32 result" where
  "printk_text err str proc s =
     (if k_reenter s = 0 then va2la (proc_table s) proc str
      else if k_reenter s > 0 then Inr str
      else Inr err)"

definition sys_printk :: "Assets \<Rightarrow> u32 \<Rightarrow> u32 \<Rightarrow> nat \<Rightarrow> 'a ttys_scheme \<Rightarrow> (bool \<times> 'a ttys_scheme) result" where
  "sys_printk A err str proc s =
     (let s1 = s\<lparr>mem := s_strcpy (mem s) err
                   (MAG_CH_PANIC # map of_char ''k_reenter is incorrect for unknown reason'')\<rparr>
      in rbind (printk_text err str proc s1) (\<lambda>p.
           if mem s1 p = MAG_CH_PANIC \<or> mem s1 p = MAG_CH_ASSERT \<and> ready_process s1 < NR_TASKS
           then let s2 = disable_int s1
                in Inr (True, s2\<lparr>mem := panic_fill p (p + 1) 0 (mem s2)\<rparr>)
           else
             let t = tty_index (proc_table s1 proc)
             in if mem s1 p \<noteq> 0 \<and> (t < 0 \<or> int TTY_NUM \<le> t) then Inl Out_of_bounds
                else rbind (loop_result (printk_loop A (nat t) p s1)) (\<lambda>s2. Inr (False, s2))))"

section \<open>Formatted output of a process\<close>

text \<open>
  The two printing functions of io/k_stdio_k.c, for a process in a flat segment. Their buffer
  of 256 bytes is at the address \<open>buf\<close>; nothing stops the text at its end. The length that
  \<open>printx\<close> returns is not used by any caller; the model says instead whether the kernel halted.
\<close>

definition s32_printf ::
  "Assets \<Rightarrow> u32 \<Rightarrow> cstring \<Rightarrow> (nat \<Rightarrow> u32) \<Rightarrow> 'a ttys_scheme \<Rightarrow> (int \<times> 'a ttys_scheme) result" where
  "s32_printf A buf fmt args s =
     rbind (fmt_loop False args fmt 0 (mem s) buf) (\<lambda>(m, p).
     rbind (sys_write A buf (sint (p - buf)) (ready_process s) (s\<lparr>mem := m\<rparr>)) (\<lambda>(_, s1).
       Inr (0, s1)))"

definition printx ::
  "Assets \<Rightarrow> u32 \<Rightarrow> u32 \<Rightarrow> cstring \<Rightarrow> (nat \<Rightarrow> u32) \<Rightarrow> 'a ttys_scheme \<Rightarrow> (bool \<times> 'a ttys_scheme) result" where
  "printx A err buf fmt args s =
     rbind (s32_vsprintf buf fmt args (mem s)) (\<lambda>(_, m).
       sys_printk A err buf (ready_process s) (s\<lparr>mem := m\<rparr>))"

text \<open>
  k_assert.c: both functions print a text with their own first character and never return
  (\<open>assertion_failure\<close> spins when the kernel has not halted, \<open>panic\<close> runs into an undefined
  instruction). The strings are at the addresses given; \<open>buf\<close> and \<open>buf'\<close> are the local buffers.
\<close>

definition spin :: "Assets \<Rightarrow> u32 \<Rightarrow> u32 \<Rightarrow> u32 \<Rightarrow> 'a ttys_scheme \<Rightarrow> (bool \<times> 'a ttys_scheme) result" where
  "spin A err buf func_name s =
     printx A err buf ([0x0a] @ map of_char ''spinning in %s ...'' @ [0x0a]) (\<lambda>_. func_name) s"

definition assertion_failure ::
  "Assets \<Rightarrow> u32 \<Rightarrow> u32 \<Rightarrow> u32 \<Rightarrow> u32 \<Rightarrow> u32 \<Rightarrow> u32 \<Rightarrow> u32 \<Rightarrow> 'a ttys_scheme \<Rightarrow> (bool \<times> 'a ttys_scheme) result" where
  "assertion_failure A err buf this_name ex file base_file line s =
     rbind (printx A err buf (map of_char ''%c asert(%s) failed: file: %s, base_file: %s, ln%d'')
         ((!) [ucast MAG_CH_ASSERT, ex, file, base_file, line]) s) (\<lambda>(halted, s1).
       if halted then Inr (True, s1) else spin A err buf this_name s1)"

definition panic ::
  "Assets \<Rightarrow> u32 \<Rightarrow> u32 \<Rightarrow> u32 \<Rightarrow> cstring \<Rightarrow> (nat \<Rightarrow> u32) \<Rightarrow> 'a ttys_scheme \<Rightarrow> (bool \<times> 'a ttys_scheme) result" where
  "panic A err buf buf' fmt args s =
     rbind (s32_vsprintf buf' fmt args (mem s)) (\<lambda>(_, m).
       printx A err buf (map of_char ''%c !!panic!! %s'') ((!) [ucast MAG_CH_PANIC, buf']) (s\<lparr>mem := m\<rparr>))"

section \<open>The first process\<close>

text \<open>
  \<open>init\<close> of process.c, as it is compiled (without the wait and exec test), up to the endless
  loops in which both branches end. The string "I am child" is at the address \<open>str\<close>.
\<close>

definition put_byte :: "u32 \<Rightarrow> u8 \<Rightarrow> 'a kernel_scheme \<Rightarrow> 'a kernel_scheme" where
  "put_byte a v s = s\<lparr>mem := (mem s)(self_addr s a := v)\<rparr>"

definition init_parent :: "'a kernel_scheme \<Rightarrow> 'a kernel_scheme" where
  "init_parent s =
     fold (\<lambda>(i, v). put_byte (0xb8000 + 160 + i) v)
       [(0, of_char CHR ''P''), (1, 0x94), (2, of_char CHR ''a''), (3, 0x94), (4, of_char CHR ''r''), (5, 0x94)] s"

definition init_main :: "u32 \<Rightarrow> u32 \<Rightarrow> 'a stdio_scheme \<Rightarrow> ('a stdio_scheme, unit) prog" where
  "init_main m str s =
     pbind (fork m s) (\<lambda>child s1.
       if child \<noteq> 0 then Return () (init_parent s1)
       else case sys_app_print str (ready_process s1) s1 of
              Inl e \<Rightarrow> Stop e
            | Inr (_, s2) \<Rightarrow> Return () s2)"

section \<open>Panics\<close>

text \<open>
  The lines of the panic message start at multiples of 640 cells, and 16640 is the first multiple
  behind the 16384 cells of video memory: no cell from there on is written.
\<close>

lemma panic_pad_spec:
  assumes "w \<le> 16640" and "\<And>c. c < 16640 \<Longrightarrow> x \<noteq> screen_cell c \<and> x \<noteq> screen_cell c + 1"
  shows "fst (panic_pad w m) \<le> 16640 \<and> snd (panic_pad w m) x = m x"
  using assms(1)
proof (induction w m rule: panic_pad.induct)
  case (1 w m)
  show ?case
  proof (cases "2 * w mod (SCR_WIDTH * 16) = 0")
    case True
    then show ?thesis using "1.prems" by (simp add: panic_pad.simps [of w m])
  next
    case False
    then have "w < 16640" using "1.prems" by (cases "w = 16640") auto
    then show ?thesis using "1.IH" [OF False] False assms(2) [of w] by (simp add: panic_pad.simps [of w m] fun_upd_def)
  qed
qed

lemma panic_fill_spec:
  assumes "w \<le> 16640" and out: "\<And>c. c < 16640 \<Longrightarrow> x \<noteq> screen_cell c \<and> x \<noteq> screen_cell c + 1"
  shows "panic_fill p q w m x = m x"
  using assms(1)
proof (induction p q w m rule: panic_fill.induct)
  case (1 p q w m)
  show ?case
  proof (cases "2 * w < V_MEM_SIZE")
    case False
    then show ?thesis by (simp add: panic_fill.simps [of p q w m])
  next
    case True
    let ?m = "m(screen_cell w := m q, screen_cell w + 1 := RED_CHAR)"
    have w: "Suc w \<le> 16640" using True by simp
    have m: "?m x = m x" using out [of w] w by simp
    have pad: "fst (panic_pad (Suc w) ?m) \<le> 16640" "snd (panic_pad (Suc w) ?m) x = ?m x"
      using panic_pad_spec [OF w, of x ?m] out by blast+
    show ?thesis
    proof (cases "?m (q + 1) = 0")
      case z: True
      have "panic_fill p q w m x =
        panic_fill p (p + 1) (fst (panic_pad (Suc w) ?m)) (snd (panic_pad (Suc w) ?m)) x"
        using True z by (subst panic_fill.simps) (simp only: Let_def if_True refl)
      also have "\<dots> = m x" using "1.IH"(1) [OF True refl z refl pad(1)] pad(2) m by simp
      finally show ?thesis .
    next
      case z: False
      have "panic_fill p q w m x = panic_fill p (q + 1) (Suc w) ?m x"
        using True z by (subst panic_fill.simps) (simp only: Let_def if_True if_False)
      also have "\<dots> = m x" using "1.IH"(2) [OF True refl z w] m by (rule trans)
      finally show ?thesis .
    qed
  qed
qed

text \<open>C23. The message of a panic is repeated over the screen until video memory is full. Whatever
  the message and wherever it lies, the routine ends and no byte below the video memory at 0xb8000
  or from 0xc0200 on is changed; it may run over the 0x8000 bytes of video memory by at most 512
  bytes, since the padding of the last line is not checked against the end.\<close>

theorem panic_fill_bounds:
  assumes "unat x < 0xb8000 \<or> 0xb8000 + 0x8200 \<le> unat x"
  shows "panic_fill p q 0 m x = m x"
proof (rule panic_fill_spec)
  have "unat (screen_cell c) = 0xb8000 + 2 * c \<and> unat (screen_cell c + 1) = 0xb8000 + 2 * c + 1" if "c < 16640" for c
  proof -
    have "screen_cell c = of_nat (0xb8000 + 2 * c)" "screen_cell c + 1 = of_nat (0xb8000 + 2 * c + 1)"
      by (simp_all add: screen_cell_def)
    then show ?thesis using that by (simp only: unat_of_nat) (simp add: take_bit_nat_eq_self)
  qed
  then show "x \<noteq> screen_cell c \<and> x \<noteq> screen_cell c + 1" if "c < 16640" for c
    using that assms by fastforce
qed simp

theorem panic_fill_bounds_witness:
  "panic_fill 0x2000 0x2001 0 (\<lambda>a. if a = 0x2001 then 65 else 0) 0xc0200 = 0"
  using panic_fill_bounds [of "0xc0200" "0x2000" "0x2001" "\<lambda>a. if a = 0x2001 then 65 else 0"] by simp

end
