(* ===== verification/Exchange.thy ===== *)
theory Exchange
  imports Syscall
begin

text \<open>
  A message in memory, before and after the kernel stamps and copies it, and two exact outcomes of a
  message-passing system call: the message is handed over to a waiting receiver, or a receiver
  that nobody sends to waits. Each says what becomes of the two slots and of memory; both keep the
  invariant of message passing.
\<close>

unbundle bit_operations_syntax

section \<open>Memory\<close>

lemma read32_memcpy:
  assumes dis: "disjoint_ranges d 48 f 48" and i: "i \<le> 44"
  shows "read32 (p_asm_memcpy m d f MSG_SIZE) (d + of_nat i) = read32 m (f + of_nat i)"
proof -
  have cp: "p_asm_memcpy m d f MSG_SIZE (d + of_nat j) = m (f + of_nat j)" if "j < 48" for j
    using p_asm_memcpy_apply [where n = MSG_SIZE] dis addr_in_offset [of j 48] that by simp
  show ?thesis
    using cp [of i] cp [of "Suc i"] cp [of "i + 2"] cp [of "i + 3"] i
    by (simp add: read32_def add.assoc) (simp add: ac_simps)
qed

lemma read32_outside_memcpy:
  assumes "disjoint_ranges a 4 d 48"
  shows "read32 (p_asm_memcpy m d f MSG_SIZE) a = read32 m a"
  by (rule read32_cong) (use disjoint_rangesD [OF assms] in \<open>simp add: p_asm_memcpy_outside\<close>)

lemma disjoint_ranges_sub:
  assumes "disjoint_ranges a 48 b k" and "i \<le> 44"
  shows "disjoint_ranges (a + of_nat i) 4 b k"
proof -
  have ab: "48 \<le> unat (b - a)" "k \<le> unat (a - b)" using assms(1) by (auto simp: disjoint_ranges_def)
  have i: "unat (of_nat i :: u32) = i" using assms(2) by (intro unat_of_nat32) simp
  have "unat (b - a - of_nat i) = unat (b - a) - i"
    by (subst unat_sub) (use ab(1) i assms(2) in \<open>auto simp: word_le_nat_alt\<close>)
  moreover have "unat (a - b) + i < 2 ^ 32"
  proof -
    have "unat (a - b) + unat (b - a) \<le> 2 ^ 32"
      using unsigned_less [of a] unsigned_less [of b] unat_le_32 [of a] unat_le_32 [of b]
      by (auto simp: unat_sub_if' [of a b] unat_sub_if' [of b a])
    then show ?thesis using ab(1) assms(2) by linarith
  qed
  then have "unat (a - b + of_nat i) = unat (a - b) + i"
    using i by (simp add: unat_word_ariths(1))
  ultimately show ?thesis using ab assms(2) by (simp add: disjoint_ranges_def algebra_simps)
qed

lemma disjoint_fields:
  "i \<le> 44 \<Longrightarrow> j \<le> 44 \<Longrightarrow> i + 4 \<le> j \<or> j + 4 \<le> i \<Longrightarrow>
   disjoint_ranges (a + of_nat i) 4 (a + of_nat j) 4" for a :: u32
  by (auto simp: disjoint_ranges_def unat_sub_if' unat_of_nat32)

section \<open>Outcomes\<close>

definition stamped :: "u32 \<Rightarrow> 'a kernel_scheme \<Rightarrow> 'a kernel_scheme" where
  "stamped m s = s\<lparr>mem := write32 (mem s) (self_addr s m) (of_nat (ready_process s))\<rparr>"

definition handed_over :: "nat \<Rightarrow> u32 \<Rightarrow> 'a kernel_scheme \<Rightarrow> 'a kernel_scheme" where
  "handed_over d m s = s\<lparr>
     mem := p_asm_memcpy (mem (stamped m s)) (data_addr (proc_table s) d (msg (proc_table s d)))
              (self_addr s m) MSG_SIZE,
     proc_table := (proc_table s)(d := woken (proc_table s d))\<rparr>"

definition reschedule :: "ptable \<Rightarrow> 'a kernel_scheme \<Rightarrow> 'a kernel_scheme" where
  "reschedule pt s = s\<lparr>proc_table := pt, ready_process := the (schedule_loop pt (ready_process s))\<rparr>"

definition awaiting :: "int \<Rightarrow> u32 \<Rightarrow> 'a kernel_scheme \<Rightarrow> 'a kernel_scheme" where
  "awaiting src m s = reschedule (receiving_table (proc_table s) (ready_process s) src m) (stamped m s)"

lemma sys_sendrec_eq:
  assumes ok: "kernel_ok s" and sd: "valid_pid sd \<or> sd = ANY" and ne: "sd \<noteq> int (ready_process s)"
  shows "sys_sendrec SEND sd m (ready_process s) s = msg_send (ready_process s) sd m (stamped m s)"
    "sys_sendrec RECEIVE sd m (ready_process s) s = msg_receive (ready_process s) sd m (stamped m s)"
proof -
  have "flat_natives (proc_table s)" "k_reenter s = 0"
    using ok by (auto simp: kernel_ok_def running_ok_def ipc_inv_def)
  then show "sys_sendrec SEND sd m (ready_process s) s = msg_send (ready_process s) sd m (stamped m s)"
    "sys_sendrec RECEIVE sd m (ready_process s) s = msg_receive (ready_process s) sd m (stamped m s)"
    using sd ne by (auto simp: sys_sendrec_def stamped_def self_addr_def data_addr_def va2la_ok)
qed

lemma kernel_ok_parts:
  assumes "kernel_ok s"
  obtains qs where "ipc_inv (proc_table s) qs" "idle (proc_table s (ready_process s))"
    "ready_process s < NR_SLOTS" "k_reenter s = 0"
  using assms by (auto simp: kernel_ok_def running_ok_def)

lemma stamped_fields [simp]:
  "proc_table (stamped m s) = proc_table s" "ready_process (stamped m s) = ready_process s"
  "ticks (stamped m s) = ticks s" "k_reenter (stamped m s) = k_reenter s"
  "kernel_ok (stamped m s) = kernel_ok s"
  by (simp_all add: stamped_def kernel_ok_mem)

lemma empty_queue:
  assumes "ipc_inv pt qs" and "d < NR_SLOTS" and "q_sending (pt d) = None"
  shows "qs d = []"
  using ipc_inv_queue(1) [OF assms(1,2)] assms(3) by (simp add: chain_None_iff)

lemma blocked_eq:
  assumes "p_flags (pt j) = 0" and "j < NR_SLOTS"
  shows "blocked pt s = Inr (reschedule pt s)"
  using assms by (auto simp: blocked_def some_runnable_def reschedule_def)

lemma send_hands_over:
  assumes ok: "kernel_ok s" and d: "d < NR_SLOTS" and m: "m \<noteq> 0"
    and acc: "accepts (proc_table s d) (ready_process s)"
  shows "sendrec SEND (int d) m s = Suspend (handed_over d m s) resume" (is ?run)
    "kernel_ok (handed_over d m s)"
proof -
  let ?p = "ready_process s"
  obtain qs where inv: "ipc_inv (proc_table s) qs" and idl: "idle (proc_table s ?p)"
    by (rule kernel_ok_parts [OF ok])
  have ne: "?p \<noteq> d" using idl acc by (auto simp: idle_def accepts_def)
  have "(d, ?p) \<notin> (wait_graph (proc_table s))\<^sup>+"
    by (rule not_sending_no_wait) (use acc in \<open>simp add: accepts_def\<close>)
  then have "msg_send ?p (int d) m (stamped m s) = Inr (handed_over d m s)"
    using msg_send_spec [of "stamped m s" qs d ?p m] inv idl d ne m acc
    by (simp add: handed_over_def stamped_def self_addr_def Let_def)
  then have r: "sys_sendrec SEND (int d) m ?p s = Inr (handed_over d m s)"
    using sys_sendrec_eq(1) [OF ok] d ne by (simp add: valid_pid_def)
  then show ?run by (simp add: sendrec_def)
  show "kernel_ok (handed_over d m s)" by (rule sys_sendrec_kernel_ok [OF ok m r])
qed

lemma receive_waits:
  assumes ok: "kernel_ok s" and m: "m \<noteq> 0" and src: "src = ANY \<or> valid_pid src \<and> src \<noteq> int (ready_process s)"
    and q: "q_sending (proc_table s (ready_process s)) = None"
    and j: "j < NR_SLOTS" "j \<noteq> ready_process s" "p_flags (proc_table s j) = 0"
  shows "sendrec RECEIVE src m s = Suspend (awaiting src m s) resume" (is ?run)
    "kernel_ok (awaiting src m s)"
proof -
  let ?p = "ready_process s"
  obtain qs where inv: "ipc_inv (proc_table s) qs" and idlp: "idle (proc_table s ?p)"
    and p: "?p < NR_SLOTS" by (rule kernel_ok_parts [OF ok])
  have qs: "qs ?p = []" by (rule empty_queue [OF inv p q])
  have nr: "src \<noteq> int ?p" and v: "valid_pid src \<or> src = ANY" using src p by auto
  have "pick_sender src (qs ?p) = None" by (simp add: qs pick_sender_def)
  moreover have "p_flags (receiving_table (proc_table s) ?p src m j) = 0"
    using j by (simp add: receiving_table_def)
  ultimately have "msg_receive ?p src m (stamped m s) = Inr (awaiting src m s)"
    using msg_receive_spec [of "stamped m s" qs ?p m src] inv idlp p m src
    by (simp add: awaiting_def blocked_eq [OF _ j(1)])
  then have r: "sys_sendrec RECEIVE src m ?p s = Inr (awaiting src m s)"
    using sys_sendrec_eq(2) [OF ok v nr] by simp
  then show ?run by (simp add: sendrec_def)
  show "kernel_ok (awaiting src m s)" by (rule sys_sendrec_kernel_ok [OF ok m r])
qed

section \<open>The slots and memory afterwards\<close>

lemma handed_over_fields:
  "proc_table (handed_over d m s) i = (if i = d then woken (proc_table s d) else proc_table s i)"
  "mem (handed_over d m s) = p_asm_memcpy (mem (stamped m s))
     (data_addr (proc_table s) d (msg (proc_table s d))) (self_addr s m) MSG_SIZE"
  "ticks (handed_over d m s) = ticks s" "ready_process (handed_over d m s) = ready_process s"
  by (simp_all add: handed_over_def)

lemma awaiting_fields:
  "proc_table (awaiting src m s) (ready_process s)
     = (proc_table s (ready_process s))\<lparr>p_flags := RECEIVING, msg := m, p_recvfrom := src\<rparr>"
  "i \<noteq> ready_process s \<Longrightarrow> proc_table (awaiting src m s) i = proc_table s i"
  "mem (awaiting src m s) = mem (stamped m s)"
  "ticks (awaiting src m s) = ticks s"
  by (simp_all add: awaiting_def reschedule_def receiving_table_def)

section \<open>Slots and messages\<close>

text \<open>What the slot of one of two partners looks like between the calls.\<close>

definition resting :: "Process \<Rightarrow> bool" where
  "resting p \<longleftrightarrow> idle p \<and> q_sending p = None"

definition expecting :: "int \<Rightarrow> u32 \<Rightarrow> Process \<Rightarrow> bool" where
  "expecting src m p \<longleftrightarrow> p_flags p = RECEIVING \<and> p_recvfrom p = src \<and> msg p = m
     \<and> p_sendto p = NO_TASK \<and> has_int_msg p = 0 \<and> q_sending p = None"

lemma put_field_fields [simp]:
  "proc_table (put_field x v s) = proc_table s" "ready_process (put_field x v s) = ready_process s"
  "ticks (put_field x v s) = ticks s" "kernel_ok (put_field x v s) = kernel_ok s"
  "self_addr (put_field x v s) y = self_addr s y"
  "proc_table (reset_msg x s) = proc_table s" "ready_process (reset_msg x s) = ready_process s"
  "ticks (reset_msg x s) = ticks s" "kernel_ok (reset_msg x s) = kernel_ok s"
  "self_addr (reset_msg x s) y = self_addr s y" "self_addr (stamped x s) y = self_addr s y"
  by (simp_all add: put_field_def reset_msg_def kernel_ok_mem self_addr_def stamped_def)

lemma self_addr_add: "self_addr s (x + y) = self_addr s x + y"
  by (simp add: self_addr_def data_addr_def add.assoc)

text \<open>The fields of a message after the kernel has stamped it.\<close>

lemma stamped_read:
  "read32 (mem (stamped m s)) (self_addr s m) = of_nat (ready_process s)"
  "i \<le> 44 \<Longrightarrow> 4 \<le> i \<Longrightarrow>
   read32 (mem (stamped m s)) (self_addr s m + of_nat i) = read32 (mem s) (self_addr s m + of_nat i)"
  using disjoint_fields [of i 0 "self_addr s m"] by (simp_all add: stamped_def read32_write32_other)

lemma stamped_elsewhere:
  assumes "self_addr s m = a" and "disjoint_ranges b 48 a 48" and "addr_in b 48 y"
  shows "mem (stamped m s) y = mem s y"
proof -
  have "\<not> addr_in a 4 y" using disjoint_rangesD [OF assms(2,3)] by (auto simp: addr_in_def)
  then show ?thesis using assms(1) by (simp add: stamped_def write32_outside)
qed

text \<open>A slot number as a C integer, and back.\<close>

lemma sint_slot: "P < NR_SLOTS \<Longrightarrow> sint (of_nat P :: u32) = int P"
  by (simp add: sint_uint unsigned_of_nat take_bit_nat_eq_self signed_take_bit_eq_if_positive
      take_bit_int_eq_self bit_iff_odd of_nat_div)

text \<open>The invariant of message passing depends on these fields of the slots only.\<close>

lemma ipc_inv_cong:
  assumes "\<And>i. p_flags (pt' i) = p_flags (pt i)" "\<And>i. msg (pt' i) = msg (pt i)"
    "\<And>i. p_recvfrom (pt' i) = p_recvfrom (pt i)" "\<And>i. p_sendto (pt' i) = p_sendto (pt i)"
    "\<And>i. has_int_msg (pt' i) = has_int_msg (pt i)" "\<And>i. q_sending (pt' i) = q_sending (pt i)"
    "\<And>i. next_sending (pt' i) = next_sending (pt i)" "\<And>i. ldt (pt' i) = ldt (pt i)"
  shows "ipc_inv pt' qs \<longleftrightarrow> ipc_inv pt qs" "idle (pt' j) \<longleftrightarrow> idle (pt j)"
proof -
  have "sending_to pt' = sending_to pt" by (intro ext) (simp add: sending_to_def assms)
  then show "ipc_inv pt' qs \<longleftrightarrow> ipc_inv pt qs"
    by (simp add: ipc_inv_def proc_ok_def slot_defs queues_ok_def wait_graph_def flat_natives_def
        ldt_seg_linear_def assms)
  show "idle (pt' j) \<longleftrightarrow> idle (pt j)" by (simp add: idle_def assms)
qed

end
