(* ===== verification/Rendezvous.thy ===== *)
theory Rendezvous
  imports Exchange
begin

text \<open>
  The four outcomes of a message-passing system call, whoever else is queued: a send completes
  or blocks, a receive takes a queued message or blocks. Each is stated by the status of every
  process before and after the call (idle, sending, receiving or free, as in the specification of
  the mailboxes) and by the memory it leaves.
\<close>

unbundle bit_operations_syntax

definition statuses :: "'a kernel_scheme \<Rightarrow> nat \<Rightarrow> status" where
  "statuses s i = slot_status (proc_table s i)"

definition became :: "'a kernel_scheme \<Rightarrow> (nat \<Rightarrow> status) \<Rightarrow> 'a kernel_scheme \<Rightarrow> bool" where
  "became s f s' \<longleftrightarrow> kernel_ok s' \<and> statuses s' = f \<and> (\<forall>i. ldt (proc_table s' i) = ldt (proc_table s i)) \<and> ticks s' = ticks s"

lemma status_idle: "slot_status p = Idle \<longleftrightarrow> p_flags p = 0"
  by (simp add: slot_status_def)

lemma statuses_frame [simp]:
  "statuses (s\<lparr>mem := mm\<rparr>) = statuses s" "statuses (put_field x v s) = statuses s"
  "statuses (reset_msg x s) = statuses s" "statuses (stamped m s) = statuses s"
  "statuses (s\<lparr>ready_process := r\<rparr>) = statuses s"
  by (rule ext, simp add: statuses_def)+

lemma became_frame:
  "became (put_field x v s) f s' = became s f s'" "became (reset_msg x s) f s' = became s f s'"
  by (simp_all add: became_def)

lemma kernel_proc_ok: "kernel_ok s \<Longrightarrow> i < NR_SLOTS \<Longrightarrow> proc_ok (proc_table s i)"
  using ipc_inv_proc_ok by (auto simp: kernel_ok_def)

lemma sending_status:
  assumes "kernel_ok s" and "i < NR_SLOTS"
  shows "sending_to (proc_table s) i d \<longleftrightarrow> (\<exists>b. statuses s i = Sending d b)"
  using kernel_proc_ok [OF assms] assms(2) proc_ok_sending [of "proc_table s i"]
  by (auto simp: statuses_def slot_status_Sending sending_to_def in_send_def)

lemma running_status: "kernel_ok s \<Longrightarrow> statuses s (ready_process s) = Idle"
  by (simp add: kernel_ok_def running_ok_def idle_def statuses_def status_idle)

text \<open>No chain of senders leads from a process that does not send, or that sends to one that does not.\<close>

lemma no_chain:
  assumes ok: "kernel_ok s" and d: "d < NR_SLOTS" and ns: "\<And>e b. statuses s d \<noteq> Sending e b"
  shows "(d, p) \<notin> (wait_graph (proc_table s))\<^sup>+"
proof -
  have "(d, e) \<notin> wait_graph (proc_table s)" for e using sending_status [OF ok d] ns by (auto simp: wait_graph_def)
  then show ?thesis by (meson tranclD)
qed

lemma no_chain_two:
  assumes ok: "kernel_ok s" and d: "d < NR_SLOTS" "statuses s d = Sending e b"
    and e: "e < NR_SLOTS" "e \<noteq> p" "\<And>f c. statuses s e \<noteq> Sending f c"
  shows "(d, p) \<notin> (wait_graph (proc_table s))\<^sup>+"
proof -
  have "(d, e) \<in> wait_graph (proc_table s)" using sending_status [OF ok d(1)] d(2) e(1) by (auto simp: wait_graph_def)
  from wait_trancl_step [OF this, of p] no_chain [OF ok e(1,3), of p] e(2) show ?thesis by blast
qed

section \<open>Sending\<close>

lemma send_completes:
  assumes ok: "kernel_ok s" and d: "d < NR_SLOTS" and m: "m \<noteq> 0"
    and r: "statuses s d = Receiving src b" "src = int (ready_process s) \<or> src = ANY"
  shows "\<exists>s'. sendrec SEND (int d) m s = Suspend s' resume \<and> became s ((statuses s)(d := Idle)) s'
    \<and> mem s' = p_asm_memcpy (mem (stamped m s)) (data_addr (proc_table s) d b) (self_addr s m) MSG_SIZE"
proof -
  have rcv: "in_receive (proc_table s d)" "p_recvfrom (proc_table s d) = src" "msg (proc_table s d) = b"
    using slot_status_Receiving [OF kernel_proc_ok [OF ok d]] r(1) by (auto simp: statuses_def)
  then have acc: "accepts (proc_table s d) (ready_process s)" using r(2) by (auto simp: accepts_def in_receive_def)
  note run = send_hands_over [OF ok d m acc] and f = handed_over_fields [of d m s]
  have "statuses (handed_over d m s) = (statuses s)(d := Idle)"
    by (rule ext) (simp add: statuses_def f status_woken)
  then show ?thesis using run f rcv(3) by (auto simp: became_def)
qed

lemma send_blocks:
  assumes ok: "kernel_ok s" and d: "d < NR_SLOTS" "d \<noteq> ready_process s" and m: "m \<noteq> 0"
    and r: "\<And>src b. statuses s d = Receiving src b \<Longrightarrow> src \<noteq> int (ready_process s) \<and> src \<noteq> ANY"
    and nodl: "(d, ready_process s) \<notin> (wait_graph (proc_table s))\<^sup>+"
    and j: "j < NR_SLOTS" "j \<noteq> ready_process s" "statuses s j = Idle"
  shows "\<exists>s'. sendrec SEND (int d) m s = Suspend s' resume
    \<and> became s ((statuses s)(ready_process s := Sending d m)) s' \<and> mem s' = mem (stamped m s)"
proof -
  let ?p = "ready_process s"
  obtain qs where inv: "ipc_inv (proc_table s) qs" and idl: "idle (proc_table s ?p)"
    by (rule kernel_ok_parts [OF ok])
  let ?bt = "blocked_table (proc_table s) ?p d m (qs d)"
  have na: "\<not> accepts (proc_table s d) ?p"
    using r slot_status_Receiving [OF kernel_proc_ok [OF ok d(1)]] kernel_proc_ok [OF ok d(1)]
    by (auto simp: statuses_def accepts_def proc_ok_def slot_defs slot_status_def)
  have ne: "?p \<noteq> d" and nq: "?p \<notin> set (qs d)" using d(2) idle_not_queued [OF inv d(1) idl] by auto
  note f = blocked_table_fields [where pt = "proc_table s" and m = m, OF ne nq]
  have "p_flags (?bt j) = 0" using j f(3) by (simp add: statuses_def status_idle)
  then have "msg_send ?p (int d) m (stamped m s) = Inr (reschedule ?bt (stamped m s))"
    using msg_send_spec [of "stamped m s" qs d ?p m] inv idl d(1) ne m na nodl
    by (simp add: blocked_eq [OF _ j(1)])
  then have run: "sys_sendrec SEND (int d) m ?p s = Inr (reschedule ?bt (stamped m s))"
    using sys_sendrec_eq(1) [OF ok] d by (simp add: valid_pid_def)
  have "statuses (reschedule ?bt (stamped m s)) = (statuses s)(?p := Sending d m)"
    by (rule ext) (simp add: statuses_def reschedule_def status_blocked [OF ne nq])
  moreover have "kernel_ok (reschedule ?bt (stamped m s))" by (rule sys_sendrec_kernel_ok [OF ok m run])
  ultimately show ?thesis using run f(8) by (auto simp: sendrec_def became_def reschedule_def)
qed

section \<open>Receiving\<close>

lemma receive_completes:
  assumes ok: "kernel_ok s" and m: "m \<noteq> 0" and f: "f < NR_SLOTS" "statuses s f = Sending (ready_process s) b"
    and src: "src = int f \<or> src = ANY"
  shows "\<exists>g c s'. g < NR_SLOTS \<and> statuses s g = Sending (ready_process s) c \<and> (src = int f \<longrightarrow> g = f)
    \<and> sendrec RECEIVE src m s = Suspend s' resume \<and> became s ((statuses s)(g := Idle)) s'
    \<and> mem s' = p_asm_memcpy (mem (stamped m s)) (self_addr s m) (data_addr (proc_table s) g c) MSG_SIZE"
proof -
  let ?p = "ready_process s"
  obtain qs where inv: "ipc_inv (proc_table s) qs" and idl: "idle (proc_table s ?p)" and p: "?p < NR_SLOTS"
    by (rule kernel_ok_parts [OF ok])
  have fq: "f \<in> set (qs ?p)" using ipc_inv_queue(3) [OF inv p] sending_status [OF ok f(1)] f(2) by blast
  have "int f \<noteq> ANY" using f(1) by simp
  then obtain g where g: "pick_sender src (qs ?p) = Some g" "src = int f \<longrightarrow> g = f"
    using src fq by (cases "qs ?p") (auto simp: pick_sender_def)
  then have gq: "g \<in> set (qs ?p)" by (intro pick_sender_in)
  note snd = queued_in_send [OF inv p gq]
  obtain c where c: "statuses s g = Sending ?p c" "msg (proc_table s g) = c"
    using snd slot_status_Sending [OF kernel_proc_ok [OF ok snd(3)]] by (auto simp: statuses_def)
  obtain ys zs where q: "qs ?p = ys @ g # zs" using gq by (auto simp: in_set_conv_decomp)
  have gy: "g \<notin> set ys" using ipc_inv_queue(2) [OF inv p] q by auto
  have wg: "?p \<noteq> g" using snd(1) idl by (auto simp: slot_defs)
  note tf = taken_table_fields [where pt = "proc_table s", OF wg gy]
  let ?s' = "s\<lparr>mem := p_asm_memcpy (mem (stamped m s)) (self_addr s m) (data_addr (proc_table s) g c) MSG_SIZE,
      proc_table := taken_table (proc_table s) ?p g ys\<rparr>"
  have fp: "f \<noteq> ?p" using fq idle_not_queued [OF inv p idl] by auto
  have v: "valid_pid src \<or> src = ANY" "src \<noteq> int ?p" using src f(1) fp p by (auto simp: valid_pid_def)
  then have "msg_receive ?p src m (stamped m s) = Inr ?s'"
    using msg_receive_spec [of "stamped m s" qs ?p m src] inv idl p m g(1) c(2)
    by (auto simp: Let_def q takeWhile_neq [OF gy] stamped_def self_addr_def)
  then have run: "sys_sendrec RECEIVE src m ?p s = Inr ?s'" using sys_sendrec_eq(2) [OF ok v] by simp
  have "statuses ?s' = (statuses s)(g := Idle)"
    by (rule ext) (simp add: statuses_def status_taken [OF wg gy])
  moreover have "kernel_ok ?s'" by (rule sys_sendrec_kernel_ok [OF ok m run])
  ultimately have "became s ((statuses s)(g := Idle)) ?s'" using tf(8) by (simp add: became_def)
  moreover have "sendrec RECEIVE src m s = Suspend ?s' resume" using run by (simp add: sendrec_def)
  ultimately show ?thesis using snd(3) c(1) g(2) by (intro exI [of _ g] exI [of _ c] exI [of _ ?s']) simp
qed

lemma receive_blocks:
  assumes ok: "kernel_ok s" and m: "m \<noteq> 0"
    and src: "src = ANY \<and> (\<forall>i < NR_SLOTS. \<forall>b. statuses s i \<noteq> Sending (ready_process s) b)
      \<or> (\<exists>f < NR_SLOTS. src = int f \<and> f \<noteq> ready_process s \<and> (\<forall>b. statuses s f \<noteq> Sending (ready_process s) b))"
    and j: "j < NR_SLOTS" "j \<noteq> ready_process s" "statuses s j = Idle"
  shows "\<exists>s'. sendrec RECEIVE src m s = Suspend s' resume
    \<and> became s ((statuses s)(ready_process s := Receiving src m)) s' \<and> mem s' = mem (stamped m s)"
proof -
  let ?p = "ready_process s"
  obtain qs where inv: "ipc_inv (proc_table s) qs" and idl: "idle (proc_table s ?p)" and p: "?p < NR_SLOTS"
    by (rule kernel_ok_parts [OF ok])
  have mem_q: "i \<in> set (qs ?p) \<longleftrightarrow> i < NR_SLOTS \<and> (\<exists>b. statuses s i = Sending ?p b)" for i
    using ipc_inv_queue(3) [OF inv p, of i] sending_status [OF ok, of i] by (auto simp: sending_to_def)
  have none: "pick_sender src (qs ?p) = None"
    using src mem_q by (cases "qs ?p") (auto simp: pick_sender_def)
  have v: "src = ANY \<or> valid_pid src \<and> src \<noteq> int ?p" using src by (auto simp: valid_pid_def)
  then have v': "valid_pid src \<or> src = ANY" "src \<noteq> int ?p" using p by auto
  let ?rt = "receiving_table (proc_table s) ?p src m"
  have "p_flags (?rt j) = 0" using j by (simp add: statuses_def status_idle receiving_table_def)
  then have "msg_receive ?p src m (stamped m s) = Inr (reschedule ?rt (stamped m s))"
    using msg_receive_spec [of "stamped m s" qs ?p m src] inv idl p m v none by (simp add: blocked_eq [OF _ j(1)])
  then have run: "sys_sendrec RECEIVE src m ?p s = Inr (reschedule ?rt (stamped m s))"
    using sys_sendrec_eq(2) [OF ok v'] by simp
  have "statuses (reschedule ?rt (stamped m s)) = (statuses s)(?p := Receiving src m)"
    by (rule ext) (simp add: statuses_def reschedule_def status_receiving)
  moreover have "kernel_ok (reschedule ?rt (stamped m s))" by (rule sys_sendrec_kernel_ok [OF ok m run])
  ultimately show ?thesis
    using run by (auto simp: sendrec_def became_def reschedule_def receiving_table_def)
qed

end
