(* ===== verification/Ipc_Properties.thy ===== *)
theory Ipc_Properties
  imports Kernel_Runs
begin

text \<open>
  The properties of scheduling and message passing, over the lemmas of Ipc, Boot_Table,
  Mailbox and Kernel_Runs, with the concrete boot state at which the witnesses apply them.
\<close>

unbundle bit_operations_syntax

section \<open>A concrete boot state\<close>

definition flat_gdt :: "nat \<Rightarrow> Descriptor" where
  "flat_gdt i = init_descriptor 0 0xfffff (DA_32 OR DA_LIMIT_4K OR DA_DRW)"

definition boot :: kernel where
  "boot = (init_proc flat_gdt (\<lambda>i. 0x1000 * of_nat i) 0x20000 zero_kernel)\<lparr>ready_process := 0\<rparr>"

text \<open>Slot 1 waits for any message at 0x5000; slots 4 and 5 are queued at slot 2.\<close>

definition boot_listening :: kernel where
  "boot_listening = boot\<lparr>proc_table := receiving_table (proc_table boot) 1 ANY 0x5000\<rparr>"

definition boot_queued :: kernel where
  "boot_queued = boot\<lparr>proc_table :=
     blocked_table (blocked_table (proc_table boot) 4 2 0x6000 []) 5 2 0x7000 [4]\<rparr>"

definition boot_boxes :: mailboxes where
  "boot_boxes = \<lparr>status_of = (\<lambda>i. if i < 7 then Idle else Free), queue_of = (\<lambda>_. [])\<rparr>"

lemma flat_gdt_base: "desc_base (flat_gdt i) = 0"
  by (simp add: flat_gdt_def desc_base_init)

lemma zero_kernel_queue: "q_sending (proc_table zero_kernel j) = None"
  by (simp add: zero_kernel_def zero_process_def)

lemma boot_inv: "ipc_inv (proc_table boot) (\<lambda>_. [])"
  unfolding boot_def
  using init_proc_ipc_inv [where gdt = flat_gdt and s = zero_kernel] flat_gdt_base zero_kernel_queue
  by simp

lemma boot_idle: "i < 7 \<Longrightarrow> idle (proc_table boot i)"
  using init_native_idle by (simp add: boot_def init_proc_native idle_def)

lemma boot_free: "7 \<le> i \<Longrightarrow> i < 35 \<Longrightarrow> p_flags (proc_table boot i) = FREE_SLOT"
  by (simp add: boot_def init_proc_free)

lemma boot_flat: "i < 7 \<Longrightarrow> data_addr (proc_table boot) i a = a"
  using boot_inv by (simp add: ipc_inv_def flat_natives_def data_addr_def)

lemma boot_kernel_ok: "kernel_ok boot"
  unfolding boot_def
  by (rule init_kernel_ok) (simp_all add: flat_gdt_base zero_kernel_queue, simp add: zero_kernel_def)

lemma boot_rel: "mail_rel boot boot_boxes"
proof -
  have "slot_status (proc_table boot i) = (if i < 7 then Idle else Free)" if "i < 35" for i
    using that boot_idle [of i] boot_free [of i] by (auto simp: slot_status_def idle_def)
  then show ?thesis using boot_inv by (simp add: mail_rel_def boot_boxes_def)
qed

lemma listening_rel:
  "mail_rel boot_listening (boot_boxes\<lparr>status_of := (status_of boot_boxes)(1 := Receiving ANY 0x5000)\<rparr>)"
  using boot_rel ipc_inv_receiving [OF boot_inv boot_idle [of 1], of "0x5000" ANY]
  by (simp add: mail_rel_def boot_listening_def status_receiving boot_boxes_def)

lemma queued_inv: "ipc_inv (proc_table boot_queued) ((\<lambda>_. [])(2 := [4, 5]))"
proof -
  let ?p1 = "blocked_table (proc_table boot) 4 2 0x6000 []"
  have "\<not> sending_to (proc_table boot) i d" for i d
    using boot_idle [of i] boot_free [of i]
    by (cases "i < 7") (auto simp: sending_to_def idle_def)
  then have nowait: "wait_graph (proc_table boot) = {}" by (simp add: wait_graph_def)
  have one: "ipc_inv ?p1 ((\<lambda>_. [])(2 := [4]))"
    using ipc_inv_blocked [OF boot_inv, of 2 4 "0x6000"] boot_idle nowait by simp
  have w1: "wait_graph ?p1 = {(4, 2)}"
    using blocked_wait_graph [of 4 2 "[]" "proc_table boot" "0x6000"] boot_idle [of 4] nowait
    by (simp add: idle_def)
  have "idle (?p1 5)" using boot_idle [of 5] by (simp add: idle_def blocked_table_fields)
  moreover have "(2, 5) \<notin> (wait_graph ?p1)\<^sup>+" unfolding w1 by (auto dest: tranclD)
  ultimately show ?thesis
    using ipc_inv_blocked [OF one, of 2 5 "0x7000"] by (simp add: boot_queued_def)
qed

section \<open>Scheduling\<close>

text \<open>C10. \<open>schedule\<close> returns exactly when some slot is runnable, and then the running process is
  the first runnable slot after the old one in cyclic order; otherwise it never returns.\<close>

theorem schedule_first_runnable:
  "if \<exists>i < NR_SLOTS. p_flags (proc_table s i) = 0
   then \<exists>n < NR_SLOTS. schedule s = Inr (s\<lparr>ready_process := (next_slot ^^ Suc n) (ready_process s)\<rparr>)
      \<and> p_flags (proc_table s ((next_slot ^^ Suc n) (ready_process s))) = 0
      \<and> (\<forall>j < n. p_flags (proc_table s ((next_slot ^^ Suc j) (ready_process s))) \<noteq> 0)
   else schedule s = Inl Hang"
proof (cases "some_runnable (proc_table s)")
  case True
  then obtain i where "i < NR_SLOTS" "p_flags (proc_table s i) = 0" by (auto simp: some_runnable_def)
  from schedule_loop_finds [where pt = "proc_table s" and r = "ready_process s", OF this] True
  show ?thesis by (auto simp: schedule_cases some_runnable_def)
next
  case False
  then show ?thesis by (auto simp: schedule_cases some_runnable_def)
qed

theorem schedule_first_runnable_witness:
  "\<exists>n. schedule boot = Inr (boot\<lparr>ready_process := (next_slot ^^ Suc n) (ready_process boot)\<rparr>)
     \<and> p_flags (proc_table boot ((next_slot ^^ Suc n) (ready_process boot))) = 0"
proof -
  have "\<exists>i < NR_SLOTS. p_flags (proc_table boot i) = 0"
    using boot_idle [of 5] by (intro exI [of _ 5]) (simp add: idle_def)
  with schedule_first_runnable [of boot] show ?thesis by auto
qed

text \<open>C9. Round robin is fair: while the process table does not change, every runnable slot is
  the running process after at most 35 clock interrupts, and each interrupt counts one tick.\<close>

theorem clock_fair:
  assumes "i < NR_SLOTS" and "p_flags (proc_table s i) = 0" and "k_reenter s = 0"
  shows "\<exists>n < NR_SLOTS. run_ticks (Suc n) s =
    Inr (s\<lparr>ready_process := i, ticks := ticks s + of_nat (Suc n)\<rparr>)"
proof -
  obtain k where k: "k < NR_SLOTS" "(next_slot ^^ Suc k) (ready_process s) = i"
    using next_slot_reaches [OF assms(1)] by blast
  from run_ticks_reaches [OF assms k(2)] obtain n where "n \<le> k" and run: "run_ticks (Suc n) s =
      Inr (s\<lparr>ready_process := i, ticks := ticks s + of_nat (Suc n)\<rparr>)" by blast
  then have "n < NR_SLOTS" using k(1) by simp
  with run show ?thesis by blast
qed

theorem clock_fair_witness:
  "\<exists>n < NR_SLOTS. run_ticks (Suc n) boot =
     Inr (boot\<lparr>ready_process := 5, ticks := ticks boot + of_nat (Suc n)\<rparr>)"
  using clock_fair [of 5 boot] boot_idle [of 5] boot_kernel_ok
  by (simp add: idle_def kernel_ok_def running_ok_def)

section \<open>Message passing\<close>

text \<open>C1. \<open>msg_send\<close> refines the mailbox specification on every branch: it panics exactly when
  the send would close a cycle of blocked senders; otherwise it copies the 48 bytes of the
  message to a receiver that waits for it and wakes the receiver, or appends the sender to the
  queue of the destination and runs another process; it hangs only when no process can run.\<close>

theorem msg_send_refines:
  assumes "mail_rel s A" and "sender < NR_SLOTS" and "d < NR_SLOTS" and "sender \<noteq> d"
    and "status_of A sender = Idle" and "m \<noteq> 0"
    and "transfer_disjoint (proc_table s) (fst (spec_send sender d m A))"
  shows "if (d, sender) \<in> (waits_for A)\<^sup>+ then msg_send sender (int d) m s = Inl Panicked
     else case msg_send sender (int d) m s of
            Inr s' \<Rightarrow> completed s (spec_send sender d m A) s'
          | Inl e \<Rightarrow> e = Hang \<and> (\<forall>i < NR_SLOTS. status_of (snd (spec_send sender d m A)) i \<noteq> Idle)"
  by (rule msg_send_simulates [OF assms])

theorem msg_send_refines_witness:
  "let A = boot_boxes\<lparr>status_of := (status_of boot_boxes)(1 := Receiving ANY 0x5000)\<rparr> in
   if (1, 3) \<in> (waits_for A)\<^sup>+ then msg_send 3 (int 1) 0x4000 boot_listening = Inl Panicked
   else case msg_send 3 (int 1) 0x4000 boot_listening of
          Inr s' \<Rightarrow> completed boot_listening (spec_send 3 1 0x4000 A) s'
        | Inl e \<Rightarrow> e = Hang \<and> (\<forall>i < NR_SLOTS. status_of (snd (spec_send 3 1 0x4000 A)) i \<noteq> Idle)"
proof -
  let ?A = "boot_boxes\<lparr>status_of := (status_of boot_boxes)(1 := Receiving ANY 0x5000)\<rparr>"
  have out: "fst (spec_send 3 1 0x4000 ?A) = Some ((3, 0x4000), (1, 0x5000))"
    by (simp add: spec_send_def listens_def)
  have "data_addr (proc_table boot_listening) i a = data_addr (proc_table boot) i a" for i a
    by (simp add: data_addr_def ldt_seg_linear_def boot_listening_def receiving_table_def)
  then have "transfer_disjoint (proc_table boot_listening) (fst (spec_send 3 1 0x4000 ?A))"
    unfolding out by (simp add: transfer_disjoint_def boot_flat disjoint_ranges_def)
  then show ?thesis
    unfolding Let_def
    by (intro msg_send_refines [OF listening_rel]) (simp_all add: boot_boxes_def)
qed

text \<open>C2. \<open>msg_receive\<close> refines the mailbox specification: it takes the first queued sender, or
  the requested one wherever it stands in the queue, unlinks it, copies its 48 bytes and wakes
  it; with no such sender the receiver blocks and another process runs.\<close>

theorem msg_receive_refines:
  assumes "mail_rel s A" and "w < NR_SLOTS" and "status_of A w = Idle" and "m \<noteq> 0"
    and "src = ANY \<or> valid_pid src \<and> src \<noteq> int w"
    and "transfer_disjoint (proc_table s) (fst (spec_receive w src m A))"
  shows "case msg_receive w src m s of
            Inr s' \<Rightarrow> completed s (spec_receive w src m A) s'
          | Inl e \<Rightarrow> e = Hang \<and> (\<forall>i < NR_SLOTS. status_of (snd (spec_receive w src m A)) i \<noteq> Idle)"
  by (rule msg_receive_simulates [OF assms])

theorem msg_receive_refines_witness:
  "\<exists>A. queue_of A 2 = [4, 5] \<and>
    (case msg_receive 2 5 0x4000 boot_queued of
       Inr s' \<Rightarrow> completed boot_queued (spec_receive 2 5 0x4000 A) s'
     | Inl e \<Rightarrow> e = Hang \<and> (\<forall>i < NR_SLOTS. status_of (snd (spec_receive 2 5 0x4000 A)) i \<noteq> Idle))"
proof -
  let ?A = "\<lparr>status_of = (\<lambda>i. slot_status (proc_table boot_queued i)), queue_of = (\<lambda>_. [])(2 := [4, 5])\<rparr>"
  have rel: "mail_rel boot_queued ?A" using queued_inv by (simp add: mail_rel_def)
  have f: "p_flags (proc_table boot_queued 2) = 0" "p_flags (proc_table boot_queued 5) = SENDING"
    "msg (proc_table boot_queued 5) = 0x7000" "data_addr (proc_table boot_queued) i a = data_addr (proc_table boot) i a" for i a
    using boot_idle [of 2]
    by (simp_all add: boot_queued_def blocked_table_fields idle_def data_addr_def ldt_seg_linear_def)
  have "fst (spec_receive 2 5 0x4000 ?A) = Some ((5, 0x7000), (2, 0x4000))"
    by (simp add: spec_receive_def pick_sender_def sent_buffer_def slot_status_def f)
  then have "transfer_disjoint (proc_table boot_queued) (fst (spec_receive 2 5 0x4000 ?A))"
    by (simp add: transfer_disjoint_def f boot_flat disjoint_ranges_def)
  then show ?thesis
    by (intro exI [of _ ?A] conjI msg_receive_refines [OF rel]) (simp_all add: f slot_status_def valid_pid_def)
qed

text \<open>C7. Queues are first-in first-out: as many receives from any source as senders are queued
  take all of them, in the order in which they were queued, and leave the queue empty.\<close>

theorem receive_any_fifo:
  assumes "ipc_inv (proc_table s) qs" and "w < NR_SLOTS" and "idle (proc_table s w)"
    and "length ms = length (qs w)" and "0 \<notin> set ms"
  shows "\<exists>s'. receive_all w ms s = Inr (map Some (qs w), s') \<and> ipc_inv (proc_table s') (qs(w := []))"
  by (rule receive_all_fifo [OF assms])

theorem receive_any_fifo_witness:
  "\<exists>s'. receive_all 2 [0x4000, 0x4100] boot_queued = Inr ([Some 4, Some 5], s')"
proof -
  have "idle (proc_table boot_queued 2)"
    using boot_idle [of 2] by (simp add: boot_queued_def blocked_table_fields idle_def)
  then show ?thesis using receive_any_fifo [OF queued_inv, of 2 "[0x4000, 0x4100]"] by auto
qed

text \<open>C6. The deadlock check is exact: it terminates, and finds a deadlock just when the
  destination already waits, through a chain of blocked sends, for the sender.\<close>

theorem deadlock_exact:
  assumes "ipc_inv pt qs" and "d < NR_SLOTS"
  shows "deadlock pt (int src) (int d) = Inr ((d, src) \<in> (wait_graph pt)\<^sup>+)"
  by (rule deadlock_correct [OF assms])

theorem deadlock_exact_witness:
  "deadlock (proc_table boot_queued) (int 2) (int 4) = Inr ((4, 2) \<in> (wait_graph (proc_table boot_queued))\<^sup>+)"
  by (rule deadlock_exact [OF queued_inv]) simp

text \<open>C8. The kernel stamps the sender: a message delivered by a system call to a waiting
  receiver has the number of the calling process in its source field, whatever the sender
  wrote there, and the other 44 bytes are those of the sender.\<close>

theorem sendrec_stamps_source:
  assumes inv: "ipc_inv (proc_table s) qs" and p: "idle (proc_table s p)" and d: "d < NR_SLOTS"
    and acc: "accepts (proc_table s d) p" and m: "m \<noteq> 0" and k: "k_reenter s = 0"
    and dis: "disjoint_ranges (data_addr (proc_table s) d (msg (proc_table s d))) 48
      (data_addr (proc_table s) p m) 48"
  shows "\<exists>s'. sys_sendrec SEND (int d) m p s = Inr s'
    \<and> read32 (mem s') (data_addr (proc_table s) d (msg (proc_table s d))) = of_nat p
    \<and> (\<forall>i. 4 \<le> i \<and> i < 48 \<longrightarrow> mem s' (data_addr (proc_table s) d (msg (proc_table s d)) + of_nat i)
         = mem s (data_addr (proc_table s) p m + of_nat i))"
proof -
  let ?pt = "proc_table s" and ?to = "data_addr (proc_table s) d (msg (proc_table s d))"
    and ?from = "data_addr (proc_table s) p m"
  let ?s1 = "s\<lparr>mem := write32 (mem s) ?from (of_nat p)\<rparr>"
  have ne: "p \<noteq> d" using p acc by (auto simp: idle_def accepts_def)
  have rcv: "\<not> in_send (?pt d)" using acc by (auto simp: accepts_def slot_defs)
  have "(d, p) \<notin> (wait_graph ?pt)\<^sup>+"
    by (rule not_sending_no_wait) (use acc in \<open>simp add: accepts_def\<close>)
  then have "msg_send p (int d) m ?s1 = Inr (?s1\<lparr>
      mem := p_asm_memcpy (mem ?s1) ?to ?from MSG_SIZE, proc_table := ?pt(d := woken (?pt d))\<rparr>)"
    using msg_send_spec [of ?s1 qs d p m] inv p d ne m acc by (simp add: Let_def)
  moreover have "va2la ?pt p m = Inr ?from"
    using va2la_ok inv by (simp add: ipc_inv_def data_addr_def)
  ultimately have run: "sys_sendrec SEND (int d) m p s = Inr (?s1\<lparr>
      mem := p_asm_memcpy (mem ?s1) ?to ?from MSG_SIZE, proc_table := ?pt(d := woken (?pt d))\<rparr>)"
    using d ne k by (simp add: sys_sendrec_def valid_pid_def)
  have cp: "p_asm_memcpy mm ?to ?from MSG_SIZE (?to + of_nat i) = mm (?from + of_nat i)" if "i < 48" for i mm
    using p_asm_memcpy_apply [where n = MSG_SIZE] dis addr_in_offset [of i 48] that by simp
  have "read32 (p_asm_memcpy mm ?to ?from MSG_SIZE) ?to = read32 mm ?from" for mm
    using cp [of 0] cp [of 1] cp [of 2] cp [of 3] by (simp add: read32_def)
  moreover have "\<not> addr_in ?from 4 (?from + of_nat i)" if "4 \<le> i" "i < 48" for i
    using that by (simp add: addr_in_def unat_of_nat)
  ultimately show ?thesis
    using run by (intro exI conjI) (auto simp: cp write32_outside)
qed

theorem sendrec_stamps_source_witness:
  "\<exists>s'. sys_sendrec SEND (int 1) 0x4000 3 boot_listening = Inr s' \<and> read32 (mem s') 0x5000 = 3"
proof -
  let ?pt = "proc_table boot_listening"
  have f: "data_addr ?pt i a = data_addr (proc_table boot) i a" "msg (?pt 1) = 0x5000"
    "accepts (?pt 1) 3" for i a
    by (simp_all add: data_addr_def ldt_seg_linear_def boot_listening_def receiving_table_def accepts_def)
  have "idle (?pt 3)" "k_reenter boot_listening = 0"
    using boot_idle [of 3] boot_kernel_ok
    by (simp_all add: boot_listening_def receiving_table_def kernel_ok_def running_ok_def)
  moreover have "ipc_inv ?pt (\<lambda>_. [])"
    using listening_rel by (simp add: mail_rel_def boot_boxes_def)
  ultimately show ?thesis
    using sendrec_stamps_source [of boot_listening "\<lambda>_. []" 3 1 "0x4000"] f boot_flat
    by (auto simp: disjoint_ranges_def)
qed

text \<open>Also: \<open>sys_sendrec\<close> lets the wildcard partners through to \<open>msg_send\<close>: a send to ANY or to
  INTERRUPT indexes the process table outside its 35 slots.\<close>

theorem send_wildcard_out_of_bounds:
  assumes "k_reenter s = 0" and "flat_natives (proc_table s)" and "p < NR_SLOTS"
    and "dest = ANY \<or> dest = INTERRUPT"
  shows "sys_sendrec SEND dest m p s = Inl Out_of_bounds"
  using assms by (auto simp: sys_sendrec_def va2la_ok msg_send_def deadlock_def valid_pid_def)

theorem send_wildcard_out_of_bounds_witness:
  "sys_sendrec SEND ANY 0x4000 3 boot = Inl Out_of_bounds"
  using send_wildcard_out_of_bounds [of boot 3 ANY "0x4000"] boot_inv boot_kernel_ok
  by (simp add: ipc_inv_def kernel_ok_def running_ok_def)

section \<open>The initial table\<close>

text \<open>C11. \<open>init_proc\<close> makes slots 0 to 6 runnable with empty queues, their own number, selector and
  flat data segment, marks the other 28 slots free, and establishes the invariant of message
  passing with all queues empty.\<close>

theorem init_proc_establishes:
  fixes s :: "'a kernel_scheme" and init_eip :: "nat \<Rightarrow> u32" and task_stack :: u32
  assumes "desc_base (gdt 2) = 0"
    and "\<And>j. NR_TASKS + NR_NATIVE_PROCS \<le> j \<Longrightarrow> j < NR_SLOTS \<Longrightarrow> q_sending (proc_table s j) = None"
  defines "pt \<equiv> proc_table (init_proc gdt init_eip task_stack s)"
  shows "ipc_inv pt (\<lambda>_. []) \<and> (\<forall>j < 7. idle (pt j) \<and> pid (pt j) = of_nat j)
    \<and> (\<forall>j < NR_SLOTS. ldt_sel (pt j) = 40 + 8 * of_nat j)
    \<and> (\<forall>j. 7 \<le> j \<and> j < NR_SLOTS \<longrightarrow> p_flags (pt j) = FREE_SLOT)"
proof (intro conjI allI impI)
  show "ipc_inv pt (\<lambda>_. [])"
    unfolding pt_def by (rule init_proc_ipc_inv [where gdt = gdt, OF assms(1,2)])
  show "idle (pt j)" if "j < 7" for j
    using init_native_idle that by (simp add: pt_def init_proc_native idle_def)
  show "pid (pt j) = of_nat j" if "j < 7" for j
    using that by (simp add: pt_def init_proc_native init_native_def Let_def)
  show "ldt_sel (pt j) = 40 + 8 * of_nat j" if "j < NR_SLOTS" for j
    using that by (cases "j < 7") (simp_all add: pt_def init_proc_native init_proc_free init_native_def Let_def)
  show "p_flags (pt j) = FREE_SLOT" if "7 \<le> j \<and> j < NR_SLOTS" for j
    using that by (simp add: pt_def init_proc_free)
qed

theorem init_proc_establishes_witness:
  "ipc_inv (proc_table (init_proc flat_gdt (\<lambda>_. 0x1000) 0x20000 zero_kernel)) (\<lambda>_. [])
   \<and> p_flags (proc_table (init_proc flat_gdt (\<lambda>_. 0x1000) 0x20000 zero_kernel) 9) = FREE_SLOT"
  using init_proc_establishes [where gdt = flat_gdt and s = zero_kernel and task_stack = "0x20000"
      and init_eip = "\<lambda>_. 0x1000"]
  by (simp add: flat_gdt_base zero_kernel_queue)

text \<open>Also: The stack tops of the native processes are 0x8000 apart and start two stacks above
  \<open>task_stack\<close>, so that the top of the last one is 0x8000 above the end of the array of
  seven stacks.\<close>

theorem native_stack_tops:
  assumes "j < 7"
  shows "rg_esp (regs (proc_table (init_proc gdt init_eip task_stack s) j)) = task_stack + 0x8000 * of_nat (j + 2)"
  using assms by (simp add: init_proc_native init_native_def init_regs_def Let_def)

theorem native_stack_tops_witness:
  "rg_esp (regs (proc_table (init_proc flat_gdt (\<lambda>_. 0x1000) 0x20000 zero_kernel) 6)) = 0x20000 + 8 * 0x8000"
  using native_stack_tops [of 6 flat_gdt "\<lambda>_. 0x1000" "0x20000" zero_kernel] by simp

end
