(* ===== verification/Clock_Service.thy ===== *)
theory Clock_Service
  imports Rendezvous Ipc_Properties
begin

text \<open>
  The clock service: any number of processes that call \<open>get_ticks\<close>, as often as they like, and the
  system task in its loop, in any interleaving with each other, with clock interrupts and with
  everything else the processes do. Requests that arrive while the task is busy are queued. Every
  call returns a value that the tick counter had during the call.
\<close>

unbundle bit_operations_syntax

section \<open>The code that is left after each system call\<close>

definition client_asked :: "u32 \<Rightarrow> 'a kernel_scheme \<Rightarrow> ('a kernel_scheme, u32) prog" where
  "client_asked m s =
     pbind (sendrec RECEIVE (int TASK_SYS) m s) (\<lambda>_ s1. Return (get_field (m + OFF_RETVAL) s1) s1)"

definition client_done :: "u32 \<Rightarrow> 'a kernel_scheme \<Rightarrow> ('a kernel_scheme, u32) prog" where
  "client_done m s = Return (get_field (m + OFF_RETVAL) s) s"

definition server_received :: "u32 \<Rightarrow> 'a kernel_scheme \<Rightarrow> ('a kernel_scheme, unit) prog" where
  "server_received m s =
     (if get_field (m + OFF_TYPE) s = GET_TICKS then
        pbind (sendrec SEND (sint (get_field m s)) m (put_field (m + OFF_RETVAL) (ticks s) s)) turn_over
      else Stop Panicked)"

lemma get_ticks_step:
  assumes "sendrec SEND (int TASK_SYS) m (put_field (m + OFF_TYPE) GET_TICKS (reset_msg m s)) = Suspend s' resume"
  shows "get_ticks m s = Suspend s' (client_asked m)"
  using assms by (simp add: get_ticks_def send_recv_def client_asked_def [abs_def])

lemma client_asked_step:
  assumes "sendrec RECEIVE (int TASK_SYS) m s = Suspend s' resume"
  shows "client_asked m s = Suspend s' (client_done m)"
  using assms by (simp add: client_asked_def client_done_def [abs_def])

lemma task_sys_step:
  assumes "sendrec RECEIVE ANY m (reset_msg m s) = Suspend s' resume"
  shows "task_sys m s = Suspend s' (server_received m)"
  using assms by (simp add: task_sys_def send_recv_def server_received_def [abs_def] Let_def cong: if_cong)

lemma server_received_step:
  assumes "sendrec SEND (sint (get_field m s)) m (put_field (m + OFF_RETVAL) (ticks s) s) = Suspend s' resume"
    and "get_field (m + OFF_TYPE) s = GET_TICKS"
  shows "server_received m s = Suspend s' (turn_over (0 :: int))"
  using assms by (simp add: server_received_def)

section \<open>Requests and replies in memory\<close>

definition request_at :: "nat \<Rightarrow> u32 \<Rightarrow> 'a kernel_scheme \<Rightarrow> bool" where
  "request_at P x s \<longleftrightarrow> read32 (mem s) x = of_nat P \<and> read32 (mem s) (x + OFF_TYPE) = GET_TICKS"

definition reply_at :: "u32 set \<Rightarrow> u32 \<Rightarrow> 'a kernel_scheme \<Rightarrow> bool" where
  "reply_at h x s \<longleftrightarrow> read32 (mem s) (x + OFF_RETVAL) \<in> h"

lemma field_in_msg:
  assumes "addr_in (x + of_nat i) 4 y" and "i \<le> 44"
  shows "addr_in x 48 y"
proof -
  define d where "d = y - (x + of_nat i)"
  then have "y - x = d + of_nat i" and "unat d < 4" using assms by (simp_all add: addr_in_def)
  moreover from this have "unat (d + of_nat i) = unat d + i"
    using assms by (simp add: unat_word_ariths(1) unat_of_nat32)
  ultimately show ?thesis using assms by (simp add: addr_in_def)
qed

lemma request_at_cong:
  assumes "\<And>y. addr_in x 48 y \<Longrightarrow> mem s' y = mem s y"
  shows "request_at P x s' \<longleftrightarrow> request_at P x s" "reply_at h x s' \<longleftrightarrow> reply_at h x s"
proof -
  have "read32 (mem s') (x + of_nat i) = read32 (mem s) (x + of_nat i)" if "i \<le> 44" for i
    by (rule read32_cong) (use assms field_in_msg that in blast)
  from this [of 0] this [of 4] this [of 8] show "request_at P x s' \<longleftrightarrow> request_at P x s"
    "reply_at h x s' \<longleftrightarrow> reply_at h x s" by (simp_all add: request_at_def reply_at_def)
qed

lemma reply_at_mono: "reply_at h x s \<Longrightarrow> h \<subseteq> h' \<Longrightarrow> reply_at h' x s"
  by (auto simp: reply_at_def)

lemma stamped_request:
  assumes "get_field (m + OFF_TYPE) s = GET_TICKS"
  shows "request_at (ready_process s) (self_addr s m) (stamped m s)"
  using assms stamped_read(1) [of m s] stamped_read(2) [of 4 m s]
  by (simp add: request_at_def get_field_def self_addr_add)

lemma stamped_reply:
  assumes "read32 (mem s) (self_addr s m + OFF_RETVAL) \<in> h"
  shows "reply_at h (self_addr s m) (stamped m s)"
  using assms stamped_read(2) [of 8 m s] by (simp add: reply_at_def)

text \<open>A copied message is the same request or reply.\<close>

lemma copied_message:
  assumes "disjoint_ranges d 48 f 48" and "mem s' = p_asm_memcpy (mem s) d f MSG_SIZE"
  shows "request_at P d s' \<longleftrightarrow> request_at P f s" "reply_at h d s' \<longleftrightarrow> reply_at h f s"
  using assms(2) read32_memcpy [OF assms(1), of 0] read32_memcpy [OF assms(1), of 4]
    read32_memcpy [OF assms(1), of 8] by (simp_all add: request_at_def reply_at_def)

lemma same_message:
  assumes "mem s' = mem s"
  shows "request_at P x s' \<longleftrightarrow> request_at P x s" "reply_at h x s' \<longleftrightarrow> reply_at h x s"
  using assms by (simp_all add: request_at_def reply_at_def)

abbreviation asking :: "u32 \<Rightarrow> 'a kernel_scheme \<Rightarrow> 'a kernel_scheme" where
  "asking m s \<equiv> put_field (m + OFF_TYPE) GET_TICKS (reset_msg m s)"

lemma asking_type: "get_field (m + OFF_TYPE) (asking m s) = GET_TICKS"
  by (simp add: get_field_def) (simp add: put_field_def)

lemma stamped_outside: "\<not> addr_in (self_addr s m) 48 x \<Longrightarrow> mem (stamped m s) x = mem s x"
  by (simp add: stamped_def write32_outside addr_in_def)

lemma put_outside:
  assumes "\<not> addr_in (self_addr s m) 48 x" and "i \<le> 44"
  shows "mem (put_field (m + of_nat i) v s) x = mem s x"
proof -
  have "\<not> addr_in (self_addr s m + of_nat i) 4 x" using field_in_msg assms by blast
  then show ?thesis by (simp add: put_field_def self_addr_add write32_outside)
qed

lemma reset_outside: "\<not> addr_in (self_addr s m) 48 x \<Longrightarrow> mem (reset_msg m s) x = mem s x"
  by (simp add: reset_msg_def p_asm_memset_apply)

lemma asking_outside: "\<not> addr_in (self_addr s m) 48 x \<Longrightarrow> mem (stamped m (asking m s)) x = mem s x"
  using put_outside [of "reset_msg m s" m x 4 GET_TICKS] by (simp add: stamped_outside reset_outside)

section \<open>Runs\<close>

text \<open>
  What everybody else can do meanwhile, and the clients \<open>C\<close> themselves between two calls (\<open>n P\<close> is
  the number of system calls that \<open>P\<close> has made in its present call of \<open>get_ticks\<close>): anything that
  keeps the invariant of message passing, the segments of the clients, and the status and the
  message buffer of the task (at \<open>b\<close>) and of every client in a call (at \<open>a P\<close>), as long as nobody
  sends to the task except from \<open>get_ticks\<close>, and some process outside \<open>C\<close> stays runnable, as
  the terminal task does, which polls. Clock interrupts are of this kind, and so are messages
  from anybody to a client in a call, which are queued.
\<close>

definition outside_quiet :: "nat set \<Rightarrow> (nat \<Rightarrow> nat) \<Rightarrow> 'a kernel_scheme \<Rightarrow> bool" where
  "outside_quiet C n s \<longleftrightarrow>
     (\<forall>i < NR_SLOTS. i \<notin> C \<or> n i = 0 \<longrightarrow> (\<forall>x. statuses s i \<noteq> Sending TASK_SYS x))
     \<and> (\<exists>i < NR_SLOTS. i \<notin> C \<and> i \<noteq> TASK_SYS \<and> statuses s i = Idle)"

definition others ::
  "nat set \<Rightarrow> (nat \<Rightarrow> nat) \<Rightarrow> (nat \<Rightarrow> u32) \<Rightarrow> u32 \<Rightarrow> 'a kernel_scheme \<Rightarrow> 'a kernel_scheme \<Rightarrow> bool" where
  "others C n a b s s' \<longleftrightarrow> kernel_ok s' \<and> outside_quiet C n s'
     \<and> (\<forall>P \<in> C. ldt (proc_table s' P) = ldt (proc_table s P))
     \<and> statuses s' TASK_SYS = statuses s TASK_SYS \<and> (\<forall>x. addr_in b 48 x \<longrightarrow> mem s' x = mem s x)
     \<and> (\<forall>P \<in> C. n P \<noteq> 0 \<longrightarrow> statuses s' P = statuses s P \<and> (\<forall>x. addr_in (a P) 48 x \<longrightarrow> mem s' x = mem s x))"

text \<open>
  The states a run reaches, with the system calls \<open>n P\<close> that each client has made in its present
  call of \<open>get_ticks\<close>, the number \<open>r\<close> of calls that have returned, the number \<open>k\<close> of steps of the
  task, the values \<open>h P\<close> the tick counter has had since the first system call of the present call
  of \<open>P\<close>, and the code that is left to the clients and to the task. The running process executes
  up to its next system call; a client may call again when a call has returned, and the task begins
  again when a turn is over.
\<close>

inductive clock_run ::
  "nat set \<Rightarrow> (nat \<Rightarrow> u32) \<Rightarrow> u32 \<Rightarrow> 'a kernel_scheme \<Rightarrow> (nat \<Rightarrow> nat) \<Rightarrow> nat \<Rightarrow> nat \<Rightarrow> (nat \<Rightarrow> u32 set) \<Rightarrow> 'a kernel_scheme
   \<Rightarrow> (nat \<Rightarrow> 'a kernel_scheme \<Rightarrow> ('a kernel_scheme, u32) prog) \<Rightarrow> ('a kernel_scheme \<Rightarrow> ('a kernel_scheme, unit) prog) \<Rightarrow> bool"
  for C m b s0 where
  start: "clock_run C m b s0 (\<lambda>_. 0) 0 0 (\<lambda>_. {}) s0 (\<lambda>P. get_ticks (m P)) (task_sys b)"
| client: "clock_run C m b s0 n r k h s c t \<Longrightarrow> P \<in> C \<Longrightarrow> ready_process s = P \<Longrightarrow> c P s = Suspend s' c' \<Longrightarrow>
    clock_run C m b s0 (n(P := Suc (n P))) r k (\<lambda>Q. insert (ticks s') (if Q = P \<and> n P = 0 then {} else h Q))
      s' (c(P := c')) t"
| returned: "clock_run C m b s0 n r k h s c t \<Longrightarrow> P \<in> C \<Longrightarrow> ready_process s = P \<Longrightarrow> c P s = Return v s' \<Longrightarrow>
    clock_run C m b s0 (n(P := 0)) (Suc r) k h s' (c(P := get_ticks (m P))) t"
| server: "clock_run C m b s0 n r k h s c t \<Longrightarrow> ready_process s = TASK_SYS \<Longrightarrow> t s = Suspend s' t' \<Longrightarrow>
    clock_run C m b s0 n r (Suc k) (\<lambda>Q. insert (ticks s') (h Q)) s' c t'"
| again: "clock_run C m b s0 n r k h s c t \<Longrightarrow> ready_process s = TASK_SYS \<Longrightarrow> t s = Return () s' \<Longrightarrow>
    clock_run C m b s0 n r (Suc k) (\<lambda>Q. insert (ticks s') (h Q)) s' c (task_sys b)"
| env: "clock_run C m b s0 n r k h s c t \<Longrightarrow> others C n (\<lambda>P. data_addr (proc_table s0) P (m P)) b s s' \<Longrightarrow>
    clock_run C m b s0 n r k (\<lambda>Q. insert (ticks s') (h Q)) s' c t"

lemma tick_others:
  assumes "clock_handler s = Inr s'" and "kernel_ok s" and "outside_quiet C n s"
  shows "others C n a b s s'"
proof -
  have "kernel_ok s'" by (rule clock_kernel_ok [OF assms(2,1)])
  moreover have "proc_table s' = proc_table s" "mem s' = mem s"
    using assms(1) by (auto simp: clock_handler_def schedule_def Let_def res_simps split: if_splits)
  ultimately show ?thesis using assms(3) by (simp add: others_def outside_quiet_def statuses_def)
qed

section \<open>Phases\<close>

text \<open>
  A client is not in a call, is queued with its request, has its request taken, waits for the
  answer, or has it. The task is about to receive, listens, serves a request, is queued with
  its reply, or has finished its turn.
\<close>

datatype client_phase = Fresh | Asking | Taken | Waiting | Answered
datatype server_phase = Ready | Listening | Serving nat | Replying nat | Turning

definition client_in ::
  "nat \<Rightarrow> u32 \<Rightarrow> u32 \<Rightarrow> u32 set \<Rightarrow> nat \<Rightarrow> 'a kernel_scheme \<Rightarrow> ('a kernel_scheme \<Rightarrow> ('a kernel_scheme, u32) prog)
   \<Rightarrow> client_phase \<Rightarrow> bool" where
  "client_in P m a h n s c ph =
     (case ph of
        Fresh \<Rightarrow> n = 0 \<and> c = get_ticks m \<and> (\<forall>x. statuses s P \<noteq> Sending TASK_SYS x)
      | Asking \<Rightarrow> n = 1 \<and> c = client_asked m \<and> statuses s P = Sending TASK_SYS m \<and> request_at P a s
      | Taken \<Rightarrow> n = 1 \<and> c = client_asked m \<and> statuses s P = Idle
      | Waiting \<Rightarrow> n = 2 \<and> c = client_done m \<and> statuses s P = Receiving (int TASK_SYS) m
      | Answered \<Rightarrow> n = 2 \<and> c = client_done m \<and> statuses s P = Idle \<and> reply_at h a s)"

definition server_in ::
  "u32 \<Rightarrow> (nat \<Rightarrow> u32 set) \<Rightarrow> 'a kernel_scheme \<Rightarrow> ('a kernel_scheme \<Rightarrow> ('a kernel_scheme, unit) prog)
   \<Rightarrow> server_phase \<Rightarrow> bool" where
  "server_in b h s t sv =
     (case sv of
        Ready \<Rightarrow> t = task_sys b \<and> statuses s TASK_SYS = Idle
      | Listening \<Rightarrow> t = server_received b \<and> statuses s TASK_SYS = Receiving ANY b
      | Serving P \<Rightarrow> t = server_received b \<and> statuses s TASK_SYS = Idle \<and> request_at P b s
      | Replying P \<Rightarrow> t = turn_over (0 :: int) \<and> statuses s TASK_SYS = Sending P b \<and> reply_at (h P) b s
      | Turning \<Rightarrow> t = turn_over (0 :: int) \<and> statuses s TASK_SYS = Idle)"

definition joint :: "nat set \<Rightarrow> (nat \<Rightarrow> client_phase) \<Rightarrow> server_phase \<Rightarrow> bool" where
  "joint C ph sv \<longleftrightarrow>
     (\<forall>P \<in> C. ph P = Taken \<or> ph P = Waiting \<longleftrightarrow> sv = Serving P \<or> sv = Replying P)
     \<and> (\<forall>P. sv = Serving P \<or> sv = Replying P \<longrightarrow> P \<in> C) \<and> (\<forall>P. sv = Replying P \<longrightarrow> ph P = Taken)
     \<and> (sv = Listening \<longrightarrow> (\<forall>P \<in> C. ph P \<noteq> Asking))"

text \<open>The task makes three steps for each answer; \<open>w\<close> answers have been given.\<close>

definition counted :: "nat \<Rightarrow> nat \<Rightarrow> server_phase \<Rightarrow> bool" where
  "counted k w sv \<longleftrightarrow>
     (case sv of Ready \<Rightarrow> k = 3 * w | Listening \<Rightarrow> k = 3 * w + 1 | Serving _ \<Rightarrow> k = 3 * w + 1
      | Replying _ \<Rightarrow> k = 3 * w + 2 | Turning \<Rightarrow> k + 1 = 3 * w)"

definition answered :: "nat set \<Rightarrow> (nat \<Rightarrow> client_phase) \<Rightarrow> nat" where
  "answered C ph = card {P \<in> C. ph P = Answered}"

text \<open>The fixed part: who calls, and where the buffers are.\<close>

definition layout :: "nat set \<Rightarrow> (nat \<Rightarrow> u32) \<Rightarrow> (nat \<Rightarrow> u32) \<Rightarrow> u32 \<Rightarrow> 'a kernel_scheme \<Rightarrow> bool" where
  "layout C m a b s \<longleftrightarrow> kernel_ok s \<and> C \<subseteq> {..<NR_SLOTS} \<and> TASK_SYS \<notin> C \<and> b \<noteq> 0
     \<and> (\<forall>P \<in> C. m P \<noteq> 0 \<and> data_addr (proc_table s) P (m P) = a P \<and> disjoint_ranges (a P) 48 b 48)
     \<and> (\<forall>P \<in> C. \<forall>Q \<in> C. P \<noteq> Q \<longrightarrow> disjoint_ranges (a P) 48 (a Q) 48)"

definition service ::
  "nat set \<Rightarrow> (nat \<Rightarrow> u32) \<Rightarrow> (nat \<Rightarrow> u32) \<Rightarrow> u32 \<Rightarrow> (nat \<Rightarrow> nat) \<Rightarrow> nat \<Rightarrow> nat \<Rightarrow> (nat \<Rightarrow> u32 set) \<Rightarrow> 'a kernel_scheme
   \<Rightarrow> (nat \<Rightarrow> 'a kernel_scheme \<Rightarrow> ('a kernel_scheme, u32) prog) \<Rightarrow> ('a kernel_scheme \<Rightarrow> ('a kernel_scheme, unit) prog)
   \<Rightarrow> (nat \<Rightarrow> client_phase) \<Rightarrow> server_phase \<Rightarrow> bool" where
  "service C m a b n r k h s c t ph sv \<longleftrightarrow> layout C m a b s \<and> outside_quiet C n s \<and> server_in b h s t sv
     \<and> joint C ph sv \<and> (\<forall>P \<in> C. client_in P (m P) (a P) (h P) (n P) s (c P) (ph P))
     \<and> counted k (r + answered C ph) sv"

lemma answered_upd:
  assumes "finite C" and "P \<in> C"
  shows "ph P \<noteq> Answered \<Longrightarrow> q \<noteq> Answered \<Longrightarrow> answered C (ph(P := q)) = answered C ph"
    "ph P \<noteq> Answered \<Longrightarrow> answered C (ph(P := Answered)) = Suc (answered C ph)"
    "ph P = Answered \<Longrightarrow> q \<noteq> Answered \<Longrightarrow> Suc (answered C (ph(P := q))) = answered C ph"
proof -
  let ?A = "{Q \<in> C. ph Q = Answered}"
  have fin: "finite ?A" using assms(1) by simp
  show "answered C (ph(P := q)) = answered C ph" if "ph P \<noteq> Answered" "q \<noteq> Answered"
    unfolding answered_def using that by (intro arg_cong [where f = card]) auto
  have "{Q \<in> C. (ph(P := Answered)) Q = Answered} = insert P ?A" using assms(2) by auto
  then show "answered C (ph(P := Answered)) = Suc (answered C ph)" if "ph P \<noteq> Answered"
    using that fin by (simp add: answered_def del: fun_upd_apply)
  show "Suc (answered C (ph(P := q))) = answered C ph" if "ph P = Answered" "q \<noteq> Answered"
  proof -
    have "{Q \<in> C. (ph(P := q)) Q = Answered} = ?A - {P}" using that(2) by auto
    then show ?thesis using card.remove [OF fin, of P] that(1) assms(2) by (simp add: answered_def del: fun_upd_apply)
  qed
qed

text \<open>A process that a step does not touch stays in its phase.\<close>

lemma client_in_other:
  assumes "client_in P m a h n s c ph" and "statuses s' P = statuses s P"
    and "\<And>x. addr_in a 48 x \<Longrightarrow> mem s' x = mem s x" and "h \<subseteq> h'"
  shows "client_in P m a h' n s' c ph"
  using assms(1,2) request_at_cong [of a s' s, OF assms(3)] reply_at_mono [OF _ assms(4)]
  by (auto simp: client_in_def split: client_phase.splits)

lemma server_in_other:
  assumes "server_in b h s t sv" and "statuses s' TASK_SYS = statuses s TASK_SYS"
    and "\<And>x. addr_in b 48 x \<Longrightarrow> mem s' x = mem s x" and "\<And>P. sv = Replying P \<Longrightarrow> h P \<subseteq> h' P"
  shows "server_in b h' s' t sv"
proof -
  have "reply_at (h' P) b s'" if "sv = Replying P" "reply_at (h P) b s" for P
    using reply_at_mono [OF that(2) assms(4) [OF that(1)]] request_at_cong(2) [of b s' s, OF assms(3)] by simp
  then show ?thesis using assms(1,2) request_at_cong(1) [of b s' s, OF assms(3)]
    by (auto simp: server_in_def split: server_phase.splits)
qed

lemma layout_addrs:
  assumes "layout C m a b s"
  shows "ready_process s = P \<Longrightarrow> P \<in> C \<Longrightarrow> self_addr s (m P) = a P" "data_addr (proc_table s) TASK_SYS x = x"
    "ready_process s = TASK_SYS \<Longrightarrow> self_addr s x = x" "P \<in> C \<Longrightarrow> data_addr (proc_table s) P (m P) = a P"
  using assms by (auto simp: layout_def self_addr_def kernel_ok_def ipc_inv_def flat_natives_def data_addr_def)

lemma layout_apart:
  assumes "layout C m a b s" and "P \<in> C"
  shows "disjoint_ranges (a P) 48 b 48" "disjoint_ranges b 48 (a P) 48"
    "Q \<in> C \<Longrightarrow> Q \<noteq> P \<Longrightarrow> disjoint_ranges (a Q) 48 (a P) 48"
  using assms by (auto simp: layout_def disjoint_ranges_sym [of b])

lemma layout_parts:
  assumes "layout C m a b s"
  shows "kernel_ok s" "P \<in> C \<Longrightarrow> P < NR_SLOTS" "P \<in> C \<Longrightarrow> P \<noteq> TASK_SYS" "b \<noteq> 0" "P \<in> C \<Longrightarrow> m P \<noteq> 0" "finite C"
  using assms by (auto simp: layout_def intro: finite_subset)

lemma service_parts:
  assumes "service C m a b n r k h s c t ph sv"
  shows "layout C m a b s" "outside_quiet C n s" "server_in b h s t sv" "joint C ph sv"
    "P \<in> C \<Longrightarrow> client_in P (m P) (a P) (h P) (n P) s (c P) (ph P)" "counted k (r + answered C ph) sv"
  using assms by (simp_all add: service_def)

text \<open>A step that changes only the client \<open>P\<close> and the task leaves the rest of the service as it was.\<close>

lemma service_move:
  assumes sv: "service C m a b n r k h s c t ph sv" and bec: "became s f s'" and P: "P \<in> C \<or> P = TASK_SYS"
    and f: "\<And>i. i \<noteq> P \<Longrightarrow> i \<noteq> TASK_SYS \<Longrightarrow> f i = statuses s i" "\<And>x. f TASK_SYS \<noteq> Sending TASK_SYS x"
    and mem: "\<And>x. (P \<in> C \<Longrightarrow> \<not> addr_in (a P) 48 x) \<Longrightarrow> \<not> addr_in b 48 x \<Longrightarrow> mem s' x = mem s x"
    and client: "P \<in> C \<Longrightarrow> n' P \<noteq> 0 \<and> client_in P (m P) (a P) (h' P) (n' P) s' (c' P) q"
    and same: "\<And>Q. Q \<noteq> P \<Longrightarrow> n' Q = n Q \<and> c' Q = c Q \<and> h Q \<subseteq> h' Q"
    and server: "server_in b h' s' t' sv'" and joint: "joint C (ph(P := q)) sv'"
    and count: "counted k' (r + answered C (ph(P := q))) sv'"
  shows "service C m a b n' r k' h' s' c' t' (ph(P := q)) sv'"
proof -
  note lay = service_parts(1) [OF sv]
  have ok': "kernel_ok s'" and st: "statuses s' = f" and ld: "ldt (proc_table s' i) = ldt (proc_table s i)" for i
    using bec by (auto simp: became_def)
  have "layout C m a b s'" using lay ok' ld by (auto simp: layout_def data_addr_def ldt_seg_linear_def)
  moreover have "outside_quiet C n' s'"
  proof -
    have "statuses s' i \<noteq> Sending TASK_SYS x" if "i < NR_SLOTS" "i \<notin> C \<or> n' i = 0" for i x
    proof (cases "i = P \<or> i = TASK_SYS")
      case True then show ?thesis using that client f(2) P st by auto
    next
      case False then show ?thesis using that same [of i] f(1) st service_parts(2) [OF sv] by (auto simp: outside_quiet_def)
    qed
    moreover have "\<exists>i < NR_SLOTS. i \<notin> C \<and> i \<noteq> TASK_SYS \<and> statuses s' i = Idle"
      using service_parts(2) [OF sv] f(1) st P unfolding outside_quiet_def by metis
    ultimately show ?thesis by (simp add: outside_quiet_def)
  qed
  moreover have "client_in Q (m Q) (a Q) (h' Q) (n' Q) s' (c' Q) ((ph(P := q)) Q)" if Q: "Q \<in> C" for Q
  proof (cases "Q = P")
    case True then show ?thesis using client Q by simp
  next
    case False
    have "mem s' x = mem s x" if "addr_in (a Q) 48 x" for x
      by (rule mem) (use that Q False layout_apart [OF lay] disjoint_rangesD in blast)+
    moreover have "statuses s' Q = statuses s Q" using f(1) [of Q] False layout_parts(3) [OF lay Q] st by simp
    ultimately show ?thesis using client_in_other [OF service_parts(5) [OF sv Q], of s' "h' Q"] same [OF False] False by simp
  qed
  ultimately show ?thesis using server joint count by (simp add: service_def)
qed

section \<open>The steps of a client\<close>

abbreviation since :: "(nat \<Rightarrow> u32 set) \<Rightarrow> (nat \<Rightarrow> nat) \<Rightarrow> nat \<Rightarrow> u32 \<Rightarrow> nat \<Rightarrow> u32 set" where
  "since h n P v \<equiv> \<lambda>Q. insert v (if Q = P \<and> n P = 0 then {} else h Q)"

text \<open>The task never waits, directly or through the client it answers, for a client that begins a call.\<close>

lemma no_chain_to_client:
  assumes sv: "service C m a b n r k h s c t ph sv" and P: "P \<in> C" "sv \<noteq> Replying P"
  shows "(TASK_SYS, P) \<notin> (wait_graph (proc_table s))\<^sup>+"
proof (cases "\<exists>Q. sv = Replying Q")
  case True
  then obtain Q where Q: "sv = Replying Q" ..
  then have QC: "Q \<in> C" "ph Q = Taken" using service_parts(4) [OF sv] by (auto simp: joint_def)
  then have "statuses s Q = Idle" using service_parts(5) [OF sv QC(1)] by (simp add: client_in_def)
  moreover have "statuses s TASK_SYS = Sending Q b" using service_parts(3) [OF sv] Q by (simp add: server_in_def)
  moreover have "Q < NR_SLOTS" "Q \<noteq> P" using layout_parts(2) [OF service_parts(1) [OF sv]] QC Q P(2) by auto
  ultimately show ?thesis
    using no_chain_two [OF layout_parts(1) [OF service_parts(1) [OF sv]], of TASK_SYS Q b P] by simp
next
  case False
  then have "statuses s TASK_SYS \<noteq> Sending e x" for e x
    using service_parts(3) [OF sv] by (auto simp: server_in_def split: server_phase.splits)
  then show ?thesis using no_chain [OF layout_parts(1) [OF service_parts(1) [OF sv]], of TASK_SYS P] by simp
qed

lemma asking_message:
  assumes lay: "layout C m a b s" and P: "P \<in> C" "ready_process s = P"
  shows "kernel_ok (asking (m P) s)" "self_addr (asking (m P) s) (m P) = a P"
    "request_at P (a P) (stamped (m P) (asking (m P) s))"
    "\<not> addr_in (a P) 48 x \<Longrightarrow> mem (stamped (m P) (asking (m P) s)) x = mem s x"
  using layout_parts(1) [OF lay] layout_addrs(1) [OF lay P(2,1)] stamped_request [OF asking_type, of "m P" s]
    asking_outside [of s "m P" x] P(2) by simp_all

lemma ask_listening:
  assumes sv: "service C m a b n r k h s c t ph Listening" and P: "P \<in> C" "ready_process s = P" and ph: "ph P = Fresh"
  shows "\<exists>s'. get_ticks (m P) s = Suspend s' (client_asked (m P))
    \<and> service C m a b (n(P := 1)) r k (since h n P (ticks s')) s' (c(P := client_asked (m P))) t (ph(P := Taken)) (Serving P)"
proof -
  note lay = service_parts(1) [OF sv] and ser = service_parts(3) [OF sv]
  note msg = asking_message [OF lay P]
  have "statuses (asking (m P) s) TASK_SYS = Receiving ANY b" using ser by (simp add: server_in_def)
  then obtain s' where run: "sendrec SEND (int TASK_SYS) (m P) (asking (m P) s) = Suspend s' resume"
    and bec: "became s ((statuses s)(TASK_SYS := Idle)) s'"
    and mem: "mem s' = p_asm_memcpy (mem (stamped (m P) (asking (m P) s))) b (a P) MSG_SIZE"
    using send_completes [OF msg(1) _ layout_parts(5) [OF lay P(1)], of TASK_SYS ANY b] msg(2) layout_addrs(2) [OF lay, of b]
    by (auto simp: became_frame)
  have st: "statuses s' = (statuses s)(TASK_SYS := Idle)" using bec by (simp add: became_def)
  have "service C m a b (n(P := 1)) r k (since h n P (ticks s')) s' (c(P := client_asked (m P))) t (ph(P := Taken)) (Serving P)"
  proof (rule service_move [OF sv bec])
    show "mem s' x = mem s x" if "P \<in> C \<Longrightarrow> \<not> addr_in (a P) 48 x" "\<not> addr_in b 48 x" for x
      using mem msg(4) that P(1) by (simp add: p_asm_memcpy_outside)
    show "server_in b (since h n P (ticks s')) s' t (Serving P)"
      using copied_message(1) [OF layout_apart(2) [OF lay P(1)] mem] msg(3) ser st by (simp add: server_in_def)
    show "joint C (ph(P := Taken)) (Serving P)" using service_parts(4) [OF sv] P(1) by (auto simp: joint_def)
    show "counted k (r + answered C (ph(P := Taken))) (Serving P)"
      using service_parts(6) [OF sv] answered_upd(1) [OF layout_parts(6) [OF lay] P(1)] ph by (simp add: counted_def)
  qed (use P st running_status [OF layout_parts(1) [OF lay]] layout_parts(3) [OF lay] in \<open>auto simp: client_in_def\<close>)
  then show ?thesis using get_ticks_step [OF run] by blast
qed

lemma ask_busy:
  assumes sv: "service C m a b n r k h s c t ph sv" and P: "P \<in> C" "ready_process s = P" and ph: "ph P = Fresh"
    and busy: "sv \<noteq> Listening"
  shows "\<exists>s'. get_ticks (m P) s = Suspend s' (client_asked (m P))
    \<and> service C m a b (n(P := 1)) r k (since h n P (ticks s')) s' (c(P := client_asked (m P))) t (ph(P := Asking)) sv"
proof -
  note lay = service_parts(1) [OF sv] and ser = service_parts(3) [OF sv] and jo = service_parts(4) [OF sv]
  note msg = asking_message [OF lay P]
  have neP: "P \<noteq> TASK_SYS" by (rule layout_parts(3) [OF lay P(1)])
  have notP: "sv \<noteq> Serving P" "sv \<noteq> Replying P" using jo P(1) ph by (auto simp: joint_def)
  have "statuses s TASK_SYS \<noteq> Receiving src x" for src x
    using ser busy by (auto simp: server_in_def split: server_phase.splits)
  moreover obtain j where "j < NR_SLOTS" "j \<noteq> P" "statuses s j = Idle"
    using service_parts(2) [OF sv] P(1) by (auto simp: outside_quiet_def)
  ultimately obtain s' where run: "sendrec SEND (int TASK_SYS) (m P) (asking (m P) s) = Suspend s' resume"
    and bec: "became s ((statuses s)(P := Sending TASK_SYS (m P))) s'" and mem: "mem s' = mem (stamped (m P) (asking (m P) s))"
    using send_blocks [OF msg(1) _ _ layout_parts(5) [OF lay P(1)], of TASK_SYS j] no_chain_to_client [OF sv P(1) notP(2)] P(2) neP
    by (auto simp: became_frame)
  have st: "statuses s' = (statuses s)(P := Sending TASK_SYS (m P))" using bec by (simp add: became_def)
  have "service C m a b (n(P := 1)) r k (since h n P (ticks s')) s' (c(P := client_asked (m P))) t (ph(P := Asking)) sv"
  proof (rule service_move [OF sv bec])
    show "server_in b (since h n P (ticks s')) s' t sv"
      by (rule server_in_other [OF ser])
        (use st neP mem msg(4) disjoint_rangesD [OF layout_apart(2) [OF lay P(1)]] notP in auto)
    show "joint C (ph(P := Asking)) sv" using jo busy P(1) notP ph by (auto simp: joint_def)
    show "counted k (r + answered C (ph(P := Asking))) sv"
      using service_parts(6) [OF sv] answered_upd(1) [OF layout_parts(6) [OF lay] P(1)] ph by simp
    show "P \<in> C \<Longrightarrow> (n(P := 1)) P \<noteq> 0 \<and> client_in P (m P) (a P) (since h n P (ticks s') P) ((n(P := 1)) P) s'
        ((c(P := client_asked (m P))) P) Asking"
      using st msg(3) same_message(1) [OF mem] by (simp add: client_in_def)
    show "((statuses s)(P := Sending TASK_SYS (m P))) TASK_SYS \<noteq> Sending TASK_SYS x" for x
      using neP ser layout_parts(3) [OF lay] jo by (auto simp: server_in_def joint_def split: server_phase.splits)
  qed (use P mem msg(4) in auto)
  then show ?thesis using get_ticks_step [OF run] by blast
qed

lemma await_answer:
  assumes sv: "service C m a b n r k h s c t ph (Serving P)" and P: "P \<in> C" "ready_process s = P" and ph: "ph P = Taken"
  shows "\<exists>s'. client_asked (m P) s = Suspend s' (client_done (m P))
    \<and> service C m a b (n(P := 2)) r k (since h n P (ticks s')) s' (c(P := client_done (m P))) t (ph(P := Waiting)) (Serving P)"
proof -
  note lay = service_parts(1) [OF sv] and ser = service_parts(3) [OF sv]
  note ok = layout_parts(1) [OF lay] and self = layout_addrs(1) [OF lay P(2,1)]
  have neP: "P \<noteq> TASK_SYS" by (rule layout_parts(3) [OF lay P(1)])
  have idl: "statuses s TASK_SYS = Idle" using ser by (simp add: server_in_def)
  then obtain s' where run: "sendrec RECEIVE (int TASK_SYS) (m P) s = Suspend s' resume"
    and bec: "became s ((statuses s)(P := Receiving (int TASK_SYS) (m P))) s'" and mem: "mem s' = mem (stamped (m P) s)"
    using receive_blocks [OF ok layout_parts(5) [OF lay P(1)], of "int TASK_SYS" TASK_SYS] P(2) neP by auto
  have st: "statuses s' = (statuses s)(P := Receiving (int TASK_SYS) (m P))" using bec by (simp add: became_def)
  have out: "mem s' x = mem s x" if "\<not> addr_in (a P) 48 x" for x using mem stamped_outside [of s "m P" x] self that by simp
  have "service C m a b (n(P := 2)) r k (since h n P (ticks s')) s' (c(P := client_done (m P))) t (ph(P := Waiting)) (Serving P)"
  proof (rule service_move [OF sv bec])
    show "server_in b (since h n P (ticks s')) s' t (Serving P)"
      by (rule server_in_other [OF ser]) (use st neP out disjoint_rangesD [OF layout_apart(2) [OF lay P(1)]] in auto)
    show "joint C (ph(P := Waiting)) (Serving P)" using service_parts(4) [OF sv] P(1) by (auto simp: joint_def)
    show "counted k (r + answered C (ph(P := Waiting))) (Serving P)"
      using service_parts(6) [OF sv] answered_upd(1) [OF layout_parts(6) [OF lay] P(1)] ph by simp
  qed (use P st neP out idl in \<open>auto simp: client_in_def\<close>)
  then show ?thesis using client_asked_step [OF run] by blast
qed

lemma take_answer:
  assumes sv: "service C m a b n r k h s c t ph (Replying P)" and P: "P \<in> C" "ready_process s = P" and ph: "ph P = Taken"
  shows "\<exists>s'. client_asked (m P) s = Suspend s' (client_done (m P))
    \<and> service C m a b (n(P := 2)) r k (since h n P (ticks s')) s' (c(P := client_done (m P))) t (ph(P := Answered)) Turning"
proof -
  note lay = service_parts(1) [OF sv] and ser = service_parts(3) [OF sv] and cl = service_parts(5) [OF sv P(1)]
  note ok = layout_parts(1) [OF lay] and self = layout_addrs(1) [OF lay P(2,1)] and apart = layout_apart [OF lay P(1)]
  have neP: "P \<noteq> TASK_SYS" and nP: "n P = 1" using layout_parts(3) [OF lay P(1)] cl ph by (auto simp: client_in_def)
  have snd: "statuses s TASK_SYS = Sending P b" and rep: "reply_at (h P) b s" using ser by (simp_all add: server_in_def)
  obtain s' where run: "sendrec RECEIVE (int TASK_SYS) (m P) s = Suspend s' resume"
    and bec: "became s ((statuses s)(TASK_SYS := Idle)) s'"
    and mem: "mem s' = p_asm_memcpy (mem (stamped (m P) s)) (a P) b MSG_SIZE"
    using receive_completes [OF ok layout_parts(5) [OF lay P(1)], of TASK_SYS b "int TASK_SYS"] snd P(2) self
      layout_addrs(2) [OF lay, of b] by auto
  have st: "statuses s' = (statuses s)(TASK_SYS := Idle)" using bec by (simp add: became_def)
  have out: "mem (stamped (m P) s) x = mem s x" if "\<not> addr_in (a P) 48 x" for x
    using stamped_outside [of s "m P" x] self that by simp
  have "reply_at (h P) b (stamped (m P) s)"
    using request_at_cong(2) [of b "stamped (m P) s" s] out disjoint_rangesD [OF apart(2)] rep by simp
  then have ans: "reply_at (since h n P (ticks s') P) (a P) s'"
    using copied_message(2) [OF apart(1) mem] nP by (auto intro: reply_at_mono)
  have "service C m a b (n(P := 2)) r k (since h n P (ticks s')) s' (c(P := client_done (m P))) t (ph(P := Answered)) Turning"
  proof (rule service_move [OF sv bec])
    show "mem s' x = mem s x" if "P \<in> C \<Longrightarrow> \<not> addr_in (a P) 48 x" "\<not> addr_in b 48 x" for x
      using mem out that P(1) by (simp add: p_asm_memcpy_outside)
    show "P \<in> C \<Longrightarrow> (n(P := 2)) P \<noteq> 0 \<and> client_in P (m P) (a P) (since h n P (ticks s') P) ((n(P := 2)) P) s'
        ((c(P := client_done (m P))) P) Answered"
      using ans st neP running_status [OF ok] P(2) by (simp add: client_in_def)
    show "server_in b (since h n P (ticks s')) s' t Turning" using ser st by (simp add: server_in_def)
    show "joint C (ph(P := Answered)) Turning" using service_parts(4) [OF sv] by (auto simp: joint_def)
    show "counted k (r + answered C (ph(P := Answered))) Turning"
      using service_parts(6) [OF sv] answered_upd(2) [OF layout_parts(6) [OF lay] P(1)] ph by (simp add: counted_def)
  qed (use P st in auto)
  then show ?thesis using client_asked_step [OF run] by blast
qed

lemma return_answer:
  assumes sv: "service C m a b n r k h s c t ph sv" and P: "P \<in> C" "ready_process s = P" and ph: "ph P = Answered"
  shows "\<exists>v. client_done (m P) s = Return v s \<and> v \<in> h P
    \<and> service C m a b (n(P := 0)) (Suc r) k h s (c(P := get_ticks (m P))) t (ph(P := Fresh)) sv"
proof -
  note lay = service_parts(1) [OF sv] and cl = service_parts(5) [OF sv P(1)]
  have idl: "statuses s P = Idle" and rep: "reply_at (h P) (a P) s" using cl ph by (auto simp: client_in_def)
  have "get_field (m P + OFF_RETVAL) s \<in> h P"
    using rep layout_addrs(1) [OF lay P(2,1)] by (simp add: reply_at_def get_field_def self_addr_add)
  moreover have "joint C (ph(P := Fresh)) sv" using service_parts(4) [OF sv] ph P(1) by (auto simp: joint_def)
  moreover have "r + answered C ph = Suc r + answered C (ph(P := Fresh))"
    using answered_upd(3) [OF layout_parts(6) [OF lay] P(1), of ph Fresh] ph by simp
  ultimately show ?thesis
    using sv idl by (auto simp: service_def client_done_def outside_quiet_def client_in_def)
qed

lemma client_step:
  assumes sv: "service C m a b n r k h s c t ph sv" and P: "P \<in> C" "ready_process s = P"
  obtains s' c' ph' sv' where "n P < 2" "c P s = Suspend s' c'"
      "service C m a b (n(P := Suc (n P))) r k (since h n P (ticks s')) s' (c(P := c')) t ph' sv'"
  | v ph' where "n P = 2" "c P s = Return v s" "v \<in> h P"
      "service C m a b (n(P := 0)) (Suc r) k h s (c(P := get_ticks (m P))) t ph' sv"
proof -
  note cl = service_parts(5) [OF sv P(1)] and jo = service_parts(4) [OF sv]
  have idl: "statuses s P = Idle" using running_status [OF layout_parts(1) [OF service_parts(1) [OF sv]]] P(2) by simp
  show ?thesis
  proof (cases "ph P")
    case Fresh
    then have n: "n P = 0" "c P = get_ticks (m P)" using cl by (auto simp: client_in_def)
    show ?thesis
    proof (cases "sv = Listening")
      case True then show ?thesis using ask_listening [of C m a b n r k h s c t ph P] sv P Fresh n that(1) by auto
    next
      case False then show ?thesis using ask_busy [OF sv P Fresh] n that(1) by auto
    qed
  next
    case Taken
    then have n: "n P = 1" "c P = client_asked (m P)" and "sv = Serving P \<or> sv = Replying P"
      using cl jo P(1) by (auto simp: client_in_def joint_def)
    then show ?thesis using await_answer [of C m a b n r k h s c t ph P] take_answer [of C m a b n r k h s c t ph P] sv P Taken that(1)
      by (auto simp: numeral_2_eq_2)
  next
    case Answered then show ?thesis using return_answer [OF sv P Answered] cl that(2) by (auto simp: client_in_def)
  qed (use cl idl in \<open>simp_all add: client_in_def\<close>)
qed

section \<open>The steps of the task\<close>

abbreviation meanwhile :: "(nat \<Rightarrow> u32 set) \<Rightarrow> u32 \<Rightarrow> nat \<Rightarrow> u32 set" where
  "meanwhile h v \<equiv> \<lambda>Q. insert v (h Q)"

text \<open>Whoever is queued on the task is a client with its request.\<close>

lemma sender_asks:
  assumes sv: "service C m a b n r k h s c t ph sv" and g: "g < NR_SLOTS" "statuses s g = Sending TASK_SYS x"
  shows "g \<in> C" "ph g = Asking" "x = m g" "request_at g (a g) s" "n g = 1"
proof -
  have gC: "g \<in> C" using service_parts(2) [OF sv] g unfolding outside_quiet_def by blast
  moreover have "ph g = Asking" using service_parts(5) [OF sv gC] g(2) by (auto simp: client_in_def split: client_phase.splits)
  ultimately show "g \<in> C" "ph g = Asking" "x = m g" "request_at g (a g) s" "n g = 1"
    using service_parts(5) [OF sv gC] g(2) by (auto simp: client_in_def)
qed

lemma server_message:
  assumes lay: "layout C m a b s" and T: "ready_process s = TASK_SYS"
  shows "kernel_ok (reset_msg b s)" "self_addr (reset_msg b s) b = b"
    "\<not> addr_in b 48 x \<Longrightarrow> mem (stamped b (reset_msg b s)) x = mem s x"
  using layout_parts(1) [OF lay] layout_addrs(3) [OF lay T, of b] stamped_outside [of "reset_msg b s" b x]
    reset_outside [of s b x] by simp_all

lemma take_request:
  assumes sv: "service C m a b n r k h s c t ph Ready" and T: "ready_process s = TASK_SYS"
    and P: "P \<in> C" "ph P = Asking"
  shows "\<exists>s' g. task_sys b s = Suspend s' (server_received b)
    \<and> service C m a b n r (Suc k) (meanwhile h (ticks s')) s' c (server_received b) (ph(g := Taken)) (Serving g)"
proof -
  note lay = service_parts(1) [OF sv]
  note msg = server_message [OF lay T]
  have "statuses s P = Sending TASK_SYS (m P)" using service_parts(5) [OF sv P(1)] P(2) by (simp add: client_in_def)
  then obtain g x s' where g: "g < NR_SLOTS" "statuses s g = Sending TASK_SYS x"
    and run: "sendrec RECEIVE ANY b (reset_msg b s) = Suspend s' resume"
    and bec: "became s ((statuses s)(g := Idle)) s'"
    and mem: "mem s' = p_asm_memcpy (mem (stamped b (reset_msg b s))) b (data_addr (proc_table s) g x) MSG_SIZE"
    using receive_completes [OF msg(1) layout_parts(4) [OF lay], of P "m P" ANY] layout_parts(2) [OF lay P(1)] T msg(2)
    by (auto simp: became_frame)
  note as = sender_asks [OF sv g]
  have at: "data_addr (proc_table s) g x = a g" using layout_addrs(4) [OF lay as(1)] as(3) by simp
  have neg: "g \<noteq> TASK_SYS" by (rule layout_parts(3) [OF lay as(1)])
  have st: "statuses s' = (statuses s)(g := Idle)" using bec by (simp add: became_def)
  have "request_at g (a g) (stamped b (reset_msg b s))"
    using request_at_cong(1) [of "a g" "stamped b (reset_msg b s)" s] msg(3) disjoint_rangesD [OF layout_apart(1) [OF lay as(1)]] as(4)
    by simp
  then have req: "request_at g b s'" using copied_message(1) [OF layout_apart(2) [OF lay as(1)]] mem at by metis
  have "service C m a b n r (Suc k) (meanwhile h (ticks s')) s' c (server_received b) (ph(g := Taken)) (Serving g)"
  proof (rule service_move [OF sv bec])
    show "mem s' x = mem s x" if "g \<in> C \<Longrightarrow> \<not> addr_in (a g) 48 x" "\<not> addr_in b 48 x" for x
      using mem msg(3) that by (simp add: p_asm_memcpy_outside)
    show "g \<in> C \<Longrightarrow> n g \<noteq> 0 \<and> client_in g (m g) (a g) (meanwhile h (ticks s') g) (n g) s' (c g) Taken"
      using service_parts(5) [OF sv as(1)] as(2) st by (simp add: client_in_def)
    show "joint C (ph(g := Taken)) (Serving g)" using service_parts(4) [OF sv] as(1) by (auto simp: joint_def)
    show "counted (Suc k) (r + answered C (ph(g := Taken))) (Serving g)"
      using service_parts(6) [OF sv] answered_upd(1) [OF layout_parts(6) [OF lay] as(1)] as(2) by (simp add: counted_def)
  qed (use as(1) st neg req service_parts(3) [OF sv] in \<open>auto simp: server_in_def\<close>)
  then show ?thesis using task_sys_step [OF run] by blast
qed

lemma await_request:
  assumes sv: "service C m a b n r k h s c t ph Ready" and T: "ready_process s = TASK_SYS"
    and none: "\<And>P. P \<in> C \<Longrightarrow> ph P \<noteq> Asking"
  shows "\<exists>s'. task_sys b s = Suspend s' (server_received b)
    \<and> service C m a b n r (Suc k) (meanwhile h (ticks s')) s' c (server_received b) ph Listening"
proof -
  note lay = service_parts(1) [OF sv]
  note msg = server_message [OF lay T]
  have "statuses s i \<noteq> Sending TASK_SYS x" if "i < NR_SLOTS" for i x using sender_asks(1,2) [OF sv that] none by blast
  moreover obtain j where "j < NR_SLOTS" "j \<noteq> TASK_SYS" "statuses s j = Idle"
    using service_parts(2) [OF sv] by (auto simp: outside_quiet_def)
  ultimately obtain s' where run: "sendrec RECEIVE ANY b (reset_msg b s) = Suspend s' resume"
    and bec: "became s ((statuses s)(TASK_SYS := Receiving ANY b)) s'" and mem: "mem s' = mem (stamped b (reset_msg b s))"
    using receive_blocks [OF msg(1) layout_parts(4) [OF lay], of ANY j] T by (auto simp: became_frame)
  have st: "statuses s' = (statuses s)(TASK_SYS := Receiving ANY b)" using bec by (simp add: became_def)
  have "service C m a b n r (Suc k) (meanwhile h (ticks s')) s' c (server_received b) (ph(TASK_SYS := ph TASK_SYS)) Listening"
  proof (rule service_move [OF sv bec])
    show "joint C (ph(TASK_SYS := ph TASK_SYS)) Listening" using service_parts(4) [OF sv] none by (auto simp: joint_def)
    show "counted (Suc k) (r + answered C (ph(TASK_SYS := ph TASK_SYS))) Listening"
      using service_parts(6) [OF sv] by (simp add: counted_def)
  qed (use st mem msg(3) layout_parts(3) [OF lay] in \<open>auto simp: server_in_def\<close>)
  then show ?thesis using task_sys_step [OF run] by auto
qed

text \<open>The reply that the task puts together for the client it serves.\<close>

abbreviation answering :: "u32 \<Rightarrow> 'a kernel_scheme \<Rightarrow> 'a kernel_scheme" where
  "answering b s \<equiv> put_field (b + OFF_RETVAL) (ticks s) s"

lemma answer_message:
  assumes sv: "service C m a b n r k h s c t ph (Serving P)" and T: "ready_process s = TASK_SYS"
  shows "kernel_ok (answering b s)" "self_addr (answering b s) b = b" "P \<in> C"
    "reply_at {ticks s} b (stamped b (answering b s))"
    "\<not> addr_in b 48 x \<Longrightarrow> mem (stamped b (answering b s)) x = mem s x"
    "get_field (b + OFF_TYPE) s = GET_TICKS" "sint (get_field b s) = int P"
proof -
  note lay = service_parts(1) [OF sv]
  have self: "self_addr s y = y" for y by (rule layout_addrs(3) [OF lay T])
  show P: "P \<in> C" using service_parts(4) [OF sv] by (auto simp: joint_def)
  have req: "request_at P b s" using service_parts(3) [OF sv] by (simp add: server_in_def)
  then show "get_field (b + OFF_TYPE) s = GET_TICKS" "sint (get_field b s) = int P"
    using sint_slot [OF layout_parts(2) [OF lay P]] self by (simp_all add: request_at_def get_field_def)
  show "kernel_ok (answering b s)" "self_addr (answering b s) b = b" using layout_parts(1) [OF lay] self by simp_all
  then show "\<not> addr_in b 48 x \<Longrightarrow> mem (stamped b (answering b s)) x = mem s x"
    using stamped_outside [of "answering b s" b x] put_outside [of s b x 8 "ticks s"] self by simp
  have "read32 (mem (answering b s)) (b + OFF_RETVAL) = ticks s" by (simp add: put_field_def self)
  then show "reply_at {ticks s} b (stamped b (answering b s))"
    using stamped_reply [of "answering b s" b "{ticks s}"] self by simp
qed

lemma reply_waiting:
  assumes sv: "service C m a b n r k h s c t ph (Serving P)" and T: "ready_process s = TASK_SYS" and ph: "ph P = Waiting"
  shows "\<exists>s'. server_received b s = Suspend s' (turn_over (0 :: int))
    \<and> service C m a b n r (Suc k) (meanwhile h (ticks s')) s' c (turn_over (0 :: int)) (ph(P := Answered)) Turning"
proof -
  note lay = service_parts(1) [OF sv]
  note msg = answer_message [OF sv T]
  note P = msg(3) and cl = service_parts(5) [OF sv msg(3)]
  have neP: "P \<noteq> TASK_SYS" by (rule layout_parts(3) [OF lay P])
  have "statuses (answering b s) P = Receiving (int TASK_SYS) (m P)" using cl ph by (simp add: client_in_def)
  then obtain s' where run: "sendrec SEND (int P) b (answering b s) = Suspend s' resume"
    and bec: "became s ((statuses s)(P := Idle)) s'"
    and mem: "mem s' = p_asm_memcpy (mem (stamped b (answering b s))) (a P) b MSG_SIZE"
    using send_completes [OF msg(1) layout_parts(2) [OF lay P] layout_parts(4) [OF lay], of "int TASK_SYS" "m P"] T msg(2)
      layout_addrs(4) [OF lay P] by (auto simp: became_frame)
  have st: "statuses s' = (statuses s)(P := Idle)" and ti: "ticks s' = ticks s" using bec by (simp_all add: became_def)
  have ans: "reply_at (meanwhile h (ticks s') P) (a P) s'"
    using copied_message(2) [OF layout_apart(1) [OF lay P] mem] msg(4) ti by (auto intro: reply_at_mono)
  have "service C m a b n r (Suc k) (meanwhile h (ticks s')) s' c (turn_over (0 :: int)) (ph(P := Answered)) Turning"
  proof (rule service_move [OF sv bec])
    show "mem s' x = mem s x" if "P \<in> C \<Longrightarrow> \<not> addr_in (a P) 48 x" "\<not> addr_in b 48 x" for x
      using mem msg(5) that P by (simp add: p_asm_memcpy_outside)
    show "P \<in> C \<Longrightarrow> n P \<noteq> 0 \<and> client_in P (m P) (a P) (meanwhile h (ticks s') P) (n P) s' (c P) Answered"
      using ans st cl ph by (simp add: client_in_def)
    show "joint C (ph(P := Answered)) Turning" using service_parts(4) [OF sv] by (auto simp: joint_def)
    show "counted (Suc k) (r + answered C (ph(P := Answered))) Turning"
      using service_parts(6) [OF sv] answered_upd(2) [OF layout_parts(6) [OF lay] P] ph by (simp add: counted_def)
  qed (use P st neP service_parts(3) [OF sv] in \<open>auto simp: server_in_def\<close>)
  then show ?thesis using server_received_step [of b s s'] run msg(6,7) by auto
qed

lemma reply_queued:
  assumes sv: "service C m a b n r k h s c t ph (Serving P)" and T: "ready_process s = TASK_SYS" and ph: "ph P = Taken"
  shows "\<exists>s'. server_received b s = Suspend s' (turn_over (0 :: int))
    \<and> service C m a b n r (Suc k) (meanwhile h (ticks s')) s' c (turn_over (0 :: int)) ph (Replying P)"
proof -
  note lay = service_parts(1) [OF sv]
  note msg = answer_message [OF sv T]
  note P = msg(3) and cl = service_parts(5) [OF sv msg(3)]
  have neP: "P \<noteq> TASK_SYS" and lt: "P < NR_SLOTS" by (rule layout_parts(3) [OF lay P], rule layout_parts(2) [OF lay P])
  have idl: "statuses s P = Idle" using cl ph by (simp add: client_in_def)
  then have "(P, TASK_SYS) \<notin> (wait_graph (proc_table s))\<^sup>+" using no_chain [OF layout_parts(1) [OF lay] lt] by simp
  then obtain s' where run: "sendrec SEND (int P) b (answering b s) = Suspend s' resume"
    and bec: "became s ((statuses s)(TASK_SYS := Sending P b)) s'" and mem: "mem s' = mem (stamped b (answering b s))"
    using send_blocks [OF msg(1) lt _ layout_parts(4) [OF lay], of P] idl lt neP T by (auto simp: became_frame)
  have st: "statuses s' = (statuses s)(TASK_SYS := Sending P b)" and ti: "ticks s' = ticks s"
    using bec by (simp_all add: became_def)
  have ans: "reply_at (meanwhile h (ticks s') P) b s'"
    using same_message(2) [OF mem] msg(4) ti by (auto intro: reply_at_mono)
  have "service C m a b n r (Suc k) (meanwhile h (ticks s')) s' c (turn_over (0 :: int)) (ph(P := Taken)) (Replying P)"
  proof (rule service_move [OF sv bec])
    show "joint C (ph(P := Taken)) (Replying P)" using service_parts(4) [OF sv] P by (auto simp: joint_def)
    show "counted (Suc k) (r + answered C (ph(P := Taken))) (Replying P)"
      using service_parts(6) [OF sv] answered_upd(1) [OF layout_parts(6) [OF lay] P] ph by (simp add: counted_def)
  qed (use P st neP cl idl ph mem msg(5) ans in \<open>auto simp: server_in_def client_in_def\<close>)
  then show ?thesis using server_received_step [of b s s'] run msg(6,7) ph by (auto simp: fun_upd_idem)
qed

lemma end_turn:
  assumes sv: "service C m a b n r k h s c t ph Turning" and T: "ready_process s = TASK_SYS"
  shows "turn_over (0 :: int) s = Return () s \<and> service C m a b n r (Suc k) (meanwhile h (ticks s)) s c (task_sys b) ph Ready"
proof -
  have "client_in P (m P) (a P) (meanwhile h (ticks s) P) (n P) s (c P) (ph P)" if "P \<in> C" for P
    by (rule client_in_other [OF service_parts(5) [OF sv that]]) auto
  then show ?thesis using sv by (auto simp: service_def turn_over_def server_in_def joint_def counted_def)
qed

lemma server_step:
  assumes sv: "service C m a b n r k h s c t ph sv" and T: "ready_process s = TASK_SYS"
  obtains s' t' ph' sv' where "t s = Suspend s' t'"
      "service C m a b n r (Suc k) (meanwhile h (ticks s')) s' c t' ph' sv'"
  | "t s = Return () s" "service C m a b n r (Suc k) (meanwhile h (ticks s)) s c (task_sys b) ph Ready"
proof -
  note ser = service_parts(3) [OF sv]
  have idl: "statuses s TASK_SYS = Idle" using running_status [OF layout_parts(1) [OF service_parts(1) [OF sv]]] T by simp
  show ?thesis
  proof (cases sv)
    case Ready
    then have t: "t = task_sys b" and sv': "service C m a b n r k h s c t ph Ready" using ser sv by (auto simp: server_in_def)
    show ?thesis
    proof (cases "\<exists>P \<in> C. ph P = Asking")
      case True then show ?thesis using take_request [OF sv' T] t that(1) by metis
    next
      case False then show ?thesis using await_request [OF sv' T] t that(1) by auto
    qed
  next
    case (Serving P)
    then have t: "t = server_received b" and "ph P = Waiting \<or> ph P = Taken"
      and sv': "service C m a b n r k h s c t ph (Serving P)"
      using ser sv service_parts(4) [OF sv] by (auto simp: server_in_def joint_def)
    then show ?thesis using reply_waiting [OF sv' T] reply_queued [OF sv' T] that(1) by auto
  next
    case Turning
    then show ?thesis using end_turn [OF _ T] sv ser that(2) by (auto simp: server_in_def)
  qed (use ser idl in \<open>simp_all add: server_in_def\<close>)
qed

section \<open>Every run\<close>

lemma others_service:
  assumes sv: "service C m a b n r k h s c t ph sv" and oth: "others C n a b s s'"
  shows "service C m a b n r k (meanwhile h (ticks s')) s' c t ph sv"
proof -
  note lay = service_parts(1) [OF sv]
  have o: "kernel_ok s'" "outside_quiet C n s'" "\<And>P. P \<in> C \<Longrightarrow> ldt (proc_table s' P) = ldt (proc_table s P)"
    "statuses s' TASK_SYS = statuses s TASK_SYS" "\<And>x. addr_in b 48 x \<Longrightarrow> mem s' x = mem s x"
    "\<And>P. P \<in> C \<Longrightarrow> n P \<noteq> 0 \<Longrightarrow> statuses s' P = statuses s P"
    "\<And>P x. P \<in> C \<Longrightarrow> n P \<noteq> 0 \<Longrightarrow> addr_in (a P) 48 x \<Longrightarrow> mem s' x = mem s x"
    using oth by (auto simp: others_def)
  have "layout C m a b s'" using lay o(1,3) by (auto simp: layout_def data_addr_def ldt_seg_linear_def)
  moreover have "client_in P (m P) (a P) (meanwhile h (ticks s') P) (n P) s' (c P) (ph P)" if P: "P \<in> C" for P
  proof (cases "n P = 0")
    case True
    then have "statuses s' P \<noteq> Sending TASK_SYS x" for x using o(2) layout_parts(2) [OF lay P] by (auto simp: outside_quiet_def)
    moreover have "ph P = Fresh" using service_parts(5) [OF sv P] True by (cases "ph P") (simp_all add: client_in_def)
    ultimately show ?thesis using service_parts(5) [OF sv P] by (simp add: client_in_def)
  next
    case False show ?thesis by (rule client_in_other [OF service_parts(5) [OF sv P]]) (use o(6,7) P False in auto)
  qed
  moreover have "server_in b (meanwhile h (ticks s')) s' t sv"
    by (rule server_in_other [OF service_parts(3) [OF sv]]) (use o in auto)
  ultimately show ?thesis using sv o(2) by (simp add: service_def)
qed

lemma clock_run_service:
  assumes "clock_run C m b s0 n r k h s c t"
    and lay: "layout C m (\<lambda>P. data_addr (proc_table s0) P (m P)) b s0" and "outside_quiet C (\<lambda>_. 0) s0"
    and "statuses s0 TASK_SYS = Idle"
  shows "\<exists>ph sv. service C m (\<lambda>P. data_addr (proc_table s0) P (m P)) b n r k h s c t ph sv"
  using assms(1)
proof induction
  case start
  have "client_in P (m P) (data_addr (proc_table s0) P (m P)) {} 0 s0 (get_ticks (m P)) Fresh" if "P \<in> C" for P
    using assms(3) layout_parts(2) [OF lay that] by (auto simp: client_in_def outside_quiet_def)
  then have "service C m (\<lambda>P. data_addr (proc_table s0) P (m P)) b (\<lambda>_. 0) 0 0 (\<lambda>_. {}) s0 (\<lambda>P. get_ticks (m P)) (task_sys b)
    (\<lambda>_. Fresh) Ready"
    using assms by (simp add: service_def server_in_def joint_def counted_def answered_def)
  then show ?case by blast
next
  case (client n r k h s c t P s' c')
  then obtain ph sv where sv: "service C m (\<lambda>P. data_addr (proc_table s0) P (m P)) b n r k h s c t ph sv" by blast
  show ?case by (rule client_step [OF sv client(2,3)]) (use client(4) in \<open>auto simp del: fun_upd_apply\<close>)
next
  case (returned n r k h s c t P v s')
  then obtain ph sv where sv: "service C m (\<lambda>P. data_addr (proc_table s0) P (m P)) b n r k h s c t ph sv" by blast
  show ?case by (rule client_step [OF sv returned(2,3)]) (use returned(4) in \<open>auto simp del: fun_upd_apply\<close>)
next
  case (server n r k h s c t s' t')
  then obtain ph sv where sv: "service C m (\<lambda>P. data_addr (proc_table s0) P (m P)) b n r k h s c t ph sv" by blast
  show ?case by (rule server_step [OF sv server(2)]) (use server(3) in auto)
next
  case (again n r k h s c t s')
  then obtain ph sv where sv: "service C m (\<lambda>P. data_addr (proc_table s0) P (m P)) b n r k h s c t ph sv" by blast
  show ?case by (rule server_step [OF sv again(2)]) (use again(3) in auto)
next
  case (env n r k h s c t s') then show ?case using others_service by blast
qed

lemma service_runnable:
  assumes sv: "service C m a b n r k h s c t ph sv" and P: "P \<in> C" "n P = 1 \<or> n P = 2 \<and> statuses s P \<noteq> Idle"
  shows "statuses s TASK_SYS = Idle \<or> (\<exists>Q \<in> C. n Q = 1 \<and> statuses s Q = Idle)"
proof (cases sv)
  case Listening
  then have "ph P = Fresh \<or> ph P = Answered" using service_parts(4) [OF sv] P(1) by (cases "ph P") (auto simp: joint_def)
  then show ?thesis using service_parts(5) [OF sv P(1)] P(2) by (auto simp: client_in_def)
next
  case (Replying Q)
  then have Q: "Q \<in> C" "ph Q = Taken" using service_parts(4) [OF sv] by (auto simp: joint_def)
  then show ?thesis using service_parts(5) [OF sv Q(1)] by (auto simp: client_in_def)
qed (use service_parts(3) [OF sv] in \<open>simp_all add: server_in_def\<close>)

lemma service_count:
  assumes sv: "service C m a b n r k h s c t ph sv"
  shows "k \<le> 3 * (r + card C) + 2"
proof -
  have "answered C ph \<le> card C"
    unfolding answered_def by (rule card_mono [OF layout_parts(6) [OF service_parts(1) [OF sv]]]) auto
  then show ?thesis using service_parts(6) [OF sv] by (auto simp: counted_def split: server_phase.splits)
qed

text \<open>C12. The clock service. Any set \<open>C\<close> of processes call \<open>get_ticks\<close>, each as often as it likes,
  while the system task runs its loop, from a state in which the task is runnable and nobody sends
  to it; the message buffers of the clients and of the task lie apart, nobody sends to the task but
  \<open>get_ticks\<close>, and some process outside \<open>C\<close> stays runnable. Then in every interleaving of their
  system calls with each other, with clock interrupts and with what else the processes do
  (messages to a client in a call included), as long as that keeps the invariant of message passing
  and the segments of the clients: a running client in a call never fails, it makes two
  system calls and then returns, and what it returns is a value that the tick counter had during
  the call; the task never fails and no send panics; as long as a call lacks its answer, the
  task or a client that has to fetch its answer is runnable; and the task makes at most three steps for
  each answer.\<close>

theorem get_ticks_answers:
  assumes "kernel_ok s0" and "C \<subseteq> {..<NR_SLOTS}" and "TASK_SYS \<notin> C" and "\<forall>P \<in> C. m P \<noteq> 0" and "b \<noteq> 0"
    and "p_flags (proc_table s0 TASK_SYS) = 0" and "outside_quiet C (\<lambda>_. 0) s0"
    and "\<forall>P \<in> C. disjoint_ranges (data_addr (proc_table s0) P (m P)) 48 b 48"
    and "\<forall>P \<in> C. \<forall>Q \<in> C. P \<noteq> Q \<longrightarrow>
      disjoint_ranges (data_addr (proc_table s0) P (m P)) 48 (data_addr (proc_table s0) Q (m Q)) 48"
    and run: "clock_run C m b s0 n r k h s c t"
  shows "(\<forall>P \<in> C. ready_process s = P \<longrightarrow>
        n P < 2 \<and> (\<exists>s' c'. c P s = Suspend s' c') \<or> n P = 2 \<and> (\<exists>v \<in> h P. c P s = Return v s))
    \<and> (ready_process s = TASK_SYS \<longrightarrow> (\<exists>s' t'. t s = Suspend s' t') \<or> t s = Return () s)
    \<and> (\<forall>P \<in> C. n P = 1 \<or> n P = 2 \<and> p_flags (proc_table s P) \<noteq> 0 \<longrightarrow>
        p_flags (proc_table s TASK_SYS) = 0 \<or> (\<exists>Q \<in> C. n Q = 1 \<and> p_flags (proc_table s Q) = 0))
    \<and> k \<le> 3 * (r + card C) + 2"
proof -
  have idle_flags: "p_flags (proc_table s i) = 0 \<longleftrightarrow> statuses s i = Idle" for i and s :: "'a kernel_scheme"
    by (simp add: statuses_def status_idle)
  have "layout C m (\<lambda>P. data_addr (proc_table s0) P (m P)) b s0" using assms by (simp add: layout_def)
  then obtain ph sv where sv: "service C m (\<lambda>P. data_addr (proc_table s0) P (m P)) b n r k h s c t ph sv"
    using clock_run_service [OF run _ assms(7)] assms(6) idle_flags by blast
  have "n P < 2 \<and> (\<exists>s' c'. c P s = Suspend s' c') \<or> n P = 2 \<and> (\<exists>v \<in> h P. c P s = Return v s)"
    if "P \<in> C" "ready_process s = P" for P
    by (rule client_step [OF sv that]) auto
  moreover have "(\<exists>s' t'. t s = Suspend s' t') \<or> t s = Return () s" if "ready_process s = TASK_SYS"
    by (rule server_step [OF sv that]) auto
  ultimately show ?thesis unfolding idle_flags using service_runnable [OF sv] service_count [OF sv] by blast
qed

text \<open>When the kernel has just started, INIT runs and calls, and process 4 is a second client.\<close>

theorem get_ticks_answers_witness:
  "\<exists>h s c t. clock_run {3, 4} (\<lambda>P. if P = 3 then 0x4000 else 0x6000) 0x5000 (boot\<lparr>ready_process := 3\<rparr>)
     ((\<lambda>_. 0)(3 := 1)) 0 0 h s c t"
proof -
  let ?s = "boot\<lparr>ready_process := 3\<rparr>" and ?m = "\<lambda>P :: nat. if P = 3 then 0x4000 else 0x6000 :: u32"
  have ok: "kernel_ok ?s"
    using boot_kernel_ok boot_idle [of 3] by (simp add: kernel_ok_def running_ok_def)
  have "statuses ?s i \<noteq> Sending TASK_SYS x" if "i < NR_SLOTS" for i x
    using that boot_idle [of i] boot_free [of i] by (cases "i < 7") (auto simp: statuses_def slot_status_def slot_defs)
  then have quiet: "outside_quiet {3, 4} (\<lambda>_. 0) ?s"
    using boot_idle [of 2] by (auto simp: outside_quiet_def statuses_def status_idle idle_def intro!: exI [of _ 2])
  have dis: "\<forall>P \<in> {3, 4}. disjoint_ranges (data_addr (proc_table ?s) P (?m P)) 48 0x5000 48"
    "\<forall>P \<in> {3, 4}. \<forall>Q \<in> {3, 4}. P \<noteq> Q \<longrightarrow>
      disjoint_ranges (data_addr (proc_table ?s) P (?m P)) 48 (data_addr (proc_table ?s) Q (?m Q)) 48"
    using boot_flat [of 3] boot_flat [of 4] by (simp_all add: disjoint_ranges_def)
  have "\<exists>s' c'. get_ticks (?m 3) ?s = Suspend s' c'"
    using get_ticks_answers [of ?s "{3, 4}" ?m "0x5000", OF ok _ _ _ _ _ quiet dis clock_run.start] boot_idle [of 1]
    by (auto simp: idle_def)
  then obtain s' c' where "get_ticks (?m 3) ?s = Suspend s' c'" by blast
  from clock_run.client [OF clock_run.start [of "{3, 4}" ?m "0x5000" ?s] _ _ this] show ?thesis by force
qed

end
