(* ===== verification/Sys_Call.thy ===== *)
theory Sys_Call
  imports Exchange Ipc_Properties
begin

text \<open>
  The entry of system calls: \<open>sys_call\<close> of asm_syscall.S, which takes the number and the arguments from the saved
  registers of the running process, calls through \<open>sys_call_table\<close> of syscall.c and stores the result in
  the register frame of the caller.
\<close>

unbundle bit_operations_syntax

section \<open>Dispatch\<close>

datatype SystemCall = Sys_get_ticks | Sys_set_vga_mode | Sys_write | Sys_sendrec | Sys_printk | Sys_app_print

abbreviation (input) NR_SYS_CALL :: nat where "NR_SYS_CALL \<equiv> 6"
abbreviation (input) NR_PRINTK :: u32 where "NR_PRINTK \<equiv> 4"
abbreviation (input) NR_GET_TICKS :: u32 where "NR_GET_TICKS \<equiv> 0"
abbreviation (input) NR_SENDREC :: u32 where "NR_SENDREC \<equiv> 3"

definition sys_call_table :: "SystemCall list" where
  "sys_call_table = [Sys_get_ticks, Sys_set_vga_mode, Sys_write, Sys_sendrec, Sys_printk, Sys_app_print]"

text \<open>
  After \<open>save\<close> the frame in the slot of the running process holds the registers of the caller. The number is not
  checked by the code: a call through an address beyond the table is \<open>Out_of_bounds\<close>. The first component of the
  result tells that the processor was halted. The mode switch, assembly text, is an argument, as is the
  address of the local array of \<open>sys_printk\<close>.
\<close>

definition sys_ret :: "nat \<Rightarrow> u32 \<Rightarrow> 'a ttys_scheme \<Rightarrow> (bool \<times> 'a ttys_scheme) result" where
  "sys_ret p v s = Inr (False, disable_int (upd_proc p (\<lambda>x. x\<lparr>regs := (regs x)\<lparr>rg_eax := v\<rparr>\<rparr>) s))"

definition sys_call ::
  "Assets \<Rightarrow> ('a ttys_scheme \<Rightarrow> 'a ttys_scheme) \<Rightarrow> u32 \<Rightarrow> 'a ttys_scheme \<Rightarrow> (bool \<times> 'a ttys_scheme) result" where
  "sys_call A switch_vga_mode err s =
     (let s0 = enable_int s; p = ready_process s; r = regs (proc_table s p); no = unat (rg_eax r)
      in if \<not> no < NR_SYS_CALL then Inl Out_of_bounds
         else case sys_call_table ! no of
           Sys_get_ticks \<Rightarrow> sys_ret p (sys_get_ticks s0) s0
         | Sys_set_vga_mode \<Rightarrow> (let (v, s1) = sys_set_vga_mode switch_vga_mode s0 in sys_ret p (word_of_int v) s1)
         | Sys_write \<Rightarrow> rbind (sys_write A (rg_ebx r) (sint (rg_ecx r)) p s0) (\<lambda>(v, s1). sys_ret p (word_of_int v) s1)
         | Sys_sendrec \<Rightarrow> rbind (sys_sendrec (sint (rg_ebx r)) (sint (rg_ecx r)) (rg_edx r) p s0) (\<lambda>s1. sys_ret p 0 s1)
         | Sys_printk \<Rightarrow>
             rbind (sys_printk A err (rg_edx r) p s0) (\<lambda>(halted, s1). if halted then Inr (True, s1) else sys_ret p 0 s1)
         | Sys_app_print \<Rightarrow> rbind (sys_app_print (rg_edx r) p s0) (\<lambda>(v, s1). sys_ret p (word_of_int v) s1))"

section \<open>What output leaves alone\<close>

text \<open>The part of the kernel state that printing does not touch.\<close>

definition same_kernel :: "'a kernel_scheme \<Rightarrow> 'a kernel_scheme \<Rightarrow> bool" where
  "same_kernel s s' \<longleftrightarrow>
     proc_table s' = proc_table s \<and> ready_process s' = ready_process s \<and> k_reenter s' = k_reenter s"

lemma same_kernel_refl [simp]: "same_kernel s s" by (simp add: same_kernel_def)

lemma same_kernel_trans: "same_kernel s t \<Longrightarrow> same_kernel t u \<Longrightarrow> same_kernel s u" by (simp add: same_kernel_def)

definition keeps :: "('a kernel_scheme \<Rightarrow> 'a kernel_scheme) \<Rightarrow> bool" where
  "keeps f \<longleftrightarrow> (\<forall>s. same_kernel s (f s))"

lemma keeps_fold: "(\<And>i. i \<in> set is \<Longrightarrow> keeps (f i)) \<Longrightarrow> keeps (fold f is)"
proof (induction "is")
  case (Cons i "is")
  then have "keeps (f i)" "keeps (fold f is)" by simp_all
  then show ?case using same_kernel_trans by (fastforce simp: keeps_def)
qed (simp add: keeps_def)

lemma keeps_apply: "keeps f \<Longrightarrow> same_kernel t s \<Longrightarrow> same_kernel t (f s)"
  using same_kernel_trans by (fastforce simp: keeps_def)

lemma keepsD: "keeps f \<Longrightarrow> same_kernel s (f s)"
  by (simp add: keeps_def)

lemma keeps_byte: "keeps (draw_byte c x y color)"
  unfolding draw_byte_def by (rule keeps_fold) (simp add: keeps_def draw_point_def poke_def same_kernel_def)

lemma keeps_8x16: "keeps (draw_8x16_ch A ox oy ch color)"
  unfolding draw_8x16_ch_def by (rule keeps_fold) (rule keeps_byte)

lemma keeps_grid: "keeps draw_256_grid"
  unfolding draw_256_grid_def draw_20x12_grid_def
  by (intro keeps_fold) (simp add: keeps_def draw_point_def poke_def same_kernel_def)

lemma keeps_bg: "keeps (draw_bg ox oy p)"
proof -
  have "keeps (fold (\<lambda>y. fold (\<lambda>x. draw_point (ox + int x) (int y) (bits p (y * bm_w p + x))) [0..<bm_w p]) [0..<bm_h p])"
    by (intro keeps_fold) (simp add: keeps_def draw_point_def poke_def same_kernel_def)
  moreover have "keeps (fold (\<lambda>i. set_palette (int i) (palette p (3 * i)) (palette p (3 * i + 1)) (palette p (3 * i + 2))) [0..<256])"
    by (intro keeps_fold) (simp add: keeps_def set_palette_def io_defs same_kernel_def)
  ultimately show ?thesis unfolding keeps_def draw_bg_def using same_kernel_trans by blast
qed

lemma same_background: "same_kernel s (next_background A s)"
proof -
  have g: "same_kernel s (draw_256_grid s)" by (rule keepsD [OF keeps_grid])
  have "same_kernel s (draw_bg ox 0 p (draw_256_grid s))" for ox p by (rule keeps_apply [OF keeps_bg g])
  then show ?thesis using g unfolding next_background_def by (auto simp: Let_def same_kernel_def)
qed

lemma same_graphic: "same_kernel s (graphic_print_char A i ch s)"
proof -
  have "same_kernel s (draw_8x16_ch A x y ch 5 s)" for x y by (rule keepsD [OF keeps_8x16])
  then have "same_kernel s (upd_console i f (draw_8x16_ch A x y ch 5 s))" for f x y by (simp add: same_kernel_def upd_console_def)
  then show ?thesis by (auto simp: graphic_print_char_def Let_def intro!: same_kernel_trans [OF _ same_background])
qed

lemma same_text: "same_kernel s (text_print_char i ch s)"
  by (simp add: text_print_char_def Let_def same_kernel_def upd_console_def poke_def set_cursor_def set_video_start_addr_def io_defs)

lemma same_char: "same_kernel s (s32_console_print_char A i ch s)"
  by (simp add: s32_console_print_char_def same_graphic same_text)

lemma same_write: "same_kernel s (tty_write A i buf len s)"
proof -
  have "same_kernel s (tty_write_loop A i buf n s)" for n
    by (induction n arbitrary: buf s) (auto intro: same_kernel_trans [OF same_char])
  then show ?thesis by (simp add: tty_write_def)
qed

lemma same_printk:
  fixes s :: "'a ttys_scheme"
  assumes "printk_loop A t p s = Some s'"
  shows "same_kernel s s'"
proof (rule printk_loop.raw_induct [where P = "\<lambda>A t p s s'. same_kernel s s'", OF _ assms])
  fix loop :: "Assets \<Rightarrow> nat \<Rightarrow> u32 \<Rightarrow> 'a ttys_scheme \<Rightarrow> 'a ttys_scheme option" and A t p s s'
  assume IH: "\<And>A t p s s'. loop A t p s = Some s' \<Longrightarrow> same_kernel s s'"
    and "(let ch = mem s p in if ch = 0 then Some s
       else if ch = MAG_CH_PANIC \<or> ch = MAG_CH_ASSERT then loop A t (p + 1) s
       else loop A t (p + 1) (s32_console_print_char A (tty_console (tty_table s t)) ch s)) = Some s'"
  then show "same_kernel s s'" using same_kernel_trans [OF same_char IH] by (auto simp: Let_def split: if_splits)
qed

section \<open>Safety\<close>

lemma kernel_ok_same: "same_kernel s s' \<Longrightarrow> kernel_ok s' \<longleftrightarrow> kernel_ok s"
  by (simp add: kernel_ok_def running_ok_def same_kernel_def)

lemma kernel_ok_eax:
  "kernel_ok (upd_proc p (\<lambda>x. x\<lparr>regs := (regs x)\<lparr>rg_eax := v\<rparr>\<rparr>) s) \<longleftrightarrow> kernel_ok s"
proof -
  let ?pt = "(proc_table s)(p := (proc_table s p)\<lparr>regs := (regs (proc_table s p))\<lparr>rg_eax := v\<rparr>\<rparr>)"
  have "ipc_inv ?pt qs \<longleftrightarrow> ipc_inv (proc_table s) qs" "idle (?pt j) \<longleftrightarrow> idle (proc_table s j)" for qs j
    by (rule ipc_inv_cong; simp)+
  then show ?thesis by (simp add: kernel_ok_def running_ok_def upd_proc_def)
qed

text \<open>A result that is stored for the caller.\<close>

definition answered :: "nat \<Rightarrow> u32 \<Rightarrow> (bool \<times> 'a ttys_scheme) result \<Rightarrow> bool" where
  "answered p v r \<longleftrightarrow> (\<exists>s'. r = Inr (False, s') \<and> kernel_ok s' \<and> rg_eax (regs (proc_table s' p)) = v)"

lemma sys_ret_answered: "kernel_ok s \<Longrightarrow> answered p v (sys_ret p v s)"
  using kernel_ok_eax [of p v s] kernel_ok_same [of "upd_proc p (\<lambda>x. x\<lparr>regs := (regs x)\<lparr>rg_eax := v\<rparr>\<rparr>) s" "disable_int (upd_proc p (\<lambda>x. x\<lparr>regs := (regs x)\<lparr>rg_eax := v\<rparr>\<rparr>) s)"]
  by (simp add: answered_def sys_ret_def same_kernel_def disable_int_def upd_proc_def)

lemma sys_printk_outcome:
  fixes s :: "'a ttys_scheme"
  assumes ok: "kernel_ok s" and t: "0 \<le> tty_index (proc_table s p)" "tty_index (proc_table s p) < int TTY_NUM"
  shows "sys_printk A err str p s = Inl Hang \<or> (\<exists>h s'. sys_printk A err str p s = Inr (h, s') \<and> kernel_ok s')"
proof -
  define m1 where "m1 = s_strcpy (mem s) err (MAG_CH_PANIC # map of_char ''k_reenter is incorrect for unknown reason'')"
  let ?s1 = "s\<lparr>mem := m1\<rparr>" and ?t = "nat (tty_index (proc_table s p))"
  have s1: "kernel_ok ?s1" using ok kernel_ok_same [of s ?s1] by (simp add: same_kernel_def)
  have flat: "flat_natives (proc_table s)" using ok by (auto simp: kernel_ok_def ipc_inv_def)
  have k: "k_reenter s = 0" using ok by (simp add: kernel_ok_def running_ok_def)
  obtain a where a: "va2la (proc_table s) p str = Inr a" using va2la_ok [OF flat] by blast
  have eq: "sys_printk A err str p s =
      (if m1 a = MAG_CH_PANIC \<or> m1 a = MAG_CH_ASSERT \<and> ready_process s < NR_TASKS
       then Inr (True, (disable_int ?s1)\<lparr>mem := panic_fill a (a + 1) 0 m1\<rparr>)
       else rbind (loop_result (printk_loop A ?t a ?s1)) (\<lambda>s2. Inr (False, s2)))"
    unfolding sys_printk_def Let_def m1_def [symmetric] using a k t by (simp add: printk_text_def disable_int_def)
  show ?thesis
  proof (cases "m1 a = MAG_CH_PANIC \<or> m1 a = MAG_CH_ASSERT \<and> ready_process s < NR_TASKS")
    case True
    let ?s2 = "(disable_int ?s1)\<lparr>mem := panic_fill a (a + 1) 0 m1\<rparr>"
    have "kernel_ok ?s2" using ok kernel_ok_same [of s ?s2] by (simp add: same_kernel_def disable_int_def)
    then show ?thesis using True unfolding eq by auto
  next
    case False
    show ?thesis
    proof (cases "printk_loop A ?t a ?s1")
      case None
      then show ?thesis using False unfolding eq by auto
    next
      case (Some s2)
      then show ?thesis using kernel_ok_same [OF same_printk [OF Some]] s1 False unfolding eq by auto
    qed
  qed
qed

lemma sys_app_print_outcome:
  fixes s :: "'a ttys_scheme"
  assumes ok: "kernel_ok s"
  shows "sys_app_print str p s = Inl Hang \<or> (\<exists>s'. sys_app_print str p s = Inr (0, s') \<and> kernel_ok s')"
proof -
  have flat: "flat_natives (proc_table s)" using ok by (auto simp: kernel_ok_def ipc_inv_def)
  have k: "k_reenter s = 0" using ok by (simp add: kernel_ok_def running_ok_def)
  obtain a where a: "va2la (proc_table s) p str = Inr a" using va2la_ok [OF flat] by blast
  have "kernel_ok (s32_print cs v s)" for cs v
    using ok kernel_ok_same [of s "s32_print cs v s"] by (simp add: s32_print_def same_kernel_def Let_def case_prod_beta)
  then show ?thesis using a k by (cases "str_at (mem s) a") (simp_all add: sys_app_print_def)
qed

text \<open>C5. The entry of system calls. In a state that satisfies the invariant, with a number below the size of the table, a
  terminal for the caller, and, for message passing, a message and a legal partner, the call either ends with the invariant and with the
  result (the time, or 0) in the saved register of the caller, or halts the processor (a panic message is printed), or
  does not return (the text to print has no end, or no process is left to run), or panics because the send closes a genuine
  cycle of senders. No assertion fails and no table is left.\<close>

theorem sys_call_safe:
  fixes s :: "'a ttys_scheme"
  defines "p \<equiv> ready_process s" and "r \<equiv> regs (proc_table s (ready_process s))"
  assumes ok: "kernel_ok s" and no: "unat (rg_eax r) < NR_SYS_CALL"
    and tty: "0 \<le> tty_index (proc_table s p)" "tty_index (proc_table s p) < int TTY_NUM"
    and vga: "\<And>s. same_kernel s (switch_vga_mode s)"
    and ipc: "rg_eax r = NR_SENDREC \<Longrightarrow> rg_edx r \<noteq> 0 \<and> sint (rg_ecx r) \<noteq> int p
      \<and> (sint (rg_ebx r) = SEND \<and> valid_pid (sint (rg_ecx r))
         \<or> sint (rg_ebx r) = RECEIVE \<and> (valid_pid (sint (rg_ecx r)) \<or> sint (rg_ecx r) = ANY))"
  shows "case sys_call A switch_vga_mode err s of
      Inr (halted, s') \<Rightarrow> kernel_ok s' \<and> (halted \<longrightarrow> rg_eax r = NR_PRINTK)
        \<and> (\<not> halted \<longrightarrow> rg_eax (regs (proc_table s' p)) = (if rg_eax r = NR_GET_TICKS then ticks s else 0))
    | Inl e \<Rightarrow> e = Hang \<or> e = Panicked \<and> rg_eax r = NR_SENDREC \<and> sint (rg_ebx r) = SEND
        \<and> (nat (sint (rg_ecx r)), p) \<in> (wait_graph (proc_table s))\<^sup>+"
proof -
  let ?s0 = "enable_int s"
  have same: "same_kernel s ?s0" by (simp add: same_kernel_def enable_int_def)
  have f0: "proc_table ?s0 = proc_table s" "ready_process ?s0 = ready_process s" "ticks ?s0 = ticks s" by (simp_all add: enable_int_def)
  have ok0: "kernel_ok ?s0" using kernel_ok_same [OF same] ok by simp
  have pr: "ready_process s = p" "regs (proc_table s p) = r" by (simp_all add: p_def r_def)
  have good: ?thesis if "answered p (if rg_eax r = NR_GET_TICKS then ticks s else 0) (sys_call A switch_vga_mode err s)"
    using that by (auto simp: answered_def)
  note call = sys_call_def sys_call_table_def Let_def pr
  consider "rg_eax r = 0" | "rg_eax r = 1" | "rg_eax r = 2" | "rg_eax r = 3" | "rg_eax r = 4" | "rg_eax r = 5"
  proof -
    have "unat (rg_eax r) \<in> {0, 1, 2, 3, 4, 5}" using no by auto
    then show ?thesis using that by (auto simp: word_unat_eq_iff)
  qed
  then show ?thesis
  proof cases
    case 1
    have "answered p (ticks s) (sys_ret p (ticks s) ?s0)" by (rule sys_ret_answered [OF ok0])
    then show ?thesis using 1 by (intro good) (simp add: call f0 sys_get_ticks_def)
  next
    case 2
    have "kernel_ok (switch_vga_mode ?s0)" using kernel_ok_same [OF vga] ok0 by blast
    then show ?thesis using 2 sys_ret_answered by (intro good) (simp add: call f0 sys_set_vga_mode_def)
  next
    case 3
    let ?s1 = "tty_write A (nat (tty_index (proc_table s p))) (rg_ebx r) (sint (rg_ecx r)) ?s0"
    have "kernel_ok ?s1" using kernel_ok_same [OF same_write] ok0 by blast
    then show ?thesis using 3 tty sys_ret_answered by (intro good) (simp add: call f0 sys_write_def)
  next
    case 4
    note i = ipc [OF 4]
    have out: "case sys_sendrec (sint (rg_ebx r)) (sint (rg_ecx r)) (rg_edx r) p ?s0 of
        Inr s' \<Rightarrow> kernel_ok s'
      | Inl e \<Rightarrow> e = Hang \<or> e = Panicked \<and> sint (rg_ebx r) = SEND \<and> (nat (sint (rg_ecx r)), p) \<in> (wait_graph (proc_table s))\<^sup>+"
      using sys_sendrec_outcome [OF ok0, of "rg_edx r" "sint (rg_ebx r)" "sint (rg_ecx r)", unfolded f0 pr] i by blast
    show ?thesis
    proof (cases "sys_sendrec (sint (rg_ebx r)) (sint (rg_ecx r)) (rg_edx r) p ?s0")
      case (Inl e)
      then have "sys_call A switch_vga_mode err s = Inl e" using 4 by (simp add: call f0)
      then show ?thesis using out Inl 4 by simp
    next
      case (Inr s1)
      then have "sys_call A switch_vga_mode err s = sys_ret p 0 s1" using 4 by (simp add: call f0)
      then show ?thesis using out Inr 4 sys_ret_answered [of s1 p 0] by (intro good) simp
    qed
  next
    case 5
    consider "sys_printk A err (rg_edx r) p ?s0 = Inl Hang"
      | h s1 where "sys_printk A err (rg_edx r) p ?s0 = Inr (h, s1)" "kernel_ok s1"
      using sys_printk_outcome [OF ok0, of p A err "rg_edx r", unfolded f0] tty by blast
    then show ?thesis
    proof cases
      case 1
      then have "sys_call A switch_vga_mode err s = Inl Hang" using 5 by (simp add: call f0)
      then show ?thesis by simp
    next
      case (2 h s1)
      then have "sys_call A switch_vga_mode err s = (if h then Inr (True, s1) else sys_ret p 0 s1)" using 5 by (simp add: call f0)
      then show ?thesis using 2(2) 5 sys_ret_answered [OF 2(2), of p 0] by (cases h) (auto simp: answered_def)
    qed
  next
    case 6
    consider "sys_app_print (rg_edx r) p ?s0 = Inl Hang"
      | s1 where "sys_app_print (rg_edx r) p ?s0 = Inr (0, s1)" "kernel_ok s1"
      using sys_app_print_outcome [OF ok0, of "rg_edx r" p] by blast
    then show ?thesis
    proof cases
      case 1
      then have "sys_call A switch_vga_mode err s = Inl Hang" using 6 by (simp add: call f0)
      then show ?thesis by simp
    next
      case (2 s1)
      then have "sys_call A switch_vga_mode err s = sys_ret p 0 s1" using 6 by (simp add: call f0)
      then show ?thesis using 6 sys_ret_answered [OF 2(2), of p 0] by (intro good) simp
    qed
  qed
qed

text \<open>The first task asks for a message from anyone.\<close>

definition calling :: keyboard where
  "calling = blank_keyboard\<lparr>proc_table := (proc_table boot)(0 := (proc_table boot 0)\<lparr>tty_index := 0,
       regs := (regs (proc_table boot 0))\<lparr>rg_eax := 3, rg_ebx := 2, rg_ecx := 45, rg_edx := 0x4000\<rparr>\<rparr>),
     ready_process := 0, k_reenter := 0\<rparr>"

lemma calling_ok: "kernel_ok calling"
proof -
  let ?pt = "proc_table calling"
  have "ipc_inv ?pt qs \<longleftrightarrow> ipc_inv (proc_table boot) qs" "idle (?pt 0) \<longleftrightarrow> idle (proc_table boot 0)" for qs
    by (rule ipc_inv_cong; simp add: calling_def)+
  moreover have "ready_process boot = 0" by (simp add: boot_def)
  ultimately show ?thesis using boot_kernel_ok by (simp add: kernel_ok_def running_ok_def calling_def)
qed

theorem sys_call_safe_witness:
  "case sys_call (plain_assets 0) (\<lambda>s. s) 0x9000 calling of
      Inr (halted, s') \<Rightarrow> kernel_ok s' \<and> \<not> halted \<and> rg_eax (regs (proc_table s' 0)) = 0
    | Inl e \<Rightarrow> e = Hang"
proof -
  have f: "ready_process calling = 0" "tty_index (proc_table calling 0) = 0" "rg_eax (regs (proc_table calling 0)) = 3"
    "rg_ebx (regs (proc_table calling 0)) = 2" "rg_ecx (regs (proc_table calling 0)) = 45" "rg_edx (regs (proc_table calling 0)) = 0x4000"
    by (simp_all add: calling_def)
  show ?thesis
    using sys_call_safe [OF calling_ok, of "\<lambda>s. s" "plain_assets 0" "0x9000", unfolded f]
    by (auto split: sum.splits)
qed

end
