(* ===== verification/Memory.thy ===== *)
theory Memory
  imports Keyboard
begin

text \<open>
  The memory manager's own part of mm/mm.c: the bitmap of thirty-two blocks of 512 KB
  (\<open>find_free_area\<close>, \<open>alloc_mem\<close>, \<open>free_mem\<close>), and the probe for the size of the memory
  (\<open>memtest\<close>, \<open>mm_init\<close>). What an allocator promises its clients is the locale
  \<open>block_allocator\<close>; the bitmap is an interpretation of it.
\<close>

unbundle bit_operations_syntax

section \<open>State\<close>

text \<open>The globals of mm.c, with the flags and control register that \<open>memtest\<close> reads and writes.\<close>

record memory = keyboard +
  memory_used :: u32
  mm_start :: u32
  memsize_mb :: u32
  memsize :: u32
  eflags_reg :: u32
  cr0_reg :: u32

abbreviation (input) BLOCK_SIZE :: u32 where "BLOCK_SIZE \<equiv> 512 * 1024"
abbreviation (input) EFLAGS_AC_BIT :: u32 where "EFLAGS_AC_BIT \<equiv> 0x00040000"
abbreviation (input) CR0_CACHE_DISABLE :: u32 where "CR0_CACHE_DISABLE \<equiv> 0x60000000"

section \<open>The block allocator\<close>

text \<open>The loop of \<open>find_free_area\<close>: \<open>n\<close> turns are left, \<open>i\<close> is the next block.\<close>

fun find_free_loop :: "nat \<Rightarrow> nat \<Rightarrow> u32 \<Rightarrow> int \<times> u32" where
  "find_free_loop 0 i used = (- 1, used)"
| "find_free_loop (Suc n) i used =
     (if drop_bit i used AND 1 = 0 then (int i, used OR push_bit i 1)
      else find_free_loop n (Suc i) used)"

definition find_free_area :: "'a memory_scheme \<Rightarrow> int \<times> 'a memory_scheme" where
  "find_free_area s =
     (let (i, used) = find_free_loop 32 0 (memory_used s) in (i, s\<lparr>memory_used := used\<rparr>))"

definition alloc_mem :: "'a memory_scheme \<Rightarrow> u32 \<times> 'a memory_scheme" where
  "alloc_mem s =
     (let (i, s1) = find_free_area s
      in if i = - 1 then (0, s1)
         else (mm_start s1 + word_of_int i * 512 * 1024, s1))"

text \<open>A shift of a 32-bit one by 32 or more is undefined in C.\<close>

definition free_mem :: "u32 \<Rightarrow> 'a memory_scheme \<Rightarrow> 'a memory_scheme result" where
  "free_mem mem_addr s =
     (if mem_addr = 0 then Inr s
      else
        let i = unat ((mem_addr - mm_start s) div BLOCK_SIZE)
        in if i < 32 then Inr (s\<lparr>memory_used := memory_used s AND NOT (push_bit i 1)\<rparr>)
           else Inl Out_of_bounds)"

section \<open>The memory probe\<close>

text \<open>
  What the processor keeps of a value loaded into the flags (a 386 drops the AC bit) is
  the argument \<open>popf\<close>.
\<close>

definition io_store_eflags :: "(u32 \<Rightarrow> u32) \<Rightarrow> u32 \<Rightarrow> 'a memory_scheme \<Rightarrow> 'a memory_scheme" where
  "io_store_eflags popf v s = s\<lparr>eflags_reg := popf v\<rparr>"

definition store_cr0 :: "u32 \<Rightarrow> 'a memory_scheme \<Rightarrow> 'a memory_scheme" where
  "store_cr0 v s = s\<lparr>cr0_reg := v\<rparr>"

text \<open>
  \<open>memtest_sub\<close> of p_kernel.s: a word of every page is overwritten and read back twice, and
  restored. Only the addresses in \<open>ram\<close>, which the hardware decides, keep what is written to
  them. The word probed in the page at \<open>i\<close> is not the one at offset 0xffc: the instruction
  \<open>add 0xffc, %ebx\<close> adds the word stored at the address 0xffc.
\<close>

definition store_ram :: "(u32 \<Rightarrow> bool) \<Rightarrow> u32 \<Rightarrow> u32 \<Rightarrow> mem \<Rightarrow> mem" where
  "store_ram ram a v m = (\<lambda>x. if ram x then write32 m a v x else m x)"

definition probe_word :: "(u32 \<Rightarrow> bool) \<Rightarrow> u32 \<Rightarrow> mem \<Rightarrow> bool \<times> mem" where
  "probe_word ram p m =
     (let old = read32 m p;
          m1 = store_ram ram p 0xaa55aa55 m;
          m2 = store_ram ram p (read32 m1 p XOR 0xffffffff) m1
      in if 0x55aa55aa \<noteq> read32 m2 p then (False, store_ram ram p old m2)
         else
           let m3 = store_ram ram p (read32 m2 p XOR 0xffffffff) m2
           in (0xaa55aa55 = read32 m3 p, store_ram ram p old m3))"

partial_function (option) mts_loop :: "(u32 \<Rightarrow> bool) \<Rightarrow> u32 \<Rightarrow> u32 \<Rightarrow> mem \<Rightarrow> (u32 \<times> mem) option" where
  "mts_loop ram end i m =
     (let r = probe_word ram (i + read32 m 0xffc) m
      in if \<not> fst r then Some (i, snd r)
         else if i + 0x1000 \<le> end then mts_loop ram end (i + 0x1000) (snd r)
         else Some (i + 0x1000, snd r))"

definition memtest_sub ::
  "(u32 \<Rightarrow> bool) \<Rightarrow> u32 \<Rightarrow> u32 \<Rightarrow> 'a memory_scheme \<Rightarrow> (u32 \<times> 'a memory_scheme) result" where
  "memtest_sub ram start end s =
     rbind (loop_result (mts_loop ram end start (mem s))) (\<lambda>(i, m). Inr (i, s\<lparr>mem := m\<rparr>))"

definition memtest ::
  "(u32 \<Rightarrow> u32) \<Rightarrow> (u32 \<Rightarrow> bool) \<Rightarrow> u32 \<Rightarrow> u32 \<Rightarrow> 'a memory_scheme
    \<Rightarrow> (u32 \<times> 'a memory_scheme) result" where
  "memtest popf ram start end s =
     (let s1 = io_store_eflags popf (eflags_reg s OR EFLAGS_AC_BIT) s;
          eflg = eflags_reg s1;
          flg486 = (eflg AND EFLAGS_AC_BIT \<noteq> 0);
          s2 = io_store_eflags popf (eflg AND NOT EFLAGS_AC_BIT) s1;
          s3 = (if flg486 then store_cr0 (cr0_reg s2 OR CR0_CACHE_DISABLE) s2 else s2)
      in rbind (memtest_sub ram start end s3) (\<lambda>(i, s4).
           let s5 = (if flg486 then store_cr0 (cr0_reg s4 AND NOT CR0_CACHE_DISABLE) s4 else s4)
           in Inr (i, s5)))"

definition mm_init ::
  "(u32 \<Rightarrow> u32) \<Rightarrow> (u32 \<Rightarrow> bool) \<Rightarrow> 'a memory_scheme \<Rightarrow> 'a memory_scheme result" where
  "mm_init popf ram s =
     rbind (memtest popf ram 0x00400000 0x2000000 s) (\<lambda>(size, s1).
       let s2 = s1\<lparr>memsize := size\<rparr>
       in Inr (s2\<lparr>mm_start := memsize s2 - 16 * 1024 * 1024\<rparr>))"

definition blank_memory :: memory where
  "blank_memory = keyboard.extend blank_keyboard (memory.fields 0 0 0 0 0 0)"

section \<open>The contract of an allocator\<close>

text \<open>
  \<open>area\<close> are the addresses of all blocks, \<open>held\<close> the ones given out. The lemmas are what a
  client may rely on: blocks given out one after the other are distinct, as many as are
  free can be had, the next request gets the null pointer, and a block given back can be
  had again.
\<close>

locale block_allocator =
  fixes ok :: "'s \<Rightarrow> bool"
    and area :: "'s \<Rightarrow> u32 set"
    and held :: "'s \<Rightarrow> u32 set"
    and alloc :: "'s \<Rightarrow> u32 \<times> 's"
    and release :: "u32 \<Rightarrow> 's \<Rightarrow> 's result"
  assumes finite_area: "finite (area s)"
    and null_outside: "ok s \<Longrightarrow> 0 \<notin> area s"
    and held_area: "ok s \<Longrightarrow> held s \<subseteq> area s"
    and alloc_ok: "ok s \<Longrightarrow> ok (snd (alloc s))"
    and alloc_area: "area (snd (alloc s)) = area s"
    and alloc_full: "ok s \<Longrightarrow> held s = area s \<Longrightarrow> alloc s = (0, s)"
    and alloc_block: "ok s \<Longrightarrow> held s \<noteq> area s \<Longrightarrow> fst (alloc s) \<in> area s - held s"
    and alloc_held: "ok s \<Longrightarrow> held s \<noteq> area s \<Longrightarrow>
      held (snd (alloc s)) = insert (fst (alloc s)) (held s)"
    and release_null: "release 0 s = Inr s"
    and release_held: "ok s \<Longrightarrow> a \<in> held s \<Longrightarrow>
      \<exists>s'. release a s = Inr s' \<and> ok s' \<and> area s' = area s \<and> held s' = held s - {a}"
begin

primrec alloc_n :: "nat \<Rightarrow> 's \<Rightarrow> u32 list \<times> 's" where
  "alloc_n 0 s = ([], s)"
| "alloc_n (Suc n) s = (let (a, s1) = alloc s; (as, s2) = alloc_n n s1 in (a # as, s2))"

primrec release_all :: "u32 list \<Rightarrow> 's \<Rightarrow> 's result" where
  "release_all [] s = Inr s"
| "release_all (a # as) s = rbind (release a s) (release_all as)"

lemma alloc_free_left:
  assumes "ok s" and "held s \<noteq> area s"
  shows "area s - held s = insert (fst (alloc s)) (area (snd (alloc s)) - held (snd (alloc s)))"
    and "fst (alloc s) \<notin> area (snd (alloc s)) - held (snd (alloc s))"
  using assms alloc_block alloc_held alloc_area by auto

lemma alloc_n_fresh:
  "ok s \<Longrightarrow> n \<le> card (area s - held s) \<Longrightarrow>
   distinct (fst (alloc_n n s)) \<and> set (fst (alloc_n n s)) \<subseteq> area s - held s
   \<and> length (fst (alloc_n n s)) = n \<and> ok (snd (alloc_n n s))
   \<and> area (snd (alloc_n n s)) = area s
   \<and> held (snd (alloc_n n s)) = held s \<union> set (fst (alloc_n n s))"
proof (induction n arbitrary: s)
  case (Suc n)
  then have ne: "held s \<noteq> area s" by auto
  let ?a = "fst (alloc s)" and ?t = "snd (alloc s)"
  note left = alloc_free_left [OF Suc.prems(1) ne]
  have "card (area s - held s) = Suc (card (area ?t - held ?t))"
    unfolding left(1) by (rule card_insert_disjoint [OF _ left(2)]) (simp add: finite_area)
  then have "n \<le> card (area ?t - held ?t)" using Suc.prems(2) by linarith
  note IH = Suc.IH [OF alloc_ok [OF Suc.prems(1)] this]
  then show ?case
    using left alloc_held [OF Suc.prems(1) ne] alloc_area [of s]
    by (simp add: case_prod_beta Let_def) blast
qed simp

lemma alloc_n_all:
  assumes "ok s" and "n = card (area s - held s)"
  shows "held (snd (alloc_n n s)) = area s \<and> fst (alloc (snd (alloc_n n s))) = 0"
proof -
  note f = alloc_n_fresh [of s n, OF assms(1)]
  have "card (set (fst (alloc_n n s))) = card (area s - held s)"
    using f assms(2) by (simp add: distinct_card)
  then have "set (fst (alloc_n n s)) = area s - held s"
    using f assms(2) finite_area by (simp add: card_subset_eq)
  then have "held (snd (alloc_n n s)) = area s" using f assms held_area by auto
  then show ?thesis using f assms alloc_full [of "snd (alloc_n n s)"] by simp
qed

lemma release_all_held:
  "ok s \<Longrightarrow> distinct as \<Longrightarrow> set as \<subseteq> held s \<Longrightarrow>
   \<exists>s'. release_all as s = Inr s' \<and> ok s' \<and> area s' = area s \<and> held s' = held s - set as"
proof (induction as arbitrary: s)
  case (Cons a as)
  then obtain t where t: "release a s = Inr t" "ok t" "area t = area s" "held t = held s - {a}"
    using release_held [of s a] by auto
  then obtain u where "release_all as t = Inr u \<and> ok u \<and> area u = area t \<and> held u = held t - set as"
    using Cons.IH [of t] Cons.prems by auto
  then show ?case using t by auto
qed simp

lemma alloc_release:
  assumes "ok s" and "held s \<noteq> area s"
  shows "\<exists>s'. release (fst (alloc s)) (snd (alloc s)) = Inr s' \<and> held s' = held s \<and> ok s'"
  using release_held [OF alloc_ok [OF assms(1)], of "fst (alloc s)"] alloc_held [OF assms]
    alloc_block [OF assms] by auto

end

section \<open>The bitmap as an allocator\<close>

text \<open>
  \<open>block_addr\<close> is the address of a block. The managed 16 MB must not wrap around the end of
  the address space and must not start at the null pointer; \<open>mm_init\<close> sets it so when the
  probe finds more than 16 MB.
\<close>

definition block_addr :: "u32 \<Rightarrow> nat \<Rightarrow> u32" where
  "block_addr start i = start + of_nat i * BLOCK_SIZE"

definition mm_ok :: "'a memory_scheme \<Rightarrow> bool" where
  "mm_ok s \<longleftrightarrow> 0 < mm_start s \<and> unat (mm_start s) + 32 * 0x80000 \<le> 2 ^ 32"

definition blocks :: "'a memory_scheme \<Rightarrow> u32 set" where
  "blocks s = block_addr (mm_start s) ` {..<32}"

definition held_blocks :: "'a memory_scheme \<Rightarrow> u32 set" where
  "held_blocks s = block_addr (mm_start s) ` {i. i < 32 \<and> bit (memory_used s) i}"

lemma find_free_loop_none:
  "(\<And>j. i \<le> j \<Longrightarrow> j < i + n \<Longrightarrow> bit used j) \<Longrightarrow> find_free_loop n i used = (- 1, used)"
  by (induction n i used rule: find_free_loop.induct) (auto simp: bit_iff_and_drop_bit_eq_1)

lemma find_free_loop_first:
  "i \<le> k \<Longrightarrow> k < i + n \<Longrightarrow> \<not> bit used k \<Longrightarrow> (\<And>j. i \<le> j \<Longrightarrow> j < k \<Longrightarrow> bit used j) \<Longrightarrow>
   find_free_loop n i used = (int k, used OR push_bit k 1)"
proof (induction n i used rule: find_free_loop.induct)
  case (2 n i used)
  have low: "drop_bit i used AND 1 = 0 \<longleftrightarrow> \<not> bit used i" by (simp add: bit_iff_odd_drop_bit even_iff_mod_2_eq_zero and_one_eq)
  show ?case
  proof (cases "i = k")
    case True
    then show ?thesis using 2 low by simp
  next
    case False
    then have "drop_bit i used AND 1 \<noteq> 0" using 2 low by simp
    then show ?thesis using 2 False by simp
  qed
qed simp

lemma unat_block_addr:
  assumes "mm_ok s" and "i < 32"
  shows "unat (block_addr (mm_start s) i) = unat (mm_start s) + i * 0x80000"
proof -
  have "block_addr (mm_start s) i = mm_start s + of_nat (i * 0x80000)" by (simp add: block_addr_def)
  moreover have "unat (of_nat (i * 0x80000) :: u32) = i * 0x80000"
    using assms(2) by (intro unat_of_nat32) simp
  ultimately show ?thesis
    using assms by (simp add: mm_ok_def unat_plus_simple [THEN iffD1] word_le_nat_alt unat_word_ariths(1))
qed

lemma block_addr_inj:
  assumes "mm_ok s" and "i < 32" and "j < 32"
  shows "block_addr (mm_start s) i = block_addr (mm_start s) j \<longleftrightarrow> i = j"
proof
  assume "block_addr (mm_start s) i = block_addr (mm_start s) j"
  then have "unat (mm_start s) + i * 0x80000 = unat (mm_start s) + j * 0x80000"
    using unat_block_addr [OF assms(1,2)] unat_block_addr [OF assms(1,3)] by (metis (no_types))
  then show "i = j" by simp
qed simp

lemma block_addr_nonzero:
  assumes "mm_ok s" and "i < 32"
  shows "block_addr (mm_start s) i \<noteq> 0"
proof -
  have "0 < unat (mm_start s)" using assms(1) by (simp add: mm_ok_def word_less_nat_alt)
  then have "0 < unat (block_addr (mm_start s) i)" using unat_block_addr [OF assms] by linarith
  then show ?thesis by auto
qed

lemma block_index:
  assumes "i < 32"
  shows "unat ((block_addr st i - st) div BLOCK_SIZE) = i"
proof -
  have "unat (of_nat (i * 0x80000) :: u32) = i * 0x80000"
    using assms by (intro unat_of_nat32) simp
  moreover have "block_addr st i - st = of_nat (i * 0x80000)" by (simp add: block_addr_def)
  ultimately show ?thesis by (simp add: unat_div)
qed

lemma held_iff:
  "mm_ok s \<Longrightarrow> i < 32 \<Longrightarrow> block_addr (mm_start s) i \<in> held_blocks s \<longleftrightarrow> bit (memory_used s) i"
  by (auto simp: held_blocks_def block_addr_inj)

lemma full_iff: "mm_ok s \<Longrightarrow> held_blocks s = blocks s \<longleftrightarrow> (\<forall>i<32. bit (memory_used s) i)"
proof
  assume ok: "mm_ok s" and "held_blocks s = blocks s"
  then have "block_addr (mm_start s) i \<in> held_blocks s" if "i < 32" for i
    using that by (auto simp: blocks_def)
  then show "\<forall>i<32. bit (memory_used s) i" using held_iff [OF ok] by auto
qed (auto simp: held_blocks_def blocks_def)

text \<open>The two cases of \<open>alloc_mem\<close>.\<close>

lemma alloc_mem_full:
  assumes "\<forall>i<32. bit (memory_used s) i"
  shows "alloc_mem s = (0, s)"
  using assms find_free_loop_none [of 0 32 "memory_used s"]
  by (simp add: alloc_mem_def find_free_area_def)

lemma alloc_mem_first:
  assumes "k < 32" and "\<not> bit (memory_used s) k" and "\<And>j. j < k \<Longrightarrow> bit (memory_used s) j"
  shows "alloc_mem s =
    (block_addr (mm_start s) k, s\<lparr>memory_used := memory_used s OR push_bit k 1\<rparr>)"
  using assms find_free_loop_first [of 0 k 32 "memory_used s"]
  by (simp add: alloc_mem_def find_free_area_def block_addr_def mult.assoc)

lemma alloc_mem_cases:
  obtains (full) "\<forall>i<32. bit (memory_used s) i" "alloc_mem s = (0, s)"
  | (block) k where "k < 32" "\<not> bit (memory_used s) k" "\<forall>j<k. bit (memory_used s) j"
      "alloc_mem s = (block_addr (mm_start s) k, s\<lparr>memory_used := memory_used s OR push_bit k 1\<rparr>)"
proof (cases "\<forall>i<32. bit (memory_used s) i")
  case False
  let ?k = "LEAST k. k < 32 \<and> \<not> bit (memory_used s) k"
  have "\<exists>k. k < 32 \<and> \<not> bit (memory_used s) k" using False by blast
  then have k: "?k < 32 \<and> \<not> bit (memory_used s) ?k" by (rule LeastI_ex)
  then have below: "bit (memory_used s) j" if "j < ?k" for j
    using not_less_Least [OF that] that by (meson less_trans)
  show thesis
    by (rule block [OF _ _ _ alloc_mem_first]) (use k below in blast)+
next
  case True
  then show thesis by (rule full [OF _ alloc_mem_full [OF True]])
qed

lemma bit_set_block: "bit (u OR 2 ^ k :: u32) i \<longleftrightarrow> bit u i \<or> (i = k \<and> i < 32)"
  by (auto simp: bit_simps)

lemma bit_clear_block: "bit (u AND NOT (2 ^ k) :: u32) i \<longleftrightarrow> bit u i \<and> i \<noteq> k"
  by (auto simp: bit_simps dest: bit_imp_le_length)

lemma held_set_block:
  "k < 32 \<Longrightarrow> held_blocks (s\<lparr>memory_used := memory_used s OR push_bit k 1\<rparr>)
    = insert (block_addr (mm_start s) k) (held_blocks s)"
  by (auto simp: held_blocks_def bit_set_block)

lemma held_clear_block:
  assumes "mm_ok s" and "k < 32"
  shows "held_blocks (s\<lparr>memory_used := memory_used s AND NOT (push_bit k 1)\<rparr>)
    = held_blocks s - {block_addr (mm_start s) k}"
  using assms by (auto simp: held_blocks_def bit_clear_block block_addr_inj)

lemma free_mem_block:
  assumes "mm_ok s" and "k < 32"
  shows "free_mem (block_addr (mm_start s) k) s =
    Inr (s\<lparr>memory_used := memory_used s AND NOT (push_bit k 1)\<rparr>)"
  using block_index [OF assms(2)] block_addr_nonzero [OF assms] assms(2) by (simp add: free_mem_def Let_def)

lemma mm_ok_used [simp]: "mm_ok (s\<lparr>memory_used := u\<rparr>) = mm_ok s"
  by (simp add: mm_ok_def)

lemma blocks_used [simp]: "blocks (s\<lparr>memory_used := u\<rparr>) = blocks s"
  by (simp add: blocks_def)

interpretation mm: block_allocator mm_ok blocks held_blocks alloc_mem free_mem
proof
  fix s :: "'a memory_scheme" and a
  show "finite (blocks s)" by (simp add: blocks_def)
  show "free_mem 0 s = Inr s" by (simp add: free_mem_def)
  show "blocks (snd (alloc_mem s)) = blocks s" by (cases s rule: alloc_mem_cases) auto
  show "mm_ok s \<Longrightarrow> 0 \<notin> blocks s" using block_addr_nonzero [of s] by (force simp: blocks_def)
  show "mm_ok s \<Longrightarrow> held_blocks s \<subseteq> blocks s" by (auto simp: held_blocks_def blocks_def)
  show "mm_ok s \<Longrightarrow> mm_ok (snd (alloc_mem s))" by (cases s rule: alloc_mem_cases) auto
  show "mm_ok s \<Longrightarrow> held_blocks s = blocks s \<Longrightarrow> alloc_mem s = (0, s)"
    by (simp add: full_iff alloc_mem_full)
  show "mm_ok s \<Longrightarrow> held_blocks s \<noteq> blocks s \<Longrightarrow> fst (alloc_mem s) \<in> blocks s - held_blocks s"
    by (cases s rule: alloc_mem_cases) (simp_all add: full_iff held_iff, simp add: blocks_def)
  show "mm_ok s \<Longrightarrow> held_blocks s \<noteq> blocks s \<Longrightarrow>
      held_blocks (snd (alloc_mem s)) = insert (fst (alloc_mem s)) (held_blocks s)"
    by (cases s rule: alloc_mem_cases) (auto simp: full_iff held_set_block [simplified])
  show "mm_ok s \<Longrightarrow> a \<in> held_blocks s \<Longrightarrow> \<exists>s'. free_mem a s = Inr s' \<and> mm_ok s'
      \<and> blocks s' = blocks s \<and> held_blocks s' = held_blocks s - {a}"
  proof -
    assume ok: "mm_ok s" and "a \<in> held_blocks s"
    then obtain k where "k < 32" "a = block_addr (mm_start s) k" by (auto simp: held_blocks_def)
    then show ?thesis using ok by (simp add: free_mem_block held_clear_block [simplified])
  qed
qed

section \<open>Properties\<close>

definition disjoint_blocks :: "u32 list \<Rightarrow> bool" where
  "disjoint_blocks as \<longleftrightarrow>
     (\<forall>i < length as. \<forall>j < length as. i \<noteq> j \<longrightarrow> disjoint_ranges (as ! i) 0x80000 (as ! j) 0x80000)"

lemma disjoint_ranges_apart:
  fixes a b :: u32
  assumes "unat a + n \<le> unat b" and "unat b + n \<le> 2 ^ 32"
  shows "disjoint_ranges a n b n"
proof (cases "n = 0")
  case False
  have "unat (b - a) = unat b - unat a" using assms by (simp add: unat_sub_if')
  moreover have "unat (a - b) = unat a + 2 ^ 32 - unat b" using assms False by (simp add: unat_sub_if')
  ultimately show ?thesis using assms unfolding disjoint_ranges_def by linarith
qed (simp add: disjoint_ranges_def)

lemma blocks_apart:
  assumes "mm_ok s" and "a \<in> blocks s" and "b \<in> blocks s" and "a \<noteq> b"
  shows "disjoint_ranges a 0x80000 b 0x80000"
proof -
  obtain i j where i: "i < 32" "a = block_addr (mm_start s) i"
    and j: "j < 32" "b = block_addr (mm_start s) j" using assms(2,3) by (auto simp: blocks_def)
  have ua: "unat a = unat (mm_start s) + i * 0x80000" and ub: "unat b = unat (mm_start s) + j * 0x80000"
    using unat_block_addr [OF assms(1)] i j by auto
  have top: "unat (mm_start s) + 32 * 0x80000 \<le> 2 ^ 32" using assms(1) by (simp add: mm_ok_def)
  have "i \<noteq> j" using assms(4) i(2) j(2) by metis
  then have ij: "i < j \<or> j < i" by linarith
  show ?thesis
  proof (cases "i < j")
    case True
    have "unat a + 0x80000 \<le> unat b" "unat b + 0x80000 \<le> 2 ^ 32" using True top j ua ub by simp_all
    then show ?thesis by (rule disjoint_ranges_apart)
  next
    case False
    then have "j < i" using ij by simp
    have "unat b + 0x80000 \<le> unat a" "unat a + 0x80000 \<le> 2 ^ 32" using \<open>j < i\<close> top i ua ub by simp_all
    then have "disjoint_ranges b 0x80000 a 0x80000" by (rule disjoint_ranges_apart)
    then show ?thesis by (simp add: disjoint_ranges_sym)
  qed
qed

lemma card_blocks: "mm_ok s \<Longrightarrow> card (blocks s) = 32"
  unfolding blocks_def by (subst card_image) (auto intro: inj_onI simp: block_addr_inj)

text \<open>C31. Starting with no block in use, thirty-two calls of \<open>alloc_mem\<close> return thirty-two non-null
  addresses whose 512 KB areas are pairwise disjoint and lie in the managed 16 MB; the
  thirty-third call returns the null pointer; and after giving all of them back with
  \<open>free_mem\<close> no block is in use.\<close>

theorem alloc_mem_disjoint:
  fixes s :: "'a memory_scheme"
  assumes "mm_ok s" and "memory_used s = 0"
  shows "case mm.alloc_n 32 s of (as, t) \<Rightarrow>
    length as = 32 \<and> 0 \<notin> set as \<and> disjoint_blocks as \<and> set as = blocks s
    \<and> fst (alloc_mem t) = 0
    \<and> (\<exists>u. mm.release_all as t = Inr u \<and> held_blocks u = {} \<and> mm_ok u)"
proof -
  let ?as = "fst (mm.alloc_n 32 s)" and ?t = "snd (mm.alloc_n 32 s)"
  have none: "held_blocks s = {}" using assms(2) by (simp add: held_blocks_def)
  have n: "32 = card (blocks s - held_blocks s)" using none card_blocks [OF assms(1)] by simp
  then have le: "32 \<le> card (blocks s - held_blocks s)" by simp
  note f = mm.alloc_n_fresh [OF assms(1) le] and a = mm.alloc_n_all [OF assms(1) n]
  have set: "set ?as = blocks s" using f a none by auto
  have "disjoint_blocks ?as"
    unfolding disjoint_blocks_def using f set blocks_apart [OF assms(1)]
    by (metis nth_eq_iff_index_eq nth_mem)
  moreover have "\<exists>u. mm.release_all ?as ?t = Inr u \<and> held_blocks u = {} \<and> mm_ok u"
    using mm.release_all_held [of ?t ?as] f none by auto
  ultimately show ?thesis
    using f set a mm.null_outside [OF assms(1)] by (auto simp: case_prod_beta)
qed

definition small_memory :: memory where
  "small_memory = blank_memory\<lparr>mm_start := 0x1000000\<rparr>"

lemma small_memory_ok: "mm_ok small_memory \<and> memory_used small_memory = 0"
  by (simp add: small_memory_def mm_ok_def blank_memory_def keyboard.defs memory.defs)

theorem alloc_mem_disjoint_witness:
  "mm_ok small_memory \<and> memory_used small_memory = 0
   \<and> fst (alloc_mem (snd (mm.alloc_n 32 small_memory))) = 0
   \<and> disjoint_blocks (fst (mm.alloc_n 32 small_memory))"
  using alloc_mem_disjoint [of small_memory] small_memory_ok by (auto simp: case_prod_beta)

text \<open>C32. \<open>alloc_mem\<close> gives out the lowest free block, and giving that block back restores the
  allocator exactly; a full allocator returns the null pointer and stays as it is.\<close>

theorem alloc_free_roundtrip:
  fixes s :: "'a memory_scheme"
  assumes "mm_ok s"
  shows "(alloc_mem s = (0, s) \<and> held_blocks s = blocks s)
    \<or> (\<exists>k<32. fst (alloc_mem s) = block_addr (mm_start s) k \<and> \<not> bit (memory_used s) k
        \<and> (\<forall>j<k. bit (memory_used s) j)
        \<and> memory_used (snd (alloc_mem s)) = memory_used s OR push_bit k 1
        \<and> free_mem (fst (alloc_mem s)) (snd (alloc_mem s)) = Inr s)"
proof (cases s rule: alloc_mem_cases)
  case full
  then show ?thesis using assms by (simp add: full_iff)
next
  case (block k)
  have "(memory_used s OR push_bit k 1) AND NOT (push_bit k 1) = memory_used s"
    by (rule bit_word_eqI) (use block in \<open>auto simp: bit_simps\<close>)
  moreover have "free_mem (fst (alloc_mem s)) (snd (alloc_mem s)) =
      Inr (s\<lparr>memory_used := (memory_used s OR push_bit k 1) AND NOT (push_bit k 1)\<rparr>)"
    using free_mem_block [of "snd (alloc_mem s)" k] block assms by simp
  ultimately show ?thesis using block by auto
qed

theorem alloc_free_roundtrip_witness:
  "mm_ok small_memory
   \<and> free_mem (fst (alloc_mem small_memory)) (snd (alloc_mem small_memory)) = Inr small_memory"
proof -
  have "\<not> bit (memory_used small_memory) 0" using small_memory_ok by simp
  then have "held_blocks small_memory \<noteq> blocks small_memory"
    using small_memory_ok full_iff [of small_memory] zero_less_numeral by blast
  then show ?thesis using alloc_free_roundtrip [of small_memory] small_memory_ok by auto
qed

section \<open>The size of memory\<close>

lemma store_ram_outside: "\<not> addr_in p 4 x \<Longrightarrow> store_ram ram p v m x = m x"
  by (simp add: store_ram_def write32_outside)

lemma store_ram_twice: "store_ram ram p w (store_ram ram p v m) = store_ram ram p w m"
  by (rule ext) (auto simp: store_ram_def write32_apply)

lemma store_ram_old: "store_ram ram p (read32 m p) m = m"
proof -
  let ?v = "read32 m p"
  have b: "ucast ?v = m p" "ucast (drop_bit 8 ?v) = m (p + 1)"
    "ucast (drop_bit 16 ?v) = m (p + 2)" "ucast (drop_bit 24 ?v) = m (p + 3)"
    by (rule bit_word_eqI; auto simp: read32_def bit_simps dest: bit_imp_le_length)+
  have "write32 m p ?v = m" unfolding write32_def b by simp
  then show ?thesis by (auto simp: store_ram_def)
qed

text \<open>The probe leaves memory as it was; where there is memory the word answers.\<close>

lemma probe_word_memory: "snd (probe_word ram p m) = m"
  by (simp add: probe_word_def Let_def store_ram_twice store_ram_old)

lemma probe_word_answers:
  assumes "\<And>x. ram x"
  shows "probe_word ram p m = (True, m)"
proof -
  have "store_ram ram = (\<lambda>a v m. write32 m a v)" using assms by (intro ext) (simp add: store_ram_def)
  then show ?thesis using probe_word_memory [of ram p m] by (simp add: probe_word_def Let_def)
qed

lemma page_less:
  assumes "j \<le> 0x1c00"
  shows "(0x400000 + of_nat j * 0x1000 + 0x1000 \<le> (0x2000000 :: u32)) \<longleftrightarrow> j < 0x1c00"
proof -
  have "unat (of_nat (0x400000 + j * 0x1000 + 0x1000) :: u32) = 0x400000 + j * 0x1000 + 0x1000"
    using assms by (intro unat_of_nat32) simp
  then show ?thesis using assms by (simp add: word_le_nat_alt) arith
qed

text \<open>The loop as \<open>mm_init\<close> starts it ends, at one of the pages or one after the last.\<close>

lemma mts_loop_ends:
  assumes "j \<le> 0x1c00"
  shows "\<exists>k. j \<le> k \<and> k \<le> 0x1c01 \<and> ((\<forall>x. ram x) \<longrightarrow> k = 0x1c01)
    \<and> mts_loop ram 0x2000000 (0x400000 + of_nat j * 0x1000) m = Some (0x400000 + of_nat k * 0x1000, m)"
  using assms
proof (induction "0x1c00 - j" arbitrary: j)
  case 0
  let ?i = "0x400000 + of_nat j * 0x1000 :: u32"
  have j: "j = 0x1c00" using 0 by simp
  have *: "mts_loop ram 0x2000000 ?i m =
      (if fst (probe_word ram (?i + read32 m 0xffc) m) then Some (?i + 0x1000, m) else Some (?i, m))"
    using page_less [of j] j by (subst mts_loop.simps) (simp add: Let_def probe_word_memory)
  show ?case
  proof (cases "fst (probe_word ram (?i + read32 m 0xffc) m)")
    case True
    then show ?thesis using * by (intro exI [of _ "0x1c01"]) (simp add: j)
  next
    case False
    then have "\<not> (\<forall>x. ram x)" using probe_word_answers by fastforce
    then show ?thesis using * False by (intro exI [of _ j]) (simp add: j)
  qed
next
  case (Suc n)
  let ?i = "0x400000 + of_nat j * 0x1000 :: u32"
  have j: "j < 0x1c00" "n = 0x1c00 - Suc j" using Suc.hyps(2) by simp_all
  have next_page: "?i + 0x1000 = 0x400000 + of_nat (Suc j) * 0x1000" by (simp add: algebra_simps)
  have *: "mts_loop ram 0x2000000 ?i m =
      (if fst (probe_word ram (?i + read32 m 0xffc) m) then mts_loop ram 0x2000000 (?i + 0x1000) m else Some (?i, m))"
    using page_less [of j] j(1) by (subst mts_loop.simps) (simp add: Let_def probe_word_memory)
  show ?case
  proof (cases "fst (probe_word ram (?i + read32 m 0xffc) m)")
    case True
    then have "mts_loop ram 0x2000000 ?i m = mts_loop ram 0x2000000 (0x400000 + of_nat (Suc j) * 0x1000) m"
      using * next_page by simp
    then show ?thesis using Suc.hyps(1) [OF j(2)] j(1) by (metis Suc_leD Suc_leI)
  next
    case False
    then have "\<not> (\<forall>x. ram x)" using probe_word_answers by fastforce
    then show ?thesis using * False j(1) by (intro exI [of _ j]) simp
  qed
qed

lemma memtest_sub_ends:
  "\<exists>k. k \<le> 0x1c01 \<and> ((\<forall>x. ram x) \<longrightarrow> k = 0x1c01)
    \<and> (\<forall>t :: 'a memory_scheme. mem t = mem s \<longrightarrow>
         memtest_sub ram 0x00400000 0x2000000 t = Inr (0x400000 + of_nat k * 0x1000, t))" for s :: "'a memory_scheme"
proof -
  have "t\<lparr>mem := mem s\<rparr> = t" if "mem t = mem s" for t :: "'a memory_scheme" using that by (metis machine.surjective machine.update_convs(1))
  then show ?thesis using mts_loop_ends [of 0 ram "mem s"] by (auto simp: memtest_sub_def)
qed

text \<open>Also: \<open>mm_init\<close> returns: the size it finds is 4 MB and a number of pages, up to one page more
  than 32 MB, which it is when every address has memory; memory is unchanged. On a processor
  that keeps the AC flag the cache bits of the control register are clear afterwards. When the
  size is more than 16 MB the managed area ends there, does not wrap and does not contain the
  null pointer.\<close>

theorem mm_init_area:
  fixes s :: "'a memory_scheme"
  shows "\<exists>s' k. mm_init popf ram s = Inr s' \<and> k \<le> 0x1c01 \<and> memsize s' = 0x400000 + of_nat k * 0x1000
    \<and> ((\<forall>x. ram x) \<longrightarrow> memsize s' = 0x2001000)
    \<and> mm_start s' = memsize s' - 0x1000000 \<and> mem s' = mem s
    \<and> ((\<forall>v. popf v AND EFLAGS_AC_BIT = v AND EFLAGS_AC_BIT) \<longrightarrow> cr0_reg s' AND CR0_CACHE_DISABLE = 0)
    \<and> (0x1000000 < memsize s' \<longrightarrow> mm_ok s')"
proof -
  let ?s1 = "io_store_eflags popf (eflags_reg s OR EFLAGS_AC_BIT) s"
  let ?s2 = "io_store_eflags popf (eflags_reg ?s1 AND NOT EFLAGS_AC_BIT) ?s1"
  let ?f = "eflags_reg ?s1 AND EFLAGS_AC_BIT \<noteq> 0"
  let ?t = "if ?f then store_cr0 (cr0_reg ?s2 OR CR0_CACHE_DISABLE) ?s2 else ?s2"
  obtain k where k: "k \<le> 0x1c01" "(\<forall>x. ram x) \<longrightarrow> k = 0x1c01"
    "\<And>t :: 'a memory_scheme. mem t = mem s \<Longrightarrow>
       memtest_sub ram 0x00400000 0x2000000 t = Inr (0x400000 + of_nat k * 0x1000, t)"
    using memtest_sub_ends by blast
  have mem: "mem (store_cr0 v t) = mem t" "mem (io_store_eflags popf v t) = mem t" for v and t :: "'a memory_scheme"
    by (simp_all add: store_cr0_def io_store_eflags_def)
  define size :: u32 where "size = 0x400000 + of_nat k * 0x1000"
  define s' where "s' = (if ?f then store_cr0 (cr0_reg ?t AND NOT CR0_CACHE_DISABLE) ?t else ?t)
    \<lparr>memsize := size, mm_start := size - 0x1000000\<rparr>"
  have run: "mm_init popf ram s = Inr s'"
    by (simp add: mm_init_def memtest_def Let_def s'_def size_def k(3) mem)
  have f: "memsize s' = size" "mm_start s' = size - 0x1000000" "mem s' = mem s"
    by (simp_all add: s'_def store_cr0_def io_store_eflags_def)
  have "cr0_reg s' AND CR0_CACHE_DISABLE = 0" if ac: "\<forall>v. popf v AND EFLAGS_AC_BIT = v AND EFLAGS_AC_BIT"
  proof -
    have "(eflags_reg s OR EFLAGS_AC_BIT) AND EFLAGS_AC_BIT = EFLAGS_AC_BIT"
      by (rule bit_word_eqI) (auto simp: bit_simps)
    then have "?f" using ac by (simp add: io_store_eflags_def)
    moreover have "(x AND NOT CR0_CACHE_DISABLE) AND CR0_CACHE_DISABLE = 0" for x :: u32
      by (rule bit_word_eqI) (auto simp: bit_simps)
    ultimately show ?thesis by (simp add: s'_def store_cr0_def)
  qed
  moreover have "mm_ok s'" if big: "0x1000000 < size"
  proof -
    have "unat (size - 0x1000000) = unat size - 0x1000000"
      using big by (simp add: unat_sub word_less_nat_alt word_le_nat_alt)
    then show ?thesis
      using big unsigned_less [of size, where ?'a = nat] by (simp add: mm_ok_def f word_less_nat_alt)
  qed
  moreover have "size = 0x2001000" if "\<forall>x. ram x" using that k(2) by (simp add: size_def)
  ultimately show ?thesis
    using run k(1) f by (intro exI [of _ s'] exI [of _ k]) (simp add: size_def)
qed

theorem mm_init_area_witness:
  "\<exists>s'. mm_init (\<lambda>v. v) (\<lambda>_. True) blank_memory = Inr s' \<and> memsize s' = 0x2001000 \<and> mm_ok s'"
  using mm_init_area [of "\<lambda>v. v" "\<lambda>_. True" blank_memory] by auto

end
