(* ===== verification/Storage.thy ===== *)
theory Storage
  imports Memory
begin

text \<open>
  Storage devices and the file-system table: storage.c and fs/vfs.c. Both keep a table of
  pointers that a module enters itself into once; the contract the two tables share is the
  locale \<open>registry\<close>. The structures are kept by their address; the addresses the linker gives
  to the globals and to the ends of the file-system image are the record \<open>Link\<close>.
\<close>

section \<open>State\<close>

abbreviation (input) MAX_STORAGE_DEVICE :: nat where "MAX_STORAGE_DEVICE \<equiv> 2"
abbreviation (input) MAX_SUPER_BLOCK :: nat where "MAX_SUPER_BLOCK \<equiv> 8"
abbreviation (input) RAMDISK :: nat where "RAMDISK \<equiv> 0"
abbreviation (input) ROMFS :: nat where "ROMFS \<equiv> 0"
abbreviation (input) RAMDISK_SECTOR_SIZE :: u32 where "RAMDISK_SECTOR_SIZE \<equiv> 512"

text \<open>
  The function pointers of the two structures. Only one function of each kind exists, so
  that the type of such a pointer has that function as its value (and none for a pointer
  the initialiser leaves null).
\<close>

datatype dout_fn = Ramdisk_dout
datatype namei_fn = Romfs_namei
datatype daddr_fn = Romfs_get_daddr

record StorageDevice =
  start_pos :: u32
  sector_size :: u32
  storage_size :: u32
  sd_dout :: dout_fn
  sd_din :: "dout_fn option"

record SuperBlock =
  sb_namei :: namei_fn
  sb_get_daddr :: daddr_fn
  sb_device :: u32
  fs_name :: cstring

record files = memory +
  sd_obj :: "u32 \<Rightarrow> StorageDevice"
  sb_obj :: "u32 \<Rightarrow> SuperBlock"
  storage :: "nat \<Rightarrow> u32"
  fs_type :: "nat \<Rightarrow> u32"

record Link =
  ramdisk_sd :: u32
  romfs_sb :: u32
  romfs_start :: u32
  romfs_end :: u32
  readdir_buf :: u32

section \<open>The RAM disk\<close>

definition ramdisk_dout ::
  "StorageDevice \<Rightarrow> u32 \<Rightarrow> u32 \<Rightarrow> u32 \<Rightarrow> 'a files_scheme \<Rightarrow> int \<times> 'a files_scheme" where
  "ramdisk_dout sd dest addr n s =
     (sint n, s\<lparr>mem := p_asm_memcpy (mem s) dest (addr + start_pos sd) n\<rparr>)"

text \<open>The call \<open>sd->dout (sd, dest, addr, size)\<close>.\<close>

definition dout ::
  "u32 \<Rightarrow> u32 \<Rightarrow> u32 \<Rightarrow> u32 \<Rightarrow> 'a files_scheme \<Rightarrow> (int \<times> 'a files_scheme) result" where
  "dout p dest addr n s =
     (if p = 0 then Inl Out_of_bounds
      else case sd_dout (sd_obj s p) of
             Ramdisk_dout \<Rightarrow> Inr (ramdisk_dout (sd_obj s p) dest addr n s))"

definition ramdisk_sd_initial :: "Link \<Rightarrow> StorageDevice" where
  "ramdisk_sd_initial L =
     \<lparr>start_pos = romfs_start L, sector_size = RAMDISK_SECTOR_SIZE, storage_size = 2 * 1024 * 1024,
      sd_dout = Ramdisk_dout, sd_din = None\<rparr>"

definition register_storage_device ::
  "u32 \<Rightarrow> nat \<Rightarrow> 'a files_scheme \<Rightarrow> (int \<times> 'a files_scheme) result" where
  "register_storage_device sd num s =
     (if \<not> num < MAX_STORAGE_DEVICE then Inl Out_of_bounds
      else if storage s num \<noteq> 0 then Inr (- 1, s)
      else Inr (0, s\<lparr>storage := (storage s)(num := sd)\<rparr>))"

definition ramdisk_driver_init :: "Link \<Rightarrow> 'a files_scheme \<Rightarrow> (int \<times> 'a files_scheme) result" where
  "ramdisk_driver_init L s =
     (let p = ramdisk_sd L;
          s1 = s\<lparr>sd_obj := (sd_obj s)(p := (sd_obj s p)\<lparr>storage_size := romfs_end L - romfs_start L\<rparr>)\<rparr>
      in register_storage_device p RAMDISK s1)"

section \<open>File systems\<close>

definition register_file_system ::
  "u32 \<Rightarrow> nat \<Rightarrow> 'a files_scheme \<Rightarrow> (int \<times> 'a files_scheme) result" where
  "register_file_system type i s =
     (if \<not> i < MAX_SUPER_BLOCK then Inl Out_of_bounds
      else if fs_type s i = 0 then Inr (0, s\<lparr>fs_type := (fs_type s)(i := type)\<rparr>)
      else Inr (- 1, s))"

definition unregister_file_system :: "u32 \<Rightarrow> nat \<Rightarrow> 'a files_scheme \<Rightarrow> 'a files_scheme result" where
  "unregister_file_system type i s =
     (if \<not> i < MAX_SUPER_BLOCK then Inl Out_of_bounds
      else Inr (s\<lparr>fs_type := (fs_type s)(i := 0)\<rparr>))"

text \<open>The statically initialised state of the two modules.\<close>

definition blank_files :: "Link \<Rightarrow> files" where
  "blank_files L = memory.extend blank_memory
     (files.fields ((\<lambda>_. ramdisk_sd_initial L)) 
       (\<lambda>_. \<lparr>sb_namei = Romfs_namei, sb_get_daddr = Romfs_get_daddr, sb_device = 0,
          fs_name = map of_char ''romfs''\<rparr>) (\<lambda>_. 0) (\<lambda>_. 0))"

section \<open>The contract of a table of registrations\<close>

locale registry =
  fixes slots :: nat
    and entry :: "'s \<Rightarrow> nat \<Rightarrow> u32"
    and enter :: "u32 \<Rightarrow> nat \<Rightarrow> 's \<Rightarrow> (int \<times> 's) result"
  assumes enter_range: "\<not> n < slots \<Longrightarrow> enter p n s = Inl Out_of_bounds"
    and enter_taken: "n < slots \<Longrightarrow> entry s n \<noteq> 0 \<Longrightarrow> enter p n s = Inr (- 1, s)"
    and enter_free: "n < slots \<Longrightarrow> entry s n = 0 \<Longrightarrow>
      \<exists>s'. enter p n s = Inr (0, s') \<and> entry s' = (entry s)(n := p)"
begin

primrec enter_all :: "(u32 \<times> nat) list \<Rightarrow> 's \<Rightarrow> 's result" where
  "enter_all [] s = Inr s"
| "enter_all (x # xs) s = rbind (enter (fst x) (snd x) s) (\<lambda>(_, s'). enter_all xs s')"

text \<open>Who registers first stays, whatever is registered later.\<close>

lemma enter_keeps: "entry s n \<noteq> 0 \<Longrightarrow> enter p k s = Inr (r, s') \<Longrightarrow> entry s' n = entry s n"
  using enter_range [of k p s] enter_taken [of k s p] enter_free [of k s p]
  by (cases "k < slots"; cases "entry s k = 0") auto

lemma first_stays: "entry s n \<noteq> 0 \<Longrightarrow> enter_all xs s = Inr s' \<Longrightarrow> entry s' n = entry s n"
proof (induction xs arbitrary: s)
  case (Cons x xs)
  then obtain r t where t: "enter (fst x) (snd x) s = Inr (r, t)" "enter_all xs t = Inr s'"
    by (auto simp: rbind_eq_Inr)
  then show ?case using Cons.IH [of t] enter_keeps [OF Cons.prems(1) t(1)] Cons.prems(1) by simp
qed simp

lemma registered_stays:
  assumes "n < slots" and "entry s n = 0" and "p \<noteq> 0"
  shows "\<exists>s'. enter p n s = Inr (0, s') \<and> entry s' n = p
    \<and> (\<forall>xs t. enter_all xs s' = Inr t \<longrightarrow> entry t n = p)"
proof -
  obtain s' where s': "enter p n s = Inr (0, s')" "entry s' = (entry s)(n := p)"
    using enter_free [OF assms(1,2)] by blast
  then have "entry s' n = p" by simp
  then show ?thesis using s'(1) first_stays [of s' n] assms(3) by metis
qed

end

interpretation sd_reg: registry MAX_STORAGE_DEVICE storage register_storage_device
  by unfold_locales (auto simp: register_storage_device_def)

interpretation fs_reg: registry MAX_SUPER_BLOCK fs_type register_file_system
  by unfold_locales (auto simp: register_file_system_def)

section \<open>Properties\<close>

text \<open>Also: Registration of a storage device: the first device to register in a free slot gets 0 and
  the slot, and keeps it through every later series of registrations; a second one for the
  same slot gets -1 and changes nothing.\<close>

theorem storage_first_wins:
  fixes s :: "'a files_scheme"
  assumes "num < MAX_STORAGE_DEVICE" and "storage s num = 0" and "sd \<noteq> 0"
  shows "\<exists>s'. register_storage_device sd num s = Inr (0, s') \<and> storage s' num = sd
    \<and> (\<forall>sd2. register_storage_device sd2 num s' = Inr (- 1, s'))
    \<and> (\<forall>xs t. sd_reg.enter_all xs s' = Inr t \<longrightarrow> storage t num = sd)"
  using sd_reg.registered_stays [OF assms] sd_reg.enter_taken [OF assms(1)] assms(3) by fastforce

definition sample_link :: Link where
  "sample_link = \<lparr>ramdisk_sd = 0x1000, romfs_sb = 0x2000, romfs_start = 0x200000,
     romfs_end = 0x200100, readdir_buf = 0x3000\<rparr>"

theorem storage_first_wins_witness:
  "\<exists>s'. register_storage_device 0x1000 RAMDISK (blank_files sample_link) = Inr (0, s')
    \<and> storage s' RAMDISK = 0x1000"
  using storage_first_wins [of RAMDISK "blank_files sample_link" "0x1000"]
  by (auto simp: blank_files_def memory.defs files.defs)

text \<open>Also: A file system can be registered again once it has been unregistered, and unregistering
  leaves the other slots of the table alone.\<close>

theorem fs_register_again:
  fixes s :: "'a files_scheme"
  assumes "i < MAX_SUPER_BLOCK"
  shows "\<exists>t u. unregister_file_system p i s = Inr t \<and> register_file_system q i t = Inr (0, u)
    \<and> fs_type u = (fs_type s)(i := q)"
  using assms by (simp add: unregister_file_system_def register_file_system_def)

theorem fs_register_again_witness:
  "\<exists>t u. unregister_file_system 1 ROMFS (blank_files sample_link) = Inr t
    \<and> register_file_system 2 ROMFS t = Inr (0, u) \<and> fs_type u ROMFS = 2"
  using fs_register_again [of ROMFS 1 "blank_files sample_link" 2] by fastforce

end
