(* ===== verification/Romfs.thy ===== *)
theory Romfs
  imports Storage
begin

text \<open>
  The read-only file system: fs/romfs.c and include/romfs.h. The image is read into a block
  of memory and scanned there; headers are big-endian words at 16-byte boundaries. The
  debug prints to the text screen are part of the model, since they write memory.
\<close>

unbundle bit_operations_syntax

section \<open>Headers\<close>

definition get_next_16_boundary :: "u32 \<Rightarrow> u32" where
  "get_next_16_boundary cur_offset =
     (if cur_offset AND 15 \<noteq> 0 then cur_offset + (16 - (cur_offset AND 15)) else cur_offset)"

definition get_file_type :: "u8 \<Rightarrow> u8" where
  "get_file_type t = t AND 7"

text \<open>The fields of a \<open>RomFsHeader\<close> at an address.\<close>

definition hdr_nextfh :: "mem \<Rightarrow> u32 \<Rightarrow> u32" where "hdr_nextfh m a = read32 m a"
definition hdr_spec :: "mem \<Rightarrow> u32 \<Rightarrow> u32" where "hdr_spec m a = read32 m (a + 4)"
definition hdr_size :: "mem \<Rightarrow> u32 \<Rightarrow> u32" where "hdr_size m a = read32 m (a + 8)"
definition hdr_checksum :: "mem \<Rightarrow> u32 \<Rightarrow> u32" where "hdr_checksum m a = read32 m (a + 12)"

abbreviation (input) screen_line :: "int \<Rightarrow> u32" where
  "screen_line line \<equiv> VB + 160 * word_of_int line"

text \<open>The three calls that print a labelled number on a fresh line.\<close>

definition print_field ::
  "string \<Rightarrow> int \<Rightarrow> u32 \<Rightarrow> u32 \<Rightarrow> int \<Rightarrow> 'a stdio_scheme \<Rightarrow> 'a stdio_scheme result" where
  "print_field label line col v radix s =
     s32_print_int v (screen_line line + col) radix
       (s32_print (map of_char label) (screen_line line) (clear_line (word_of_int line) s))"

definition print_file_type :: "u8 \<Rightarrow> int \<Rightarrow> 'a stdio_scheme \<Rightarrow> 'a stdio_scheme" where
  "print_file_type t line s =
     (if t = 0 then s32_print (map of_char ''hard link'') (screen_line line + 30) s
      else if t = 1 then s32_print (map of_char ''dir'') (screen_line line + 30) s
      else if t = 2 then s32_print (map of_char ''reg file'') (screen_line line + 30) s
      else s)"

definition print_romfs_entry ::
  "int \<Rightarrow> u32 \<Rightarrow> u32 \<Rightarrow> bool \<Rightarrow> 'a stdio_scheme \<Rightarrow> (u32 \<times> u32 \<times> 'a stdio_scheme) result" where
  "print_romfs_entry line offset buf is_print s =
     (let h = buf + offset; fn = buf + (offset + 16)
      in rbind
        (if is_print
         then rbind (print_field ''nextfh: '' line 20 (be32tole32 (hdr_nextfh (mem s) h)) 16 s) (\<lambda>s1.
              rbind (print_field ''spec: '' (line + 1) 20 (be32tole32 (hdr_spec (mem s1) h)) 16 s1) (\<lambda>s2.
              rbind (print_field ''size: '' (line + 2) 20 (be32tole32 (hdr_size (mem s2) h)) 16 s2) (\<lambda>s3.
              print_field ''checksum: '' (line + 3) 20 (be32tole32 (hdr_checksum (mem s3) h)) 16 s3)))
         else Inr s) (\<lambda>s4.
       rbind (loop_result (str_at (mem s4) fn)) (\<lambda>name.
       rbind
        (if is_print
         then rbind (print_field ''fn_len: '' (line + 4) 20 (s_strlen name) 10 s4) (\<lambda>s5.
              let s6 = s32_print (map of_char ''fn: '') (screen_line (line + 5))
                         (clear_line (word_of_int (line + 5)) s5)
              in rbind (loop_result (str_at (mem s6) fn)) (\<lambda>name'.
                 let s7 = s32_print name' (screen_line (line + 5) + 20) s6
                 in Inr (print_file_type (get_file_type (ucast (be32tole32 (hdr_nextfh (mem s7) h))))
                          (line + 5) s7)))
         else Inr s4) (\<lambda>s8.
       Inr (h, be32tole32 (hdr_nextfh (mem s8) h) AND 0xfffffff0, s8)))))"

section \<open>Looking up a name\<close>

text \<open>Filling an \<open>INode\<close>: five words, of which \<open>flags\<close> at offset 4 is left as it is.\<close>

definition fill_inode :: "u32 \<Rightarrow> u32 \<Rightarrow> u32 \<Rightarrow> u32 \<Rightarrow> u32 \<Rightarrow> mem \<Rightarrow> mem" where
  "fill_inode ino fn_name dsize daddr sb m =
     write32 (write32 (write32 (write32 m ino fn_name) (ino + 8) dsize) (ino + 12) daddr) (ino + 16) sb"

text \<open>The branch of the loop that has found the name.\<close>

definition namei_found ::
  "u32 \<Rightarrow> cstring \<Rightarrow> u32 \<Rightarrow> u32 \<Rightarrow> 'a files_scheme \<Rightarrow> (u32 \<times> 'a files_scheme) result" where
  "namei_found sb dir buf next_offset s =
     (let (ino, s1) = alloc_mem s;
          s2 = s32_print dir (screen_line 24 + 13 * 2)
                 (s32_print (map of_char ''find fn:'') (screen_line 24) (clear_line 24 s1));
          s3 = s2\<lparr>mem := fill_inode ino (buf + (next_offset + 16))
                 (be32tole32 (hdr_size (mem s2) (buf + next_offset))) next_offset sb (mem s2)\<rparr>
      in rbind (free_mem buf s3) (\<lambda>s4. Inr (ino, s4)))"

text \<open>The branch that goes on: it prints the offset and dumps the file to the screen.\<close>

definition namei_report ::
  "u32 \<Rightarrow> int \<Rightarrow> u32 \<Rightarrow> 'a files_scheme \<Rightarrow> (int \<times> 'a files_scheme) result" where
  "namei_report buf line next_offset s =
     (let file_size = be32tole32 (hdr_size (mem s) (buf + next_offset));
          fn_content_offset =
            (if file_size \<noteq> 0 then get_next_16_boundary (next_offset + 16 + file_size) else 0)
      in rbind (print_field ''next_offset:'' line 24 next_offset 16 s) (\<lambda>s1.
           if next_offset \<noteq> 0 \<and> fn_content_offset \<noteq> 0
           then rbind (print_field ''fn_con_off:'' (line + 1) 24 fn_content_offset 16 s1) (\<lambda>s2.
             Inr (line + 2, p_dump_u8 (buf + fn_content_offset) (sint file_size)
               (clear_line 1 (clear_line 0 s2))))
           else Inr (line + 1, s1)))"

partial_function (option) namei_scan ::
  "u32 \<Rightarrow> cstring \<Rightarrow> u32 \<Rightarrow> int \<Rightarrow> u32 \<Rightarrow> 'a files_scheme
     \<Rightarrow> (u32 option \<times> 'a files_scheme) result option" where
  "namei_scan sb dir buf line offset s =
     (case print_romfs_entry line offset buf False s of
        Inl e \<Rightarrow> Some (Inl e)
      | Inr r \<Rightarrow>
          (let next_offset = fst (snd r); s1 = snd (snd r)
           in (case str_at (mem s1) (buf + (next_offset + 16)) of
                 None \<Rightarrow> None
               | Some fn \<Rightarrow>
                   (if s_strcmp fn dir = 0
                    then Some (rbind (namei_found sb dir buf next_offset s1) (\<lambda>(ino, s2). Inr (Some ino, s2)))
                    else (case namei_report buf line next_offset s1 of
                            Inl e \<Rightarrow> Some (Inl e)
                          | Inr q \<Rightarrow>
                              (if next_offset \<noteq> 0 then namei_scan sb dir buf (fst q) next_offset (snd q)
                               else Some (Inr (None, snd q))))))))"

text \<open>
  The outer loop reads the whole device from its start in every turn. The copy of the
  identification into a local array that nothing reads is left out.
\<close>

partial_function (option) namei_loop ::
  "u32 \<Rightarrow> cstring \<Rightarrow> u32 \<Rightarrow> u32 \<Rightarrow> 'a files_scheme \<Rightarrow> (u32 \<times> 'a files_scheme) result option" where
  "namei_loop sb dir buf all_read_count s =
     (let dev = sb_device (sb_obj s sb)
      in (case dout dev buf 0 (storage_size (sd_obj s dev)) s of
            Inl e \<Rightarrow> Some (Inl e)
          | Inr r \<Rightarrow>
              (let read_count = (word_of_int (fst r) :: u32); s1 = snd r
               in (if read_count = 0 then Some (Inr (0, s1))
                   else (case str_at (mem s1) (buf + 16) of
                           None \<Rightarrow> None
                         | Some volume \<Rightarrow>
                             (case namei_scan sb dir buf 7
                                     (get_next_16_boundary (s_strlen volume + 0x10)) s1 of
                                None \<Rightarrow> None
                              | Some (Inl e) \<Rightarrow> Some (Inl e)
                              | Some (Inr (Some ino, s2)) \<Rightarrow> Some (Inr (ino, s2))
                              | Some (Inr (None, s2)) \<Rightarrow>
                                  (let s3 = s32_print (map of_char ''scan romfs ok'') (screen_line 25)
                                              (clear_line 25 s2)
                                   in (if all_read_count + read_count \<ge> storage_size (sd_obj s3 dev)
                                       then Some (Inr (0, s3))
                                       else namei_loop sb dir buf (all_read_count + read_count) s3))))))))"

definition romfs_namei :: "u32 \<Rightarrow> cstring \<Rightarrow> 'a files_scheme \<Rightarrow> (u32 \<times> 'a files_scheme) result" where
  "romfs_namei sb dir s =
     (let (buf, s1) = alloc_mem s
      in rbind (loop_result (namei_loop sb dir buf 0 s1)) (\<lambda>r. r))"

definition inode_dsize :: "mem \<Rightarrow> u32 \<Rightarrow> u32" where "inode_dsize m ino = read32 m (ino + 8)"
definition inode_daddr :: "mem \<Rightarrow> u32 \<Rightarrow> u32" where "inode_daddr m ino = read32 m (ino + 12)"

definition romfs_get_daddr :: "u32 \<Rightarrow> mem \<Rightarrow> u32" where
  "romfs_get_daddr inode m =
     (let fn_len = 2;
          fn_content_offset =
            (if inode_dsize m inode \<noteq> 0 then get_next_16_boundary (inode_daddr m inode + fn_len) else 0)
      in fn_content_offset + 16)"

section \<open>Reading the directory\<close>

partial_function (option) readdir_scan ::
  "u32 \<Rightarrow> u32 \<Rightarrow> 'a files_scheme \<Rightarrow> 'a files_scheme result option" where
  "readdir_scan buf offset s =
     (case print_romfs_entry 7 offset buf False s of
        Inl e \<Rightarrow> Some (Inl e)
      | Inr r \<Rightarrow>
          (let next_offset = fst (snd r); s1 = snd (snd r)
           in (case str_at (mem s1) (buf + (next_offset + 16)) of
                 None \<Rightarrow> None
               | Some fn \<Rightarrow>
                   (if next_offset \<noteq> 0 then readdir_scan buf next_offset s1 else Some (Inr s1)))))"

text \<open>The function has no return value when it reaches its end; the null pointer is its only value.\<close>

definition k_readdir :: "Link \<Rightarrow> 'a files_scheme \<Rightarrow> (u32 option \<times> 'a files_scheme) result" where
  "k_readdir L s =
     (let sb = fs_type s ROMFS; dev = sb_device (sb_obj s sb); buf = readdir_buf L
      in rbind (dout dev buf 0 (sector_size (sd_obj s dev)) s) (\<lambda>(r, s1).
           if r \<noteq> 0 then Inr (Some 0, s1)
           else rbind (loop_result (str_at (mem s1) (buf + 16))) (\<lambda>volume.
                rbind (loop_result (readdir_scan buf (get_next_16_boundary (s_strlen volume + 0x10)) s1))
                  (\<lambda>q. rbind q (\<lambda>s2. Inr (None, s2))))))"

definition romfs_init :: "Link \<Rightarrow> 'a files_scheme \<Rightarrow> (int \<times> 'a files_scheme) result" where
  "romfs_init L s =
     rbind (register_file_system (romfs_sb L) ROMFS s) (\<lambda>(ret, s1).
       Inr (ret, s1\<lparr>sb_obj := (sb_obj s1)(romfs_sb L :=
         (sb_obj s1 (romfs_sb L))\<lparr>sb_device := storage s1 RAMDISK\<rparr>)\<rparr>))"

section \<open>Properties\<close>

lemma be32tole32_bytes:
  "be32tole32 v = ucast (ucast (drop_bit 24 v) :: u8) OR push_bit 8 (ucast (ucast (drop_bit 16 v) :: u8))
     OR push_bit 16 (ucast (ucast (drop_bit 8 v) :: u8)) OR push_bit 24 (ucast (ucast v :: u8))"
  by (simp add: be32tole32_def Let_def xor_swap_swaps)

lemma join_bytes:
  fixes b0 b1 b2 b3 :: u8
  defines "w \<equiv> ucast b0 OR push_bit 8 (ucast b1) OR push_bit 16 (ucast b2) OR push_bit 24 (ucast b3) :: u32"
  shows "(ucast w :: u8) = b0" "(ucast (drop_bit 8 w) :: u8) = b1"
    "(ucast (drop_bit 16 w) :: u8) = b2" "(ucast (drop_bit 24 w) :: u8) = b3"
  unfolding w_def by (rule bit_word_eqI, auto simp: bit_simps dest: bit_imp_le_length)+

lemma read32_bytes:
  "(ucast (read32 m a) :: u8) = m a" "(ucast (drop_bit 8 (read32 m a)) :: u8) = m (a + 1)"
  "(ucast (drop_bit 16 (read32 m a)) :: u8) = m (a + 2)" "(ucast (drop_bit 24 (read32 m a)) :: u8) = m (a + 3)"
  unfolding read32_def by (rule join_bytes)+

text \<open>Also: The byte swap turns a word stored with its most significant byte first into its value, and
  swapping twice gives the word back.\<close>

theorem be32_reads_big_endian:
  "be32tole32 (read32 m a) = ucast (m (a + 3)) OR push_bit 8 (ucast (m (a + 2)))
     OR push_bit 16 (ucast (m (a + 1))) OR push_bit 24 (ucast (m a))
   \<and> le32tobe32 (be32tole32 v) = v"
proof
  show "be32tole32 (read32 m a) = ucast (m (a + 3)) OR push_bit 8 (ucast (m (a + 2)))
     OR push_bit 16 (ucast (m (a + 1))) OR push_bit 24 (ucast (m a))"
    unfolding be32tole32_bytes read32_bytes ..
  have "le32tobe32 (be32tole32 v) = ucast (ucast v :: u8) OR push_bit 8 (ucast (ucast (drop_bit 8 v) :: u8))
     OR push_bit 16 (ucast (ucast (drop_bit 16 v) :: u8)) OR push_bit 24 (ucast (ucast (drop_bit 24 v) :: u8))"
    unfolding le32tobe32_def be32tole32_bytes [of "be32tole32 v"]
    unfolding be32tole32_bytes [of v] join_bytes ..
  then show "le32tobe32 (be32tole32 v) = v" by (simp only: word32_bytes)
qed

lemma round_up_16:
  "k mod 16 = 0 \<Longrightarrow> 16 * ((k + 15) div 16) = (k :: nat)"
  "k mod 16 \<noteq> 0 \<Longrightarrow> 16 * ((k + 15) div 16) = k + (16 - k mod 16 :: nat)"
proof -
  have k: "16 * (k div 16) + k mod 16 = k" by simp
  show "k mod 16 = 0 \<Longrightarrow> 16 * ((k + 15) div 16) = k" by (auto simp: mod_eq_0_iff_dvd)
  assume "k mod 16 \<noteq> 0"
  then have "(k mod 16 + 15) div 16 = 1" by (intro div_nat_eqI) simp_all
  then have "(k + 15) div 16 = k div 16 + 1"
    using div_mult_self3 [of 16 "k div 16" "k mod 16 + 15"] k by (simp add: add.commute add.left_commute)
  then show "16 * ((k + 15) div 16) = k + (16 - k mod 16)" using k mod_less_divisor [of 16 k] by linarith
qed

lemma next_16_boundary_nat:
  assumes "unat x + 15 < 2 ^ 32"
  shows "unat (get_next_16_boundary x) = 16 * ((unat x + 15) div 16)"
proof -
  have m: "x AND 15 = take_bit 4 x" using and_masks(1) [of x] by simp
  have "unat (take_bit 4 x) = take_bit 4 (unat x)" by (simp add: unsigned_take_bit_eq)
  then have r: "unat (x AND 15) = unat x mod 16" by (simp add: m take_bit_eq_mod)
  show ?thesis
  proof (cases "unat x mod 16 = 0")
    case True
    then have "x AND 15 = 0" using r by (metis unat_eq_zero)
    then show ?thesis using round_up_16(1) [OF True] by (simp add: get_next_16_boundary_def)
  next
    case False
    then have nz: "x AND 15 \<noteq> 0" using r by (metis unsigned_0)
    have lt: "unat x mod 16 < 16" by simp
    have "unat (16 - (x AND 15)) = 16 - unat x mod 16"
      by (subst unat_sub) (use lt in \<open>simp_all add: r word_le_nat_alt\<close>)
    moreover have "unat (x + (16 - (x AND 15))) = unat x + unat (16 - (x AND 15))"
      using assms False calculation by (simp add: unat_word_ariths(1))
    ultimately show ?thesis using nz round_up_16(2) [OF False] by (simp add: get_next_16_boundary_def)
  qed
qed

lemma get_daddr_nat:
  assumes "inode_dsize m ino \<noteq> 0" and "unat (inode_daddr m ino) mod 16 = 0" and "unat (inode_daddr m ino) + 64 < 2 ^ 32"
  shows "unat (romfs_get_daddr ino m) = unat (inode_daddr m ino) + 32"
proof -
  let ?d = "inode_daddr m ino"
  have "unat (?d + 2) = unat ?d + 2" using assms(3) by (simp add: unat_word_ariths(1))
  moreover have "(unat ?d + 2) mod 16 = 2" using assms(2) mod_add_left_eq [of "unat ?d" 16 2] by simp
  then have "16 * ((unat ?d + 17) div 16) = unat ?d + 16"
    using round_up_16(2) [of "unat ?d + 2"] by (simp add: add.commute)
  ultimately have "unat (get_next_16_boundary (?d + 2)) = unat ?d + 16"
    using next_16_boundary_nat [of "?d + 2"] assms(3) by (simp add: add.commute)
  then show ?thesis
    using assms(1,3) by (simp add: romfs_get_daddr_def Let_def unat_word_ariths(1))
qed

text \<open>Also: Where \<open>romfs_get_daddr\<close> looks for the data of a file: the format puts them at the next
  16-byte boundary behind the name and its terminator, and for a header at a 16-byte boundary
  the function returns that place exactly when the name has at most 15 characters.\<close>

theorem get_daddr_short_names:
  assumes "inode_dsize m ino \<noteq> 0" and "unat (inode_daddr m ino) mod 16 = 0"
    and "unat (inode_daddr m ino) + 64 + len < 2 ^ 32"
  shows "romfs_get_daddr ino m = get_next_16_boundary (inode_daddr m ino + 16 + of_nat len + 1)
    \<longleftrightarrow> len \<le> 15"
proof -
  let ?d = "inode_daddr m ino"
  have len: "unat (of_nat len :: u32) = len" using assms(3) by (intro unat_of_nat32) simp
  have 2: "unat (?d + 16 + of_nat len + 1) = unat ?d + 17 + len"
    using assms(3) len by (simp add: unat_word_ariths(1))
  have b: "unat (romfs_get_daddr ino m) = unat ?d + 32" using assms by (intro get_daddr_nat) simp_all
  have c: "unat (get_next_16_boundary (?d + 16 + of_nat len + 1)) = 16 * ((unat ?d + 17 + len + 15) div 16)"
    using next_16_boundary_nat [of "?d + 16 + of_nat len + 1"] 2 assms(3) by simp
  have "unat ?d + 32 = 16 * ((unat ?d + 17 + len + 15) div 16) \<longleftrightarrow> len \<le> 15"
  proof -
    obtain q where q: "unat ?d = 16 * q" using assms(2) by (auto simp: mod_eq_0_iff_dvd)
    have "(16 * q + 17 + len + 15) div 16 = q + 2 + len div 16"
      using div_mult_self4 [of 16 "q + 2" len] by (simp add: algebra_simps)
    then show ?thesis using q by auto
  qed
  then show ?thesis using b c by (simp add: word_unat_eq_iff)
qed

theorem get_daddr_short_names_witness:
  "romfs_get_daddr 0x100 (fill_inode 0x100 0 3 64 0 (\<lambda>_. 0)) = get_next_16_boundary (64 + 16 + of_nat 4 + 1)
   \<and> romfs_get_daddr 0x100 (fill_inode 0x100 0 3 64 0 (\<lambda>_. 0)) \<noteq> get_next_16_boundary (64 + 16 + of_nat 16 + 1)"
proof -
  let ?m = "fill_inode 0x100 0 3 64 0 (\<lambda>_. 0)"
  have "inode_dsize ?m 0x100 = 3" "inode_daddr ?m 0x100 = 64" by code_simp+
  then show ?thesis using get_daddr_short_names [of ?m "0x100" 4] get_daddr_short_names [of ?m "0x100" 16] by simp
qed

text \<open>Also: Reading the directory never succeeds: the device returns the number of bytes it has read,
  which \<open>k_readdir\<close> takes for an error, so that it always returns the null pointer without
  having looked at the image.\<close>

theorem k_readdir_always_fails:
  fixes s :: "'a files_scheme"
  assumes "fs_type s ROMFS = sb" and "sb_device (sb_obj s sb) = dev" and "dev \<noteq> 0"
    and "sector_size (sd_obj s dev) = 512"
  shows "\<exists>s1. k_readdir L s = Inr (Some 0, s1)"
  using assms by (cases "sd_dout (sd_obj s dev)") (simp add: k_readdir_def dout_def ramdisk_dout_def Let_def)

definition mounted_files :: files where
  "mounted_files = (blank_files sample_link)\<lparr>
     sb_obj := (sb_obj (blank_files sample_link))(0x2000 :=
       (sb_obj (blank_files sample_link) 0x2000)\<lparr>sb_device := 0x1000\<rparr>),
     fs_type := (\<lambda>_. 0x2000)\<rparr>"

theorem k_readdir_always_fails_witness:
  "\<exists>s1. k_readdir sample_link mounted_files = Inr (Some 0, s1)"
  by (rule k_readdir_always_fails [of mounted_files "0x2000" "0x1000"])
    (simp_all add: mounted_files_def blank_files_def memory.defs files.defs ramdisk_sd_initial_def)

end
