(* ===== verification/Romfs_Lookup.thy ===== *)
theory Romfs_Lookup
  imports Romfs
begin

text \<open>
  What a lookup in the read-only file system finds. An image is described by the list of its
  files as the headers chain them; the scan of \<open>romfs_namei\<close> is proved to find the entry of
  a name in that list, although it prints to the screen memory between two steps.
\<close>

unbundle bit_operations_syntax

section \<open>Code that only writes to the screen\<close>

text \<open>\<open>screen_only D s s'\<close>: between the states only the \<open>D\<close> bytes from the start of the text
  screen and the cursor pointer of the direct output differ.\<close>

definition screen_only :: "nat \<Rightarrow> 'a stdio_scheme \<Rightarrow> 'a stdio_scheme \<Rightarrow> bool" where
  "screen_only D s s' \<longleftrightarrow>
     (\<exists>m c. s' = s\<lparr>mem := m, cur_vb := c\<rparr> \<and> (\<forall>x. \<not> addr_in VB D x \<longrightarrow> m x = mem s x))"

lemma screen_only_refl [simp, intro]: "screen_only D s s"
  by (rule screen_only_def [THEN iffD2], rule exI [of _ "mem s"], rule exI [of _ "cur_vb s"]) simp

lemma screen_only_trans: "screen_only D s t \<Longrightarrow> screen_only D t u \<Longrightarrow> screen_only D s u"
  unfolding screen_only_def by (elim exE conjE) (simp, blast)

lemma screen_only_mem: "screen_only D s s' \<Longrightarrow> \<not> addr_in VB D x \<Longrightarrow> mem s' x = mem s x"
  by (auto simp: screen_only_def)

lemma addr_in_of_nat: "k < D \<Longrightarrow> D \<le> 2 ^ 32 \<Longrightarrow> addr_in VB D (VB + of_nat k)"
  by (rule addr_in_offset)

lemma screen_print:
  assumes "p + 2 * length cs \<le> D" and "D \<le> 2 ^ 32"
  shows "screen_only D s (s32_print cs (VB + of_nat p) s)"
proof -
  have "fst (s32_print_loop cs (VB + of_nat p) (mem s)) x = mem s x" if "\<not> addr_in VB D x" for x
  proof (rule s32_print_loop_outside)
    fix i assume "i < length cs"
    then have "addr_in VB D (VB + of_nat (p + 2 * i))"
      using assms by (intro addr_in_of_nat) auto
    then show "x \<noteq> VB + of_nat p + 2 * of_nat i" using that by (auto simp: algebra_simps)
  qed
  then show ?thesis
    unfolding screen_only_def s32_print_def Let_def case_prod_beta by blast
qed

lemma blank_cells_outside:
  assumes "p + 2 * n \<le> D" and "D \<le> 2 ^ 32" and "\<not> addr_in VB D x"
  shows "blank_cells n (VB + of_nat p) m x = m x"
  using assms
proof (induction n arbitrary: p m)
  case (Suc n)
  have ne: "x \<noteq> VB + of_nat (p + k)" if "k < 2" for k
    using addr_in_of_nat [of "p + k" D] Suc.prems that by auto
  have "blank_cells n (VB + of_nat (p + 2)) m' x = m' x" for m'
    using Suc.prems by (intro Suc.IH) auto
  then show ?case using ne [of 0] ne [of 1] by (simp add: algebra_simps)
qed simp

lemma screen_clear_line_u8:
  assumes "160 * (unat l + 1) \<le> D" and "D \<le> 2 ^ 32"
  shows "screen_only D s (clear_line l s)"
proof -
  have "ucast l = (of_nat (unat l) :: u32)"
    by (rule unsigned_word_eqI [where ?'a = nat]) (simp add: unat_of_nat)
  then have "VB + 160 * ucast l = VB + of_nat (160 * unat l)" by simp
  then have "clear_line l s = s\<lparr>mem := blank_cells 80 (VB + of_nat (160 * unat l)) (mem s)\<rparr>"
    by (simp only: clear_line_def)
  moreover have "blank_cells 80 (VB + of_nat (160 * unat l)) (mem s) x = mem s x"
    if "\<not> addr_in VB D x" for x
    by (rule blank_cells_outside [OF _ assms(2) that]) (use assms(1) in simp)
  moreover have "s\<lparr>mem := m\<rparr> = s\<lparr>mem := m, cur_vb := cur_vb s\<rparr>" for m by simp
  ultimately show ?thesis unfolding screen_only_def by metis
qed

lemma unat_u8_of_int: "0 \<le> line \<Longrightarrow> unat (word_of_int line :: u8) \<le> nat line"
  by (simp add: unat_eq_nat_uint uint_word_of_int nat_le_eq_zle zmod_le_nonneg_dividend)

lemma screen_clear_line:
  assumes "160 * (nat line + 1) \<le> D" and "D \<le> 2 ^ 32" and "0 \<le> line"
  shows "screen_only D s (clear_line (word_of_int line) s)"
  by (rule screen_clear_line_u8 [OF order_trans [OF mult_le_mono2 assms(1)] assms(2)])
    (simp add: unat_u8_of_int [OF assms(3)])

lemma screen_line_nat: "0 \<le> line \<Longrightarrow> screen_line line = VB + of_nat (160 * nat line)"
  by simp

lemma length_number: "length (number v 16) \<le> 8" "length (number v 10) \<le> 10"
proof -
  have v: "unat v < 16 ^ 8" using unsigned_less [of v, where ?'a = nat] by simp
  then have "unat v < 10 ^ 10" by simp
  then show "length (number v 10) \<le> 10" using digits_length [of "unat v" 10 10] by (auto simp: number_def)
  show "length (number v 16) \<le> 8" using digits_length [OF v] by (auto simp: number_def)
qed

lemma screen_print_field:
  assumes "160 * (nat line + 1) \<le> D" and "D \<le> 2 ^ 32" and "0 \<le> line"
    and "length label \<le> 60" and "c \<le> 100" and "r = 10 \<or> r = 16"
  shows "\<exists>s'. print_field label line (of_nat c) v r s = Inr s' \<and> screen_only D s s'"
proof -
  let ?t = "s32_print (map of_char label) (screen_line line) (clear_line (word_of_int line) s)"
  let ?vb = "VB + of_nat (160 * nat line + c)"
  have vb: "screen_line line + of_nat c = ?vb" using assms(3) by simp
  have 1: "screen_only D s ?t"
    unfolding screen_line_nat [OF assms(3)]
    by (rule screen_only_trans [OF screen_clear_line [OF assms(1-3)] screen_print [OF _ assms(2)]])
      (use assms in auto)
  have 2: "screen_only D ?t (s32_print (number v (nat r)) ?vb ?t)"
    by (rule screen_print [OF _ assms(2)]) (use assms length_number [of v] in auto)
  have "s32_itoa v r = Inr (number v (nat r))"
    using assms(6) s32_itoa_number [of 10 v] s32_itoa_number [of 16 v] by auto
  then have "print_field label line (of_nat c) v r s = Inr (s32_print (number v (nat r)) ?vb ?t)"
    unfolding print_field_def s32_print_int_def vb by simp
  then show ?thesis using screen_only_trans [OF 1 2] by blast
qed

lemma screen_dump_loop:
  "p + 6 * n \<le> D \<Longrightarrow> D \<le> 2 ^ 32 \<Longrightarrow> screen_only D s (p_dump_loop n a (VB + of_nat p) s)"
proof (induction n arbitrary: p a s)
  case (Suc n)
  obtain c0 c1 where c: "h2c (mem s a) = (c0, c1)" by (cases "h2c (mem s a)")
  let ?t = "s32_print [c0, c1, 0x20] (VB + of_nat p) s"
  have 1: "screen_only D s ?t" by (rule screen_print) (use Suc.prems in auto)
  have "screen_only D ?t (p_dump_loop n (a + 1) (VB + of_nat (p + 6)) ?t)"
    using Suc.prems by (intro Suc.IH) auto
  then show ?case using screen_only_trans [OF 1] c by (simp add: algebra_simps)
qed simp

lemma screen_dump: "6 * nat len \<le> D \<Longrightarrow> D \<le> 2 ^ 32 \<Longrightarrow> screen_only D s (p_dump_u8 a len s)"
  using screen_dump_loop [of 0 "nat len" D s a] by (simp add: p_dump_u8_def)

lemma screen_report:
  assumes "160 * (nat line + 2) \<le> D" and "D \<le> 2 ^ 32" and "0 \<le> line"
    and "o' = 0 \<or> 6 * nat (sint (be32tole32 (hdr_size (mem s) (buf + o')))) \<le> D"
  shows "\<exists>l s'. namei_report buf line o' s = Inr (l, s') \<and> screen_only D s s' \<and> line \<le> l \<and> l \<le> line + 2"
proof -
  let ?sz = "be32tole32 (hdr_size (mem s) (buf + o'))"
  let ?fco = "if ?sz \<noteq> 0 then get_next_16_boundary (o' + 16 + ?sz) else 0"
  obtain s1 where s1: "print_field ''next_offset:'' line (of_nat 24) o' 16 s = Inr s1" "screen_only D s s1"
    using screen_print_field [of line D "''next_offset:''" 24 16 o' s] assms by auto
  obtain s2 where s2: "print_field ''fn_con_off:'' (line + 1) (of_nat 24) ?fco 16 s1 = Inr s2" "screen_only D s1 s2"
    using screen_print_field [of "line + 1" D "''fn_con_off:''" 24 16 ?fco s1] assms by (auto simp: nat_add_distrib)
  let ?s3 = "clear_line 0 s2" let ?s4 = "clear_line 1 ?s3"
  have 3: "screen_only D s2 ?s3" by (rule screen_clear_line_u8) (use assms in auto)
  have 4: "screen_only D ?s3 ?s4" by (rule screen_clear_line_u8) (use assms in auto)
  have 5: "screen_only D ?s4 (p_dump_u8 (buf + ?fco) (sint ?sz) ?s4)" if "o' \<noteq> 0"
    by (rule screen_dump) (use assms that in auto)
  have "screen_only D s (p_dump_u8 (buf + ?fco) (sint ?sz) ?s4)" if "o' \<noteq> 0"
    using s1(2) s2(2) 3 4 5 [OF that] screen_only_trans by blast
  then show ?thesis
    using s1 s2 unfolding namei_report_def Let_def by simp
qed

section \<open>Images\<close>

text \<open>\<open>agrees\<close>: the bytes from \<open>buf\<close> on are the first \<open>n\<close> of the image.\<close>

definition agrees :: "mem \<Rightarrow> u32 \<Rightarrow> mem \<Rightarrow> nat \<Rightarrow> bool" where
  "agrees m buf img n \<longleftrightarrow> (\<forall>x. unat x < n \<longrightarrow> m (buf + x) = img x)"

definition next_of :: "mem \<Rightarrow> u32 \<Rightarrow> u32" where
  "next_of img off = be32tole32 (hdr_nextfh img off) AND 0xfffffff0"

text \<open>A header at an offset with a name and a size, inside the first \<open>n\<close> bytes.\<close>

definition entry_at :: "mem \<Rightarrow> nat \<Rightarrow> u32 \<Rightarrow> cstring \<Rightarrow> u32 \<Rightarrow> bool" where
  "entry_at img n off name sz \<longleftrightarrow>
     unat off + 16 + length name < n \<and> string_in img (off + 16) name \<and> be32tole32 (hdr_size img off) = sz"

text \<open>The files that follow the header at \<open>off\<close>: offset, name, size.\<close>

fun directory :: "mem \<Rightarrow> nat \<Rightarrow> u32 \<Rightarrow> (u32 \<times> cstring \<times> u32) list \<Rightarrow> bool" where
  "directory img n off [] \<longleftrightarrow> next_of img off = 0"
| "directory img n off ((o', name, sz) # es) \<longleftrightarrow>
     next_of img off = o' \<and> o' \<noteq> 0 \<and> entry_at img n o' name sz \<and> directory img n o' es"

lemma agrees_screen:
  assumes "agrees (mem s) buf img n" and "screen_only D s s'" and "disjoint_ranges buf n VB D"
    and "n \<le> 2 ^ 32"
  shows "agrees (mem s') buf img n"
  unfolding agrees_def
proof (intro allI impI)
  fix x :: u32 assume "unat x < n"
  then have "\<not> addr_in VB D (buf + x)"
    by (intro disjoint_rangesD [OF assms(3)]) (simp add: addr_in_def)
  then show "mem s' (buf + x) = img x"
    using assms(1) screen_only_mem [OF assms(2)] \<open>unat x < n\<close> by (simp add: agrees_def)
qed

lemma unat_add_le: "unat (x + of_nat k :: u32) \<le> unat x + k"
  by (simp add: unat_word_ariths unat_of_nat)

lemma agrees_read32:
  assumes "agrees m buf img n" and "unat x + 4 \<le> n"
  shows "read32 m (buf + x) = read32 img x"
proof -
  have "m (buf + x + of_nat k) = img (x + of_nat k)" if "k < 4" for k
  proof -
    have "unat (x + of_nat k) < n" using unat_add_le [of x k] that assms(2) by linarith
    then show ?thesis using assms(1) by (simp add: agrees_def add.assoc)
  qed
  from this [of 0] this [of 1] this [of 2] this [of 3] show ?thesis by (simp add: read32_def)
qed

lemma agrees_string:
  "agrees m buf img n \<Longrightarrow> unat x + length cs < n \<Longrightarrow> string_in img x cs \<Longrightarrow> string_in m (buf + x) cs"
proof (induction cs arbitrary: x)
  case (Cons c cs)
  have "unat (x + 1) + length cs < n" using unat_add_le [of x 1] Cons.prems(2) by simp
  then have "string_in m (buf + (x + 1)) cs" using Cons by simp
  then show ?case using Cons.prems by (simp add: agrees_def add.assoc)
qed (simp add: agrees_def)

lemma str_at_string: "string_in m a cs \<Longrightarrow> str_at m a = Some cs"
proof (induction cs arbitrary: a)
  case Nil
  then show ?case by (subst str_at.simps) simp
next
  case (Cons c cs)
  then show ?case by (subst str_at.simps) simp
qed

lemma string_in_nonzero: "string_in m a cs \<Longrightarrow> 0 \<notin> set cs"
  by (induction cs arbitrary: a) auto

section \<open>The scan\<close>

lemma print_entry_quiet:
  assumes "agrees (mem s) buf img n" and "entry_at img n off name sz"
  shows "print_romfs_entry line off buf False s = Inr (buf + off, next_of img off, s)"
proof -
  have "unat (off + 16) + length name < n"
    using assms(2) unat_add_le [of off 16] by (simp add: entry_at_def)
  then have "string_in (mem s) (buf + (off + 16)) name"
    using assms by (intro agrees_string [OF assms(1)]) (auto simp: entry_at_def)
  then have "str_at (mem s) (buf + (off + 16)) = Some name" by (rule str_at_string)
  moreover have "read32 (mem s) (buf + off) = read32 img off"
    using assms by (intro agrees_read32 [OF assms(1)]) (auto simp: entry_at_def)
  ultimately show ?thesis
    by (simp add: print_romfs_entry_def Let_def hdr_nextfh_def next_of_def)
qed

lemma entry_facts:
  assumes "agrees m buf img n" and "entry_at img n off name sz"
  shows "str_at m (buf + (off + 16)) = Some name" and "0 \<notin> set name"
    and "be32tole32 (hdr_size m (buf + off)) = sz"
proof -
  have n: "unat (off + 16) + length name < n"
    using assms(2) unat_add_le [of off 16] by (simp add: entry_at_def)
  then have str: "string_in m (buf + (off + 16)) name"
    using assms by (intro agrees_string [OF assms(1)]) (auto simp: entry_at_def)
  show "str_at m (buf + (off + 16)) = Some name" by (rule str_at_string [OF str])
  show "0 \<notin> set name" by (rule string_in_nonzero [OF str])
  have "unat (off + 8) + 4 \<le> n" using assms(2) unat_add_le [of off 8] by (simp add: entry_at_def)
  then have "read32 m (buf + (off + 8)) = read32 img (off + 8)" by (rule agrees_read32 [OF assms(1)])
  then show "be32tole32 (hdr_size m (buf + off)) = sz"
    using assms(2) by (simp add: entry_at_def hdr_size_def add.assoc)
qed

text \<open>What the scan needs of the image, of its place in memory and of the screen extent.\<close>

definition scannable :: "mem \<Rightarrow> nat \<Rightarrow> u32 \<Rightarrow> nat \<Rightarrow> bool" where
  "scannable img n buf D \<longleftrightarrow> disjoint_ranges buf n VB D \<and> n \<le> 2 ^ 32 \<and> D \<le> 2 ^ 32 \<and> 26 * 160 \<le> D"

lemma scan_step:
  assumes "agrees (mem s) buf img n" and "entry_at img n off name0 sz0"
    and "entry_at img n (next_of img off) name sz" and "name \<noteq> dir" and "0 \<notin> set dir"
    and "scannable img n buf D" and "next_of img off = 0 \<or> 6 * nat (sint sz) \<le> D"
    and "160 * (nat line + 2) \<le> D" and "0 \<le> line"
  shows "\<exists>l s'. screen_only D s s' \<and> agrees (mem s') buf img n \<and> line \<le> l \<and> l \<le> line + 2
    \<and> namei_scan sb dir buf line off s =
        (if next_of img off \<noteq> 0 then namei_scan sb dir buf l (next_of img off) s' else Some (Inr (None, s')))"
proof -
  note e = entry_facts [OF assms(1,3)]
  have ne: "s_strcmp name dir \<noteq> 0" using s_strcmp_zero_iff [OF e(2) assms(5)] assms(4) by simp
  have D: "D \<le> 2 ^ 32" using assms(6) by (simp add: scannable_def)
  obtain l s' where rep: "namei_report buf line (next_of img off) s = Inr (l, s')"
    and s': "screen_only D s s'" and l: "line \<le> l" "l \<le> line + 2"
    using screen_report [OF assms(8) D assms(9), where s = s and buf = buf and o' = "next_of img off"]
      assms(7) e(3) by auto
  have "agrees (mem s') buf img n"
    by (rule agrees_screen [OF assms(1) s']) (use assms(6) in \<open>auto simp: scannable_def\<close>)
  then show ?thesis
    using s' l rep e(1) ne
    by (intro exI [of _ l] exI [of _ s']) (subst namei_scan.simps, simp add: print_entry_quiet [OF assms(1,2)] Let_def)
qed

lemma scan_found:
  assumes "directory img n off (pre @ (o', dir, sz) # post)" and "entry_at img n off name0 sz0"
    and "dir \<notin> (\<lambda>(_, name, _). name) ` set pre" and "0 \<notin> set dir" and "scannable img n buf D"
    and "\<forall>(_, _, z) \<in> set pre. 6 * nat (sint z) \<le> D"
    and "agrees (mem s) buf img n" and "160 * (nat line + 2 * length pre) \<le> D" and "0 \<le> line"
  shows "\<exists>s'. screen_only D s s' \<and> agrees (mem s') buf img n \<and> namei_scan sb dir buf line off s =
    Some (rbind (namei_found sb dir buf o' s') (\<lambda>(ino, t). Inr (Some ino, t)))"
  using assms
proof (induction pre arbitrary: off name0 sz0 s line)
  case Nil
  then have nx: "next_of img off = o'" and e: "entry_at img n o' dir sz" by auto
  have "s_strcmp dir dir = 0" using s_strcmp_zero_iff [OF Nil.prems(4,4)] by simp
  then show ?case
    using entry_facts [OF Nil.prems(7) e] Nil.prems(7)
    by (intro exI [of _ s]) (subst namei_scan.simps,
        simp add: print_entry_quiet [OF Nil.prems(7,2)] Let_def nx)
next
  case (Cons a pre)
  obtain o1 name1 sz1 where a: "a = (o1, name1, sz1)" by (cases a)
  have nx: "next_of img off = o1" and o1: "o1 \<noteq> 0" and e1: "entry_at img n o1 name1 sz1"
    and dir1: "directory img n o1 (pre @ (o', dir, sz) # post)" using Cons.prems(1) a by auto
  obtain l s1 where s1: "screen_only D s s1" "agrees (mem s1) buf img n" "line \<le> l" "l \<le> line + 2"
    and eq: "namei_scan sb dir buf line off s = namei_scan sb dir buf l o1 s1"
    using scan_step [OF Cons.prems(7,2), of name1 sz1 dir D line sb] e1 Cons.prems a nx o1 by auto
  have "nat l + 2 * length pre \<le> nat line + 2 * length (a # pre)" using s1 Cons.prems(9) by simp
  then have "160 * (nat l + 2 * length pre) \<le> D" using Cons.prems(8) by (meson le_trans mult_le_mono2)
  then have "\<exists>s'. screen_only D s1 s' \<and> agrees (mem s') buf img n \<and> namei_scan sb dir buf l o1 s1 =
      Some (rbind (namei_found sb dir buf o' s') (\<lambda>(ino, t). Inr (Some ino, t)))"
    using Cons.prems s1 by (intro Cons.IH [OF dir1 e1]) simp_all
  then show ?case using eq screen_only_trans [OF s1(1)] by metis
qed

text \<open>A name that is in none of the entries, and is not the volume name either.\<close>

lemma scan_not_found:
  assumes "directory img n off es" and "entry_at img n off name0 sz0" and "entry_at img n 0 volume vsz"
    and "dir \<notin> (\<lambda>(_, name, _). name) ` set es" and "dir \<noteq> volume" and "0 \<notin> set dir"
    and "scannable img n buf D" and "\<forall>(_, _, z) \<in> set es. 6 * nat (sint z) \<le> D"
    and "agrees (mem s) buf img n" and "160 * (nat line + 2 * length es + 2) \<le> D" and "0 \<le> line"
  shows "\<exists>s'. screen_only D s s' \<and> namei_scan sb dir buf line off s = Some (Inr (None, s'))"
  using assms
proof (induction es arbitrary: off name0 sz0 s line)
  case Nil
  then have nx: "next_of img off = 0" by simp
  then show ?case
    using scan_step [OF Nil.prems(9,2), of volume vsz dir D line sb] Nil.prems by auto
next
  case (Cons a es)
  obtain o1 name1 sz1 where a: "a = (o1, name1, sz1)" by (cases a)
  have nx: "next_of img off = o1" and o1: "o1 \<noteq> 0" and e1: "entry_at img n o1 name1 sz1"
    and dir1: "directory img n o1 es" using Cons.prems(1) a by auto
  obtain l s1 where s1: "screen_only D s s1" "agrees (mem s1) buf img n" "line \<le> l" "l \<le> line + 2"
    and eq: "namei_scan sb dir buf line off s = namei_scan sb dir buf l o1 s1"
    using scan_step [OF Cons.prems(9,2), of name1 sz1 dir D line sb] e1 Cons.prems a nx o1 by auto
  have "nat l + 2 * length es + 2 \<le> nat line + 2 * length (a # es) + 2" using s1 Cons.prems(11) by simp
  then have "160 * (nat l + 2 * length es + 2) \<le> D" using Cons.prems(10) by (meson le_trans mult_le_mono2)
  then have "\<exists>s'. screen_only D s1 s' \<and> namei_scan sb dir buf l o1 s1 = Some (Inr (None, s'))"
    using Cons.prems s1 by (intro Cons.IH [OF dir1 e1]) simp_all
  then show ?case using eq screen_only_trans [OF s1(1)] by metis
qed

section \<open>The whole lookup\<close>

lemma alloc_mem_mem [simp]: "mem (snd (alloc_mem s)) = mem s"
  by (cases s rule: alloc_mem_cases) auto

lemma alloc_mem_files [simp]:
  "sb_obj (snd (alloc_mem s)) = sb_obj s" "sd_obj (snd (alloc_mem s)) = sd_obj s"
  "mm_start (snd (alloc_mem s)) = mm_start s"
  by (cases s rule: alloc_mem_cases, auto)+

lemma dout_ramdisk:
  "p \<noteq> 0 \<Longrightarrow> dout p dest addr n s =
    Inr (sint n, s\<lparr>mem := p_asm_memcpy (mem s) dest (addr + start_pos (sd_obj s p)) n\<rparr>)"
  by (cases "sd_dout (sd_obj s p)") (simp add: dout_def ramdisk_dout_def)

lemma free_mem_mem: "free_mem a s = Inr s' \<Longrightarrow> mem s' = mem s"
  by (auto simp: free_mem_def Let_def split: if_splits)

lemma screen_only_blocks:
  assumes "screen_only D s s'"
  shows "mm_ok s' = mm_ok s" "blocks s' = blocks s" "held_blocks s' = held_blocks s"
  using assms by (auto simp: screen_only_def mm_ok_def blocks_def held_blocks_def)

lemma disjoint_near:
  fixes a :: u32
  assumes "i + 4 \<le> j" and "j < 0x10000"
  shows "disjoint_ranges (a + of_nat i) 4 (a + of_nat j) 4"
proof -
  have ij: "unat (of_nat i :: u32) = i" "unat (of_nat j :: u32) = j"
    using assms by (auto intro!: unat_of_nat32)
  have "unat (of_nat j - of_nat i :: u32) = j - i" "unat (of_nat i - of_nat j :: u32) = i + 0x100000000 - j"
    using assms by (simp_all add: unat_sub_if' ij)
  then show ?thesis using assms unfolding disjoint_ranges_def add_diff_cancel_left
    by (intro conjI) linarith+
qed

lemma fill_inode_fields:
  "read32 (fill_inode ino f d a sb m) ino = f" "inode_dsize (fill_inode ino f d a sb m) ino = d"
  "inode_daddr (fill_inode ino f d a sb m) ino = a" "read32 (fill_inode ino f d a sb m) (ino + 16) = sb"
  using disjoint_near [of 0 8 ino] disjoint_near [of 0 12 ino] disjoint_near [of 0 16 ino]
    disjoint_near [of 8 12 ino] disjoint_near [of 8 16 ino] disjoint_near [of 12 16 ino]
  by (simp_all add: fill_inode_def inode_dsize_def inode_daddr_def read32_write32_other)

text \<open>What a lookup leaves alone: everything but the screen, the managed blocks and their bitmap.\<close>

definition kept :: "nat \<Rightarrow> 'a files_scheme \<Rightarrow> 'a files_scheme \<Rightarrow> bool" where
  "kept D s s' \<longleftrightarrow>
     proc_table s' = proc_table s \<and> sd_obj s' = sd_obj s \<and> sb_obj s' = sb_obj s
     \<and> fs_type s' = fs_type s \<and> mm_start s' = mm_start s
     \<and> (\<forall>x. \<not> addr_in VB D x \<and> (\<forall>b \<in> blocks s. \<not> addr_in b 0x80000 x) \<longrightarrow> mem s' x = mem s x)"

lemma kept_trans: "kept D s t \<Longrightarrow> kept D t u \<Longrightarrow> kept D s u"
  by (auto simp: kept_def blocks_def)

lemma kept_screen: "screen_only D s s' \<Longrightarrow> kept D s s'"
  by (auto simp: kept_def screen_only_def)

lemma kept_alloc: "kept D s (snd (alloc_mem s))"
  by (cases s rule: alloc_mem_cases) (auto simp: kept_def)

lemma kept_free: "free_mem a s = Inr s' \<Longrightarrow> kept D s s'"
  by (auto simp: kept_def free_mem_def Let_def split: if_splits)

lemma kept_block:
  "b \<in> blocks s \<Longrightarrow> (\<And>x. \<not> addr_in b 0x80000 x \<Longrightarrow> m x = mem s x) \<Longrightarrow> kept D s (s\<lparr>mem := m\<rparr>)"
  by (auto simp: kept_def)

lemma fill_inode_outside:
  assumes "\<not> addr_in ino 0x80000 x"
  shows "fill_inode ino f d a sb m x = m x"
proof -
  have "\<not> addr_in (ino + of_nat i) 4 x" if "i \<le> 16" for i
  proof
    assume "addr_in (ino + of_nat i) 4 x"
    moreover have "x - ino = (x - (ino + of_nat i)) + of_nat i" by simp
    ultimately have "unat (x - ino) \<le> 4 + i"
      using unat_add_le [of "x - (ino + of_nat i)" i] by (simp add: addr_in_def)
    then show False using assms that by (simp add: addr_in_def)
  qed
  from this [of 0] this [of 8] this [of 12] this [of 16] show ?thesis
    by (simp add: fill_inode_def write32_outside)
qed

text \<open>The state in which a lookup starts: the file system is mounted on a RAM disk whose image
  holds the directory, and the image and the screen lie below the managed memory.\<close>

definition lookup_ready ::
  "'a files_scheme \<Rightarrow> u32 \<Rightarrow> nat \<Rightarrow> nat \<Rightarrow> cstring \<Rightarrow> (u32 \<times> cstring \<times> u32) list \<Rightarrow> bool" where
  "lookup_ready s sb n D volume es \<longleftrightarrow>
     (let dev = sb_device (sb_obj s sb); start = start_pos (sd_obj s dev);
          img = (\<lambda>x. mem s (start + x)); first = get_next_16_boundary (s_strlen volume + 0x10)
      in dev \<noteq> 0 \<and> unat (storage_size (sd_obj s dev)) = n \<and> n \<le> 0x80000 \<and> mm_ok s
        \<and> unat start + n \<le> unat (mm_start s) \<and> 0xb8000 + D \<le> unat (mm_start s)
        \<and> 26 * 160 + 200 \<le> D \<and> 160 * (2 * length es + 9) \<le> D
        \<and> (\<forall>(_, _, z) \<in> set es. 6 * nat (sint z) \<le> D)
        \<and> (\<exists>vsz. entry_at img n 0 volume vsz)
        \<and> (\<exists>name0 sz0. entry_at img n first name0 sz0) \<and> directory img n first es)"

lemma namei_found_inode:
  fixes s :: "'a files_scheme"
  assumes "mm_ok s" and "held_blocks s \<noteq> blocks s" and "buf \<in> held_blocks s"
    and ag: "agrees (mem s) buf img n" and e: "entry_at img n o' dir sz" and sc: "scannable img n buf D"
    and "160 * 24 + 26 + 2 * length dir \<le> D"
  shows "\<exists>ino s'. namei_found sb dir buf o' s = Inr (ino, s') \<and> ino \<in> blocks s - held_blocks s
    \<and> held_blocks s' = insert ino (held_blocks s - {buf})
    \<and> inode_dsize (mem s') ino = sz \<and> inode_daddr (mem s') ino = o'
    \<and> read32 (mem s') ino = buf + (o' + 16) \<and> read32 (mem s') (ino + 16) = sb \<and> kept D s s' \<and> mm_ok s'"
proof -
  let ?ino = "fst (alloc_mem s)" and ?s1 = "snd (alloc_mem s)"
  let ?a = "clear_line 24 ?s1"
  let ?b = "s32_print (map of_char ''find fn:'') (screen_line 24) ?a"
  let ?c = "s32_print dir (screen_line 24 + 13 * 2) ?b"
  have D: "D \<le> 2 ^ 32" "26 * 160 \<le> D" using sc by (auto simp: scannable_def)
  have 1: "screen_only D ?s1 ?a" by (rule screen_clear_line_u8) (use D in auto)
  have 2: "screen_only D ?a ?b" using screen_print [of "160 * 24" "map of_char ''find fn:''" D ?a] D by simp
  have 3: "screen_only D ?b ?c" using screen_print [of "160 * 24 + 26" dir D ?b] D assms(7) by simp
  have so: "screen_only D ?s1 ?c" using 1 2 3 screen_only_trans by blast
  have "agrees (mem ?c) buf img n"
    by (rule agrees_screen [OF _ so]) (use ag sc in \<open>auto simp: scannable_def\<close>)
  note sz = entry_facts(3) [OF this e]
  let ?d = "?c\<lparr>mem := fill_inode ?ino (buf + (o' + 16)) sz o' sb (mem ?c)\<rparr>"
  have blk: "mm_ok ?d" "held_blocks ?d = insert ?ino (held_blocks s)"
    using screen_only_blocks [OF so] mm.alloc_ok [OF assms(1)] mm.alloc_held [OF assms(1,2)]
    by (simp_all add: mm_ok_def held_blocks_def)
  have new: "?ino \<in> blocks s - held_blocks s" by (rule mm.alloc_block [OF assms(1,2)])
  obtain s' where s': "free_mem buf ?d = Inr s'" "held_blocks s' = held_blocks ?d - {buf}" "mm_ok s'"
    using mm.release_held [OF blk(1), of buf] blk(2) assms(3) by auto
  have "?ino \<in> blocks ?c" using new screen_only_blocks(2) [OF so] mm.alloc_area [of s] by simp
  then have "kept D ?c ?d" by (rule kept_block) (rule fill_inode_outside)
  then have kept: "kept D s s'"
    using kept_trans [OF kept_trans [OF kept_trans [OF kept_alloc kept_screen [OF so]]] kept_free [OF s'(1)]] by blast
  have "namei_found sb dir buf o' s = Inr (?ino, s')"
    using s'(1) sz by (simp add: namei_found_def Let_def case_prod_beta)
  then show ?thesis
    using new s' kept blk(2) assms(3) free_mem_mem [OF s'(1)] by (auto simp: fill_inode_fields)
qed

text \<open>The image has been read into the block, and the scan starts.\<close>

lemma namei_starts:
  fixes s :: "'a files_scheme"
  assumes rdy: "lookup_ready s sb n D volume es" and free: "held_blocks s \<noteq> blocks s"
  defines "img \<equiv> \<lambda>x. mem s (start_pos (sd_obj s (sb_device (sb_obj s sb))) + x)"
    and "first \<equiv> get_next_16_boundary (s_strlen volume + 0x10)"
  shows "\<exists>buf t. buf \<in> blocks s - held_blocks s \<and> held_blocks t = insert buf (held_blocks s)
    \<and> mm_ok t \<and> blocks t = blocks s \<and> sd_obj t = sd_obj s \<and> kept D s t
    \<and> agrees (mem t) buf img n \<and> scannable img n buf D
    \<and> romfs_namei sb dir s = rbind (loop_result (
        case namei_scan sb dir buf 7 first t of
          None \<Rightarrow> None
        | Some (Inl e) \<Rightarrow> Some (Inl e)
        | Some (Inr (Some ino, s2)) \<Rightarrow> Some (Inr (ino, s2))
        | Some (Inr (None, s2)) \<Rightarrow>
            let s3 = s32_print (map of_char ''scan romfs ok'') (screen_line 25) (clear_line 25 s2)
            in if 0 + storage_size (sd_obj s (sb_device (sb_obj s sb)))
                    \<ge> storage_size (sd_obj s3 (sb_device (sb_obj s sb)))
               then Some (Inr (0, s3))
               else namei_loop sb dir buf (0 + storage_size (sd_obj s (sb_device (sb_obj s sb)))) s3))
      (\<lambda>r. r)"
proof -
  let ?dev = "sb_device (sb_obj s sb)"
  let ?start = "start_pos (sd_obj s ?dev)" and ?size = "storage_size (sd_obj s ?dev)"
  let ?buf = "fst (alloc_mem s)" and ?s1 = "snd (alloc_mem s)"
  obtain vsz where r: "?dev \<noteq> 0" "unat ?size = n" "n \<le> 0x80000" "mm_ok s"
    "unat ?start + n \<le> unat (mm_start s)" "0xb8000 + D \<le> unat (mm_start s)" "26 * 160 + 200 \<le> D"
    "entry_at img n 0 volume vsz"
    using rdy unfolding lookup_ready_def img_def Let_def by blast
  have new: "?buf \<in> blocks s - held_blocks s" by (rule mm.alloc_block [OF r(4) free])
  then obtain k where k: "k < 32" "?buf = block_addr (mm_start s) k" by (auto simp: blocks_def)
  have ub: "unat ?buf = unat (mm_start s) + k * 0x80000" using unat_block_addr [OF r(4) k(1)] k(2) by simp
  have top: "unat ?buf + 0x80000 \<le> 2 ^ 32" using r(4) k(1) ub by (simp add: mm_ok_def)
  have apart: "disjoint_ranges ?buf n ?start n"
    by (subst disjoint_ranges_sym, rule disjoint_ranges_apart) (use r ub top in linarith)+
  have vb: "disjoint_ranges ?buf n VB D"
  proof -
    have "unat (?buf - VB) = unat ?buf - 0xb8000" "unat (VB - ?buf) = 0xb8000 + 2 ^ 32 - unat ?buf"
      using r(6,7) ub by (simp_all add: unat_sub_if')
    then show ?thesis using r top ub unfolding disjoint_ranges_def by linarith
  qed
  let ?t = "?s1\<lparr>mem := p_asm_memcpy (mem s) ?buf ?start ?size\<rparr>"
  have "agrees (mem ?t) ?buf img n"
    using apart r(2) unfolding agrees_def
    by (simp add: p_asm_memcpy_apply img_def addr_in_def)
  then have ag: "agrees (mem ?t) ?buf img n" and vol: "str_at (mem ?t) (?buf + 16) = Some volume"
    using entry_facts(1) [of "mem ?t" ?buf img n 0 volume vsz, OF _ r(8)] by simp_all
  have sc: "scannable img n ?buf D" using vb r by (auto simp: scannable_def mm_ok_def)
  have nz: "?size \<noteq> 0" using r(8) r(2) by (auto simp: entry_at_def)
  have blk: "held_blocks ?t = insert ?buf (held_blocks s)" "mm_ok ?t" "blocks ?t = blocks s"
    using mm.alloc_held [OF r(4) free] mm.alloc_ok [OF r(4)] mm.alloc_area [of s]
    by (simp_all add: held_blocks_def mm_ok_def blocks_def)
  have "?buf \<in> blocks ?s1" using new mm.alloc_area [of s] by simp
  moreover have "\<not> addr_in ?buf (unat ?size) x" if "\<not> addr_in ?buf 0x80000 x" for x
    using that r(2,3) by (auto simp: addr_in_def)
  ultimately have "kept D ?s1 ?t" by (intro kept_block) (auto simp: p_asm_memcpy_outside)
  then have kept: "kept D s ?t" by (rule kept_trans [OF kept_alloc])
  have d: "dout ?dev ?buf 0 ?size ?s1 = Inr (sint ?size, ?t)" by (simp add: dout_ramdisk [OF r(1)])
  have run: "romfs_namei sb dir s = rbind (loop_result (namei_loop sb dir ?buf 0 ?s1)) (\<lambda>r. r)"
    by (simp add: romfs_namei_def case_prod_beta)
  have "(mem ?t) = p_asm_memcpy (mem s) ?buf ?start ?size" "sd_obj ?t = sd_obj s" by simp_all
  then show ?thesis
    unfolding run namei_loop.simps [of sb dir ?buf 0 ?s1] first_def
    using new ag sc nz blk d vol kept
    by (intro exI [of _ ?buf] exI [of _ ?t]) (simp add: Let_def)
qed

lemma directory_entry: "directory img n off es \<Longrightarrow> (o', name, sz) \<in> set es \<Longrightarrow> entry_at img n o' name sz"
  by (induction img n off es rule: directory.induct) auto

lemma two_free:
  assumes "2 \<le> card (blocks s - held_blocks s)"
  shows "held_blocks s \<noteq> blocks s" and "insert a (held_blocks s) \<noteq> blocks s"
proof -
  show "held_blocks s \<noteq> blocks s" using assms by auto
  show "insert a (held_blocks s) \<noteq> blocks s"
  proof
    assume "insert a (held_blocks s) = blocks s"
    then have "blocks s - held_blocks s \<subseteq> {a}" by auto
    then have "card (blocks s - held_blocks s) \<le> 1" using card_mono [of "{a}"] by fastforce
    then show False using assms by simp
  qed
qed

section \<open>A small image\<close>

text \<open>The volume is called "v"; its files are "." at 32 and "echo", of three bytes, at 64.\<close>

definition sample_image :: "u8 list" where
  "sample_image = map of_char ''-rom1fs-'' @ [0, 0, 0, 0x70, 0, 0, 0, 0]
     @ map of_char ''v'' @ replicate 15 0
     @ [0, 0, 0, 0x49, 0, 0, 0, 0x20, 0, 0, 0, 0, 0, 0, 0, 0] @ map of_char ''.'' @ replicate 15 0
     @ [0, 0, 0, 2, 0, 0, 0, 0, 0, 0, 0, 3, 0, 0, 0, 0] @ map of_char ''echo'' @ replicate 12 0
     @ map of_char ''abc'' @ replicate 13 0"

definition image_memory :: mem where
  "image_memory x = (let k = unat (x - 0x200000) in if k < 112 then sample_image ! k else 0)"

definition lookup_state :: files where
  "lookup_state = mounted_files\<lparr>mem := image_memory, mm_start := 0x1000000,
     sd_obj := (\<lambda>_. (ramdisk_sd_initial sample_link)\<lparr>storage_size := 112\<rparr>)\<rparr>"

lemma lookup_state_fields:
  "sb_device (sb_obj lookup_state 0x2000) = 0x1000" "mem lookup_state = image_memory"
  "start_pos (sd_obj lookup_state 0x1000) = 0x200000" "storage_size (sd_obj lookup_state 0x1000) = 112"
  "mm_start lookup_state = 0x1000000" "memory_used lookup_state = 0"
  by (simp_all add: lookup_state_def mounted_files_def blank_files_def blank_memory_def
      keyboard.defs memory.defs files.defs ramdisk_sd_initial_def sample_link_def)

lemma sample_entries:
  "entry_at (\<lambda>x. image_memory (0x200000 + x)) 112 0 [0x76] 0x70"
  "entry_at (\<lambda>x. image_memory (0x200000 + x)) 112 32 [0x2e] 0"
  "entry_at (\<lambda>x. image_memory (0x200000 + x)) 112 64 [0x65, 0x63, 0x68, 0x6f] 3"
  "next_of (\<lambda>x. image_memory (0x200000 + x)) 32 = 64" "next_of (\<lambda>x. image_memory (0x200000 + x)) 64 = 0"
  "get_next_16_boundary (s_strlen [0x76] + 0x10) = 32"
  by code_simp+

lemma lookup_state_ready:
  "lookup_ready lookup_state 0x2000 112 0x2000 [0x76] [(64, [0x65, 0x63, 0x68, 0x6f], 3)]"
  unfolding lookup_ready_def Let_def lookup_state_fields
  using sample_entries by (auto simp: mm_ok_def lookup_state_fields)

lemma lookup_state_free: "2 \<le> card (blocks lookup_state - held_blocks lookup_state)"
proof -
  have "mm_ok lookup_state" by (simp add: mm_ok_def lookup_state_fields)
  then show ?thesis using card_blocks [of lookup_state] by (simp add: held_blocks_def lookup_state_fields)
qed

section \<open>Properties\<close>

lemma namei_lookup:
  fixes s :: "'a files_scheme"
  assumes rdy: "lookup_ready s sb n D volume (pre @ (o', dir, sz) # post)"
    and "dir \<notin> (\<lambda>(_, name, _). name) ` set pre" and "length dir \<le> 100"
    and two: "2 \<le> card (blocks s - held_blocks s)"
  shows "\<exists>ino s'. romfs_namei sb dir s = Inr (ino, s') \<and> ino \<in> blocks s - held_blocks s
    \<and> held_blocks s' = insert ino (held_blocks s)
    \<and> inode_dsize (mem s') ino = sz \<and> inode_daddr (mem s') ino = o'
    \<and> kept D s s' \<and> mm_ok s'"
proof -
  let ?img = "\<lambda>x. mem s (start_pos (sd_obj s (sb_device (sb_obj s sb))) + x)"
  let ?first = "get_next_16_boundary (s_strlen volume + 0x10)"
  note r = rdy [unfolded lookup_ready_def Let_def]
  obtain name0 sz0 where e0: "entry_at ?img n ?first name0 sz0" using r by blast
  have dir: "directory ?img n ?first (pre @ (o', dir, sz) # post)" using r by blast
  have e: "entry_at ?img n o' dir sz" by (rule directory_entry [OF dir]) simp
  then have nul: "0 \<notin> set dir" by (auto simp: entry_at_def dest: string_in_nonzero)
  have D: "26 * 160 + 200 \<le> D" "160 * (nat 7 + 2 * length pre) \<le> D" using r by auto
  have sizes: "\<forall>(_, _, z) \<in> set pre. 6 * nat (sint z) \<le> D" using r by auto
  obtain buf t where t: "buf \<in> blocks s - held_blocks s" "held_blocks t = insert buf (held_blocks s)"
      "mm_ok t" "blocks t = blocks s" "kept D s t" "agrees (mem t) buf ?img n" "scannable ?img n buf D"
    and run: "\<And>ino u. namei_scan sb dir buf 7 ?first t = Some (Inr (Some ino, u)) \<Longrightarrow>
      romfs_namei sb dir s = Inr (ino, u)"
    using namei_starts [OF rdy two_free(1) [OF two], of dir] by auto
  obtain t' where t': "screen_only D t t'" "agrees (mem t') buf ?img n"
    "namei_scan sb dir buf 7 ?first t = Some (rbind (namei_found sb dir buf o' t') (\<lambda>(ino, u). Inr (Some ino, u)))"
    using scan_found [OF dir e0 assms(2) nul t(7) sizes t(6) D(2)] by auto
  note b = screen_only_blocks [OF t'(1)]
  have "\<exists>ino u. namei_found sb dir buf o' t' = Inr (ino, u) \<and> ino \<in> blocks t' - held_blocks t'
    \<and> held_blocks u = insert ino (held_blocks t' - {buf})
    \<and> inode_dsize (mem u) ino = sz \<and> inode_daddr (mem u) ino = o'
    \<and> read32 (mem u) ino = buf + (o' + 16) \<and> read32 (mem u) (ino + 16) = sb \<and> kept D t' u \<and> mm_ok u"
    by (rule namei_found_inode [OF _ _ _ t'(2) e t(7)])
      (use b t two_free(2) [OF two, of buf] assms(3) D(1) in auto)
  then obtain ino u where u: "namei_found sb dir buf o' t' = Inr (ino, u)" "ino \<in> blocks t' - held_blocks t'"
    "held_blocks u = insert ino (held_blocks t' - {buf})"
    "inode_dsize (mem u) ino = sz" "inode_daddr (mem u) ino = o'" "kept D t' u" "mm_ok u" by blast
  have "kept D s u" using kept_trans [OF kept_trans [OF t(5) kept_screen [OF t'(1)]] u(6)] .
  moreover have "romfs_namei sb dir s = Inr (ino, u)" using u(1) t'(3) by (intro run) simp
  ultimately show ?thesis using u b t by auto
qed

text \<open>C34. A lookup finds the file: when the directory lists an entry with the name and none before it
  has that name, \<open>romfs_namei\<close> returns a fresh block holding an inode with the size and the
  offset of that entry, and the block the image was read into is free again.\<close>

theorem romfs_namei_finds:
  fixes s :: "'a files_scheme"
  assumes rdy: "lookup_ready s sb n D volume (pre @ (o', dir, sz) # post)"
    and "dir \<notin> (\<lambda>(_, name, _). name) ` set pre" and "length dir \<le> 100"
    and two: "2 \<le> card (blocks s - held_blocks s)"
  shows "\<exists>ino s'. romfs_namei sb dir s = Inr (ino, s') \<and> ino \<in> blocks s - held_blocks s
    \<and> held_blocks s' = insert ino (held_blocks s)
    \<and> inode_dsize (mem s') ino = sz \<and> inode_daddr (mem s') ino = o'"
  using namei_lookup [OF assms] by blast

theorem romfs_namei_finds_witness:
  "\<exists>ino s'. romfs_namei 0x2000 [0x65, 0x63, 0x68, 0x6f] lookup_state = Inr (ino, s')
    \<and> inode_dsize (mem s') ino = 3 \<and> inode_daddr (mem s') ino = 64"
  using romfs_namei_finds [of lookup_state "0x2000" 112 "0x2000" "[0x76]" "[]" 64 "[0x65, 0x63, 0x68, 0x6f]" 3 "[]"]
    lookup_state_ready lookup_state_free by auto

text \<open>Also: A name that no entry and no volume has: the lookup ends and returns the null pointer, but
  the block the image was read into stays allocated, so that every failed lookup loses one
  of the thirty-two blocks.\<close>

theorem romfs_namei_leaks:
  fixes s :: "'a files_scheme"
  assumes rdy: "lookup_ready s sb n D volume es"
    and "dir \<notin> (\<lambda>(_, name, _). name) ` set es" and "dir \<noteq> volume" and nul: "0 \<notin> set dir"
    and free: "held_blocks s \<noteq> blocks s"
  shows "\<exists>buf s'. romfs_namei sb dir s = Inr (0, s') \<and> buf \<in> blocks s - held_blocks s
    \<and> held_blocks s' = insert buf (held_blocks s)"
proof -
  let ?dev = "sb_device (sb_obj s sb)"
  let ?img = "\<lambda>x. mem s (start_pos (sd_obj s ?dev) + x)"
  let ?first = "get_next_16_boundary (s_strlen volume + 0x10)"
  note r = rdy [unfolded lookup_ready_def Let_def]
  obtain name0 sz0 vsz where e0: "entry_at ?img n ?first name0 sz0" "entry_at ?img n 0 volume vsz"
    using r by blast
  have dir: "directory ?img n ?first es" using r by blast
  have D: "26 * 160 + 200 \<le> D" "160 * (nat 7 + 2 * length es + 2) \<le> D" using r by (auto simp: algebra_simps)
  have sizes: "\<forall>(_, _, z) \<in> set es. 6 * nat (sint z) \<le> D" using r by auto
  obtain buf t where t: "buf \<in> blocks s - held_blocks s" "held_blocks t = insert buf (held_blocks s)"
      "sd_obj t = sd_obj s" "agrees (mem t) buf ?img n" "scannable ?img n buf D"
    and run: "\<And>u. namei_scan sb dir buf 7 ?first t = Some (Inr (None, u)) \<Longrightarrow> sd_obj u = sd_obj s \<Longrightarrow>
      romfs_namei sb dir s =
        Inr (0, s32_print (map of_char ''scan romfs ok'') (screen_line 25) (clear_line 25 u))"
    using namei_starts [OF rdy free, of dir]
    by (auto simp: Let_def s32_print_def clear_line_def case_prod_beta)
  obtain u where u: "screen_only D t u" "namei_scan sb dir buf 7 ?first t = Some (Inr (None, u))"
    using scan_not_found [OF dir e0 assms(2,3) nul t(5) sizes t(4) D(2)] by auto
  let ?v = "s32_print (map of_char ''scan romfs ok'') (screen_line 25) (clear_line 25 u)"
  have "sd_obj u = sd_obj s" using u(1) t(3) by (auto simp: screen_only_def)
  note eq = run [OF u(2) this]
  have "held_blocks ?v = held_blocks u"
    by (simp add: held_blocks_def s32_print_def clear_line_def Let_def case_prod_beta)
  then show ?thesis using eq t screen_only_blocks(3) [OF u(1)] by auto
qed

theorem romfs_namei_leaks_witness:
  "\<exists>buf s'. romfs_namei 0x2000 [0x78] lookup_state = Inr (0, s') \<and> buf \<notin> held_blocks lookup_state
    \<and> held_blocks s' = insert buf (held_blocks lookup_state)"
  using romfs_namei_leaks [OF lookup_state_ready, of "[0x78]"] two_free(1) [OF lookup_state_free] by auto

end
