(* ===== verification/Elf.thy ===== *)
theory Elf
  imports Romfs_Lookup
begin

text \<open>
  Executable files: the headers of include/elf.h, the loader's copy of the kernel to its place
  (\<open>copy_elf_code\<close> of kernel_loader/protected_code.c) and the extent of the kernel image
  (\<open>get_kernel_info\<close> of k_stdlib.c). A header pointer is its address.
\<close>

unbundle bit_operations_syntax

section \<open>Headers\<close>

definition e_entry :: "mem \<Rightarrow> u32 \<Rightarrow> u32" where "e_entry m h = read32 m (h + 24)"
definition e_phoff :: "mem \<Rightarrow> u32 \<Rightarrow> u32" where "e_phoff m h = read32 m (h + 28)"
definition e_shoff :: "mem \<Rightarrow> u32 \<Rightarrow> u32" where "e_shoff m h = read32 m (h + 32)"
definition e_phnum :: "mem \<Rightarrow> u32 \<Rightarrow> u16" where "e_phnum m h = read16 m (h + 44)"
definition e_shentsize :: "mem \<Rightarrow> u32 \<Rightarrow> u16" where "e_shentsize m h = read16 m (h + 46)"
definition e_shnum :: "mem \<Rightarrow> u32 \<Rightarrow> u16" where "e_shnum m h = read16 m (h + 48)"

abbreviation (input) PHDR_SIZE :: u32 where "PHDR_SIZE \<equiv> 32"
abbreviation (input) PT_LOAD :: u32 where "PT_LOAD \<equiv> 1"

definition p_type :: "mem \<Rightarrow> u32 \<Rightarrow> u32" where "p_type m ph = read32 m ph"
definition p_offset :: "mem \<Rightarrow> u32 \<Rightarrow> u32" where "p_offset m ph = read32 m (ph + 4)"
definition p_vaddr :: "mem \<Rightarrow> u32 \<Rightarrow> u32" where "p_vaddr m ph = read32 m (ph + 8)"
definition p_filesz :: "mem \<Rightarrow> u32 \<Rightarrow> u32" where "p_filesz m ph = read32 m (ph + 16)"

abbreviation (input) SHF_ALLOC :: u32 where "SHF_ALLOC \<equiv> 2"

definition sh_flags :: "mem \<Rightarrow> u32 \<Rightarrow> u32" where "sh_flags m sh = read32 m (sh + 8)"
definition sh_addr :: "mem \<Rightarrow> u32 \<Rightarrow> u32" where "sh_addr m sh = read32 m (sh + 12)"
definition sh_size :: "mem \<Rightarrow> u32 \<Rightarrow> u32" where "sh_size m sh = read32 m (sh + 20)"

section \<open>Copying the kernel to its place\<close>

text \<open>The three statements that show a number on the next line.\<close>

definition show_number :: "int \<Rightarrow> u32 \<Rightarrow> 'a stdio_scheme \<Rightarrow> 'a stdio_scheme result" where
  "show_number line v s = s32_print_int v (screen_line line) 16 (clear_line (word_of_int line) s)"

abbreviation (input) LOAD_KERNEL_ADDR :: u32 where "LOAD_KERNEL_ADDR \<equiv> 0x300000"

definition copy_segment :: "u32 \<Rightarrow> u32 \<Rightarrow> int \<Rightarrow> 'a stdio_scheme \<Rightarrow> (int \<times> 'a stdio_scheme) result" where
  "copy_segment buff ph line s =
     rbind (show_number (line + 1) (p_vaddr (mem s) ph) s) (\<lambda>s1.
     rbind (show_number (line + 2) (p_offset (mem s1) ph) s1) (\<lambda>s2.
       Inr (line + 2, s2\<lparr>mem := s32_memcpy (mem s2) (p_vaddr (mem s2) ph)
              (buff + p_offset (mem s2) ph) (p_filesz (mem s2) ph)\<rparr>)))"

text \<open>
  The loop reads the number of segments again in every turn; it is below 65536, so that the
  loop ends whatever the copies overwrite.
\<close>

lemma u16_bound: "unat (x :: u16) < 65536"
  using unsigned_less [of x, where ?'a = nat] by simp

function copy_elf_loop :: "u32 \<Rightarrow> nat \<Rightarrow> u32 \<Rightarrow> int \<Rightarrow> 'a stdio_scheme \<Rightarrow> (int \<times> 'a stdio_scheme) result" where
  "copy_elf_loop buff i ph line s =
     (if i < unat (e_phnum (mem s) buff) then
        rbind (show_number (line + 1) (e_entry (mem s) buff) s) (\<lambda>s1.
        rbind (if p_type (mem s1) ph = PT_LOAD then copy_segment buff ph (line + 1) s1
               else Inr (line + 1, s1)) (\<lambda>r.
          copy_elf_loop buff (Suc i) (ph + PHDR_SIZE) (fst r) (snd r)))
      else Inr (line, s))"
  by auto
termination by (relation "measure (\<lambda>(_, i, _, _, _). 65536 - i)") (auto dest: less_trans [OF _ u16_bound])

declare copy_elf_loop.simps [simp del]

text \<open>The value is the address the loader jumps to.\<close>

definition copy_elf_code :: "'a stdio_scheme \<Rightarrow> (u32 \<times> 'a stdio_scheme) result" where
  "copy_elf_code s =
     (let s1 = s\<lparr>mem := (mem s)(0xb8000 := of_char CHR ''P'', 0xb8002 := of_char CHR ''M'', 0xb8003 := 9)\<rparr>;
          buff = LOAD_KERNEL_ADDR;
          ph = buff + e_phoff (mem s1) buff;
          entry = e_entry (mem s1) buff
      in rbind (show_number 11 (e_entry (mem s1) buff) s1) (\<lambda>s2.
         rbind (copy_elf_loop buff 0 ph 11 s2) (\<lambda>(line, s3).
         rbind (show_number (line + 1) (e_entry (mem s3) buff) s3) (\<lambda>s4.
           Inr (entry, s4)))))"

section \<open>The extent of the kernel\<close>

abbreviation (input) KERNEL_INFO :: u32 where "KERNEL_INFO \<equiv> 0x200500"

text \<open>The loop over the sections: \<open>n\<close> sections are left; lowest address and highest end so far.\<close>

fun kernel_extent :: "mem \<Rightarrow> nat \<Rightarrow> nat \<Rightarrow> u32 \<Rightarrow> u32 \<Rightarrow> u32 \<times> u32" where
  "kernel_extent m 0 i b t = (b, t)"
| "kernel_extent m (Suc n) i b t =
     (let sh = KERNEL_INFO + e_shoff m KERNEL_INFO + of_nat i * ucast (e_shentsize m KERNEL_INFO)
      in if sh_flags m sh AND SHF_ALLOC \<noteq> 0 then
           let bottom = sh_addr m sh; top = sh_addr m sh + sh_size m sh
           in kernel_extent m n (Suc i) (if b > bottom then bottom else b) (if t < top then top else t)
         else kernel_extent m n (Suc i) b t)"

text \<open>
  The results for the caller's two variables; they are registers or stack variables of the
  caller, which the loop does not read through memory.
\<close>

definition get_kernel_info :: "'a stdio_scheme \<Rightarrow> (u32 \<times> u32) option \<times> 'a stdio_scheme" where
  "get_kernel_info s =
     (if \<not> (mem s KERNEL_INFO = 0x7f \<and> mem s (KERNEL_INFO + 1) = 0x45
            \<and> mem s (KERNEL_INFO + 2) = 0x4c \<and> mem s (KERNEL_INFO + 3) = 0x46)
      then (None, s32_print (map of_char ''not elf'') (0xb8000 + 160 * 24 + 12 * 2) s)
      else
        let s1 = s32_print (map of_char ''find elf'') (0xb8000 + 160 * 24 + 12 * 2) s;
            (b, t) = kernel_extent (mem s1) (unat (e_shnum (mem s1) KERNEL_INFO)) 0 (NOT 0) 0
        in (Some (b, t - b - 1), s1))"

section \<open>What loading means\<close>

text \<open>
  The loadable segments a table of \<open>n\<close> program headers at the offset \<open>ph\<close> of a file describes
  (address, offset in the file, size), and memory after placing one.
\<close>

fun segments :: "mem \<Rightarrow> u32 \<Rightarrow> nat \<Rightarrow> (u32 \<times> u32 \<times> u32) list" where
  "segments img ph 0 = []"
| "segments img ph (Suc n) =
     (if p_type img ph = PT_LOAD then [(p_vaddr img ph, p_offset img ph, p_filesz img ph)] else [])
     @ segments img (ph + PHDR_SIZE) n"

definition place :: "mem \<Rightarrow> u32 \<times> u32 \<times> u32 \<Rightarrow> mem \<Rightarrow> mem" where
  "place img = (\<lambda>(va, off, sz) m x. if addr_in va (unat sz) x then img (off + (x - va)) else m x)"

text \<open>A segment that lies inside the \<open>N\<close> bytes of the file and is not placed over the file or the screen.\<close>

definition segment_ok :: "u32 \<Rightarrow> nat \<Rightarrow> nat \<Rightarrow> u32 \<times> u32 \<times> u32 \<Rightarrow> bool" where
  "segment_ok buf N D = (\<lambda>(va, off, sz). unat off + unat sz \<le> N
     \<and> disjoint_ranges va (unat sz) buf N \<and> disjoint_ranges va (unat sz) VB D)"

lemma fold_place_cong: "m x = m' x \<Longrightarrow> fold (place img) segs m x = fold (place img) segs m' x"
proof (induction segs arbitrary: m m')
  case (Cons g segs)
  have "place img g m x = place img g m' x" using Cons.prems by (cases g) (simp add: place_def)
  then show ?case using Cons.IH [of "place img g m" "place img g m'"] by simp
qed simp

lemma agrees_read16:
  assumes "agrees m buf img n" and "unat x + 2 \<le> n"
  shows "read16 m (buf + x) = read16 img x"
proof -
  have "m (buf + x) = img x" "m (buf + x + 1) = img (x + 1)"
    using assms unat_add_le [of x 1] by (simp_all add: agrees_def add.assoc)
  then show ?thesis by (simp add: read16_def)
qed

lemma addr_in_sub:
  assumes "addr_in (b + off) k x" and "unat off + k \<le> N"
  shows "addr_in b N x"
proof -
  have "x - b = (x - (b + off)) + off" by simp
  then have "unat (x - b) \<le> unat (x - (b + off)) + unat off" using unat_add_le [of "x - (b + off)" "unat off"] by simp
  then show ?thesis using assms by (simp add: addr_in_def)
qed

text \<open>Copying a segment from a file in memory places it and keeps the file.\<close>

lemma copy_places_to:
  assumes agr: "agrees m buf img N" and off: "unat off + unat sz \<le> N" and dis: "disjoint_ranges va (unat sz) buf N"
  shows "p_asm_memcpy m va (buf + off) sz x = place img (va, off, sz) m x"
    "agrees (p_asm_memcpy m va (buf + off) sz) buf img N"
proof -
  have cp: "p_asm_memcpy m va (buf + off) sz x
      = (if addr_in va (unat sz) x then m (buf + off + (x - va)) else m x)" for x
    unfolding p_asm_memcpy_def
    by (rule memcpy_loop_apply [OF unat_le_32]) (use disjoint_rangesD [OF dis] addr_in_sub [OF _ off] in blast)
  have "m (buf + off + (x - va)) = img (off + (x - va))" if "addr_in va (unat sz) x" for x
  proof -
    have "unat (off + (x - va)) < N"
      using unat_add_le [of off "unat (x - va)"] that off by (simp add: addr_in_def)
    then show ?thesis using agr by (simp add: agrees_def add.assoc)
  qed
  then show "p_asm_memcpy m va (buf + off) sz x = place img (va, off, sz) m x"
    by (simp add: cp place_def)
  have "\<not> addr_in va (unat sz) (buf + y)" if "unat y < N" for y
    using disjoint_rangesD [OF dis, of "buf + y"] that by (auto simp: addr_in_def)
  then show "agrees (p_asm_memcpy m va (buf + off) sz) buf img N"
    using agr by (simp add: agrees_def cp)
qed

lemma copy_places:
  assumes "agrees m buf img N" and "segment_ok buf N D (va, off, sz)"
  shows "p_asm_memcpy m va (buf + off) sz x = place img (va, off, sz) m x"
    "agrees (p_asm_memcpy m va (buf + off) sz) buf img N"
  using copy_places_to [OF assms(1)] assms(2) by (simp_all add: segment_ok_def)

section \<open>The loader\<close>

lemma show_number_screen:
  assumes "160 * (nat line + 1) \<le> D" and "D \<le> 2 ^ 32" and "0 \<le> line"
  shows "\<exists>s'. show_number line v s = Inr s' \<and> screen_only D s s'"
proof -
  let ?t = "clear_line (word_of_int line) s"
  have 1: "screen_only D s ?t" by (rule screen_clear_line [OF assms])
  have "s32_itoa v 16 = Inr (number v 16)" using s32_itoa_number [of 16 v] by simp
  then have "show_number line v s = Inr (s32_print (number v 16) (VB + of_nat (160 * nat line)) ?t)"
    unfolding show_number_def s32_print_int_def screen_line_nat [OF assms(3)] by simp
  moreover have "screen_only D ?t (s32_print (number v 16) (VB + of_nat (160 * nat line)) ?t)"
    by (rule screen_print [OF _ assms(2)]) (use assms(1) length_number(1) [of v] in auto)
  ultimately show ?thesis using screen_only_trans [OF 1] by blast
qed

lemma header_fields:
  assumes agr: "agrees m buf img N" and ph: "unat x + 32 \<le> N"
  shows "p_type m (buf + x) = p_type img x" "p_offset m (buf + x) = p_offset img x"
    "p_vaddr m (buf + x) = p_vaddr img x" "p_filesz m (buf + x) = p_filesz img x"
proof -
  have rd: "read32 m (buf + x + of_nat k) = read32 img (x + of_nat k)" if "k \<le> 28" for k
    using agrees_read32 [OF agr, of "x + of_nat k"] unat_add_le [of x k] ph that by (simp add: add.assoc)
  from rd [of 0] rd [of 4] rd [of 8] rd [of 16]
  show "p_type m (buf + x) = p_type img x" "p_offset m (buf + x) = p_offset img x"
    "p_vaddr m (buf + x) = p_vaddr img x" "p_filesz m (buf + x) = p_filesz img x"
    by (simp_all add: p_type_def p_offset_def p_vaddr_def p_filesz_def)
qed

lemma copy_segment_places:
  assumes agr: "agrees (mem s) buf img N" and ph: "unat x + 32 \<le> N"
    and ok: "segment_ok buf N D (p_vaddr img x, p_offset img x, p_filesz img x)"
    and scr: "disjoint_ranges buf N VB D" "N \<le> 2 ^ 32" and line: "160 * (nat line + 3) \<le> D" "D \<le> 2 ^ 32" "0 \<le> line"
  shows "\<exists>s'. copy_segment buf (buf + x) line s = Inr (line + 2, s') \<and> agrees (mem s') buf img N
    \<and> (\<forall>y. \<not> addr_in VB D y \<longrightarrow>
         mem s' y = place img (p_vaddr img x, p_offset img x, p_filesz img x) (mem s) y)"
proof -
  obtain s1 where s1: "show_number (line + 1) (p_vaddr (mem s) (buf + x)) s = Inr s1" "screen_only D s s1"
    using show_number_screen [of "line + 1" D] line by (auto simp: nat_add_distrib)
  obtain s2 where s2: "show_number (line + 2) (p_offset (mem s1) (buf + x)) s1 = Inr s2" "screen_only D s1 s2"
    using show_number_screen [of "line + 2" D] line by (auto simp: nat_add_distrib)
  have scr2: "screen_only D s s2" by (rule screen_only_trans [OF s1(2) s2(2)])
  have agr2: "agrees (mem s2) buf img N" by (rule agrees_screen [OF agr scr2 scr])
  let ?m = "p_asm_memcpy (mem s2) (p_vaddr img x) (buf + p_offset img x) (p_filesz img x)"
  have run: "copy_segment buf (buf + x) line s = Inr (line + 2, s2\<lparr>mem := ?m\<rparr>)"
    by (simp add: copy_segment_def s1(1) s2(1) header_fields [OF agr2 ph] s32_memcpy_eq)
  have "?m y = place img (p_vaddr img x, p_offset img x, p_filesz img x) (mem s) y" if "\<not> addr_in VB D y" for y
    using copy_places(1) [OF agr2 ok, of y] screen_only_mem [OF scr2 that] by (simp add: place_def)
  then show ?thesis using run copy_places(2) [OF agr2 ok] by simp
qed

lemma copy_elf_loop_places:
  fixes s :: "'a stdio_scheme"
  assumes agr: "agrees (mem s) buf img N" and num: "unat (e_phnum img 0) = i + k" "46 \<le> N"
    and tab: "unat x + 32 * k \<le> N" and ok: "\<forall>g\<in>set (segments img x k). segment_ok buf N D g"
    and scr: "disjoint_ranges buf N VB D" "N \<le> 2 ^ 32"
    and line: "160 * (nat line + 3 * k + 1) \<le> D" "D \<le> 2 ^ 32" "0 \<le> line"
  shows "\<exists>line' s'. copy_elf_loop buf i (buf + x) line s = Inr (line', s') \<and> 0 \<le> line'
    \<and> line' \<le> line + 3 * int k \<and> agrees (mem s') buf img N
    \<and> (\<forall>y. \<not> addr_in VB D y \<longrightarrow> mem s' y = fold (place img) (segments img x k) (mem s) y)"
  using agr num tab ok line
proof (induction k arbitrary: i x line s)
  case 0
  have "unat (e_phnum (mem s) buf) = i"
    using agrees_read16 [OF "0.prems"(1), of 44] "0.prems"(2,3) by (simp add: e_phnum_def)
  then show ?case using "0.prems" by (simp add: copy_elf_loop.simps [of buf i])
next
  case (Suc k)
  have "e_phnum (mem s) buf = e_phnum img 0"
    using agrees_read16 [OF Suc.prems(1), of 44] Suc.prems(3) by (simp add: e_phnum_def)
  then have i: "i < unat (e_phnum (mem s) buf)" using Suc.prems(2) by simp
  obtain s1 where s1: "show_number (line + 1) (e_entry (mem s) buf) s = Inr s1" "screen_only D s s1"
    using show_number_screen [of "line + 1" D "e_entry (mem s) buf" s] Suc.prems(6-8)
    by (auto simp: nat_add_distrib)
  have agr1: "agrees (mem s1) buf img N" by (rule agrees_screen [OF Suc.prems(1) s1(2) scr])
  have x32: "unat x + 32 \<le> N" using Suc.prems(4) by simp
  let ?g = "(p_vaddr img x, p_offset img x, p_filesz img x)"
  let ?here = "if p_type img x = PT_LOAD then [?g] else []"
  have "\<exists>l s'. (if p_type (mem s1) (buf + x) = PT_LOAD then copy_segment buf (buf + x) (line + 1) s1
        else Inr (line + 1, s1)) = Inr (l, s')
      \<and> 0 \<le> l \<and> l \<le> line + 3 \<and> agrees (mem s') buf img N
      \<and> (\<forall>y. \<not> addr_in VB D y \<longrightarrow> mem s' y = fold (place img) ?here (mem s) y)"
  proof (cases "p_type img x = PT_LOAD")
    case True
    then have "segment_ok buf N D ?g" using Suc.prems(5) by simp
    from copy_segment_places [OF agr1 x32 this scr, of "line + 1"] Suc.prems(6-8)
    obtain s' where "copy_segment buf (buf + x) (line + 1) s1 = Inr (line + 3, s')" "agrees (mem s') buf img N"
      "\<forall>y. \<not> addr_in VB D y \<longrightarrow> mem s' y = place img ?g (mem s1) y" by (auto simp: nat_add_distrib add.assoc)
    then show ?thesis
      using True header_fields(1) [OF agr1 x32] Suc.prems(8) screen_only_mem [OF s1(2)] by (simp add: place_def)
  next
    case False
    then show ?thesis
      using header_fields(1) [OF agr1 x32] Suc.prems(8) screen_only_mem [OF s1(2)] agr1 by simp
  qed
  then obtain l s2 where s2: "(if p_type (mem s1) (buf + x) = PT_LOAD then copy_segment buf (buf + x) (line + 1) s1
        else Inr (line + 1, s1)) = Inr (l, s2)" "0 \<le> l" "l \<le> line + 3" "agrees (mem s2) buf img N"
      "\<forall>y. \<not> addr_in VB D y \<longrightarrow> mem s2 y = fold (place img) ?here (mem s) y" by blast
  have tab: "unat (x + 32) + 32 * k \<le> N" using unat_add_le [of x 32] Suc.prems(4) by simp
  have "\<exists>line' s'. copy_elf_loop buf (Suc i) (buf + (x + 32)) l s2 = Inr (line', s') \<and> 0 \<le> line'
    \<and> line' \<le> l + 3 * int k \<and> agrees (mem s') buf img N
    \<and> (\<forall>y. \<not> addr_in VB D y \<longrightarrow> mem s' y = fold (place img) (segments img (x + 32) k) (mem s2) y)"
  proof (rule Suc.IH [OF s2(4) _ _ tab])
    show "160 * (nat l + 3 * k + 1) \<le> D"
    proof -
      have "nat l \<le> nat line + 3" using s2(3) Suc.prems(8) by simp
      then have "160 * (nat l + 3 * k + 1) \<le> 160 * (nat line + 3 * Suc k + 1)" by simp
      then show ?thesis using Suc.prems(6) by (rule order_trans)
    qed
  qed (use Suc.prems s2 in auto)
  then obtain line' s' where r: "copy_elf_loop buf (Suc i) (buf + (x + 32)) l s2 = Inr (line', s')" "0 \<le> line'"
    "line' \<le> l + 3 * int k" "agrees (mem s') buf img N"
    "\<forall>y. \<not> addr_in VB D y \<longrightarrow> mem s' y = fold (place img) (segments img (x + 32) k) (mem s2) y" by blast
  have "copy_elf_loop buf i (buf + x) line s = Inr (line', s')"
    using i s1(1) s2(1) r(1) by (subst copy_elf_loop.simps) (simp add: add.assoc)
  moreover have "mem s' y = fold (place img) (segments img x (Suc k)) (mem s) y" if "\<not> addr_in VB D y" for y
    using r(5) s2(5) that fold_place_cong [of "mem s2" y "fold (place img) ?here (mem s)" img] by simp
  ultimately show ?case using r s2(3) by auto
qed

lemma screen_poke:
  assumes "160 \<le> D" and "D \<le> 2 ^ 32"
  shows "screen_only D s (s\<lparr>mem := (mem s)(VB := a, VB + 2 := b, VB + 3 := c)\<rparr>)"
proof -
  have "addr_in VB D (VB + of_nat i)" if "i < 160" for i
    by (rule addr_in_of_nat) (use assms that in auto)
  from this [of 0] this [of 2] this [of 3]
  have "\<forall>x. \<not> addr_in VB D x \<longrightarrow> ((mem s)(VB := a, VB + 2 := b, VB + 3 := c)) x = mem s x" by auto
  moreover have "s\<lparr>mem := m\<rparr> = s\<lparr>mem := m, cur_vb := cur_vb s\<rparr>" for m by simp
  ultimately show ?thesis unfolding screen_only_def by metis
qed

lemma elf_code_loads:
  fixes s :: "'a stdio_scheme" and N :: nat
  defines "img \<equiv> \<lambda>x. mem s (LOAD_KERNEL_ADDR + x)"
  defines "k \<equiv> unat (e_phnum img 0)"
  assumes size: "52 \<le> N" "N \<le> 2 ^ 32" "unat (e_phoff img 0) + 32 * k \<le> N"
    and scr: "disjoint_ranges LOAD_KERNEL_ADDR N VB (160 * (3 * k + 13))"
    and ok: "\<forall>g\<in>set (segments img (e_phoff img 0) k). segment_ok LOAD_KERNEL_ADDR N (160 * (3 * k + 13)) g"
  shows "\<exists>s'. copy_elf_code s = Inr (e_entry img 0, s')
    \<and> (\<forall>y. \<not> addr_in VB (160 * (3 * k + 13)) y \<longrightarrow>
         mem s' y = fold (place img) (segments img (e_phoff img 0) k) (mem s) y)"
proof -
  let ?D = "160 * (3 * k + 13)" and ?buf = LOAD_KERNEL_ADDR
  define s1 where
    "s1 = s\<lparr>mem := (mem s)(0xb8000 := of_char CHR ''P'', 0xb8002 := of_char CHR ''M'', 0xb8003 := 9)\<rparr>"
  have D: "?D \<le> 2 ^ 32" using u16_bound [of "e_phnum img 0"] by (simp add: k_def)
  have agr: "agrees (mem s) ?buf img N" by (simp add: agrees_def img_def)
  have s1: "screen_only ?D s s1" using screen_poke [OF _ D] by (simp add: s1_def)
  have agr1: "agrees (mem s1) ?buf img N" by (rule agrees_screen [OF agr s1 scr size(2)])
  have hdr: "e_phoff (mem s1) ?buf = e_phoff img 0" "e_entry (mem s1) ?buf = e_entry img 0"
    using agrees_read32 [OF agr1, of 28] agrees_read32 [OF agr1, of 24] size(1)
    by (simp_all add: e_phoff_def e_entry_def)
  obtain s2 where s2: "show_number 11 (e_entry img 0) s1 = Inr s2" "screen_only ?D s1 s2"
    using show_number_screen [OF _ D, of 11] by auto
  have scr2: "screen_only ?D s s2" by (rule screen_only_trans [OF s1 s2(2)])
  have agr2: "agrees (mem s2) ?buf img N" by (rule agrees_screen [OF agr scr2 scr size(2)])
  from copy_elf_loop_places [OF agr2 _ _ size(3) ok scr size(2) _ D, of 0 11] size(1)
  obtain line s3 where s3: "copy_elf_loop ?buf 0 (?buf + e_phoff img 0) 11 s2 = Inr (line, s3)" "0 \<le> line"
    "line \<le> 11 + 3 * int k"
    "\<forall>y. \<not> addr_in VB ?D y \<longrightarrow> mem s3 y = fold (place img) (segments img (e_phoff img 0) k) (mem s2) y"
    by (auto simp: k_def)
  have "160 * (nat (line + 1) + 1) \<le> ?D" using s3(2,3) by simp
  then obtain s4 where s4: "show_number (line + 1) (e_entry (mem s3) ?buf) s3 = Inr s4" "screen_only ?D s3 s4"
    using show_number_screen [OF _ D, of "line + 1"] s3(2) by auto
  have "copy_elf_code s = Inr (e_entry img 0, s4)"
    by (simp only: copy_elf_code_def Let_def s1_def [symmetric] hdr s2(1) s3(1) s4(1) rbind_Inr prod.case)
  moreover have "mem s4 y = fold (place img) (segments img (e_phoff img 0) k) (mem s) y"
    if "\<not> addr_in VB ?D y" for y
    using screen_only_mem [OF s4(2) that] s3(4) that
      fold_place_cong [where m = "mem s2" and x = y and m' = "mem s", OF screen_only_mem [OF scr2 that]] by simp
  ultimately show ?thesis by blast
qed

text \<open>Also: The loader puts the kernel in its place. Let the file at 0x300000 be \<open>N\<close> bytes long, with its
  header, its table of program headers and its segments inside, and let no loadable segment be
  placed over the file or over the lines of the screen that the loader uses. Then the loader
  returns the entry address of the header, and all memory but the screen is the old one with the
  loadable segments placed at their addresses in the order of the table.\<close>

theorem copy_elf_code_loads:
  fixes s :: "'a stdio_scheme" and N :: nat
  defines "img \<equiv> \<lambda>x. mem s (LOAD_KERNEL_ADDR + x)"
  defines "k \<equiv> unat (e_phnum img 0)"
  assumes size: "52 \<le> N" "N \<le> 2 ^ 32" "unat (e_phoff img 0) + 32 * k \<le> N"
    and scr: "disjoint_ranges LOAD_KERNEL_ADDR N VB (160 * (3 * k + 13))"
    and ok: "\<forall>g\<in>set (segments img (e_phoff img 0) k). segment_ok LOAD_KERNEL_ADDR N (160 * (3 * k + 13)) g"
  shows "\<exists>s'. copy_elf_code s = Inr (e_entry img 0, s')
    \<and> (\<forall>y. \<not> addr_in VB (160 * (3 * k + 13)) y \<longrightarrow>
         mem s' y = fold (place img) (segments img (e_phoff img 0) k) (mem s) y)"
  using elf_code_loads [OF assms(3-7) [unfolded assms(1,2)]] unfolding assms(1,2) .

text \<open>A file of 88 bytes with one segment of four bytes for the address 0x100000.\<close>

definition sample_elf :: "u8 list" where
  "sample_elf = [0x7f, 0x45, 0x4c, 0x46] @ replicate 20 0 @ [0, 0, 0x10, 0, 52, 0, 0, 0]
     @ replicate 12 0 @ [1, 0] @ replicate 6 0
     @ [1, 0, 0, 0, 84, 0, 0, 0, 0, 0, 0x10, 0, 0, 0, 0, 0, 4, 0, 0, 0] @ replicate 12 0
     @ [0xef, 0xbe, 0xad, 0xde]"

definition elf_memory :: mem where
  "elf_memory x = (let k = unat (x - LOAD_KERNEL_ADDR) in if k < 88 then sample_elf ! k else 0)"

lemma sample_elf_headers:
  "unat (e_phnum (\<lambda>x. elf_memory (LOAD_KERNEL_ADDR + x)) 0) = 1"
  "e_phoff (\<lambda>x. elf_memory (LOAD_KERNEL_ADDR + x)) 0 = 52"
  "e_entry (\<lambda>x. elf_memory (LOAD_KERNEL_ADDR + x)) 0 = 0x100000"
  "segments (\<lambda>x. elf_memory (LOAD_KERNEL_ADDR + x)) 52 1 = [(0x100000, 84, 4)]"
  "elf_memory (LOAD_KERNEL_ADDR + 84) = 0xef" "elf_memory (LOAD_KERNEL_ADDR + 87) = 0xde"
  by code_simp+

lemma sample_elf_ranges:
  "segment_ok LOAD_KERNEL_ADDR 88 2560 (0x100000, 84, 4)" "disjoint_ranges LOAD_KERNEL_ADDR 88 VB 2560"
  by (simp_all add: segment_ok_def disjoint_ranges_def)

theorem copy_elf_code_loads_witness:
  "\<exists>s'. copy_elf_code (blank_stdio\<lparr>mem := elf_memory\<rparr>) = Inr (0x100000, s')
     \<and> mem s' 0x100000 = 0xef \<and> mem s' 0x100003 = 0xde"
proof -
  let ?s = "blank_stdio\<lparr>mem := elf_memory\<rparr>"
  obtain s' where "copy_elf_code ?s = Inr (0x100000, s')"
    "\<forall>y. \<not> addr_in VB 2560 y \<longrightarrow>
       mem s' y = place (\<lambda>x. elf_memory (LOAD_KERNEL_ADDR + x)) (0x100000, 84, 4) elf_memory y"
    using copy_elf_code_loads [of 88 ?s] by (auto simp: sample_elf_headers sample_elf_ranges simp del: segments.simps One_nat_def)
  then show ?thesis using sample_elf_headers(5,6) by (simp add: addr_in_def place_def)
qed

section \<open>The extent\<close>

definition section_at :: "mem \<Rightarrow> nat \<Rightarrow> u32" where
  "section_at m i = KERNEL_INFO + e_shoff m KERNEL_INFO + of_nat i * ucast (e_shentsize m KERNEL_INFO)"

text \<open>The sections from number \<open>i\<close> on, below \<open>k\<close>, that occupy memory.\<close>

definition alloc_sections :: "mem \<Rightarrow> nat \<Rightarrow> nat \<Rightarrow> u32 set" where
  "alloc_sections m i k = section_at m ` {j. i \<le> j \<and> j < k \<and> sh_flags m (section_at m j) AND SHF_ALLOC \<noteq> 0}"

lemma alloc_sections_Suc:
  assumes "i < k"
  shows "alloc_sections m i k = (if sh_flags m (section_at m i) AND SHF_ALLOC \<noteq> 0
    then insert (section_at m i) (alloc_sections m (Suc i) k) else alloc_sections m (Suc i) k)"
proof -
  have "{j. i \<le> j \<and> j < k \<and> sh_flags m (section_at m j) AND SHF_ALLOC \<noteq> 0} =
      (if sh_flags m (section_at m i) AND SHF_ALLOC \<noteq> 0 then {i} else {})
      \<union> {j. Suc i \<le> j \<and> j < k \<and> sh_flags m (section_at m j) AND SHF_ALLOC \<noteq> 0}"
    using assms by (auto simp: le_eq_less_or_eq)
  then show ?thesis by (simp add: alloc_sections_def)
qed

lemma extremum_insert:
  fixes a b :: "'a :: linorder"
  assumes "finite S"
  shows "Min (insert b (insert a S)) = Min (insert (if b > a then a else b) S)"
    "Max (insert b (insert a S)) = Max (insert (if b < a then a else b) S)"
proof -
  show "Min (insert b (insert a S)) = Min (insert (if b > a then a else b) S)"
    using assms by (cases "S = {}") (auto simp: min_def)
  show "Max (insert b (insert a S)) = Max (insert (if b < a then a else b) S)"
    using assms by (cases "S = {}") (auto simp: max_def)
qed

lemma kernel_extent_eq:
  "kernel_extent m n i b t =
    (Min (insert b (sh_addr m ` alloc_sections m i (i + n))),
     Max (insert t ((\<lambda>a. sh_addr m a + sh_size m a) ` alloc_sections m i (i + n))))"
proof (induction n arbitrary: i b t)
  case 0
  have "alloc_sections m i i = {}" by (auto simp: alloc_sections_def)
  then show ?case by simp
next
  case (Suc n)
  have fin: "finite (alloc_sections m j k)" for j k by (simp add: alloc_sections_def)
  show ?case
  proof (cases "sh_flags m (section_at m i) AND SHF_ALLOC = 0")
    case True
    then show ?thesis
      using Suc.IH [of "Suc i"] alloc_sections_Suc [of i "i + Suc n" m]
      by (simp add: Let_def section_at_def [symmetric])
  next
    case False
    then have al: "alloc_sections m i (i + Suc n)
        = insert (section_at m i) (alloc_sections m (Suc i) (Suc i + n))"
      using alloc_sections_Suc [of i "i + Suc n" m] by simp
    show ?thesis
      unfolding al image_insert extremum_insert [OF finite_imageI [OF fin]]
      using False Suc.IH [of "Suc i"] by (simp add: Let_def section_at_def [symmetric])
  qed
qed

text \<open>Also: The extent of the kernel: when the file at 0x200500 has the ELF mark, the result is the lowest
  address of the sections that occupy memory, and the distance from there to the
  last byte of the section that ends highest; otherwise there is none. Only the screen is written.\<close>

theorem get_kernel_info_extent:
  fixes s :: "'a stdio_scheme"
  defines "mark \<equiv> map (mem s) [KERNEL_INFO, KERNEL_INFO + 1, KERNEL_INFO + 2, KERNEL_INFO + 3]"
  shows "\<exists>s'. screen_only 4000 s s'
    \<and> (if mark = [0x7f, 0x45, 0x4c, 0x46] then
         let al = alloc_sections (mem s') 0 (unat (e_shnum (mem s') KERNEL_INFO));
             bottom = Min (insert (NOT 0) (sh_addr (mem s') ` al));
             top = Max (insert 0 ((\<lambda>a. sh_addr (mem s') a + sh_size (mem s') a) ` al))
         in get_kernel_info s = (Some (bottom, top - bottom - 1), s')
       else get_kernel_info s = (None, s'))"
proof (cases "mark = [0x7f, 0x45, 0x4c, 0x46]")
  case True
  let ?s = "s32_print (map of_char ''find elf'') (0xb8000 + 160 * 24 + 12 * 2) s"
  have "screen_only 4000 s ?s"
    using screen_print [of 3864 "map of_char ''find elf''" 4000 s] by simp
  moreover have "get_kernel_info s =
      (let al = alloc_sections (mem ?s) 0 (unat (e_shnum (mem ?s) KERNEL_INFO));
           bottom = Min (insert (NOT 0) (sh_addr (mem ?s) ` al));
           top = Max (insert 0 ((\<lambda>a. sh_addr (mem ?s) a + sh_size (mem ?s) a) ` al))
       in (Some (bottom, top - bottom - 1), ?s))"
    using True by (simp add: mark_def get_kernel_info_def kernel_extent_eq Let_def)
  ultimately show ?thesis using True by (intro exI [of _ ?s] conjI) (simp_all add: Let_def)
next
  case False
  let ?s = "s32_print (map of_char ''not elf'') (0xb8000 + 160 * 24 + 12 * 2) s"
  have "screen_only 4000 s ?s"
    using screen_print [of 3864 "map of_char ''not elf''" 4000 s] by simp
  moreover have "get_kernel_info s = (None, ?s)"
    using False by (simp add: mark_def get_kernel_info_def)
  ultimately show ?thesis using False by (intro exI [of _ ?s] conjI) simp_all
qed

theorem get_kernel_info_extent_witness:
  "\<exists>s' r. screen_only 4000 (blank_stdio\<lparr>mem := (\<lambda>x. elf_memory (x + 0xffb00))\<rparr>) s'
     \<and> get_kernel_info (blank_stdio\<lparr>mem := (\<lambda>x. elf_memory (x + 0xffb00))\<rparr>) = (Some r, s')"
proof -
  have "map (mem (blank_stdio\<lparr>mem := (\<lambda>x. elf_memory (x + 0xffb00))\<rparr>))
      [KERNEL_INFO, KERNEL_INFO + 1, KERNEL_INFO + 2, KERNEL_INFO + 3] = [0x7f, 0x45, 0x4c, 0x46]"
    by (simp add: elf_memory_def sample_elf_def)
  then show ?thesis
    using get_kernel_info_extent [of "blank_stdio\<lparr>mem := (\<lambda>x. elf_memory (x + 0xffb00))\<rparr>"]
    by (simp only: if_True) (auto simp: Let_def)
qed

end
