(* ===== verification/Mm_Task.thy ===== *)
theory Mm_Task
  imports Exchange Elf
begin

text \<open>
  The memory-manager task: \<open>task_mm\<close> of systask.c with the services of mm/mm.c, process creation
  (\<open>do_fork\<close>), termination (\<open>do_exit\<close>, \<open>do_wait\<close>, \<open>cleanup\<close>) and program loading (\<open>do_execl\<close>).
  The addresses of the global request message and of the local messages are the record
  \<open>Mm_Link\<close>.
\<close>

unbundle bit_operations_syntax

record Mm_Link =
  mm_msg :: u32
  fork_msg :: u32
  cleanup_msg :: u32
  wait_msg :: u32

abbreviation (input) TASK_NAME_LEN :: nat where "TASK_NAME_LEN \<equiv> 32"
abbreviation (input) MAX_PATH :: int where "MAX_PATH \<equiv> 256"
abbreviation (input) INIT_PID :: nat where "INIT_PID \<equiv> 3"

text \<open>The slot a message names as its source.\<close>

definition msg_source :: "Mm_Link \<Rightarrow> 'a kernel_scheme \<Rightarrow> int" where
  "msg_source L s = sint (get_field (mm_msg L) s)"

section \<open>Process creation\<close>

text \<open>The search for a free slot: \<open>n\<close> slots are left, \<open>i\<close> is the next.\<close>

fun find_slot :: "nat \<Rightarrow> nat \<Rightarrow> ptable \<Rightarrow> nat" where
  "find_slot 0 i pt = i"
| "find_slot (Suc n) i pt = (if p_flags (pt i) = FREE_SLOT then i else find_slot n (Suc i) pt)"

text \<open>\<open>s32_sprintf(p->name, "%s_%d", ...)\<close>; a longer text would run over the end of the slot.\<close>

definition child_name :: "cstring \<Rightarrow> nat \<Rightarrow> cstring result" where
  "child_name parent i =
     rbind (s32_itoa (of_nat i) 10) (\<lambda>num.
       let nm = parent @ [0x5f] @ num
       in if length nm < TASK_NAME_LEN then Inr nm else Inl Out_of_bounds)"

text \<open>The assertion on the two segments of the caller: same base, limit and size. Both sizes are
  computed from the limit of the code segment.\<close>

definition same_segments :: "Process \<Rightarrow> bool" where
  "same_segments p \<longleftrightarrow>
     (let code = ldt p LDT_CODE; data = ldt p LDT_DATA
      in fork_base code = fork_base data \<and> fork_limit code = fork_limit data
         \<and> (fork_limit code + 1) * granularity code = (fork_limit code + 1) * granularity data)"

abbreviation (input) CHILD_BASE :: u32 where "CHILD_BASE \<equiv> 0xa00000"

text \<open>The two descriptors of the child.\<close>

definition child_ldt :: "(nat \<Rightarrow> Descriptor) \<Rightarrow> (nat \<Rightarrow> Descriptor)" where
  "child_ldt l = l(
     LDT_CODE := init_descriptor CHILD_BASE (0x400 - 1) (DA_LIMIT_4K OR DA_32 OR DA_C OR push_bit 5 (ucast PRIVILEGE_USER)),
     LDT_DATA := init_descriptor CHILD_BASE (0x400 - 1) (DA_LIMIT_4K OR DA_32 OR DA_DRW OR push_bit 5 (ucast PRIVILEGE_USER)))"

definition child_slot :: "Process \<Rightarrow> u16 \<Rightarrow> nat \<Rightarrow> cstring \<Rightarrow> Process" where
  "child_slot p child_ldt_sel who nm =
     p\<lparr>ldt_sel := child_ldt_sel, p_parent := of_nat who, p_name := nm, ldt := child_ldt (ldt p)\<rparr>"

text \<open>
  The block that \<open>alloc_mem\<close> gives is not used: the address is overwritten by a constant. The
  slot of the child is filled before the copy of the memory; nothing in between reads it but the
  code shown here.
\<close>

definition do_fork :: "Mm_Link \<Rightarrow> 'a memory_scheme \<Rightarrow> ('a memory_scheme, int) prog" where
  "do_fork L s =
     (let i = find_slot (NR_TASKS + NR_PROCS) 0 (proc_table s); src = msg_source L s
      in if \<not> i \<ge> NR_TASKS + NR_NATIVE_PROCS then Stop Assert_failed
         else if i = NR_TASKS + NR_PROCS then Return (- 1) s
         else if \<not> valid_pid src then Stop Out_of_bounds
         else
           let p = proc_table s (nat src)
           in case child_name (p_name p) i of
                Inl e \<Rightarrow> Stop e
              | Inr nm \<Rightarrow>
                  if \<not> same_segments p then Stop Assert_failed
                  else
                    let s1 = snd (alloc_mem s);
                        s2 = s1\<lparr>mem := p_asm_memcpy (mem s1) (CHILD_BASE + 0x100000)
                                   (fork_base (ldt p LDT_CODE) + 0x100000) 0x100000\<rparr>;
                        s3 = upd_proc i (\<lambda>c. child_slot p (ldt_sel c) (nat src) nm) s2;
                        s4 = put_field (mm_msg L + OFF_PID) (of_nat i) s3;
                        s5 = put_field (fork_msg L + OFF_PID) 0 (put_field (fork_msg L + OFF_RETVAL) 0
                               (put_field (fork_msg L + OFF_TYPE) SYSCALL_RET s4))
                    in pbind (send_recv SEND (int i) (fork_msg L) s5) (\<lambda>_. Return 0))"

section \<open>Termination of a process\<close>

definition cleanup :: "Mm_Link \<Rightarrow> nat \<Rightarrow> 'a kernel_scheme \<Rightarrow> ('a kernel_scheme, unit) prog" where
  "cleanup L proc s =
     (let m = cleanup_msg L;
          s1 = put_field (m + OFF_STATUS) (exit_status (proc_table s proc))
                 (put_field (m + OFF_PID) (of_nat proc) (put_field (m + OFF_TYPE) SYSCALL_RET s))
      in pbind (send_recv SEND (sint (p_parent (proc_table s1 proc))) m s1) (\<lambda>_ s2.
           Return () (upd_proc proc (\<lambda>p. p\<lparr>p_flags := FREE_SLOT\<rparr>) s2)))"

text \<open>
  The last loop of \<open>do_exit\<close> over the children of the process. The statement that should give
  them a new parent is a comparison and has no effect.
\<close>

fun exit_orphans :: "Mm_Link \<Rightarrow> nat \<Rightarrow> nat \<Rightarrow> nat \<Rightarrow> 'a kernel_scheme \<Rightarrow> ('a kernel_scheme, unit) prog" where
  "exit_orphans L who 0 i s = Return () s"
| "exit_orphans L who (Suc n) i s =
     (if p_parent (proc_table s i) = of_nat who
         \<and> p_flags (proc_table s INIT_PID) AND WAITING \<noteq> 0 \<and> p_flags (proc_table s i) AND HANGING \<noteq> 0
      then pbind (cleanup L i (upd_proc INIT_PID (\<lambda>p. p\<lparr>p_flags := p_flags p AND NOT WAITING\<rparr>) s))
             (\<lambda>_. exit_orphans L who n (Suc i))
      else exit_orphans L who n (Suc i) s)"

definition do_exit :: "Mm_Link \<Rightarrow> u32 \<Rightarrow> 'a kernel_scheme \<Rightarrow> ('a kernel_scheme, unit) prog" where
  "do_exit L st s =
     (if \<not> valid_pid (msg_source L s) then Stop Out_of_bounds
      else
        let who = nat (msg_source L s);
            parent = unat (p_parent (proc_table s who));
            s1 = upd_proc who (\<lambda>p. p\<lparr>exit_status := st\<rparr>) s
        in if \<not> parent < NR_TASKS + NR_PROCS then Stop Out_of_bounds
           else
             pbind
               (if p_flags (proc_table s1 parent) AND WAITING \<noteq> 0
                then cleanup L who (upd_proc parent (\<lambda>p. p\<lparr>p_flags := p_flags p AND NOT WAITING\<rparr>) s1)
                else Return () (upd_proc parent (\<lambda>p. p\<lparr>p_flags := p_flags p OR HANGING\<rparr>) s1))
               (\<lambda>_. exit_orphans L who (NR_TASKS + NR_PROCS) 0))"

text \<open>The loop of \<open>do_wait\<close>: the first hanging child, or the number of children.\<close>

fun wait_scan :: "nat \<Rightarrow> nat \<Rightarrow> nat \<Rightarrow> nat \<Rightarrow> ptable \<Rightarrow> nat + nat" where
  "wait_scan who 0 i children pt = Inr children"
| "wait_scan who (Suc n) i children pt =
     (if p_parent (pt i) = of_nat who then
        if p_flags (pt i) AND HANGING \<noteq> 0 then Inl i
        else wait_scan who n (Suc i) (Suc children) pt
      else wait_scan who n (Suc i) children pt)"

definition do_wait :: "Mm_Link \<Rightarrow> 'a kernel_scheme \<Rightarrow> ('a kernel_scheme, unit) prog" where
  "do_wait L s =
     (if \<not> valid_pid (msg_source L s) then Stop Out_of_bounds
      else
        let who = nat (msg_source L s)
        in case wait_scan who (NR_TASKS + NR_PROCS) 0 0 (proc_table s) of
             Inl i \<Rightarrow> cleanup L i s
           | Inr children \<Rightarrow>
               if children \<noteq> 0 then Return () (upd_proc who (\<lambda>p. p\<lparr>p_flags := p_flags p OR WAITING\<rparr>) s)
               else
                 let s1 = put_field (wait_msg L + OFF_PID) (word_of_int NO_TASK)
                            (put_field (wait_msg L + OFF_TYPE) SYSCALL_RET s)
                 in pbind (send_recv SEND (int who) (wait_msg L) s1) (\<lambda>_. Return ()))"

section \<open>Program loading\<close>

text \<open>The loop over the program headers, as in the loader, with both addresses translated.\<close>

function execl_loop :: "nat \<Rightarrow> u32 \<Rightarrow> nat \<Rightarrow> u32 \<Rightarrow> 'a kernel_scheme \<Rightarrow> 'a kernel_scheme result" where
  "execl_loop src buf i ph s =
     (if i < unat (e_phnum (mem s) buf) then
        rbind (if p_type (mem s) ph = PT_LOAD then
                 rbind (va2la (proc_table s) src (p_vaddr (mem s) ph)) (\<lambda>to.
                 rbind (va2la (proc_table s) TASK_MM (buf + p_offset (mem s) ph)) (\<lambda>from.
                   Inr (s\<lparr>mem := p_asm_memcpy (mem s) to from (p_filesz (mem s) ph)\<rparr>)))
               else Inr s) (\<lambda>s1.
          execl_loop src buf (Suc i) (ph + PHDR_SIZE) s1)
      else Inr s)"
  by auto
termination by (relation "measure (\<lambda>(_, _, i, _, _). 65536 - i)") (auto dest: less_trans [OF _ u16_bound])

declare execl_loop.simps [simp del]

text \<open>
  The path in the request is not used: the file is always "echo". A null inode is not noticed.
  The function returns no value although its caller takes one.
\<close>

definition do_execl :: "Mm_Link \<Rightarrow> 'a files_scheme \<Rightarrow> 'a files_scheme result" where
  "do_execl L s =
     (let name_len = sint (get_field (mm_msg L + OFF_NAME_LEN) s); src = msg_source L s
      in kassert (name_len < MAX_PATH)
        (let sb = fs_type s ROMFS
         in if sb = 0 then Inl Out_of_bounds
            else rbind (romfs_namei sb (map of_char ''echo'') s) (\<lambda>(inode, s1).
              let addr = romfs_get_daddr inode (mem s1); (buf, s2) = alloc_mem s1
              in rbind (dout (sb_device (sb_obj s2 sb)) buf addr (inode_dsize (mem s2) inode) s2) (\<lambda>(_, s3).
                 let ph = buf + e_phoff (mem s3) buf; entry = e_entry (mem s3) buf
                 in if \<not> valid_pid src then Inl Out_of_bounds
                    else rbind (execl_loop (nat src) buf 0 ph s3) (\<lambda>s4.
                         rbind (free_mem buf s4) (\<lambda>s5.
                           Inr (upd_proc (nat src) (\<lambda>p. p\<lparr>regs := (regs p)\<lparr>rg_eip := entry\<rparr>\<rparr>) s5)))))))"

section \<open>The task\<close>

definition mm_reply :: "Mm_Link \<Rightarrow> int \<Rightarrow> 'a kernel_scheme \<Rightarrow> ('a kernel_scheme, unit) prog" where
  "mm_reply L src s =
     pbind (send_recv SEND src (mm_msg L) (put_field (mm_msg L + OFF_TYPE) SYSCALL_RET s)) turn_over"

text \<open>
  One turn of the endless loop. \<open>eax\<close> is what the register holds after \<open>do_execl\<close>, which the
  caller takes for its value.
\<close>

definition task_mm :: "Mm_Link \<Rightarrow> u32 \<Rightarrow> 'a files_scheme \<Rightarrow> ('a files_scheme, unit) prog" where
  "task_mm L eax s =
     pbind (send_recv RECEIVE ANY (mm_msg L) s) (\<lambda>_ s1.
       let src = msg_source L s1; ty = get_field (mm_msg L + OFF_TYPE) s1
       in if ty = FORK then
            pbind (do_fork L s1) (\<lambda>r s2. mm_reply L src (put_field (mm_msg L + OFF_RETVAL) (word_of_int r) s2))
          else if ty = EXIT then do_exit L (get_field (mm_msg L + OFF_STATUS) s1) s1
          else if ty = WAIT then do_wait L s1
          else if ty = EXEC then
            pbind (prog_of (do_execl L s1)) (\<lambda>_ s2. mm_reply L src (put_field (mm_msg L + OFF_RETVAL) eax s2))
          else Stop Panicked)"

end
