(* ===== verification/Mm_Properties.thy ===== *)
theory Mm_Properties
  imports Mm_Task Ipc_Properties
begin

text \<open>
  What the services of the memory-manager task do to the process table and to the messages of
  the processes involved.
\<close>

unbundle bit_operations_syntax

section \<open>A new slot in the table\<close>

text \<open>A slot that sends neither before nor after the write, and keeps its queue.\<close>

lemma ipc_inv_slot:
  assumes inv: "ipc_inv pt qs" and ok: "proc_ok n" and n: "p_flags n AND SENDING = 0"
    and i: "i < NR_SLOTS \<Longrightarrow> p_flags (pt i) AND SENDING = 0" "i < NR_SLOTS \<Longrightarrow> q_sending n = q_sending (pt i)"
    and l: "i < NR_TASKS + NR_NATIVE_PROCS \<Longrightarrow> ldt n = ldt (pt i)"
  shows "ipc_inv (pt(i := n)) qs"
proof -
  let ?pt = "pt(i := n)"
  have st: "sending_to ?pt j d \<longleftrightarrow> sending_to pt j d" for j d
    using n i(1) by (auto simp: sending_to_def)
  have "chain (\<lambda>j. next_sending (?pt j)) (q_sending (?pt d)) (qs d) None" if d: "d < NR_SLOTS" for d
  proof -
    have "i \<notin> set (qs d)" using ipc_inv_queue(3) [OF inv d] i(1) by (auto simp: sending_to_def)
    then have "chain (\<lambda>j. next_sending (?pt j)) (q_sending (pt d)) (qs d) None"
      using ipc_inv_queue(1) [OF inv d] by (subst chain_cong [where nx' = "\<lambda>j. next_sending (pt j)"]) auto
    then show ?thesis using i(2) d by (cases "d = i") simp_all
  qed
  moreover have "wait_graph ?pt = wait_graph pt" by (simp add: wait_graph_def st)
  moreover have "flat_natives ?pt" using inv l by (auto simp: ipc_inv_def flat_natives_def ldt_seg_linear_def)
  moreover have "proc_ok (?pt j)" if "j < NR_SLOTS" for j using ipc_inv_proc_ok [OF inv that] ok by simp
  ultimately show ?thesis using inv unfolding ipc_inv_def queues_ok_def by (simp add: st)
qed

lemma ipc_inv_new_slot:
  assumes inv: "ipc_inv pt qs" and c: "7 \<le> c" "c < NR_SLOTS" and free: "p_flags (pt c) = FREE_SLOT"
    and q: "q_sending (pt c) = None" and n: "in_receive n" "q_sending n = None"
  shows "ipc_inv (pt(c := n)) qs"
  by (rule ipc_inv_slot [OF inv]) (use assms in \<open>simp_all add: proc_ok_def in_receive_def\<close>)

section \<open>An answer of the task\<close>

text \<open>
  The task sends the message at \<open>b\<close> to a process that waits for it with the buffer \<open>m\<close>: the
  process becomes runnable and its buffer holds the fields of the message.
\<close>

lemma mm_flat: "kernel_ok s \<Longrightarrow> ready_process s = TASK_MM \<Longrightarrow> self_addr s x = x"
  by (auto simp: kernel_ok_def ipc_inv_def flat_natives_def self_addr_def data_addr_def)

lemma mm_answers:
  assumes ok: "kernel_ok s" and T: "ready_process s = TASK_MM" and P: "P < NR_SLOTS"
    and ex: "expecting (int TASK_MM) m (proc_table s P)" and b: "b \<noteq> 0"
    and dis: "disjoint_ranges (data_addr (proc_table s) P m) 48 b 48"
  shows "send_recv SEND (int P) b s = Suspend (handed_over P b s) resume" "kernel_ok (handed_over P b s)"
    "resting (proc_table (handed_over P b s) P)"
    "read32 (mem (handed_over P b s)) (data_addr (proc_table s) P m) = of_nat TASK_MM"
    "4 \<le> i \<Longrightarrow> i \<le> 44 \<Longrightarrow>
     read32 (mem (handed_over P b s)) (data_addr (proc_table s) P m + of_nat i) = read32 (mem s) (b + of_nat i)"
proof -
  note f = handed_over_fields [of P b s]
  have acc: "accepts (proc_table s P) (ready_process s)" using ex T by (simp add: expecting_def accepts_def)
  note run = send_hands_over [OF ok P b acc]
  show "send_recv SEND (int P) b s = Suspend (handed_over P b s) resume" using run(1) by (simp add: send_recv_def)
  show "kernel_ok (handed_over P b s)" by (rule run(2))
  show "resting (proc_table (handed_over P b s) P)" using ex f by (simp add: resting_def expecting_def idle_def)
  have "msg (proc_table s P) = m" using ex by (simp add: expecting_def)
  then have cp: "read32 (mem (handed_over P b s)) (data_addr (proc_table s) P m + of_nat k)
      = read32 (mem (stamped b s)) (b + of_nat k)" if "k \<le> 44" for k
    using f(2) read32_memcpy [OF dis that] mm_flat [OF ok T] by simp
  from cp [of 0] stamped_read(1) [of b s] mm_flat [OF ok T] T
  show "read32 (mem (handed_over P b s)) (data_addr (proc_table s) P m) = of_nat TASK_MM" by simp
  show "4 \<le> i \<Longrightarrow> i \<le> 44 \<Longrightarrow>
     read32 (mem (handed_over P b s)) (data_addr (proc_table s) P m + of_nat i) = read32 (mem s) (b + of_nat i)"
    using cp [of i] stamped_read(2) [of i b s] mm_flat [OF ok T] by simp
qed

lemma put_field_read:
  assumes "kernel_ok s" and "ready_process s = TASK_MM"
  shows "read32 (mem (put_field x v s)) x = v"
    "disjoint_ranges y 4 x 4 \<Longrightarrow> read32 (mem (put_field x v s)) y = read32 (mem s) y"
  using mm_flat [OF assms] by (simp_all add: put_field_def read32_write32_other)

section \<open>Fork\<close>

text \<open>
  Where the messages and images are: the child's copy of the caller's buffer \<open>m\<close>, the two
  messages of the task, the image of the child and that of a caller with its segment at \<open>base\<close>.
\<close>

definition fork_layout :: "Mm_Link \<Rightarrow> u32 \<Rightarrow> u32 \<Rightarrow> bool" where
  "fork_layout L m base \<longleftrightarrow> m \<noteq> 0 \<and> mm_msg L \<noteq> 0 \<and> fork_msg L \<noteq> 0
     \<and> disjoint_ranges (CHILD_BASE + m) 48 (fork_msg L) 48 \<and> disjoint_ranges (mm_msg L) 48 (CHILD_BASE + m) 48
     \<and> disjoint_ranges (mm_msg L) 48 (fork_msg L) 48
     \<and> disjoint_ranges (CHILD_BASE + 0x100000) 0x100000 (mm_msg L) 48
     \<and> disjoint_ranges (CHILD_BASE + 0x100000) 0x100000 (fork_msg L) 48
     \<and> disjoint_ranges (CHILD_BASE + 0x100000) 0x100000 (base + 0x100000) 0x100000"

text \<open>The state in which \<open>do_fork\<close> sends the message to the child.\<close>

definition fork_state :: "Mm_Link \<Rightarrow> nat \<Rightarrow> nat \<Rightarrow> cstring \<Rightarrow> 'a memory_scheme \<Rightarrow> 'a memory_scheme" where
  "fork_state L c P nm s =
     (let p = proc_table s P; s1 = snd (alloc_mem s);
          s2 = s1\<lparr>mem := p_asm_memcpy (mem s1) (CHILD_BASE + 0x100000)
                     (fork_base (ldt p LDT_CODE) + 0x100000) 0x100000\<rparr>;
          s3 = upd_proc c (\<lambda>q. child_slot p (ldt_sel q) P nm) s2
      in put_field (fork_msg L + OFF_PID) 0 (put_field (fork_msg L + OFF_RETVAL) 0
           (put_field (fork_msg L + OFF_TYPE) SYSCALL_RET (put_field (mm_msg L + OFF_PID) (of_nat c) s3))))"

lemma do_fork_eq:
  assumes "msg_source L s = int P" and "P < NR_SLOTS" and "find_slot NR_SLOTS 0 (proc_table s) = c"
    and "7 \<le> c" "c < NR_SLOTS" and "child_name (p_name (proc_table s P)) c = Inr nm"
    and "same_segments (proc_table s P)"
  shows "do_fork L s = pbind (send_recv SEND (int c) (fork_msg L) (fork_state L c P nm s)) (\<lambda>_. Return 0)"
  using assms by (simp add: do_fork_def fork_state_def valid_pid_def Let_def)

lemma alloc_mem_kernel [simp]:
  "proc_table (snd (alloc_mem s)) = proc_table s" "ready_process (snd (alloc_mem s)) = ready_process s"
  "k_reenter (snd (alloc_mem s)) = k_reenter s"
  by (simp_all add: alloc_mem_def find_free_area_def case_prod_beta Let_def)

lemma fork_state_kernel:
  "proc_table (fork_state L c P nm s)
     = (proc_table s)(c := child_slot (proc_table s P) (ldt_sel (proc_table s c)) P nm)"
  "ready_process (fork_state L c P nm s) = ready_process s" "k_reenter (fork_state L c P nm s) = k_reenter s"
proof -
  have k: "k_reenter (put_field x v t) = k_reenter t" for x v and t :: "'a memory_scheme"
    by (simp add: put_field_def)
  show "proc_table (fork_state L c P nm s)
     = (proc_table s)(c := child_slot (proc_table s P) (ldt_sel (proc_table s c)) P nm)"
    "ready_process (fork_state L c P nm s) = ready_process s" "k_reenter (fork_state L c P nm s) = k_reenter s"
    by (simp_all add: fork_state_def Let_def upd_proc_def k)
qed

lemma child_slot_fields:
  "expecting src m p \<Longrightarrow> expecting src m (child_slot p sel P nm)"
  "ldt_seg_linear (child_slot p sel P nm) LDT_DATA = CHILD_BASE"
  "ldt_seg_linear (child_slot p sel P nm) LDT_CODE = CHILD_BASE"
  by (simp_all add: child_slot_def expecting_def ldt_seg_linear_def child_ldt_def desc_base_init)

lemma expecting_in_receive:
  "expecting src m p \<Longrightarrow> m \<noteq> 0 \<Longrightarrow> src \<noteq> NO_TASK \<Longrightarrow> in_receive p \<and> q_sending p = None"
  by (simp add: expecting_def in_receive_def)

text \<open>What the task needs of the caller and of the table.\<close>

definition forkable :: "Mm_Link \<Rightarrow> nat \<Rightarrow> nat \<Rightarrow> cstring \<Rightarrow> u32 \<Rightarrow> 'a kernel_scheme \<Rightarrow> bool" where
  "forkable L P c nm m s \<longleftrightarrow> kernel_ok s \<and> ready_process s = TASK_MM \<and> msg_source L s = int P \<and> P < NR_SLOTS
     \<and> expecting (int TASK_MM) m (proc_table s P)
     \<and> find_slot NR_SLOTS 0 (proc_table s) = c \<and> 7 \<le> c \<and> c < NR_SLOTS \<and> q_sending (proc_table s c) = None
     \<and> child_name (p_name (proc_table s P)) c = Inr nm \<and> same_segments (proc_table s P)
     \<and> fork_layout L m (fork_base (ldt (proc_table s P) LDT_CODE))"

lemma find_slot_free:
  "find_slot n i pt = c \<Longrightarrow> c < i + n \<Longrightarrow> p_flags (pt c) = FREE_SLOT"
  by (induction n i pt rule: find_slot.induct) (auto split: if_splits)

lemma fork_state_ok:
  assumes f: "forkable L P c nm m s"
  shows "kernel_ok (fork_state L c P nm s)"
proof -
  let ?n = "child_slot (proc_table s P) (ldt_sel (proc_table s c)) P nm"
  obtain qs where inv: "ipc_inv (proc_table s) qs" and run: "idle (proc_table s TASK_MM)" "k_reenter s = 0"
    using f by (auto simp: forkable_def kernel_ok_def running_ok_def)
  have "in_receive ?n" "q_sending ?n = None"
    using f child_slot_fields(1) [of "int TASK_MM" m "proc_table s P"] expecting_in_receive [of "int TASK_MM" m ?n]
    by (simp_all add: forkable_def fork_layout_def)
  moreover have "p_flags (proc_table s c) = FREE_SLOT"
    using f find_slot_free [of NR_SLOTS 0 "proc_table s" c] by (simp add: forkable_def)
  ultimately have "ipc_inv ((proc_table s)(c := ?n)) qs"
    using ipc_inv_new_slot [OF inv] f by (simp add: forkable_def)
  then show ?thesis
    using f run by (auto simp: forkable_def kernel_ok_def running_ok_def fork_state_kernel)
qed

lemma fork_state_fields:
  assumes f: "forkable L P c nm m s"
  shows "read32 (mem (fork_state L c P nm s)) (fork_msg L + 12) = 0"
    "read32 (mem (fork_state L c P nm s)) (fork_msg L + 4) = SYSCALL_RET"
    "read32 (mem (fork_state L c P nm s)) (mm_msg L + 12) = of_nat c"
proof -
  let ?p = "proc_table s P"
  define s3 where "s3 = upd_proc c (\<lambda>q. child_slot ?p (ldt_sel q) P nm) ((snd (alloc_mem s))\<lparr>mem :=
    p_asm_memcpy (mem s) (CHILD_BASE + 0x100000) (fork_base (ldt ?p LDT_CODE) + 0x100000) 0x100000\<rparr>)"
  define s4 where "s4 = put_field (mm_msg L + OFF_PID) (of_nat c) s3"
  have eq: "fork_state L c P nm s = put_field (fork_msg L + OFF_PID) 0 (put_field (fork_msg L + OFF_RETVAL) 0
      (put_field (fork_msg L + OFF_TYPE) SYSCALL_RET s4))"
    by (simp add: fork_state_def Let_def s3_def s4_def)
  have ok: "kernel_ok s4" and T: "ready_process s4 = TASK_MM"
    using fork_state_ok [OF f] fork_state_kernel(2) [of L c P nm s] f by (simp_all add: eq forkable_def)
  then have T3: "kernel_ok s3" "ready_process s3 = TASK_MM" by (simp_all add: s4_def)
  have d: "disjoint_ranges (mm_msg L) 48 (fork_msg L) 48" using f by (simp add: forkable_def fork_layout_def)
  have apart: "disjoint_ranges (mm_msg L + 12) 4 (fork_msg L + of_nat i) 4" if "i \<le> 44" for i
    using disjoint_ranges_sub [OF d, of 12] disjoint_ranges_sub [of "fork_msg L" "mm_msg L + 12" 4 i] that
    by (simp add: disjoint_ranges_sym [of "mm_msg L + 12"])
  show "read32 (mem (fork_state L c P nm s)) (fork_msg L + 12) = 0"
    by (simp add: eq put_field_read ok T)
  show "read32 (mem (fork_state L c P nm s)) (fork_msg L + 4) = SYSCALL_RET"
    using disjoint_fields [of 4 12 "fork_msg L"] disjoint_fields [of 4 8 "fork_msg L"]
    by (simp add: eq put_field_read ok T)
  show "read32 (mem (fork_state L c P nm s)) (mm_msg L + 12) = of_nat c"
    using apart [of 4] apart [of 8] apart [of 12] by (simp add: eq put_field_read ok T) (simp add: s4_def put_field_read T3)
qed

lemma put_field_elsewhere:
  assumes "kernel_ok s" and "ready_process s = TASK_MM" and "\<not> addr_in b 48 x" and "unat y \<le> 44"
  shows "mem (put_field (b + y) v s) x = mem s x"
proof -
  have "\<not> addr_in (b + y) 4 x" using addr_in_sub [of b y 4 x 48] assms(3,4) by auto
  then show ?thesis using mm_flat [OF assms(1,2)] by (simp add: put_field_def write32_outside)
qed

lemma handed_over_elsewhere:
  assumes "kernel_ok s" and "ready_process s = TASK_MM" and "\<not> addr_in b 48 x"
    and "\<not> addr_in (data_addr (proc_table s) P (msg (proc_table s P))) 48 x"
  shows "mem (handed_over P b s) x = mem s x"
proof -
  have "\<not> addr_in b 4 x" using assms(3) by (auto simp: addr_in_def)
  then have "mem (stamped b s) x = mem s x" using mm_flat [OF assms(1,2)] by (simp add: stamped_def write32_outside)
  then show ?thesis using assms(4) by (simp add: handed_over_fields p_asm_memcpy_outside)
qed

text \<open>The image of the child: the caller's, one megabyte at the same place in the segment.\<close>

lemma fork_state_image:
  assumes f: "forkable L P c nm m s" and x: "addr_in (CHILD_BASE + 0x100000) 0x100000 x"
  shows "mem (fork_state L c P nm s) x = mem s (fork_base (ldt (proc_table s P) LDT_CODE) + (x - CHILD_BASE))"
proof -
  let ?p = "proc_table s P" and ?base = "fork_base (ldt (proc_table s P) LDT_CODE)"
  define s3 where "s3 = upd_proc c (\<lambda>q. child_slot ?p (ldt_sel q) P nm) ((snd (alloc_mem s))\<lparr>mem :=
    p_asm_memcpy (mem s) (CHILD_BASE + 0x100000) (?base + 0x100000) 0x100000\<rparr>)"
  have eq: "fork_state L c P nm s = put_field (fork_msg L + OFF_PID) 0 (put_field (fork_msg L + OFF_RETVAL) 0
      (put_field (fork_msg L + OFF_TYPE) SYSCALL_RET (put_field (mm_msg L + OFF_PID) (of_nat c) s3)))"
    by (simp add: fork_state_def Let_def s3_def)
  have ok: "kernel_ok s3" "ready_process s3 = TASK_MM"
    using fork_state_ok [OF f] fork_state_kernel(2) [of L c P nm s] f by (simp_all add: eq forkable_def)
  have dis: "disjoint_ranges (CHILD_BASE + 0x100000) 0x100000 (mm_msg L) 48"
    "disjoint_ranges (CHILD_BASE + 0x100000) 0x100000 (fork_msg L) 48"
    "disjoint_ranges (CHILD_BASE + 0x100000) 0x100000 (?base + 0x100000) 0x100000"
    using f by (simp_all add: forkable_def fork_layout_def)
  have out: "\<not> addr_in (mm_msg L) 48 x" "\<not> addr_in (fork_msg L) 48 x"
    using disjoint_rangesD [OF dis(1) x] disjoint_rangesD [OF dis(2) x] by auto
  have "mem (fork_state L c P nm s) x = mem s3 x"
    using out by (simp add: eq ok put_field_elsewhere [where b = "fork_msg L"] put_field_elsewhere [where b = "mm_msg L"])
  also have "\<dots> = p_asm_memcpy (mem s) (CHILD_BASE + 0x100000) (?base + 0x100000) 0x100000 x"
    by (simp add: s3_def upd_proc_def)
  also have "\<dots> = mem s (?base + 0x100000 + (x - (CHILD_BASE + 0x100000)))"
    using p_asm_memcpy_apply [where d = "CHILD_BASE + 0x100000" and n = "0x100000" and s = "?base + 0x100000"] dis(3) x
    by simp
  finally show ?thesis by (simp add: algebra_simps)
qed

text \<open>The answer to the caller.\<close>

lemma mm_reply_delivers:
  assumes ok: "kernel_ok s" and T: "ready_process s = TASK_MM" and P: "P < NR_SLOTS"
    and ex: "expecting (int TASK_MM) m (proc_table s P)" and b: "mm_msg L \<noteq> 0"
    and dis: "disjoint_ranges (data_addr (proc_table s) P m) 48 (mm_msg L) 48"
  shows "\<exists>s'. mm_reply L (int P) s = Suspend s' (turn_over (0 :: int)) \<and> kernel_ok s' \<and> resting (proc_table s' P)
    \<and> ldt (proc_table s' P) = ldt (proc_table s P) \<and> (\<forall>i. i \<noteq> P \<longrightarrow> proc_table s' i = proc_table s i)
    \<and> (\<forall>i. 8 \<le> i \<and> i \<le> 44 \<longrightarrow>
         read32 (mem s') (data_addr (proc_table s) P m + of_nat i) = read32 (mem s) (mm_msg L + of_nat i))"
proof -
  let ?s = "put_field (mm_msg L + OFF_TYPE) SYSCALL_RET s"
  have ok': "kernel_ok ?s" and T': "ready_process ?s = TASK_MM" using ok T by simp_all
  have ex': "expecting (int TASK_MM) m (proc_table ?s P)"
    and dis': "disjoint_ranges (data_addr (proc_table ?s) P m) 48 (mm_msg L) 48" using ex dis by simp_all
  note a = mm_answers [OF ok' T' P ex' b dis']
  have "mm_reply L (int P) s = Suspend (handed_over P (mm_msg L) ?s) (turn_over (0 :: int))"
    using a(1) by (simp add: mm_reply_def)
  moreover have "read32 (mem (handed_over P (mm_msg L) ?s)) (data_addr (proc_table s) P m + of_nat i)
      = read32 (mem s) (mm_msg L + of_nat i)" if "8 \<le> i" "i \<le> 44" for i
    using a(5) [of i] put_field_read(2) [OF ok T, of "mm_msg L + of_nat i" "mm_msg L + 4"]
      disjoint_fields [of i 4 "mm_msg L"] that by simp
  ultimately show ?thesis
    using a(2,3) handed_over_fields(1) [of P "mm_msg L" ?s]
    by (intro exI [of _ "handed_over P (mm_msg L) ?s"]) auto
qed

text \<open>
  The service of a fork request. When the task has received the request of a process that waits
  for the answer, and a slot is free, the free slot with the lowest number becomes the child, and
  its answer says 0. Whatever the child and the others do before the task runs again, the caller
  then gets the number of the child.
\<close>

lemma fork_service:
  fixes s :: "'a memory_scheme"
  assumes f: "forkable L P c nm m s"
    and dis: "disjoint_ranges (data_addr (proc_table s) P m) 48 (mm_msg L) 48"
  shows "\<exists>s1 k.
    pbind (do_fork L s) (\<lambda>r s2. mm_reply L (int P) (put_field (mm_msg L + OFF_RETVAL) (word_of_int r) s2))
      = Suspend s1 k
    \<and> kernel_ok s1
    \<and> proc_table s1 = (proc_table s)(c := woken (child_slot (proc_table s P) (ldt_sel (proc_table s c)) P nm))
    \<and> get_field (m + OFF_PID) (s1\<lparr>ready_process := c\<rparr>) = 0
    \<and> (\<forall>x. addr_in (CHILD_BASE + 0x100000) 0x100000 x \<and> \<not> addr_in (CHILD_BASE + m) 48 x \<longrightarrow>
         mem s1 x = mem s (fork_base (ldt (proc_table s P) LDT_CODE) + (x - CHILD_BASE)))
    \<and> (\<forall>s2. kernel_ok s2 \<longrightarrow> ready_process s2 = TASK_MM \<longrightarrow> proc_table s2 P = proc_table s P \<longrightarrow>
         (\<forall>x. addr_in (mm_msg L) 48 x \<longrightarrow> mem s2 x = mem s1 x) \<longrightarrow>
         (\<exists>s3. k s2 = Suspend s3 (turn_over (0 :: int)) \<and> kernel_ok s3 \<and> resting (proc_table s3 P)
            \<and> get_field (m + OFF_PID) (s3\<lparr>ready_process := P\<rparr>) = of_nat c))"
proof -
  let ?n = "child_slot (proc_table s P) (ldt_sel (proc_table s c)) P nm"
  let ?f = "fork_state L c P nm s" and ?s1 = "handed_over c (fork_msg L) (fork_state L c P nm s)"
  let ?k = "\<lambda>s2. mm_reply L (int P) (put_field (mm_msg L + OFF_RETVAL) (0 :: u32) s2)"
  have P: "P < NR_SLOTS" "c < NR_SLOTS" and ex: "expecting (int TASK_MM) m (proc_table s P)"
    and nz: "fork_msg L \<noteq> 0" "mm_msg L \<noteq> 0" and d1: "disjoint_ranges (CHILD_BASE + m) 48 (fork_msg L) 48"
    and d2: "disjoint_ranges (mm_msg L) 48 (CHILD_BASE + m) 48" and d3: "disjoint_ranges (mm_msg L) 48 (fork_msg L) 48"
    using f by (simp_all add: forkable_def fork_layout_def)
  have ok: "kernel_ok ?f" by (rule fork_state_ok [OF f])
  have T: "ready_process ?f = TASK_MM" using f by (simp add: fork_state_kernel forkable_def)
  have exc: "expecting (int TASK_MM) m (proc_table ?f c)"
    using child_slot_fields(1) [OF ex] by (simp add: fork_state_kernel)
  have ac: "data_addr (proc_table ?f) c m = CHILD_BASE + m" "msg (proc_table ?f c) = m"
    using child_slot_fields(2) exc by (simp_all add: data_addr_def fork_state_kernel expecting_def)
  note a = mm_answers [OF ok T P(2) exc nz(1), unfolded ac(1), OF d1]
  have df: "do_fork L s = pbind (send_recv SEND (int c) (fork_msg L) ?f) (\<lambda>_. Return 0)"
    using f by (intro do_fork_eq) (simp_all add: forkable_def)
  have run: "pbind (do_fork L s)
      (\<lambda>r s2. mm_reply L (int P) (put_field (mm_msg L + OFF_RETVAL) (word_of_int r) s2)) = Suspend ?s1 ?k"
    unfolding df a(1) by simp
  have pt: "proc_table ?s1 = (proc_table s)(c := woken ?n)"
    by (rule ext) (simp add: handed_over_fields fork_state_kernel)
  have child: "get_field (m + OFF_PID) (?s1\<lparr>ready_process := c\<rparr>) = 0"
  proof -
    have "self_addr (?s1\<lparr>ready_process := c\<rparr>) (m + 12) = CHILD_BASE + m + 12"
      using child_slot_fields(2) [of "proc_table s P" "ldt_sel (proc_table s c)" P nm]
      by (simp add: self_addr_def data_addr_def pt woken_def ldt_seg_linear_def)
    then show ?thesis using a(5) [of 12] fork_state_fields(1) [OF f] by (simp add: get_field_def)
  qed
  have image: "mem ?s1 x = mem s (fork_base (ldt (proc_table s P) LDT_CODE) + (x - CHILD_BASE))"
    if x: "addr_in (CHILD_BASE + 0x100000) 0x100000 x" "\<not> addr_in (CHILD_BASE + m) 48 x" for x
  proof -
    have "\<not> addr_in (fork_msg L) 48 x"
      using f disjoint_rangesD [OF _ x(1), of "fork_msg L" 48] by (simp add: forkable_def fork_layout_def)
    then have "mem ?s1 x = mem ?f x" using handed_over_elsewhere [OF ok T] x(2) ac by simp
    then show ?thesis using fork_state_image [OF f x(1)] by simp
  qed
  have pid: "read32 (mem ?s1) (mm_msg L + 12) = of_nat c"
  proof -
    have "mem ?s1 x = mem ?f x" if "addr_in (mm_msg L + 12) 4 x" for x
      using handed_over_elsewhere [OF ok T, of "fork_msg L" x c] ac
        disjoint_rangesD [OF disjoint_ranges_sub [OF d2, of 12], of x]
        disjoint_rangesD [OF disjoint_ranges_sub [OF d3, of 12], of x] that by simp
    then show ?thesis using read32_cong [of "mm_msg L + 12" "mem ?s1" "mem ?f"] fork_state_fields(3) [OF f] by simp
  qed
  have parent: "\<exists>s3. ?k s2 = Suspend s3 (turn_over (0 :: int)) \<and> kernel_ok s3 \<and> resting (proc_table s3 P)
      \<and> get_field (m + OFF_PID) (s3\<lparr>ready_process := P\<rparr>) = of_nat c"
    if s2: "kernel_ok s2" "ready_process s2 = TASK_MM" "proc_table s2 P = proc_table s P"
      "\<forall>x. addr_in (mm_msg L) 48 x \<longrightarrow> mem s2 x = mem ?s1 x" for s2 :: "'a memory_scheme"
  proof -
    let ?s2 = "put_field (mm_msg L + OFF_RETVAL) (0 :: u32) s2"
    have ad: "data_addr (proc_table ?s2) P m = data_addr (proc_table s) P m"
      using s2(3) by (simp add: data_addr_def)
    have "read32 (mem s2) (mm_msg L + 12) = of_nat c"
      using pid s2(4) addr_in_sub [of "mm_msg L" 12 4 _ 48] read32_cong [of "mm_msg L + 12" "mem s2" "mem ?s1"] by simp
    then have r: "read32 (mem ?s2) (mm_msg L + 12) = of_nat c"
      using put_field_read(2) [OF s2(1,2)] disjoint_fields [of 12 8 "mm_msg L"] by simp
    from mm_reply_delivers [of ?s2 P m L] s2 P(1) ex nz(2) dis ad
    obtain s3 where s3: "mm_reply L (int P) ?s2 = Suspend s3 (turn_over (0 :: int))" "kernel_ok s3"
      "resting (proc_table s3 P)" "ldt (proc_table s3 P) = ldt (proc_table s2 P)"
      "\<forall>i. 8 \<le> i \<and> i \<le> 44 \<longrightarrow>
         read32 (mem s3) (data_addr (proc_table s) P m + of_nat i) = read32 (mem ?s2) (mm_msg L + of_nat i)"
      by auto
    have "self_addr (s3\<lparr>ready_process := P\<rparr>) (m + 12) = data_addr (proc_table s) P m + 12"
      using s3(4) s2(3) by (simp add: self_addr_def data_addr_def ldt_seg_linear_def add.assoc)
    then have "get_field (m + OFF_PID) (s3\<lparr>ready_process := P\<rparr>) = of_nat c"
      using s3(5) [THEN spec, of 12] r by (simp add: get_field_def)
    with s3 show ?thesis by blast
  qed
  show ?thesis
    using run a(2) pt child image parent by (intro exI [of _ ?s1] exI [of _ ?k] conjI) blast+
qed

text \<open>The service of a fork request when all slots are taken.\<close>

lemma fork_refused:
  fixes s :: "'a memory_scheme"
  assumes ok: "kernel_ok s" and T: "ready_process s = TASK_MM" and P: "P < NR_SLOTS"
    and full: "find_slot NR_SLOTS 0 (proc_table s) = NR_SLOTS"
    and ex: "expecting (int TASK_MM) m (proc_table s P)" and b: "mm_msg L \<noteq> 0"
    and dis: "disjoint_ranges (data_addr (proc_table s) P m) 48 (mm_msg L) 48"
  shows "\<exists>s'. pbind (do_fork L s) (\<lambda>r s2. mm_reply L (int P) (put_field (mm_msg L + OFF_RETVAL) (word_of_int r) s2))
      = Suspend s' (turn_over (0 :: int))
    \<and> get_field (m + OFF_RETVAL) (s'\<lparr>ready_process := P\<rparr>) = - 1
    \<and> get_field (m + OFF_PID) (s'\<lparr>ready_process := P\<rparr>) = get_field (mm_msg L + OFF_PID) s
    \<and> (\<forall>i. i \<noteq> P \<longrightarrow> proc_table s' i = proc_table s i)"
proof -
  let ?s = "put_field (mm_msg L + OFF_RETVAL) (- 1) s"
  have df: "do_fork L s = Return (- 1) s" using full by (simp add: do_fork_def Let_def)
  have ok': "kernel_ok ?s" "ready_process ?s = TASK_MM" using ok T by simp_all
  have ex': "expecting (int TASK_MM) m (proc_table ?s P)"
    and dis': "disjoint_ranges (data_addr (proc_table ?s) P m) 48 (mm_msg L) 48" using ex dis by simp_all
  obtain s' where s': "mm_reply L (int P) ?s = Suspend s' (turn_over (0 :: int))"
    "ldt (proc_table s' P) = ldt (proc_table s P)" "\<forall>i. i \<noteq> P \<longrightarrow> proc_table s' i = proc_table s i"
    "\<forall>i. 8 \<le> i \<and> i \<le> 44 \<longrightarrow>
       read32 (mem s') (data_addr (proc_table s) P m + of_nat i) = read32 (mem ?s) (mm_msg L + of_nat i)"
    using mm_reply_delivers [OF ok' P ex' b dis'] by auto
  have sa: "self_addr (s'\<lparr>ready_process := P\<rparr>) (m + y) = data_addr (proc_table s) P m + y" for y
    using s'(2) by (simp add: self_addr_def data_addr_def ldt_seg_linear_def add.assoc)
  have "read32 (mem ?s) (mm_msg L + 8) = - 1" "read32 (mem ?s) (mm_msg L + 12) = read32 (mem s) (mm_msg L + 12)"
    using put_field_read [OF ok T] disjoint_fields [of 12 8 "mm_msg L"] by simp_all
  then have "get_field (m + OFF_RETVAL) (s'\<lparr>ready_process := P\<rparr>) = - 1"
    "get_field (m + OFF_PID) (s'\<lparr>ready_process := P\<rparr>) = get_field (mm_msg L + OFF_PID) s"
    using s'(4) [THEN spec, of 8] s'(4) [THEN spec, of 12] mm_flat [OF ok T] by (simp_all add: get_field_def sa)
  then show ?thesis using s'(1,3) by (simp add: df)
qed

section \<open>Sample states\<close>

text \<open>INIT, freshly started, waits for the task with its buffer at 0x110000.\<close>

definition sample_mm :: Mm_Link where
  "sample_mm = \<lparr>mm_msg = 0x6000, fork_msg = 0x7000, cleanup_msg = 0x7100, wait_msg = 0x7200\<rparr>"

definition fork_boot :: memory where
  "fork_boot = small_memory\<lparr>proc_table := receiving_table (proc_table boot) 3 (int TASK_MM) 0x110000,
     ready_process := TASK_MM, k_reenter := 0, mem := write32 (\<lambda>_. 0) 0x6000 3\<rparr>"

lemma boot_slots:
  assumes "i < 7"
  shows "q_sending (proc_table boot i) = None" "ldt_seg_linear (proc_table boot i) LDT_DATA = 0"
proof -
  show "q_sending (proc_table boot i) = None"
    using assms init_native_queue by (simp add: boot_def init_proc_native)
  show "ldt_seg_linear (proc_table boot i) LDT_DATA = 0" using boot_flat [OF assms, of 0] by (simp add: data_addr_def)
qed

lemma boot_init_slot:
  "p_name (proc_table boot 3) = map of_char ''INIT''"
  "ldt (proc_table boot 3) LDT_CODE = init_descriptor 0 0x600 (DA_32 OR DA_LIMIT_4K OR DA_C OR 0x60)"
  "ldt (proc_table boot 3) LDT_DATA = init_descriptor 0 0x600 (DA_32 OR DA_LIMIT_4K OR DA_DRW OR 0x60)"
  by (simp_all add: boot_def init_proc_native init_native_def init_ldt_def task_name_def head_or_nul_def Let_def)

lemma fork_boot_slots:
  "proc_table fork_boot = receiving_table (proc_table boot) 3 (int TASK_MM) 0x110000"
  "ready_process fork_boot = TASK_MM" "k_reenter fork_boot = 0" "mem fork_boot = write32 (\<lambda>_. 0) 0x6000 3"
  by (simp_all add: fork_boot_def)

lemma receiving_slots:
  "i \<noteq> 3 \<Longrightarrow> receiving_table (proc_table boot) 3 (int TASK_MM) m i = proc_table boot i"
  "expecting (int TASK_MM) m (receiving_table (proc_table boot) 3 (int TASK_MM) m 3)"
  "ldt (receiving_table (proc_table boot) 3 (int TASK_MM) m 3) = ldt (proc_table boot 3)"
  using boot_idle [of 3] boot_slots(1) [of 3] by (simp_all add: receiving_table_def expecting_def idle_def)

lemma quiet_table:
  assumes "\<And>i. i < NR_SLOTS \<Longrightarrow> idle (pt i) \<or> in_receive (pt i) \<or> p_flags (pt i) = FREE_SLOT"
    and "\<And>i. i < NR_SLOTS \<Longrightarrow> q_sending (pt i) = None"
    and "\<And>i. i < 7 \<Longrightarrow> ldt_seg_linear (pt i) LDT_DATA = 0"
  shows "ipc_inv pt (\<lambda>_. [])"
proof -
  have "\<not> sending_to pt i d" for i d
    using assms(1) [of i] by (auto simp: sending_to_def slot_defs)
  then have "queues_ok pt (\<lambda>_. [])" "wait_graph pt = {}"
    using assms(2) by (auto simp: queues_ok_def wait_graph_def)
  moreover have "proc_ok (pt i)" if "i < NR_SLOTS" for i using assms(1) [OF that] by (auto simp: proc_ok_def)
  ultimately show ?thesis using assms(3) by (simp add: ipc_inv_def flat_natives_def acyclic_def)
qed

lemma find_slot_skip:
  "(\<And>j. i \<le> j \<Longrightarrow> j < k \<Longrightarrow> p_flags (pt j) \<noteq> FREE_SLOT) \<Longrightarrow> p_flags (pt k) = FREE_SLOT \<Longrightarrow> i \<le> k \<Longrightarrow>
   k < i + n \<Longrightarrow> find_slot n i pt = k"
proof (induction n i pt rule: find_slot.induct)
  case (2 n i pt)
  then show ?case by (cases "i = k") auto
qed simp

lemma find_slot_full:
  "(\<And>j. i \<le> j \<Longrightarrow> j < i + n \<Longrightarrow> p_flags (pt j) \<noteq> FREE_SLOT) \<Longrightarrow> find_slot n i pt = i + n"
  by (induction n i pt rule: find_slot.induct) auto

section \<open>Exit and wait\<close>

lemma exit_orphans_none:
  "p_flags (proc_table s INIT_PID) AND WAITING = 0 \<Longrightarrow> exit_orphans L who n i s = Return () s"
  by (induction n arbitrary: i) simp_all

lemma hanging_waiting: "(x OR HANGING) AND WAITING = x AND WAITING" for x :: u32
  by (simp add: bit.conj_disj_distrib2)

lemma hanging_nonzero: "x OR HANGING \<noteq> 0" for x :: u32
  by (simp only: or_eq_0_iff) simp

text \<open>C16. Exiting before the parent waits: \<open>do_exit\<close> ends without a word to anyone, marks the parent
  as hanging instead of the process that exits, and frees nothing. The parent, whatever it was
  doing, can then not be scheduled, since its flags are not zero; the slot of the exiting process
  keeps its flags, so that a later \<open>do_wait\<close> does not find it.\<close>

theorem exit_hangs_parent:
  assumes src: "msg_source L s = int P" and P: "P < NR_SLOTS" and Q: "unat (p_parent (proc_table s P)) = Q" "Q < NR_SLOTS"
    and ne: "P \<noteq> Q" and nw: "p_flags (proc_table s Q) AND WAITING = 0"
    and init: "p_flags (proc_table s INIT_PID) AND WAITING = 0"
  shows "\<exists>s'. do_exit L st s = Return () s' \<and> mem s' = mem s
    \<and> proc_table s' = (proc_table s)(
        P := (proc_table s P)\<lparr>exit_status := st\<rparr>,
        Q := (proc_table s Q)\<lparr>p_flags := p_flags (proc_table s Q) OR HANGING\<rparr>)
    \<and> p_flags (proc_table s' Q) \<noteq> 0"
proof -
  let ?s1 = "upd_proc P (\<lambda>p. p\<lparr>exit_status := st\<rparr>) s"
  let ?s2 = "upd_proc Q (\<lambda>p. p\<lparr>p_flags := p_flags p OR HANGING\<rparr>) ?s1"
  have pt: "proc_table ?s2 = (proc_table s)(
        P := (proc_table s P)\<lparr>exit_status := st\<rparr>,
        Q := (proc_table s Q)\<lparr>p_flags := p_flags (proc_table s Q) OR HANGING\<rparr>)"
    using ne by (simp add: upd_proc_def)
  have "p_flags (proc_table ?s2 INIT_PID) AND WAITING = 0" using init nw by (simp add: pt hanging_waiting)
  then have "exit_orphans L P (NR_TASKS + NR_PROCS) 0 ?s2 = Return () ?s2" by (rule exit_orphans_none)
  moreover have "p_flags (proc_table ?s1 Q) AND WAITING = 0" using nw ne by (simp add: upd_proc_def)
  ultimately have "do_exit L st s = Return () ?s2"
    using src P Q by (simp add: do_exit_def valid_pid_def Let_def)
  then show ?thesis using pt hanging_nonzero by (intro exI [of _ ?s2]) (simp add: upd_proc_def)
qed

lemma wait_scan_none:
  "(\<And>j. i \<le> j \<Longrightarrow> j < i + n \<Longrightarrow> p_parent (pt j) = of_nat who \<Longrightarrow> p_flags (pt j) AND HANGING = 0) \<Longrightarrow>
   \<exists>k. wait_scan who n i c pt = Inr k \<and> c \<le> k
     \<and> (k = c \<longleftrightarrow> (\<forall>j. i \<le> j \<and> j < i + n \<longrightarrow> p_parent (pt j) \<noteq> of_nat who))"
proof (induction who n i c pt rule: wait_scan.induct)
  case (2 who n i c pt)
  have rest: "i \<le> j \<and> j < i + Suc n \<longleftrightarrow> j = i \<or> Suc i \<le> j \<and> j < Suc i + n" for j by auto
  show ?case
  proof (cases "p_parent (pt i) = of_nat who")
    case True
    then have "p_flags (pt i) AND HANGING = 0" using "2.prems" [of i] by simp
    with True 2 obtain k where "wait_scan who n (Suc i) (Suc c) pt = Inr k" "Suc c \<le> k" by fastforce
    then show ?thesis using True \<open>p_flags (pt i) AND HANGING = 0\<close> by (auto intro!: exI [of _ i])
  next
    case False
    with 2 show ?thesis unfolding rest by fastforce
  qed
qed auto

lemma exit_message:
  assumes "kernel_ok u" and "ready_process u = TASK_MM"
  shows "read32 (mem (put_field (b + 8) v (put_field (b + 12) w (put_field (b + 4) z u)))) (b + 8) = v"
    "read32 (mem (put_field (b + 8) v (put_field (b + 12) w (put_field (b + 4) z u)))) (b + 12) = w"
  using disjoint_fields [of 12 8 b] by (simp_all add: put_field_read assms)

text \<open>The slot of a process that waits for a child and for the answer of the task.\<close>

definition waiting_parent :: "u32 \<Rightarrow> Process \<Rightarrow> bool" where
  "waiting_parent m p \<longleftrightarrow> p_flags p = RECEIVING OR WAITING
     \<and> expecting (int TASK_MM) m (p\<lparr>p_flags := p_flags p AND NOT WAITING\<rparr>)"

text \<open>C14. Waiting for a child that exits later. A process with children, none of which hangs, is
  marked as waiting when the task handles its wait request. When afterwards one of its children
  exits, the task clears the mark, the parent becomes runnable, and its answer carries the number
  and the exit status of the child; then the slot of the child is free.\<close>

theorem wait_then_exit:
  fixes s t :: "'a kernel_scheme"
  assumes w: "msg_source L s = int Q" "Q < NR_SLOTS" "expecting (int TASK_MM) m (proc_table s Q)"
    and kid: "C < NR_SLOTS" "p_parent (proc_table s C) = of_nat Q"
    and none: "\<forall>j < NR_SLOTS. p_parent (proc_table s j) = of_nat Q \<longrightarrow> p_flags (proc_table s j) AND HANGING = 0"
    and x: "msg_source L t = int P" "P < NR_SLOTS" "p_parent (proc_table t P) = of_nat Q" "P \<noteq> Q"
    and slot: "waiting_parent m (proc_table t Q)"
    and ok: "kernel_ok (t\<lparr>proc_table := (proc_table t)(Q := (proc_table t Q)\<lparr>p_flags := RECEIVING\<rparr>)\<rparr>)"
    and T: "ready_process t = TASK_MM" and b: "cleanup_msg L \<noteq> 0"
    and dis: "disjoint_ranges (data_addr (proc_table t) Q m) 48 (cleanup_msg L) 48"
  shows "(\<exists>s'. do_wait L s = Return () s' \<and> mem s' = mem s \<and> waiting_parent m (proc_table s' Q)
      \<and> (\<forall>j. j \<noteq> Q \<longrightarrow> proc_table s' j = proc_table s j))
    \<and> (\<exists>t1 k. do_exit L st t = Suspend t1 k \<and> kernel_ok t1 \<and> resting (proc_table t1 Q)
      \<and> get_field (m + OFF_PID) (t1\<lparr>ready_process := Q\<rparr>) = of_nat P
      \<and> get_field (m + OFF_STATUS) (t1\<lparr>ready_process := Q\<rparr>) = st
      \<and> (\<forall>u. p_flags (proc_table u INIT_PID) AND WAITING = 0 \<longrightarrow>
           k u = Return () (upd_proc P (\<lambda>p. p\<lparr>p_flags := FREE_SLOT\<rparr>) u)))"
proof (intro conjI)
  obtain k where k: "wait_scan Q NR_SLOTS 0 0 (proc_table s) = Inr k" "k \<noteq> 0"
    using wait_scan_none [of 0 NR_SLOTS "proc_table s" Q 0] none kid by auto
  let ?s = "upd_proc Q (\<lambda>p. p\<lparr>p_flags := p_flags p OR WAITING\<rparr>) s"
  have "do_wait L s = Return () ?s" using w k by (simp add: do_wait_def valid_pid_def)
  moreover have "waiting_parent m (proc_table ?s Q)" using w(3) by (simp add: waiting_parent_def expecting_def upd_proc_def)
  ultimately show "\<exists>s'. do_wait L s = Return () s' \<and> mem s' = mem s \<and> waiting_parent m (proc_table s' Q)
      \<and> (\<forall>j. j \<noteq> Q \<longrightarrow> proc_table s' j = proc_table s j)"
    by (intro exI [of _ ?s]) (simp add: upd_proc_def)
next
  let ?t2 = "upd_proc Q (\<lambda>p. p\<lparr>p_flags := p_flags p AND NOT WAITING\<rparr>) (upd_proc P (\<lambda>p. p\<lparr>exit_status := st\<rparr>) t)"
  let ?b = "cleanup_msg L"
  let ?t3 = "put_field (?b + OFF_STATUS) st (put_field (?b + OFF_PID) (of_nat P) (put_field (?b + OFF_TYPE) SYSCALL_RET ?t2))"
  have fl: "p_flags (proc_table t Q) = RECEIVING OR WAITING" and exq: "expecting (int TASK_MM) m (proc_table ?t2 Q)"
    using slot x(4) by (auto simp: waiting_parent_def upd_proc_def)
  have core: "ipc_inv (proc_table ?t2) qs \<longleftrightarrow> ipc_inv ((proc_table t)(Q := (proc_table t Q)\<lparr>p_flags := RECEIVING\<rparr>)) qs"
    "idle (proc_table ?t2 j) \<longleftrightarrow> idle (((proc_table t)(Q := (proc_table t Q)\<lparr>p_flags := RECEIVING\<rparr>)) j)" for qs j
    using x(4) fl by (intro ipc_inv_cong; simp add: upd_proc_def)+
  have k: "k_reenter ?t2 = k_reenter t" "ready_process ?t2 = ready_process t" by (simp_all add: upd_proc_def)
  have ok2: "kernel_ok ?t2" using ok unfolding kernel_ok_def running_ok_def core k by simp
  have T2: "ready_process ?t2 = TASK_MM" using T by (simp add: upd_proc_def)
  have ok3: "kernel_ok ?t3" "ready_process ?t3 = TASK_MM" using ok2 T2 by simp_all
  have ex3: "expecting (int TASK_MM) m (proc_table ?t3 Q)" using exq by simp
  have ad: "data_addr (proc_table ?t3) Q m = data_addr (proc_table t) Q m"
    using x(4) by (simp add: data_addr_def ldt_seg_linear_def upd_proc_def)
  note a = mm_answers [OF ok3 w(2) ex3 b, unfolded ad, OF dis]
  let ?t1 = "handed_over Q ?b ?t3"
  let ?k = "\<lambda>u. exit_orphans L P (NR_TASKS + NR_PROCS) 0 (upd_proc P (\<lambda>p. p\<lparr>p_flags := FREE_SLOT\<rparr>) u)"
  have pq: "sint (p_parent (proc_table ?t2 P)) = int Q" "unat (p_parent (proc_table t P)) = Q"
    "exit_status (proc_table ?t2 P) = st"
    using x(3,4) sint_slot [OF w(2)] w(2) by (simp_all add: upd_proc_def unat_of_nat32)
  have "cleanup L P ?t2 = Suspend ?t1 (\<lambda>u. Return () (upd_proc P (\<lambda>p. p\<lparr>p_flags := FREE_SLOT\<rparr>) u))"
    unfolding cleanup_def Let_def pq(3) put_field_fields pq(1) a(1) by simp
  then have "do_exit L st t = Suspend ?t1 ?k"
    using x(1,2,4) pq(2) w(2) fl by (simp add: do_exit_def valid_pid_def Let_def upd_proc_def)
  moreover have "self_addr (?t1\<lparr>ready_process := Q\<rparr>) (m + y) = data_addr (proc_table t) Q m + y" for y
    using ad by (simp add: self_addr_def data_addr_def ldt_seg_linear_def handed_over_fields add.assoc)
  moreover have "read32 (mem ?t3) (?b + 8) = st" "read32 (mem ?t3) (?b + 12) = of_nat P"
    by (rule exit_message [OF ok2 T2])+
  moreover have "?k u = Return () (upd_proc P (\<lambda>p. p\<lparr>p_flags := FREE_SLOT\<rparr>) u)"
    if "p_flags (proc_table u INIT_PID) AND WAITING = 0" for u :: "'a kernel_scheme"
    by (rule exit_orphans_none) (use that in \<open>simp add: upd_proc_def\<close>)
  ultimately show "\<exists>t1 k. do_exit L st t = Suspend t1 k \<and> kernel_ok t1 \<and> resting (proc_table t1 Q)
      \<and> get_field (m + OFF_PID) (t1\<lparr>ready_process := Q\<rparr>) = of_nat P
      \<and> get_field (m + OFF_STATUS) (t1\<lparr>ready_process := Q\<rparr>) = st
      \<and> (\<forall>u. p_flags (proc_table u INIT_PID) AND WAITING = 0 \<longrightarrow>
           k u = Return () (upd_proc P (\<lambda>p. p\<lparr>p_flags := FREE_SLOT\<rparr>) u))"
    using a(2,3) a(5) [of 8] a(5) [of 12]
    by (intro exI [of _ ?t1] exI [of _ ?k]) (simp add: get_field_def)
qed

text \<open>INIT waits for its child in slot 7, and the child exits.\<close>

definition child_table :: "u32 \<Rightarrow> ptable" where
  "child_table f = (receiving_table (proc_table boot) 3 (int TASK_MM) 0x110000)(
     3 := (receiving_table (proc_table boot) 3 (int TASK_MM) 0x110000 3)\<lparr>p_flags := f\<rparr>,
     7 := (receiving_table (proc_table boot) 3 (int TASK_MM) 0x110000 3)\<lparr>p_parent := 3\<rparr>)"

definition child_state :: "u32 \<Rightarrow> u32 \<Rightarrow> memory" where
  "child_state f src = fork_boot\<lparr>proc_table := child_table f, mem := write32 (\<lambda>_. 0) 0x6000 src\<rparr>"

lemma child_table_slots:
  "child_table f 3 = (receiving_table (proc_table boot) 3 (int TASK_MM) 0x110000 3)\<lparr>p_flags := f\<rparr>"
  "expecting (int TASK_MM) 0x110000 (child_table f 7)" "p_parent (child_table f 7) = 3"
  "i \<noteq> 3 \<Longrightarrow> i \<noteq> 7 \<Longrightarrow> child_table f i = proc_table boot i"
  "expecting (int TASK_MM) 0x110000 (child_table RECEIVING 3)" "ldt (child_table f 3) = ldt (proc_table boot 3)"
  using receiving_slots(1) [of i "0x110000"] receiving_slots(2,3) [of "0x110000"]
  by (auto simp: child_table_def expecting_def)

lemma child_state_fields:
  "proc_table (child_state f src) = child_table f" "ready_process (child_state f src) = TASK_MM"
  "k_reenter (child_state f src) = 0" "msg_source sample_mm (child_state f src) = sint src"
  "data_addr (child_table f) 3 x = x"
proof -
  show "data_addr (child_table f) 3 x = x"
    using boot_slots(2) [of 3] by (simp add: data_addr_def ldt_seg_linear_def child_table_slots(6))
  show 1: "proc_table (child_state f src) = child_table f" "ready_process (child_state f src) = TASK_MM"
    "k_reenter (child_state f src) = 0"
    by (simp_all add: child_state_def fork_boot_slots)
  have "data_addr (child_table f) 2 x = x" for x
    using boot_slots(2) [of 2] by (simp add: data_addr_def ldt_seg_linear_def child_table_slots(4))
  then have "self_addr (child_state f src) x = x" for x by (simp add: self_addr_def 1)
  then show "msg_source sample_mm (child_state f src) = sint src"
    by (simp add: msg_source_def get_field_def) (simp add: child_state_def sample_mm_def)
qed

lemma child_state_ok: "kernel_ok (child_state RECEIVING src)"
proof -
  have ex: "in_receive (child_table RECEIVING i) \<and> q_sending (child_table RECEIVING i) = None" if "i = 3 \<or> i = 7" for i
    using that expecting_in_receive child_table_slots(2,5) by fastforce
  have "ipc_inv (child_table RECEIVING) (\<lambda>_. [])"
  proof (rule quiet_table)
    fix i :: nat
    assume i: "i < NR_SLOTS"
    have free: "p_flags (proc_table boot i) = FREE_SLOT \<and> q_sending (proc_table boot i) = None" if "7 \<le> i"
      using boot_free [OF that] i that by (simp add: boot_def init_proc_free zero_kernel_def zero_process_def)
    show "idle (child_table RECEIVING i) \<or> in_receive (child_table RECEIVING i)
        \<or> p_flags (child_table RECEIVING i) = FREE_SLOT"
      using ex [of i] boot_idle [of i] free child_table_slots(4) [of i RECEIVING]
      by (cases "i = 3 \<or> i = 7"; cases "i < 7") auto
    show "q_sending (child_table RECEIVING i) = None"
      using ex [of i] boot_slots(1) [of i] free child_table_slots(4) [of i RECEIVING]
      by (cases "i = 3 \<or> i = 7"; cases "i < 7") auto
  next
    show "ldt_seg_linear (child_table RECEIVING i) LDT_DATA = 0" if "i < 7" for i
      using boot_slots(2) [OF that] boot_slots(2) [of 3] child_table_slots(4) [of i RECEIVING] that
      by (cases "i = 3") (simp_all add: ldt_seg_linear_def child_table_slots(6))
  qed
  then show ?thesis
    using boot_idle [of 2] by (auto simp: kernel_ok_def running_ok_def child_state_fields child_table_slots(4))
qed

theorem exit_hangs_parent_witness:
  "\<exists>s'. do_exit sample_mm 9 (child_state RECEIVING 7) = Return () s'
    \<and> p_flags (proc_table s' 3) = RECEIVING OR HANGING"
proof -
  have "msg_source sample_mm (child_state RECEIVING 7) = int 7" by (simp add: child_state_fields)
  from exit_hangs_parent [OF this, of 3 9] show ?thesis
    by (auto simp: child_state_fields child_table_slots(1,3))
qed

theorem wait_then_exit_witness:
  "\<exists>t1 k. do_exit sample_mm 9 (child_state (RECEIVING OR WAITING) 7) = Suspend t1 k
    \<and> get_field (0x110000 + OFF_PID) (t1\<lparr>ready_process := 3\<rparr>) = 7
    \<and> get_field (0x110000 + OFF_STATUS) (t1\<lparr>ready_process := 3\<rparr>) = 9"
proof -
  let ?s = "child_state RECEIVING 3" and ?t = "child_state (RECEIVING OR WAITING) 7"
  have src: "msg_source sample_mm ?s = int 3" "msg_source sample_mm ?t = int 7" by (simp_all add: child_state_fields)
  have par: "p_parent (proc_table boot j) = (if j < 7 then 55 else 0)" if "j < 35" for j
    using that by (cases "j < 7")
      (simp_all add: boot_def init_proc_native init_proc_free init_native_def Let_def zero_kernel_def zero_process_def)
  have none: "\<forall>j < NR_SLOTS. p_parent (proc_table ?s j) = of_nat 3 \<longrightarrow> p_flags (proc_table ?s j) AND HANGING = 0"
  proof (intro allI impI)
    fix j assume j: "j < NR_SLOTS" "p_parent (proc_table ?s j) = of_nat 3"
    show "p_flags (proc_table ?s j) AND HANGING = 0"
    proof (cases "j = 3 \<or> j = 7")
      case True
      then show ?thesis using child_table_slots(2,5) by (auto simp: child_state_fields expecting_def)
    next
      case False
      then show ?thesis using j par [OF j(1)] by (simp add: child_state_fields child_table_slots(4) split: if_splits)
    qed
  qed
  have "child_table (RECEIVING OR WAITING) = (child_table RECEIVING)(3 := (child_table RECEIVING 3)\<lparr>p_flags := RECEIVING OR WAITING\<rparr>)"
    by (auto simp: child_table_def)
  then have eq: "(child_table (RECEIVING OR WAITING))(3 := (child_table (RECEIVING OR WAITING) 3)\<lparr>p_flags := RECEIVING\<rparr>)
      = child_table RECEIVING" by (auto simp: child_table_def)
  have ok: "kernel_ok (?t\<lparr>proc_table := (proc_table ?t)(3 := (proc_table ?t 3)\<lparr>p_flags := RECEIVING\<rparr>)\<rparr>)"
    using child_state_ok [of 7] unfolding child_state_fields(1) eq by (simp add: kernel_ok_def running_ok_def child_state_fields)
  have wp: "waiting_parent 0x110000 (proc_table ?t 3)"
    using child_table_slots(5) by (simp add: waiting_parent_def child_state_fields child_table_slots(1) expecting_def)
  have dis: "disjoint_ranges (data_addr (proc_table ?t) 3 0x110000) 48 (cleanup_msg sample_mm) 48" "cleanup_msg sample_mm \<noteq> 0"
    by (simp_all add: child_state_fields sample_mm_def disjoint_ranges_def)
  have "expecting (int TASK_MM) 0x110000 (proc_table ?s 3)" "p_parent (proc_table ?s 7) = of_nat 3"
    "p_parent (proc_table ?t 7) = of_nat 3"
    using child_table_slots(3,5) by (simp_all add: child_state_fields)
  from wait_then_exit [where st = 9, OF src(1) _ this(1) _ this(2) none src(2) _ this(3) _ wp ok child_state_fields(2) dis(2,1)]
  show ?thesis by auto
qed

end
