(* ===== verification/Fork_Call.thy ===== *)
theory Fork_Call
  imports Mm_Properties
begin

text \<open>
  The fork system call from both sides: the library function \<open>fork\<close> in the calling process and
  the loop of \<open>task_mm\<close>, from the task waiting for a request to the return of the call in the
  parent and in the child.
\<close>

unbundle bit_operations_syntax

section \<open>The code that is left after each system call\<close>

definition fork_asked :: "u32 \<Rightarrow> 'a kernel_scheme \<Rightarrow> ('a kernel_scheme, u32) prog" where
  "fork_asked m s =
     pbind (sendrec RECEIVE (int TASK_MM) m s) (\<lambda>_ s1. Return (get_field (m + OFF_PID) s1) s1)"

definition fork_done :: "u32 \<Rightarrow> 'a kernel_scheme \<Rightarrow> ('a kernel_scheme, u32) prog" where
  "fork_done m s = Return (get_field (m + OFF_PID) s) s"

lemma fork_step:
  assumes "sendrec SEND (int TASK_MM) m (put_field (m + OFF_TYPE) FORK s) = Suspend s' resume"
  shows "fork m s = Suspend s' (fork_asked m)"
  using assms by (simp add: fork_def send_recv_def fork_asked_def [abs_def])

lemma fork_asked_step:
  assumes "sendrec RECEIVE (int TASK_MM) m s = Suspend s' resume"
  shows "fork_asked m s = Suspend s' (fork_done m)"
  using assms by (simp add: fork_asked_def fork_done_def [abs_def])

text \<open>What the task does with a fork request.\<close>

definition serve_fork :: "Mm_Link \<Rightarrow> int \<Rightarrow> 'a memory_scheme \<Rightarrow> ('a memory_scheme, unit) prog" where
  "serve_fork L src s =
     pbind (do_fork L s) (\<lambda>r s2. mm_reply L src (put_field (mm_msg L + OFF_RETVAL) (word_of_int r) s2))"

lemma task_mm_fork:
  assumes "sendrec RECEIVE ANY (mm_msg L) (reset_msg (mm_msg L) s) = Suspend s' resume"
  shows "\<exists>k. task_mm L eax s = Suspend s' k
    \<and> (\<forall>u. get_field (mm_msg L + OFF_TYPE) u = FORK \<longrightarrow> k u = serve_fork L (msg_source L u) u)"
  using assms by (simp add: task_mm_def send_recv_def Let_def serve_fork_def)

section \<open>The request\<close>

text \<open>
  The task waits; the process \<open>P\<close> sends its request, which the task takes, and waits for the
  answer. \<open>fork_start\<close>, \<open>fork_sent\<close> and \<open>fork_waits\<close> are the states after the three system calls.
\<close>

definition fork_start :: "Mm_Link \<Rightarrow> nat \<Rightarrow> 'a kernel_scheme \<Rightarrow> 'a kernel_scheme" where
  "fork_start L P s = (awaiting ANY (mm_msg L) (reset_msg (mm_msg L) s))\<lparr>ready_process := P\<rparr>"

definition fork_sent :: "Mm_Link \<Rightarrow> nat \<Rightarrow> u32 \<Rightarrow> 'a kernel_scheme \<Rightarrow> 'a kernel_scheme" where
  "fork_sent L P m s = handed_over TASK_MM m (put_field (m + OFF_TYPE) FORK (fork_start L P s))"

definition fork_waits :: "Mm_Link \<Rightarrow> nat \<Rightarrow> u32 \<Rightarrow> 'a kernel_scheme \<Rightarrow> 'a kernel_scheme" where
  "fork_waits L P m s = awaiting (int TASK_MM) m (fork_sent L P m s)"

text \<open>The parties: the task at its turn, the caller, and where their messages are.\<close>

definition fork_parties :: "Mm_Link \<Rightarrow> nat \<Rightarrow> u32 \<Rightarrow> 'a kernel_scheme \<Rightarrow> bool" where
  "fork_parties L P m s \<longleftrightarrow> kernel_ok s \<and> ready_process s = TASK_MM \<and> resting (proc_table s TASK_MM)
     \<and> P < NR_SLOTS \<and> P \<noteq> TASK_MM \<and> resting (proc_table s P) \<and> m \<noteq> 0 \<and> mm_msg L \<noteq> 0
     \<and> disjoint_ranges (data_addr (proc_table s) P m) 48 (mm_msg L) 48"

lemma fork_start_slots:
  assumes "fork_parties L P m s"
  shows "expecting ANY (mm_msg L) (proc_table (fork_start L P s) TASK_MM)"
    "i \<noteq> TASK_MM \<Longrightarrow> proc_table (fork_start L P s) i = proc_table s i"
    "ready_process (fork_start L P s) = P"
    "ldt (proc_table (fork_start L P s) TASK_MM) = ldt (proc_table s TASK_MM)"
proof -
  let ?s = "reset_msg (mm_msg L) s"
  have T: "ready_process ?s = TASK_MM" using assms by (simp add: fork_parties_def)
  note f = awaiting_fields [where src = ANY and m = "mm_msg L" and s = ?s, unfolded T]
  show "expecting ANY (mm_msg L) (proc_table (fork_start L P s) TASK_MM)"
    using f(1) assms by (simp add: fork_start_def fork_parties_def resting_def idle_def expecting_def)
  show "i \<noteq> TASK_MM \<Longrightarrow> proc_table (fork_start L P s) i = proc_table s i"
    using f(2) by (simp add: fork_start_def)
  show "ldt (proc_table (fork_start L P s) TASK_MM) = ldt (proc_table s TASK_MM)"
    using f(1) by (simp add: fork_start_def)
qed (simp add: fork_start_def)

lemma task_mm_waits:
  assumes par: "fork_parties L P m s"
  shows "sendrec RECEIVE ANY (mm_msg L) (reset_msg (mm_msg L) s)
      = Suspend (awaiting ANY (mm_msg L) (reset_msg (mm_msg L) s)) resume"
    "kernel_ok (fork_start L P s)"
proof -
  let ?s = "reset_msg (mm_msg L) s"
  have ok: "kernel_ok ?s" and b: "mm_msg L \<noteq> 0" and T: "ready_process ?s = TASK_MM"
    and q: "q_sending (proc_table ?s (ready_process ?s)) = None"
    and P: "P < NR_SLOTS" "P \<noteq> ready_process ?s" "p_flags (proc_table ?s P) = 0"
    using par by (simp_all add: fork_parties_def resting_def idle_def)
  note run = receive_waits [OF ok b disjI1 [OF refl] q P]
  show "sendrec RECEIVE ANY (mm_msg L) ?s = Suspend (awaiting ANY (mm_msg L) ?s) resume" by (rule run(1))
  have "idle (proc_table (awaiting ANY (mm_msg L) ?s) P)"
    using awaiting_fields(2) [OF P(2)] par by (simp add: fork_parties_def resting_def)
  then show "kernel_ok (fork_start L P s)"
    using run(2) P(1) by (auto simp: fork_start_def kernel_ok_def running_ok_def)
qed

lemma fork_sends:
  assumes par: "fork_parties L P m s"
  shows "fork m (fork_start L P s) = Suspend (fork_sent L P m s) (fork_asked m)"
    "kernel_ok (fork_sent L P m s)" "ready_process (fork_sent L P m s) = P"
    "proc_table (fork_sent L P m s) P = proc_table s P"
    "resting (proc_table (fork_sent L P m s) TASK_MM)"
proof -
  let ?s = "put_field (m + OFF_TYPE) FORK (fork_start L P s)"
  note st = fork_start_slots [OF par]
  have ok: "kernel_ok ?s" and m: "m \<noteq> 0" and P: "P \<noteq> TASK_MM" and T: "TASK_MM < NR_SLOTS"
    using task_mm_waits(2) [OF par] par by (simp_all add: fork_parties_def)
  have acc: "accepts (proc_table ?s TASK_MM) (ready_process ?s)"
    using st(1) by (simp add: accepts_def expecting_def)
  note run = send_hands_over [OF ok T m acc]
  show "fork m (fork_start L P s) = Suspend (fork_sent L P m s) (fork_asked m)"
    unfolding fork_sent_def by (rule fork_step [OF run(1)])
  show "kernel_ok (fork_sent L P m s)" using run(2) by (simp add: fork_sent_def)
  show "ready_process (fork_sent L P m s) = P"
    using st(3) by (simp add: fork_sent_def handed_over_fields)
  show "proc_table (fork_sent L P m s) P = proc_table s P"
    using P st(2) [of P] by (simp add: fork_sent_def handed_over_fields)
  show "resting (proc_table (fork_sent L P m s) TASK_MM)"
    using st(1) by (simp add: fork_sent_def handed_over_fields resting_def expecting_def idle_def)
qed

lemma fork_awaits:
  assumes par: "fork_parties L P m s"
  defines "u \<equiv> (fork_waits L P m s)\<lparr>ready_process := TASK_MM\<rparr>"
  shows "fork_asked m (fork_sent L P m s) = Suspend (fork_waits L P m s) (fork_done m)"
    "kernel_ok u" "ready_process u = TASK_MM"
    "proc_table u P = (proc_table s P)\<lparr>p_flags := RECEIVING, msg := m, p_recvfrom := int TASK_MM\<rparr>"
    "i \<noteq> P \<Longrightarrow> i \<noteq> TASK_MM \<Longrightarrow> proc_table u i = proc_table s i"
    "idle (proc_table u TASK_MM)"
proof -
  let ?s = "fork_sent L P m s"
  note st = fork_sends [OF par]
  have m: "m \<noteq> 0" and T: "TASK_MM < NR_SLOTS" "TASK_MM \<noteq> ready_process ?s" "p_flags (proc_table ?s TASK_MM) = 0"
    and q: "q_sending (proc_table ?s (ready_process ?s)) = None"
    and src: "int TASK_MM = ANY \<or> valid_pid (int TASK_MM) \<and> int TASK_MM \<noteq> int (ready_process ?s)"
    using par st(3,4,5) by (auto simp: fork_parties_def resting_def idle_def valid_pid_def)
  note run = receive_waits [OF st(2) m src q T]
  note f = awaiting_fields [where src = "int TASK_MM" and m = m and s = ?s, unfolded st(3)]
  show "fork_asked m ?s = Suspend (fork_waits L P m s) (fork_done m)"
    unfolding fork_waits_def by (rule fork_asked_step [OF run(1)])
  show idl: "idle (proc_table u TASK_MM)"
    using f(2) [of TASK_MM] par st(5) by (simp add: u_def fork_waits_def fork_parties_def resting_def)
  show "kernel_ok u"
    using run(2) idl by (auto simp: u_def fork_waits_def kernel_ok_def running_ok_def)
  show "ready_process u = TASK_MM" by (simp add: u_def)
  show "proc_table u P = (proc_table s P)\<lparr>p_flags := RECEIVING, msg := m, p_recvfrom := int TASK_MM\<rparr>"
    using f(1) st(4) by (simp add: u_def fork_waits_def)
  show "proc_table u i = proc_table s i" if "i \<noteq> P" "i \<noteq> TASK_MM"
    using f(2) [of i] fork_start_slots(2) [OF par, of i] that
    by (simp add: u_def fork_waits_def fork_sent_def handed_over_fields)
qed

text \<open>The request as the task reads it: type and source, and the other fields as the caller has them.\<close>

lemma fork_addrs:
  assumes par: "fork_parties L P m s"
  shows "self_addr s x = x" "self_addr (fork_start L P s) m = data_addr (proc_table s) P m"
    "self_addr (fork_sent L P m s) m = data_addr (proc_table s) P m"
    "data_addr (proc_table (fork_start L P s)) TASK_MM x = x"
    "self_addr ((fork_waits L P m s)\<lparr>ready_process := TASK_MM\<rparr>) x = x"
proof -
  have ok: "kernel_ok s" and T: "ready_process s = TASK_MM" and P: "P \<noteq> TASK_MM"
    using par by (simp_all add: fork_parties_def)
  show "self_addr s x = x" by (rule mm_flat [OF ok T])
  show "self_addr (fork_start L P s) m = data_addr (proc_table s) P m"
    using fork_start_slots(2,3) [OF par] P by (simp add: self_addr_def data_addr_def)
  show "self_addr (fork_sent L P m s) m = data_addr (proc_table s) P m"
    using fork_sends(3,4) [OF par] by (simp add: self_addr_def data_addr_def)
  show "data_addr (proc_table (fork_start L P s)) TASK_MM x = x"
    using mm_flat [OF ok T, of x] fork_start_slots(4) [OF par] T
    by (simp add: self_addr_def data_addr_def ldt_seg_linear_def)
  show "self_addr ((fork_waits L P m s)\<lparr>ready_process := TASK_MM\<rparr>) x = x"
    by (rule mm_flat [OF fork_awaits(2,3) [OF par]])
qed

lemma fork_start_mem:
  assumes par: "fork_parties L P m s" and x: "\<not> addr_in (mm_msg L) 48 x"
  shows "mem (fork_start L P s) x = mem s x"
proof -
  have "\<not> addr_in (mm_msg L) 4 x" using x by (auto simp: addr_in_def)
  then show ?thesis
    using x fork_addrs(1) [OF par]
    by (simp add: fork_start_def awaiting_fields stamped_def reset_msg_def self_addr_def p_asm_memset_apply write32_outside)
qed

lemma fork_request_read:
  assumes par: "fork_parties L P m s" and i: "i \<le> 44"
  defines "a \<equiv> data_addr (proc_table s) P m"
  shows "read32 (mem (fork_waits L P m s)) (mm_msg L + of_nat i)
    = read32 (mem (stamped m (put_field (m + OFF_TYPE) FORK (fork_start L P s)))) (a + of_nat i)"
proof -
  let ?b = "mm_msg L" and ?s1 = "put_field (m + OFF_TYPE) FORK (fork_start L P s)"
  have dis: "disjoint_ranges a 48 ?b 48" using par by (simp add: fork_parties_def a_def)
  have b: "data_addr (proc_table ?s1) TASK_MM (msg (proc_table ?s1 TASK_MM)) = ?b"
    using fork_addrs(4) [OF par] fork_start_slots(1) [OF par] by (simp add: expecting_def)
  have sent: "mem (fork_sent L P m s) = p_asm_memcpy (mem (stamped m ?s1)) ?b a MSG_SIZE"
    using handed_over_fields(2) [of TASK_MM m ?s1] b fork_addrs(2) [OF par] by (simp add: fork_sent_def a_def)
  have "mem (fork_waits L P m s) x = mem (fork_sent L P m s) x" if "addr_in ?b 48 x" for x
    using stamped_elsewhere [OF fork_addrs(3) [OF par, folded a_def], of ?b x] dis that
    by (simp add: fork_waits_def awaiting_fields disjoint_ranges_sym)
  then have "read32 (mem (fork_waits L P m s)) (?b + of_nat i) = read32 (mem (fork_sent L P m s)) (?b + of_nat i)"
    by (intro read32_cong) (use addr_in_sub [of ?b "of_nat i" 4 _ 48] i in \<open>simp add: unat_of_nat32\<close>)
  then show ?thesis using read32_memcpy [of ?b a i] dis i by (simp add: sent disjoint_ranges_sym)
qed

lemma fork_request_fields:
  assumes par: "fork_parties L P m s"
  defines "u \<equiv> (fork_waits L P m s)\<lparr>ready_process := TASK_MM\<rparr>" and "a \<equiv> data_addr (proc_table s) P m"
  shows "msg_source L u = int P" "get_field (mm_msg L + OFF_TYPE) u = FORK"
    "get_field (mm_msg L + OFF_PID) u = get_field (m + OFF_PID) (s\<lparr>ready_process := P\<rparr>)"
proof -
  let ?s0 = "fork_start L P s" and ?s1 = "put_field (m + OFF_TYPE) FORK (fork_start L P s)"
  have sa: "self_addr ?s1 m = a" "self_addr ?s0 (m + y) = a + y" for y
    using fork_addrs(2) [OF par] by (simp_all add: a_def self_addr_add)
  have rp: "ready_process ?s1 = P" and P: "P < NR_SLOTS"
    using fork_start_slots(3) [OF par] par by (simp_all add: fork_parties_def)
  note rd = fork_request_read [OF par, folded a_def] and su = fork_addrs(5) [OF par, folded u_def]
  have mu: "mem u = mem (fork_waits L P m s)" by (simp add: u_def)
  show "msg_source L u = int P"
    using rd [of 0] stamped_read(1) [of m ?s1] sa(1) rp sint_slot [OF P]
    by (simp add: msg_source_def get_field_def su mu)
  show "get_field (mm_msg L + OFF_TYPE) u = FORK"
    using rd [of 4] stamped_read(2) [of 4 m ?s1] sa by (simp add: get_field_def su mu) (simp add: put_field_def sa)
  have "read32 (mem ?s1) (a + 12) = read32 (mem ?s0) (a + 12)"
    using disjoint_fields [of 12 4 a] sa(2) [of 4] by (simp add: put_field_def read32_write32_other)
  also have "\<dots> = read32 (mem s) (a + 12)"
  proof (rule read32_cong)
    fix x assume "addr_in (a + 12) 4 x"
    moreover have "disjoint_ranges (a + 12) 4 (mm_msg L) 48"
      using par disjoint_ranges_sub [of a "mm_msg L" 48 12] by (simp add: fork_parties_def a_def)
    ultimately have "\<not> addr_in (mm_msg L) 48 x" using disjoint_rangesD by blast
    then show "mem ?s0 x = mem s x" by (rule fork_start_mem [OF par])
  qed
  finally show "get_field (mm_msg L + OFF_PID) u = get_field (m + OFF_PID) (s\<lparr>ready_process := P\<rparr>)"
    using rd [of 12] stamped_read(2) [of 12 m ?s1] sa
    by (simp add: get_field_def su mu) (simp add: self_addr_def data_addr_def a_def add.assoc)
qed

section \<open>The answer\<close>

lemma find_slot_cong:
  "(\<And>i. p_flags (pt' i) = FREE_SLOT \<longleftrightarrow> p_flags (pt i) = FREE_SLOT) \<Longrightarrow> find_slot n i pt' = find_slot n i pt"
  by (induction n i pt rule: find_slot.induct) simp_all

lemma fork_waits_free:
  assumes par: "fork_parties L P m s"
  shows "p_flags (proc_table ((fork_waits L P m s)\<lparr>ready_process := TASK_MM\<rparr>) i) = FREE_SLOT
    \<longleftrightarrow> p_flags (proc_table s i) = FREE_SLOT"
proof -
  let ?u = "(fork_waits L P m s)\<lparr>ready_process := TASK_MM\<rparr>"
  have "p_flags (proc_table ?u P) = RECEIVING" using fork_awaits(4) [OF par] by simp
  moreover have "p_flags (proc_table ?u TASK_MM) = 0" using fork_awaits(6) [OF par] by (simp add: idle_def)
  moreover have "p_flags (proc_table s P) = 0" "p_flags (proc_table s TASK_MM) = 0"
    using par by (simp_all add: fork_parties_def resting_def idle_def)
  moreover have "proc_table ?u i = proc_table s i" if "i \<noteq> P" "i \<noteq> TASK_MM"
    by (rule fork_awaits(5) [OF par that])
  moreover have "RECEIVING \<noteq> FREE_SLOT" "(0 :: u32) \<noteq> FREE_SLOT" by simp_all
  ultimately show ?thesis by metis
qed

lemma fork_waits_expecting:
  assumes par: "fork_parties L P m s"
  defines "u \<equiv> (fork_waits L P m s)\<lparr>ready_process := TASK_MM\<rparr>"
  shows "expecting (int TASK_MM) m (proc_table u P)" "data_addr (proc_table u) P x = data_addr (proc_table s) P x"
  using par fork_awaits(4) [OF par]
  by (simp_all add: u_def fork_parties_def resting_def idle_def expecting_def data_addr_def ldt_seg_linear_def)

lemma child_name_number:
  "length (nm @ [0x5f] @ number (of_nat c) 10) < TASK_NAME_LEN \<Longrightarrow>
   child_name nm c = Inr (nm @ [0x5f] @ number (of_nat c) 10)"
  using s32_itoa_number [of 10 "of_nat c"] by (simp add: child_name_def)

text \<open>C13. Fork returns twice. Let the memory-manager task be at its turn with nobody waiting for it, and
  let another process \<open>P\<close> be idle. The task waits for a request; \<open>P\<close> calls \<open>fork\<close>, which sends
  the request and waits for the answer; the task then runs and gives the free slot \<open>c\<close> with the
  lowest number to the child. The child is runnable, has the registers of \<open>P\<close>, the name
  of \<open>P\<close> with an underscore and its own number, \<open>P\<close> as its parent, its own selector and a
  segment at 0xa00000, where the megabyte of the image is that of \<open>P\<close>; when the child runs,
  \<open>fork\<close> returns 0 there. Whatever the child and the others do before the task runs again,
  short of changing the slot of \<open>P\<close> and the message of the task, the task then answers \<open>P\<close>,
  and \<open>fork\<close> returns \<open>c\<close> there.\<close>

theorem fork_returns_twice:
  fixes s :: "'a files_scheme"
  assumes par: "fork_parties L P m s" and c: "7 \<le> c" "c < NR_SLOTS"
    and free: "p_flags (proc_table s c) = FREE_SLOT" "\<And>j. j < c \<Longrightarrow> p_flags (proc_table s j) \<noteq> FREE_SLOT"
    and q: "q_sending (proc_table s c) = None" and seg: "same_segments (proc_table s P)"
    and nm: "length (p_name (proc_table s P) @ [0x5f] @ number (of_nat c) 10) < TASK_NAME_LEN"
    and lay: "fork_layout L m (fork_base (ldt (proc_table s P) LDT_CODE))"
  shows "\<exists>s0 k s1 k1 s2 k2 t1 j.
    task_mm L eax s = Suspend s0 k
    \<and> fork m (s0\<lparr>ready_process := P\<rparr>) = Suspend s1 k1
    \<and> k1 s1 = Suspend s2 k2
    \<and> k (s2\<lparr>ready_process := TASK_MM\<rparr>) = Suspend t1 j
    \<and> p_flags (proc_table t1 c) = 0 \<and> regs (proc_table t1 c) = regs (proc_table s P)
    \<and> p_parent (proc_table t1 c) = of_nat P \<and> ldt_sel (proc_table t1 c) = ldt_sel (proc_table s c)
    \<and> p_name (proc_table t1 c) = p_name (proc_table s P) @ [0x5f] @ number (of_nat c) 10
    \<and> ldt_seg_linear (proc_table t1 c) LDT_CODE = 0xa00000 \<and> ldt_seg_linear (proc_table t1 c) LDT_DATA = 0xa00000
    \<and> (\<forall>x. addr_in 0xb00000 0x100000 x \<and> \<not> addr_in (0xa00000 + m) 48 x \<longrightarrow>
         mem t1 x = mem s2 (fork_base (ldt (proc_table s P) LDT_CODE) + (x - 0xa00000)))
    \<and> k2 (t1\<lparr>ready_process := c\<rparr>) = Return 0 (t1\<lparr>ready_process := c\<rparr>)
    \<and> (\<forall>u. kernel_ok u \<longrightarrow> ready_process u = TASK_MM \<longrightarrow> proc_table u P = proc_table t1 P \<longrightarrow>
         (\<forall>x. addr_in (mm_msg L) 48 x \<longrightarrow> mem u x = mem t1 x) \<longrightarrow>
         (\<exists>t2. j u = Suspend t2 (turn_over (0 :: int)) \<and> p_flags (proc_table t2 P) = 0
            \<and> k2 (t2\<lparr>ready_process := P\<rparr>) = Return (of_nat c) (t2\<lparr>ready_process := P\<rparr>)))"
proof -
  let ?u = "(fork_waits L P m s)\<lparr>ready_process := TASK_MM\<rparr>"
  let ?nm = "p_name (proc_table s P) @ [0x5f] @ number (of_nat c) 10"
  note w = fork_awaits [OF par] and rq = fork_request_fields [OF par] and ex = fork_waits_expecting [OF par]
  have P: "P < NR_SLOTS" "P \<noteq> c" "c \<noteq> TASK_MM" and dis: "disjoint_ranges (data_addr (proc_table s) P m) 48 (mm_msg L) 48"
    using par free(1) c by (auto simp: fork_parties_def resting_def idle_def)
  have "find_slot NR_SLOTS 0 (proc_table ?u) = find_slot NR_SLOTS 0 (proc_table s)"
    by (rule find_slot_cong) (rule fork_waits_free [OF par])
  also have "\<dots> = c" by (rule find_slot_skip) (use free c in auto)
  finally have fs: "find_slot NR_SLOTS 0 (proc_table ?u) = c" .
  have "forkable L P c ?nm m ?u"
    unfolding forkable_def
    using w(2-5) rq(1) P ex(1) fs c q seg lay child_name_number [OF nm] by (simp add: same_segments_def)
  note sv = fork_service [OF this, unfolded ex(2), OF dis]
  obtain t1 j where run: "serve_fork L (int P) ?u = Suspend t1 j"
    and pt: "proc_table t1 = (proc_table ?u)(c := woken (child_slot (proc_table ?u P) (ldt_sel (proc_table ?u c)) P ?nm))"
    and pid: "get_field (m + OFF_PID) (t1\<lparr>ready_process := c\<rparr>) = 0"
    and image: "\<forall>x. addr_in (CHILD_BASE + 0x100000) 0x100000 x \<and> \<not> addr_in (CHILD_BASE + m) 48 x \<longrightarrow>
         mem t1 x = mem ?u (fork_base (ldt (proc_table ?u P) LDT_CODE) + (x - CHILD_BASE))"
    and par_ret: "\<forall>u2. kernel_ok u2 \<longrightarrow> ready_process u2 = TASK_MM \<longrightarrow> proc_table u2 P = proc_table ?u P \<longrightarrow>
         (\<forall>x. addr_in (mm_msg L) 48 x \<longrightarrow> mem u2 x = mem t1 x) \<longrightarrow>
         (\<exists>s3. j u2 = Suspend s3 (turn_over (0 :: int)) \<and> kernel_ok s3 \<and> resting (proc_table s3 P)
            \<and> get_field (m + OFF_PID) (s3\<lparr>ready_process := P\<rparr>) = of_nat c)"
    using sv unfolding serve_fork_def by blast
  obtain k where k: "task_mm L eax s = Suspend (awaiting ANY (mm_msg L) (reset_msg (mm_msg L) s)) k"
    "\<forall>u. get_field (mm_msg L + OFF_TYPE) u = FORK \<longrightarrow> k u = serve_fork L (msg_source L u) u"
    using task_mm_fork [OF task_mm_waits(1) [OF par]] by blast
  have served: "k ?u = Suspend t1 j" using k(2) rq(1,2) run by simp
  have child: "p_flags (proc_table t1 c) = 0" "regs (proc_table t1 c) = regs (proc_table s P)"
    "p_parent (proc_table t1 c) = of_nat P" "ldt_sel (proc_table t1 c) = ldt_sel (proc_table s c)"
    "p_name (proc_table t1 c) = ?nm" "ldt_seg_linear (proc_table t1 c) LDT_CODE = 0xa00000"
    "ldt_seg_linear (proc_table t1 c) LDT_DATA = 0xa00000"
    using child_slot_fields(2,3) w(4) w(5) [of c] P
    by (simp_all add: pt) (simp_all add: child_slot_def woken_def ldt_seg_linear_def)
  have im: "\<forall>x. addr_in 0xb00000 0x100000 x \<and> \<not> addr_in (0xa00000 + m) 48 x \<longrightarrow>
      mem t1 x = mem (fork_waits L P m s) (fork_base (ldt (proc_table s P) LDT_CODE) + (x - 0xa00000))"
    using image w(4) by simp
  have cret: "fork_done m (t1\<lparr>ready_process := c\<rparr>) = Return 0 (t1\<lparr>ready_process := c\<rparr>)"
    using pid by (simp add: fork_done_def)
  have pret: "\<exists>t2. j u = Suspend t2 (turn_over (0 :: int)) \<and> p_flags (proc_table t2 P) = 0
      \<and> fork_done m (t2\<lparr>ready_process := P\<rparr>) = Return (of_nat c) (t2\<lparr>ready_process := P\<rparr>)"
    if "kernel_ok u" "ready_process u = TASK_MM" "proc_table u P = proc_table t1 P"
      "\<forall>x. addr_in (mm_msg L) 48 x \<longrightarrow> mem u x = mem t1 x" for u
  proof -
    have "proc_table u P = proc_table ?u P" using that(3) P(2) by (simp add: pt)
    then show ?thesis using par_ret that by (fastforce simp: fork_done_def resting_def idle_def)
  qed
  show ?thesis
    using k(1) fork_sends(1) [OF par] w(1) served child im cret pret
    unfolding fork_start_def by blast
qed

text \<open>C17. A failed fork is not reported. With the same beginning but no free slot, \<open>do_fork\<close> fails and the
  task writes -1 into the field RETVAL of its answer, but \<open>fork\<close> returns the field PID: the
  word that the caller's uninitialised message held there before the call. The process table
  gets no new process.\<close>

theorem fork_failure_unreported:
  fixes s :: "'a files_scheme"
  assumes par: "fork_parties L P m s" and full: "\<And>j. j < NR_SLOTS \<Longrightarrow> p_flags (proc_table s j) \<noteq> FREE_SLOT"
  shows "\<exists>s0 k s1 k1 s2 k2 t.
    task_mm L eax s = Suspend s0 k
    \<and> fork m (s0\<lparr>ready_process := P\<rparr>) = Suspend s1 k1
    \<and> k1 s1 = Suspend s2 k2
    \<and> k (s2\<lparr>ready_process := TASK_MM\<rparr>) = Suspend t (turn_over (0 :: int))
    \<and> get_field (m + OFF_RETVAL) (t\<lparr>ready_process := P\<rparr>) = - 1
    \<and> (\<forall>i. i \<noteq> P \<and> i \<noteq> TASK_MM \<longrightarrow> proc_table t i = proc_table s i)
    \<and> k2 (t\<lparr>ready_process := P\<rparr>)
        = Return (get_field (m + OFF_PID) (s\<lparr>ready_process := P\<rparr>)) (t\<lparr>ready_process := P\<rparr>)"
proof -
  let ?u = "(fork_waits L P m s)\<lparr>ready_process := TASK_MM\<rparr>"
  note w = fork_awaits [OF par] and rq = fork_request_fields [OF par] and ex = fork_waits_expecting [OF par]
  have P: "P < NR_SLOTS" "mm_msg L \<noteq> 0" and dis: "disjoint_ranges (data_addr (proc_table ?u) P m) 48 (mm_msg L) 48"
    using par ex(2) by (simp_all add: fork_parties_def)
  have "find_slot NR_SLOTS 0 (proc_table ?u) = find_slot NR_SLOTS 0 (proc_table s)"
    by (rule find_slot_cong) (rule fork_waits_free [OF par])
  also have "\<dots> = NR_SLOTS" using find_slot_full [of 0 NR_SLOTS "proc_table s"] full by simp
  finally have fs: "find_slot NR_SLOTS 0 (proc_table ?u) = NR_SLOTS" .
  obtain t where run: "serve_fork L (int P) ?u = Suspend t (turn_over (0 :: int))"
    and ret: "get_field (m + OFF_RETVAL) (t\<lparr>ready_process := P\<rparr>) = - 1"
    and pid: "get_field (m + OFF_PID) (t\<lparr>ready_process := P\<rparr>) = get_field (mm_msg L + OFF_PID) ?u"
    and pt: "\<forall>i. i \<noteq> P \<longrightarrow> proc_table t i = proc_table ?u i"
    using fork_refused [OF w(2,3) P(1) fs ex(1) P(2) dis] unfolding serve_fork_def by blast
  obtain k where k: "task_mm L eax s = Suspend (awaiting ANY (mm_msg L) (reset_msg (mm_msg L) s)) k"
    "\<forall>u. get_field (mm_msg L + OFF_TYPE) u = FORK \<longrightarrow> k u = serve_fork L (msg_source L u) u"
    using task_mm_fork [OF task_mm_waits(1) [OF par]] by blast
  have served: "k ?u = Suspend t (turn_over (0 :: int))" using k(2) rq(1,2) run by simp
  have "fork_done m (t\<lparr>ready_process := P\<rparr>)
      = Return (get_field (m + OFF_PID) (s\<lparr>ready_process := P\<rparr>)) (t\<lparr>ready_process := P\<rparr>)"
    using pid rq(3) by (simp add: fork_done_def)
  moreover have "\<forall>i. i \<noteq> P \<and> i \<noteq> TASK_MM \<longrightarrow> proc_table t i = proc_table s i" using pt w(5) by simp
  ultimately show ?thesis
    using k(1) fork_sends(1) [OF par] w(1) served ret unfolding fork_start_def by blast
qed

section \<open>Sample calls\<close>

text \<open>INIT forks when the kernel has just started, with the buffer of its call at 0x110000; and
  with every slot taken.\<close>

definition fork_ready :: "ptable \<Rightarrow> files" where
  "fork_ready pt = (blank_files sample_link)\<lparr>mem := \<lambda>_. 0, proc_table := pt, ready_process := TASK_MM, k_reenter := 0\<rparr>"

lemma fork_ready_parties:
  assumes inv: "ipc_inv pt (\<lambda>_. [])" and eq: "pt 2 = proc_table boot 2" "pt 3 = proc_table boot 3"
  shows "fork_parties sample_mm 3 0x110000 (fork_ready pt)"
proof -
  have r: "resting (pt 2)" "resting (pt 3)"
    using boot_idle [of 2] boot_idle [of 3] boot_slots(1) [of 2] boot_slots(1) [of 3] eq by (simp_all add: resting_def)
  moreover have "kernel_ok (fork_ready pt)"
    using inv r(1) by (auto simp: kernel_ok_def running_ok_def fork_ready_def resting_def)
  moreover have "data_addr pt 3 0x110000 = 0x110000" using boot_slots(2) [of 3] eq(2) by (simp add: data_addr_def)
  ultimately show ?thesis by (simp add: fork_parties_def fork_ready_def sample_mm_def disjoint_ranges_def)
qed

theorem fork_returns_twice_witness:
  "\<exists>s0 k s1 k1 s2 k2 t1 j.
    task_mm sample_mm 0 (fork_ready (proc_table boot)) = Suspend s0 k
    \<and> fork 0x110000 (s0\<lparr>ready_process := 3\<rparr>) = Suspend s1 k1 \<and> k1 s1 = Suspend s2 k2
    \<and> k (s2\<lparr>ready_process := TASK_MM\<rparr>) = Suspend t1 j
    \<and> k2 (t1\<lparr>ready_process := 7\<rparr>) = Return 0 (t1\<lparr>ready_process := 7\<rparr>)"
proof -
  let ?s = "fork_ready (proc_table boot)"
  have pt: "proc_table ?s = proc_table boot" by (simp add: fork_ready_def)
  have par: "fork_parties sample_mm 3 0x110000 ?s" by (rule fork_ready_parties [OF boot_inv]) simp_all
  have free: "p_flags (proc_table ?s 7) = FREE_SLOT" "q_sending (proc_table ?s 7) = None"
    using boot_free [of 7] by (simp_all add: pt) (simp add: boot_def init_proc_free zero_kernel_def zero_process_def)
  have used: "p_flags (proc_table ?s j) \<noteq> FREE_SLOT" if "j < 7" for j
    using boot_idle [OF that] by (simp add: pt idle_def)
  have seg: "same_segments (proc_table ?s 3)" "fork_base (ldt (proc_table ?s 3) LDT_CODE) = 0"
    using boot_init_slot(2,3)
    by (simp_all add: pt same_segments_def fork_base_def fork_limit_def granularity_def reassembly_def init_descriptor_def)
  have "number 7 10 = [0x37]" by code_simp
  then have nm: "length (p_name (proc_table ?s 3) @ [0x5f] @ number (of_nat 7) 10) < TASK_NAME_LEN"
    using boot_init_slot(1) by (simp add: pt)
  have lay: "fork_layout sample_mm 0x110000 (fork_base (ldt (proc_table ?s 3) LDT_CODE))"
    by (simp add: seg(2) fork_layout_def sample_mm_def disjoint_ranges_def)
  from fork_returns_twice [OF par _ _ free(1) used free(2) seg(1) nm lay, where eax = 0] show ?thesis
    by (simp only: pt) auto
qed

theorem fork_failure_unreported_witness:
  "\<exists>s0 k s1 k1 s2 k2 t.
    task_mm sample_mm 0 (fork_ready (\<lambda>i. if i < 7 then proc_table boot i else proc_table boot 4)) = Suspend s0 k
    \<and> fork 0x110000 (s0\<lparr>ready_process := 3\<rparr>) = Suspend s1 k1 \<and> k1 s1 = Suspend s2 k2
    \<and> k (s2\<lparr>ready_process := TASK_MM\<rparr>) = Suspend t (turn_over (0 :: int))
    \<and> k2 (t\<lparr>ready_process := 3\<rparr>) = Return 0 (t\<lparr>ready_process := 3\<rparr>)"
proof -
  let ?pt = "\<lambda>i. if i < 7 then proc_table boot i else proc_table boot 4"
  have idl: "idle (?pt i)" "q_sending (?pt i) = None" for i using boot_idle boot_slots(1) by simp_all
  have "ipc_inv ?pt (\<lambda>_. [])" by (rule quiet_table) (use idl boot_slots(2) in auto)
  then have par: "fork_parties sample_mm 3 0x110000 (fork_ready ?pt)" by (rule fork_ready_parties) simp_all
  have full: "p_flags (proc_table (fork_ready ?pt) j) \<noteq> FREE_SLOT" for j
    using idl(1) [of j] by (simp add: fork_ready_def idle_def)
  have "get_field (0x110000 + OFF_PID) ((fork_ready ?pt)\<lparr>ready_process := 3\<rparr>) = 0"
    by (simp add: get_field_def fork_ready_def read32_def)
  with fork_failure_unreported [OF par full, where eax = 0] show ?thesis by auto
qed

end
