(* ===== verification/System_Runs.thy ===== *)
theory System_Runs
  imports Mm_Properties
begin

text \<open>
  The kernel and its tasks as a transition system: the running process makes a system call, a
  clock interrupt arrives (in a process or nested in the kernel), the running process changes
  memory, or the memory-manager task writes into the process table, as it does without the
  kernel. The task marks processes as waiting or hanging, and these marks are flags like those
  of message passing. What the kernel keeps in every reachable state is the invariant of message
  passing up to the marks; a system call fails an assertion just when it meets a marked partner.
\<close>

unbundle bit_operations_syntax

section \<open>Marks\<close>

definition marked :: "Process \<Rightarrow> bool" where
  "marked p \<longleftrightarrow> p_flags p AND (WAITING OR HANGING) \<noteq> 0"

definition unmark :: "Process \<Rightarrow> Process" where
  "unmark p = p\<lparr>p_flags := p_flags p AND NOT (WAITING OR HANGING)\<rparr>"

lemma unmark_fields [simp]:
  "msg (unmark p) = msg p" "p_recvfrom (unmark p) = p_recvfrom p" "p_sendto (unmark p) = p_sendto p"
  "has_int_msg (unmark p) = has_int_msg p" "q_sending (unmark p) = q_sending p"
  "next_sending (unmark p) = next_sending p" "ldt (unmark p) = ldt p"
  "ldt_seg_linear (unmark p) i = ldt_seg_linear p i"
  by (simp_all add: unmark_def ldt_seg_linear_def)

lemma flag_bits:
  fixes x :: u32
  shows "(x AND NOT (WAITING OR HANGING)) AND SENDING = x AND SENDING"
    "(x AND NOT (WAITING OR HANGING)) AND RECEIVING = x AND RECEIVING"
    "x AND (WAITING OR HANGING) = 0 \<Longrightarrow> x AND NOT (WAITING OR HANGING) = x"
    "x AND NOT (WAITING OR HANGING) = v \<Longrightarrow> v AND (WAITING OR HANGING) = 0 \<Longrightarrow>
     x = v \<longleftrightarrow> x AND (WAITING OR HANGING) = 0"
proof -
  show "(x AND NOT (WAITING OR HANGING)) AND SENDING = x AND SENDING"
    "(x AND NOT (WAITING OR HANGING)) AND RECEIVING = x AND RECEIVING" by (simp_all add: and.assoc)
  have split: "(x AND NOT (WAITING OR HANGING)) OR (x AND (WAITING OR HANGING)) = x"
    by (rule bit_word_eqI) (auto simp: bit_simps)
  show part: "x AND NOT (WAITING OR HANGING) = x" if "x AND (WAITING OR HANGING) = 0" using split that by simp
  show "x = v \<longleftrightarrow> x AND (WAITING OR HANGING) = 0"
    if "x AND NOT (WAITING OR HANGING) = v" "v AND (WAITING OR HANGING) = 0"
    using that part by metis
qed

lemma unmark_bits [simp]:
  "p_flags (unmark p) AND SENDING = p_flags p AND SENDING"
  "p_flags (unmark p) AND RECEIVING = p_flags p AND RECEIVING"
  using flag_bits(1,2) by (simp_all add: unmark_def)

lemma unmark_unmarked: "\<not> marked p \<Longrightarrow> unmark p = p"
  using flag_bits(3) by (simp add: marked_def unmark_def)

lemma unmark_flags:
  assumes "p_flags (unmark p) = v" and "v AND (WAITING OR HANGING) = 0"
  shows "p_flags p = v \<longleftrightarrow> \<not> marked p"
  using flag_bits(4) [OF _ assms(2)] assms(1) by (simp add: unmark_def marked_def)

text \<open>The marks do not show in the links of the table.\<close>

definition unmarked :: "ptable \<Rightarrow> ptable" where
  "unmarked pt = (\<lambda>i. unmark (pt i))"

lemma unmarked_apply [simp]: "unmarked pt i = unmark (pt i)" "(\<lambda>i. unmark (pt i)) = unmarked pt"
  by (simp_all add: unmarked_def)

lemma unmarked_links:
  "sending_to (unmarked pt) = sending_to pt" "wait_graph (unmarked pt) = wait_graph pt"
  "queues_ok (unmarked pt) = queues_ok pt" "links_ok (unmarked pt) = links_ok pt"
  "data_addr (unmarked pt) = data_addr pt"
proof -
  show st: "sending_to (unmarked pt) = sending_to pt" by (intro ext) (simp add: sending_to_def)
  then show wg: "wait_graph (unmarked pt) = wait_graph pt" by (simp add: wait_graph_def)
  show q: "queues_ok (unmarked pt) = queues_ok pt" by (intro ext) (simp add: queues_ok_def st)
  show "links_ok (unmarked pt) = links_ok pt" by (intro ext) (simp add: links_ok_def q wg flat_natives_def)
  show "data_addr (unmarked pt) = data_addr pt" by (intro ext) (simp add: data_addr_def)
qed

section \<open>The two calls on a table with marks\<close>

text \<open>The invariant up to the marks, and what a running process has.\<close>

definition marked_inv :: "ptable \<Rightarrow> (nat \<Rightarrow> nat list) \<Rightarrow> bool" where
  "marked_inv pt qs \<longleftrightarrow> ipc_inv (unmarked pt) qs"

lemma marked_inv_links: "marked_inv pt qs \<Longrightarrow> links_ok pt qs"
  using ipc_inv_links [of "unmarked pt" qs] by (simp add: marked_inv_def unmarked_links)

lemma marked_inv_proc_ok: "marked_inv pt qs \<Longrightarrow> i < NR_SLOTS \<Longrightarrow> proc_ok (unmark (pt i))"
  using ipc_inv_proc_ok by (fastforce simp: marked_inv_def)

lemma runs_unmarked:
  assumes "marked_inv pt qs" and "i < NR_SLOTS" and "p_flags (pt i) = 0"
  shows "idle (pt i)" "unmark (pt i) = pt i"
proof -
  show eq: "unmark (pt i) = pt i" using assms(3) by (intro unmark_unmarked) (simp add: marked_def)
  show "idle (pt i)" using proc_ok_idle [OF marked_inv_proc_ok [OF assms(1,2)]] assms(3) eq by simp
qed

lemma proc_ok_receives: "proc_ok p \<Longrightarrow> p_flags p AND RECEIVING \<noteq> 0 \<longleftrightarrow> p_flags p = RECEIVING"
  by (auto simp: proc_ok_def slot_defs)

lemma deliver_marked:
  assumes flat: "flat_natives (proc_table s)" and rcv: "in_receive (unmark (proc_table s d))"
    and idl: "idle (proc_table s sender)" and m: "m \<noteq> 0"
  shows "deliver sender d m s = (if marked (proc_table s d) then Inl Assert_failed else Inr (s\<lparr>
     mem := p_asm_memcpy (mem s) (ldt_seg_linear (proc_table s d) LDT_DATA + msg (proc_table s d))
       (ldt_seg_linear (proc_table s sender) LDT_DATA + m) MSG_SIZE,
     proc_table := (proc_table s)(d := woken (proc_table s d))\<rparr>))"
proof (cases "marked (proc_table s d)")
  case False
  then show ?thesis using deliver_eq [OF flat _ idl m] rcv unmark_unmarked [OF False] by simp
next
  case True
  let ?x = "p_flags (proc_table s d)"
  have "(?x AND NOT RECEIVING) AND (WAITING OR HANGING) = ?x AND (WAITING OR HANGING)" by (simp add: and.assoc)
  then have "?x AND NOT RECEIVING \<noteq> 0" using True by (auto simp: marked_def)
  then show ?thesis
    using True rcv m by (simp add: deliver_def va2la_ok [OF flat] upd_proc_def unblock_def in_receive_def)
qed

lemma msg_send_marked:
  assumes inv: "marked_inv (proc_table s) qs" and d: "d < NR_SLOTS"
    and idl: "idle (proc_table s sender)" and ne: "sender \<noteq> d" and m: "m \<noteq> 0"
  shows "msg_send sender (int d) m s =
    (let pt = proc_table s
     in if (d, sender) \<in> (wait_graph pt)\<^sup>+ then Inl Panicked
        else if accepts (unmark (pt d)) sender
        then if marked (pt d) then Inl Assert_failed
             else Inr (s\<lparr>
               mem := p_asm_memcpy (mem s) (data_addr pt d (msg (pt d))) (data_addr pt sender m) MSG_SIZE,
               proc_table := pt(d := woken (pt d))\<rparr>)
        else blocked (blocked_table pt sender d m (qs d)) s)"
proof -
  let ?pt = "proc_table s"
  note links = marked_inv_links [OF inv]
  have ok: "proc_ok (unmark (?pt d))" by (rule marked_inv_proc_ok [OF inv d])
  have flat: "flat_natives ?pt" using links by (simp add: links_ok_def)
  have "p_flags (?pt d) AND RECEIVING \<noteq> 0 \<longleftrightarrow> p_flags (unmark (?pt d)) AND RECEIVING \<noteq> 0" by simp
  also have "\<dots> \<longleftrightarrow> p_flags (unmark (?pt d)) = RECEIVING" by (rule proc_ok_receives [OF ok])
  finally have acc: "p_flags (?pt d) AND RECEIVING \<noteq> 0 \<and> (p_recvfrom (?pt d) = int sender \<or> p_recvfrom (?pt d) = ANY)
      \<longleftrightarrow> accepts (unmark (?pt d)) sender" by (simp add: accepts_def)
  have "in_receive (unmark (?pt d))" if "accepts (unmark (?pt d)) sender"
    using ok that by (auto simp: proc_ok_def slot_defs accepts_def)
  note del = deliver_marked [OF flat this idl m]
  have "msg_send sender (int d) m s =
      (if (d, sender) \<in> (wait_graph ?pt)\<^sup>+ then Inl Panicked
       else if accepts (unmark (?pt d)) sender then deliver sender d m s else send_block sender d m s)"
    using ne by (simp add: msg_send_def deadlock_links [OF links d] acc Let_def)
  then show ?thesis
    using send_block_eq [OF links d idl ne m] del
    by (simp add: Let_def data_addr_def blocked_def)
qed

text \<open>A queued sender is in the state of a sender up to its marks; marked, it is not ready to be taken.\<close>

lemma queued_sender:
  assumes inv: "marked_inv pt qs" and w: "w < NR_SLOTS" and f: "f \<in> set (qs w)"
  shows "in_send (unmark (pt f))" "p_sendto (pt f) = int w" "f < NR_SLOTS" "p_flags (pt f) = SENDING \<longleftrightarrow> \<not> marked (pt f)"
proof -
  note q = queued_in_send [OF inv [unfolded marked_inv_def] w f]
  show s: "in_send (unmark (pt f))" "p_sendto (pt f) = int w" "f < NR_SLOTS" using q by simp_all
  show "p_flags (pt f) = SENDING \<longleftrightarrow> \<not> marked (pt f)"
    by (rule unmark_flags) (use s(1) in \<open>simp_all add: in_send_def\<close>)
qed

lemma take_message_marked:
  assumes inv: "marked_inv (proc_table s) qs" and w: "w < NR_SLOTS" and idl: "idle (proc_table s w)"
    and m: "m \<noteq> 0" and q: "qs w = ys @ f # zs"
  shows "kassert (ready_to_take (proc_table s) w f) (take_message w f (if ys = [] then None else Some (last ys)) m s) =
    (if marked (proc_table s f) then Inl Assert_failed else Inr (s\<lparr>
       mem := p_asm_memcpy (mem s) (data_addr (proc_table s) w m) (data_addr (proc_table s) f (msg (proc_table s f))) MSG_SIZE,
       proc_table := taken_table (proc_table s) w f ys\<rparr>))"
proof -
  let ?pt = "proc_table s"
  note links = marked_inv_links [OF inv]
  have fq: "f \<in> set (qs w)" by (simp add: q)
  note snd = queued_sender [OF inv w fq]
  have "q_sending (?pt w) \<noteq> None" using links_queue(1) [OF links w] q by (cases ys) auto
  then have ready: "ready_to_take ?pt w f \<longleftrightarrow> \<not> marked (?pt f)"
    using idl snd(1,2) snd(4) by (auto simp: ready_to_take_def slot_defs)
  show ?thesis
  proof (cases "marked (?pt f)")
    case False
    then have "in_send (?pt f)" using snd(1) unmark_unmarked by metis
    from take_message_eq [OF links w q idl this m refl] show ?thesis using False ready by (simp add: data_addr_def)
  qed (simp add: ready)
qed

lemma msg_receive_marked:
  assumes inv: "marked_inv (proc_table s) qs" and w: "w < NR_SLOTS" and idl: "idle (proc_table s w)"
    and m: "m \<noteq> 0" and src: "src = ANY \<or> valid_pid src \<and> src \<noteq> int w"
  shows "msg_receive w src m s =
    (let pt = proc_table s
     in case pick_sender src (qs w) of
          Some f \<Rightarrow>
            if marked (pt f) then Inl Assert_failed
            else Inr (s\<lparr>
              mem := p_asm_memcpy (mem s) (data_addr pt w m) (data_addr pt f (msg (pt f))) MSG_SIZE,
              proc_table := taken_table pt w f (takeWhile (\<lambda>x. x \<noteq> f) (qs w))\<rparr>)
        | None \<Rightarrow> blocked (receiving_table pt w src m) s)"
proof -
  let ?pt = "proc_table s"
  note links = marked_inv_links [OF inv]
  have int: "has_int_msg (?pt w) = 0" using idl by (simp add: idle_def)
  have nw: "int w \<noteq> src" using src w by auto
  have ch: "chain (\<lambda>i. next_sending (?pt i)) (q_sending (?pt w)) (qs w) None" by (rule links_queue(1) [OF links w])
  have nt: "src \<noteq> NO_TASK" using src by (auto simp: valid_pid_def)
  note blk = receive_block_eq [OF idl m nt]
  note take = take_message_marked [OF inv w idl m]
  have tw: "takeWhile (\<lambda>x. x \<noteq> f) (qs w) = ys" "f \<notin> set ys" if "qs w = ys @ f # zs" for f ys zs
    using links_queue(2) [OF links w] that by (auto simp: takeWhile_neq)
  show ?thesis
  proof (cases "src = ANY")
    case True
    show ?thesis
    proof (cases "qs w")
      case Nil
      then show ?thesis using ch int nw blk [unfolded True] unfolding True
        by (simp add: msg_receive_def pick_sender_def blocked_def Let_def)
    next
      case (Cons f zs)
      then show ?thesis
        using True ch int nw take [of "[]" f zs] tw(1) [of "[]" f zs]
        by (simp add: msg_receive_def pick_sender_def Let_def)
    qed
  next
    case False
    then have v: "valid_pid src" using src by simp
    then have f: "nat src < NR_SLOTS" by (auto simp: valid_pid_def)
    show ?thesis
    proof (cases "nat src \<in> set (qs w)")
      case True
      then obtain ys zs where q: "qs w = ys @ nat src # zs" by (auto simp: in_set_conv_decomp)
      have "sending_to ?pt (nat src) w" using True links_queue(3) [OF links w] by simp
      moreover have "q_sending (?pt w) \<noteq> None" using ch q by (cases ys) auto
      ultimately show ?thesis
        using True False v int nw take [OF q] tw [OF q] find_prev_chain [of ?pt _ ys "nat src" zs None] ch q
        by (simp add: msg_receive_def pick_sender_def sending_to_def Let_def)
    next
      case notin: False
      then have "\<not> sending_to ?pt (nat src) w" using links_queue(3) [OF links w] by simp
      then show ?thesis
        using False v int nw blk notin f
        by (auto simp: msg_receive_def pick_sender_def blocked_def sending_to_def Let_def)
    qed
  qed
qed

section \<open>The invariant of the system\<close>

definition system_ok :: "'a kernel_scheme \<Rightarrow> bool" where
  "system_ok s \<longleftrightarrow> (\<exists>qs. marked_inv (proc_table s) qs) \<and> ready_process s < NR_SLOTS
     \<and> p_flags (proc_table s (ready_process s)) = 0 \<and> k_reenter s = 0"

text \<open>The updates of the table by the two calls, seen without the marks.\<close>

lemma unmark_updates:
  "p_flags p = 0 \<Longrightarrow> unmark (blocked_sender d m p) = blocked_sender d m (unmark p)"
  "unmark (woken p) = woken (unmark p)" "unmark (taken_sender p) = taken_sender (unmark p)"
  "unmark (p\<lparr>q_sending := q\<rparr>) = (unmark p)\<lparr>q_sending := q\<rparr>"
  "unmark (p\<lparr>next_sending := q\<rparr>) = (unmark p)\<lparr>next_sending := q\<rparr>"
  "unmark (p\<lparr>p_flags := RECEIVING, msg := m, p_recvfrom := src\<rparr>)
     = (unmark p)\<lparr>p_flags := RECEIVING, msg := m, p_recvfrom := src\<rparr>"
  by (simp_all add: unmark_def blocked_sender_def woken_def taken_sender_def)

lemma unmarked_updates:
  "unmarked (pt(i := p)) = (unmarked pt)(i := unmark p)"
  "p_flags (pt w) = 0 \<Longrightarrow> unmarked (receiving_table pt w src m) = receiving_table (unmarked pt) w src m"
  "p_flags (pt i) = 0 \<Longrightarrow> unmarked (blocked_table pt i d m q) = blocked_table (unmarked pt) i d m q"
  "unmarked (taken_table pt w f ys) = taken_table (unmarked pt) w f ys"
proof -
  show upd: "unmarked (pt(i := p)) = (unmarked pt)(i := unmark p)" for i p and pt by (rule ext) simp
  show "unmarked (receiving_table pt w src m) = receiving_table (unmarked pt) w src m"
    by (simp add: receiving_table_def upd unmark_updates)
  show "unmarked (blocked_table pt i d m q) = blocked_table (unmarked pt) i d m q" if "p_flags (pt i) = 0"
    using that by (simp add: blocked_table_def Let_def upd unmark_updates)
  show "unmarked (taken_table pt w f ys) = taken_table (unmarked pt) w f ys"
    by (simp add: taken_table_def Let_def upd unmark_updates)
qed

lemma blocked_system_ok:
  assumes "marked_inv pt qs" and "blocked pt s = Inr s'" and "k_reenter s = 0"
  shows "system_ok s'"
proof -
  have "some_runnable pt"
    and s': "s' = s\<lparr>proc_table := pt, ready_process := the (schedule_loop pt (ready_process s))\<rparr>"
    using assms(2) by (auto simp: blocked_def split: if_splits)
  then obtain i where "i < NR_SLOTS" "p_flags (pt i) = 0" by (auto simp: some_runnable_def)
  from schedule_loop_finds [where pt = pt and r = "ready_process s", OF this]
  obtain q where q: "schedule_loop pt (ready_process s) = Some q" by auto
  then show ?thesis
    using assms(1,3) schedule_loop_Some [OF q] by (auto simp: system_ok_def s')
qed

text \<open>A call that succeeds keeps the invariant; one that fails an assertion has met a marked partner.\<close>

lemma msg_send_system:
  assumes inv: "marked_inv (proc_table s) qs" and run: "ready_process s < NR_SLOTS" "p_flags (proc_table s (ready_process s)) = 0"
    "k_reenter s = 0" and d: "d < NR_SLOTS" "ready_process s \<noteq> d" and m: "m \<noteq> 0"
  shows "case msg_send (ready_process s) (int d) m s of
      Inr s' \<Rightarrow> system_ok s'
    | Inl e \<Rightarrow> e = Hang \<or> e = Panicked \<and> (d, ready_process s) \<in> (wait_graph (proc_table s))\<^sup>+
        \<or> e = Assert_failed \<and> accepts (unmark (proc_table s d)) (ready_process s) \<and> marked (proc_table s d)"
proof -
  let ?p = "ready_process s" and ?pt = "proc_table s"
  note idl = runs_unmarked [OF inv run(1,2)]
  note spec = msg_send_marked [OF inv d(1) idl(1) d(2) m]
  have inv': "ipc_inv (unmarked ?pt) qs" using inv by (simp add: marked_inv_def)
  have idl': "idle (unmarked ?pt ?p)" using idl by simp
  show ?thesis
  proof (cases "(d, ?p) \<in> (wait_graph ?pt)\<^sup>+")
    case True
    then show ?thesis using spec by (simp add: Let_def)
  next
    case nodl: False
    show ?thesis
    proof (cases "accepts (unmark (?pt d)) ?p")
      case acc: True
      have rcv: "in_receive (unmarked ?pt d)"
        using marked_inv_proc_ok [OF inv d(1)] acc by (auto simp: accepts_def proc_ok_def slot_defs)
      have "marked_inv (?pt(d := woken (?pt d))) qs"
        using ipc_inv_woken_receiver [OF inv' rcv] by (simp add: marked_inv_def unmarked_updates(1) unmark_updates)
      then show ?thesis using spec nodl acc run d(2) by (auto simp: Let_def system_ok_def)
    next
      case False
      let ?bt = "blocked_table ?pt ?p d m (qs d)"
      have "marked_inv ?bt (qs(d := qs d @ [?p]))"
        using ipc_inv_blocked [OF inv' d(1) run(1) idl' d(2) m] nodl run(2)
        by (simp add: marked_inv_def unmarked_updates(3) unmarked_links)
      from blocked_system_ok [OF this _ run(3)] have "blocked ?bt s = Inr s' \<Longrightarrow> system_ok s'" for s' by blast
      then show ?thesis using spec nodl False
        by (cases "blocked ?bt s") (auto simp: Let_def blocked_def split: if_splits)
    qed
  qed
qed

lemma msg_receive_system:
  assumes inv: "marked_inv (proc_table s) qs" and run: "ready_process s < NR_SLOTS" "p_flags (proc_table s (ready_process s)) = 0"
    "k_reenter s = 0" and src: "src = ANY \<or> valid_pid src \<and> src \<noteq> int (ready_process s)" and m: "m \<noteq> 0"
  shows "case msg_receive (ready_process s) src m s of
      Inr s' \<Rightarrow> system_ok s'
    | Inl e \<Rightarrow> e = Hang \<or> e = Assert_failed
        \<and> (\<exists>f. sending_to (proc_table s) f (ready_process s) \<and> marked (proc_table s f) \<and> (src = ANY \<or> src = int f))"
proof -
  let ?p = "ready_process s" and ?pt = "proc_table s"
  note idl = runs_unmarked [OF inv run(1,2)]
  note spec = msg_receive_marked [OF inv run(1) idl(1) m src]
  have inv': "ipc_inv (unmarked ?pt) qs" using inv by (simp add: marked_inv_def)
  have idl': "idle (unmarked ?pt ?p)" using idl by simp
  have nt: "src \<noteq> NO_TASK" using src by (auto simp: valid_pid_def)
  show ?thesis
  proof (cases "pick_sender src (qs ?p)")
    case None
    let ?rt = "receiving_table ?pt ?p src m"
    have "marked_inv ?rt qs"
      using ipc_inv_receiving [OF inv' idl' m nt] run(2) by (simp add: marked_inv_def unmarked_updates(2))
    from blocked_system_ok [OF this _ run(3)] have "blocked ?rt s = Inr s' \<Longrightarrow> system_ok s'" for s' by blast
    then show ?thesis using spec None
      by (cases "blocked ?rt s") (auto simp: Let_def blocked_def split: if_splits)
  next
    case (Some f)
    then have fq: "f \<in> set (qs ?p)" by (rule pick_sender_in)
    have fs: "src = ANY \<or> src = int f" using Some src by (auto simp: pick_sender_def valid_pid_def split: if_splits)
    obtain ys zs where q: "qs ?p = ys @ f # zs" using fq by (auto simp: in_set_conv_decomp)
    have fy: "f \<notin> set ys" using links_queue(2) [OF marked_inv_links [OF inv] run(1)] q by auto
    have wf: "?p \<noteq> f" using queued_sender(1) [OF inv run(1) fq] idl by (auto simp: slot_defs)
    have st: "sending_to ?pt f ?p" using links_queue(3) [OF marked_inv_links [OF inv] run(1)] fq by simp
    have "marked_inv (taken_table ?pt ?p f ys) (qs(?p := ys @ zs))"
      using ipc_inv_taken [OF inv' run(1) q idl'] by (simp add: marked_inv_def unmarked_updates(4))
    moreover have "p_flags (taken_table ?pt ?p f ys ?p) = 0" using run(2) wf by (simp add: taken_table_fields [OF wf fy])
    ultimately show ?thesis
      using spec Some fs st run by (auto simp: Let_def q takeWhile_neq [OF fy] system_ok_def)
  qed
qed

lemma sys_sendrec_system:
  assumes ok: "system_ok s" and m: "m \<noteq> 0"
    and fn: "fn = SEND \<and> valid_pid sd \<or> fn = RECEIVE \<and> (valid_pid sd \<or> sd = ANY)"
    and ne: "sd \<noteq> int (ready_process s)"
  shows "case sys_sendrec fn sd m (ready_process s) s of
      Inr s' \<Rightarrow> system_ok s'
    | Inl e \<Rightarrow> e = Hang
        \<or> e = Panicked \<and> fn = SEND \<and> (nat sd, ready_process s) \<in> (wait_graph (proc_table s))\<^sup>+
        \<or> e = Assert_failed \<and> fn = SEND \<and> accepts (unmark (proc_table s (nat sd))) (ready_process s)
            \<and> marked (proc_table s (nat sd))
        \<or> e = Assert_failed \<and> fn = RECEIVE
            \<and> (\<exists>f. sending_to (proc_table s) f (ready_process s) \<and> marked (proc_table s f) \<and> (sd = ANY \<or> sd = int f))"
proof -
  let ?s = "\<lambda>a. s\<lparr>mem := write32 (mem s) a (of_nat (ready_process s))\<rparr>"
  obtain qs where inv: "marked_inv (proc_table s) qs" and run: "ready_process s < NR_SLOTS"
    "p_flags (proc_table s (ready_process s)) = 0" "k_reenter s = 0"
    using ok by (auto simp: system_ok_def)
  have "flat_natives (proc_table s)" using marked_inv_links [OF inv] by (simp add: links_ok_def)
  then obtain a where a: "sys_sendrec fn sd m (ready_process s) s =
      (if fn = SEND then msg_send (ready_process s) sd m (?s a) else msg_receive (ready_process s) sd m (?s a))"
    using fn ne run(3) by (auto simp: sys_sendrec_def va2la_ok Let_def)
  show ?thesis
  proof (cases "fn = SEND")
    case True
    then obtain d where "sd = int d" "d < NR_SLOTS" using fn by (cases sd) (auto simp: valid_pid_def)
    then show ?thesis
      using msg_send_system [of "?s a" qs d m] inv run m True ne unfolding a by (auto split: sum.splits)
  next
    case False
    then show ?thesis
      using msg_receive_system [of "?s a" qs sd m] inv run m fn ne unfolding a by (auto split: sum.splits)
  qed
qed

text \<open>A call that succeeds had legal arguments.\<close>

lemma sys_sendrec_legal:
  assumes "sys_sendrec fn sd m p s = Inr s'" and "has_int_msg (proc_table s p) = 0"
  shows "(fn = SEND \<and> valid_pid sd \<or> fn = RECEIVE \<and> (valid_pid sd \<or> sd = ANY)) \<and> sd \<noteq> int p"
  using assms
  by (auto simp: sys_sendrec_def msg_send_def msg_receive_def deadlock_def kassert_def Let_def res_simps split: if_splits)

lemma call_system_ok:
  assumes ok: "system_ok s" and m: "m \<noteq> 0" and r: "sys_sendrec fn sd m (ready_process s) s = Inr s'"
  shows "system_ok s'"
proof -
  obtain qs where inv: "marked_inv (proc_table s) qs" "ready_process s < NR_SLOTS" "p_flags (proc_table s (ready_process s)) = 0"
    using ok by (auto simp: system_ok_def)
  have "has_int_msg (proc_table s (ready_process s)) = 0"
    using runs_unmarked(1) [OF inv] by (simp add: idle_def)
  from sys_sendrec_legal [OF r this] sys_sendrec_system [OF ok m, of fn sd] r show ?thesis by auto
qed

lemma schedule_system_ok:
  assumes "system_ok s" and "schedule s = Inr s'"
  shows "system_ok s'"
proof -
  obtain q where "schedule_loop (proc_table s) (ready_process s) = Some q" "s' = s\<lparr>ready_process := q\<rparr>"
    using assms(2) by (auto simp: schedule_def res_simps)
  with schedule_loop_Some [of "proc_table s" "ready_process s" q] assms(1) show ?thesis
    by (auto simp: system_ok_def)
qed

section \<open>The writes of the memory manager\<close>

text \<open>
  What the task does to the process table on its own: \<open>do_wait\<close> marks its client as waiting
  (mm.c:275), \<open>do_exit\<close> ends that mark (mm.c:227, 243), records the status (mm.c:222) and marks
  the parent as hanging (mm.c:233), \<open>cleanup\<close> frees a slot (mm.c:203), \<open>do_fork\<close> fills a free
  slot (mm.c:144-178), and \<open>do_execl\<close> sets the entry address of its client.
\<close>

inductive mm_write :: "'a kernel_scheme \<Rightarrow> 'a kernel_scheme \<Rightarrow> bool" where
  wait_mark: "mm_write s (upd_proc i (\<lambda>p. p\<lparr>p_flags := p_flags p OR WAITING\<rparr>) s)"
| wait_over: "mm_write s (upd_proc i (\<lambda>p. p\<lparr>p_flags := p_flags p AND NOT WAITING\<rparr>) s)"
| hang_mark: "mm_write s (upd_proc i (\<lambda>p. p\<lparr>p_flags := p_flags p OR HANGING\<rparr>) s)"
| status: "mm_write s (upd_proc i (\<lambda>p. p\<lparr>exit_status := st\<rparr>) s)"
| release: "mm_write s (upd_proc i (\<lambda>p. p\<lparr>p_flags := FREE_SLOT\<rparr>) s)"
| spawn: "p_flags (proc_table s c) = FREE_SLOT \<Longrightarrow> NR_TASKS + NR_NATIVE_PROCS \<le> c \<Longrightarrow> c < NR_SLOTS \<Longrightarrow>
    who < NR_SLOTS \<Longrightarrow> mm_write s (upd_proc c (\<lambda>q. child_slot (proc_table s who) (ldt_sel q) who nm) s)"
| entry: "mm_write s (upd_proc i (\<lambda>p. p\<lparr>regs := (regs p)\<lparr>rg_eip := e\<rparr>\<rparr>) s)"
| elsewhere: "proc_table s' = proc_table s \<Longrightarrow> ready_process s' = ready_process s \<Longrightarrow> k_reenter s' = k_reenter s \<Longrightarrow>
    mm_write s s'"

text \<open>
  The writes that leave message passing alone: no process is taken out of a send or put into one,
  the queues of senders keep their heads, and the task does not block itself.
\<close>

definition undisturbed :: "'a kernel_scheme \<Rightarrow> 'a kernel_scheme \<Rightarrow> bool" where
  "undisturbed s s' \<longleftrightarrow> (\<forall>i < NR_SLOTS.
       p_flags (proc_table s' i) AND SENDING = p_flags (proc_table s i) AND SENDING
       \<and> q_sending (proc_table s' i) = q_sending (proc_table s i))
     \<and> p_flags (proc_table s' TASK_MM) = 0"

lemma undisturbedD:
  assumes "undisturbed s s'" and "i < NR_SLOTS"
  shows "p_flags (proc_table s' i) AND SENDING = p_flags (proc_table s i) AND SENDING"
    "q_sending (proc_table s' i) = q_sending (proc_table s i)"
  using assms by (simp_all add: undisturbed_def)

lemma unmark_marks:
  "unmark (p\<lparr>p_flags := p_flags p OR WAITING\<rparr>) = unmark p"
  "unmark (p\<lparr>p_flags := p_flags p AND NOT WAITING\<rparr>) = unmark p"
  "unmark (p\<lparr>p_flags := p_flags p OR HANGING\<rparr>) = unmark p"
proof -
  have g: "(x OR a) AND NOT (a OR b) = x AND NOT (a OR b)" "(x AND NOT a) AND NOT (a OR b) = x AND NOT (a OR b)"
    "(x OR b) AND NOT (a OR b) = x AND NOT (a OR b)" for x a b :: u32
    by (rule bit_word_eqI; auto simp: bit_simps)+
  have u: "unmark (p\<lparr>p_flags := x\<rparr>) = p\<lparr>p_flags := x AND NOT (WAITING OR HANGING)\<rparr>" for x by (simp add: unmark_def)
  show "unmark (p\<lparr>p_flags := p_flags p OR WAITING\<rparr>) = unmark p"
    "unmark (p\<lparr>p_flags := p_flags p AND NOT WAITING\<rparr>) = unmark p"
    "unmark (p\<lparr>p_flags := p_flags p OR HANGING\<rparr>) = unmark p"
    by (simp_all only: u g) (simp_all only: unmark_def)
qed

lemma unmarked_mark:
  assumes "proc_table s' = (proc_table s)(i := n)" and "unmark n = unmark (proc_table s i)"
  shows "marked_inv (proc_table s') qs \<longleftrightarrow> marked_inv (proc_table s) qs"
proof -
  have "unmarked (proc_table s') = unmarked (proc_table s)" by (rule ext) (simp add: assms)
  then show ?thesis by (simp add: marked_inv_def)
qed

lemma proc_ok_child:
  "proc_ok (unmark (child_slot p sel who nm)) = proc_ok (unmark p)" "p_flags (child_slot p sel who nm) = p_flags p"
  by (simp_all add: child_slot_def unmark_def proc_ok_def slot_defs)

lemma mm_write_inv:
  assumes "mm_write s s'" and inv: "marked_inv (proc_table s) qs" and u: "undisturbed s s'"
  shows "marked_inv (proc_table s') qs"
  using assms(1)
proof cases
  case (status i st)
  have "ipc_inv (unmarked (proc_table s')) qs \<longleftrightarrow> ipc_inv (unmarked (proc_table s)) qs"
    by (rule ipc_inv_cong) (simp_all add: status upd_proc_def unmark_def)
  then show ?thesis using inv by (simp add: marked_inv_def)
next
  case (entry i e)
  have "ipc_inv (unmarked (proc_table s')) qs \<longleftrightarrow> ipc_inv (unmarked (proc_table s)) qs"
    by (rule ipc_inv_cong) (simp_all add: entry upd_proc_def unmark_def)
  then show ?thesis using inv by (simp add: marked_inv_def)
next
  case (release i)
  let ?n = "(proc_table s i)\<lparr>p_flags := FREE_SLOT\<rparr>"
  have "ipc_inv ((unmarked (proc_table s))(i := unmark ?n)) qs"
  proof (rule ipc_inv_slot)
    show "ipc_inv (unmarked (proc_table s)) qs" using inv by (simp add: marked_inv_def)
    show "proc_ok (unmark ?n)" by (simp add: proc_ok_def unmark_def)
    show "i < NR_SLOTS \<Longrightarrow> p_flags (unmarked (proc_table s) i) AND SENDING = 0"
      using undisturbedD(1) [OF u, of i] by (simp add: release upd_proc_def)
  qed simp_all
  then show ?thesis by (simp add: marked_inv_def release upd_proc_def unmarked_updates(1))
next
  case (spawn c who nm)
  let ?n = "child_slot (proc_table s who) (ldt_sel (proc_table s c)) who nm"
  have pt: "proc_table s' = (proc_table s)(c := ?n)" by (simp add: spawn upd_proc_def)
  have f: "p_flags ?n AND SENDING = 0" "q_sending ?n = q_sending (proc_table s c)"
    using undisturbedD [OF u spawn(4)] spawn(2) by (simp_all add: pt)
  have "ipc_inv ((unmarked (proc_table s))(c := unmark ?n)) qs"
  proof (rule ipc_inv_slot)
    show "ipc_inv (unmarked (proc_table s)) qs" using inv by (simp add: marked_inv_def)
    show "proc_ok (unmark ?n)" using marked_inv_proc_ok [OF inv spawn(5)] by (simp add: proc_ok_child)
  qed (use f spawn in simp_all)
  then show ?thesis by (simp add: marked_inv_def pt unmarked_updates(1))
next
  case (wait_mark i)
  then show ?thesis using inv unmarked_mark [of s' s i, OF _ unmark_marks(1)] by (simp add: upd_proc_def)
next
  case (wait_over i)
  have "proc_table s' = (proc_table s)(i := (proc_table s i)\<lparr>p_flags := p_flags (proc_table s i) AND NOT WAITING\<rparr>)"
    by (simp add: wait_over upd_proc_def)
  then show ?thesis using inv unmarked_mark [OF _ unmark_marks(2)] by blast
next
  case (hang_mark i)
  then show ?thesis using inv unmarked_mark [of s' s i, OF _ unmark_marks(3)] by (simp add: upd_proc_def)
qed (use inv in simp)

section \<open>Runs\<close>

text \<open>
  The steps of the system. The writes of the task are steps of their own, in any order and at any
  time at which it runs, as long as they leave message passing alone.
\<close>

inductive system_step :: "'a kernel_scheme \<Rightarrow> 'a kernel_scheme \<Rightarrow> bool" where
  call: "sys_sendrec function_no src_dest m (ready_process s) s = Inr s' \<Longrightarrow> m \<noteq> 0 \<Longrightarrow> system_step s s'"
| tick: "clock_handler s = Inr s' \<Longrightarrow> system_step s s'"
| nested_tick: "clock_handler (s\<lparr>k_reenter := k\<rparr>) = Inr s' \<Longrightarrow> k \<noteq> 0 \<Longrightarrow>
    system_step s (s'\<lparr>k_reenter := k_reenter s\<rparr>)"
| other: "proc_table s' = proc_table s \<Longrightarrow> ready_process s' = ready_process s \<Longrightarrow> k_reenter s' = k_reenter s \<Longrightarrow>
    system_step s s'"
| manager: "ready_process s = TASK_MM \<Longrightarrow> mm_write s s' \<Longrightarrow> undisturbed s s' \<Longrightarrow> system_step s s'"

inductive_cases system_stepE: "system_step s s'"

text \<open>The kernel starts with the table of \<open>init_proc\<close> and slot 0 as the running process.\<close>

inductive reachable :: "'a kernel_scheme \<Rightarrow> 'a kernel_scheme \<Rightarrow> bool" for s0 where
  init: "reachable s0 (s0\<lparr>ready_process := 0\<rparr>)"
| step: "reachable s0 s \<Longrightarrow> system_step s s' \<Longrightarrow> reachable s0 s'"

lemma mm_write_running: "mm_write s s' \<Longrightarrow> ready_process s' = ready_process s \<and> k_reenter s' = k_reenter s"
  by (induction rule: mm_write.induct) (simp_all add: upd_proc_def)

lemma system_step_ok: "system_step s s' \<Longrightarrow> system_ok s \<Longrightarrow> system_ok s'"
proof (induction rule: system_step.induct)
  case (call function_no src_dest m s s')
  then show ?case using call_system_ok by blast
next
  case (tick s s')
  then have "schedule (s\<lparr>ticks := ticks s + 1\<rparr>) = Inr s'" by (simp add: clock_handler_def system_ok_def)
  moreover have "system_ok (s\<lparr>ticks := ticks s + 1\<rparr>)" using tick(2) by (simp add: system_ok_def)
  ultimately show ?case using schedule_system_ok by blast
next
  case (nested_tick s k s')
  then show ?case by (auto simp: clock_handler_def system_ok_def)
next
  case (other s' s)
  then show ?case by (simp add: system_ok_def)
next
  case (manager s s')
  then show ?case using mm_write_running [of s s'] mm_write_inv [of s s']
    by (auto simp: system_ok_def undisturbed_def)
qed

lemma reachable_system_ok: "reachable s0 s \<Longrightarrow> system_ok (s0\<lparr>ready_process := 0\<rparr>) \<Longrightarrow> system_ok s"
  by (induction rule: reachable.induct) (auto intro: system_step_ok)

lemma kernel_ok_system_ok:
  assumes "kernel_ok s" and "\<And>i. i < NR_SLOTS \<Longrightarrow> \<not> marked (proc_table s i)"
  shows "system_ok s"
proof -
  obtain qs where inv: "ipc_inv (proc_table s) qs" and run: "running_ok s" using assms(1) by (auto simp: kernel_ok_def)
  have eq: "unmark (proc_table s i) = proc_table s i" if "i < NR_SLOTS" for i
    by (rule unmark_unmarked) (rule assms(2) [OF that])
  have "ipc_inv (unmarked (proc_table s)) qs"
    using inv eq unmarked_links(2,3) [of "proc_table s"] by (simp add: ipc_inv_def flat_natives_def)
  then show ?thesis using run by (auto simp: system_ok_def marked_inv_def running_ok_def idle_def)
qed

lemma init_system_ok:
  assumes "desc_base (gdt 2) = 0" and "k_reenter s = 0"
    and "\<And>j. NR_TASKS + NR_NATIVE_PROCS \<le> j \<Longrightarrow> j < NR_SLOTS \<Longrightarrow> q_sending (proc_table s j) = None"
  shows "system_ok ((init_proc gdt ie stk s)\<lparr>ready_process := 0\<rparr>)"
proof (rule kernel_ok_system_ok)
  show "kernel_ok ((init_proc gdt ie stk s)\<lparr>ready_process := 0\<rparr>)" by (rule init_kernel_ok [where gdt = gdt, OF assms])
  show "\<not> marked (proc_table ((init_proc gdt ie stk s)\<lparr>ready_process := 0\<rparr>) i)" if "i < NR_SLOTS" for i
    using that init_native_idle by (cases "i < 7") (simp_all add: marked_def init_proc_native init_proc_free idle_def)
qed

section \<open>Properties\<close>

text \<open>C3. From the table that \<open>init_proc\<close> builds, let system calls, clock interrupts, memory writes and
  writes of the memory-manager task into the process table follow in any order, the latter such
  that they take no process out of a send, put none into one, change no head of a queue of
  senders and do not block the task itself. Then a system call of the running process with a non-null
  message and a legal partner never leaves the process table: it succeeds; or it panics because
  of a genuine deadlock; or no process is left to run; or an assertion fails, and then the
  process whose send or receive the call would complete carries a mark, waiting or hanging, of
  the memory manager.\<close>

theorem reachable_sendrec_safe:
  assumes "reachable (init_proc gdt init_eip task_stack s0) s"
    and "desc_base (gdt 2) = 0" and "k_reenter s0 = 0"
    and "\<And>j. NR_TASKS + NR_NATIVE_PROCS \<le> j \<Longrightarrow> j < NR_SLOTS \<Longrightarrow> q_sending (proc_table s0 j) = None"
    and "m \<noteq> 0"
    and "function_no = SEND \<and> valid_pid src_dest \<or> function_no = RECEIVE \<and> (valid_pid src_dest \<or> src_dest = ANY)"
    and "src_dest \<noteq> int (ready_process s)"
  shows "case sys_sendrec function_no src_dest m (ready_process s) s of
      Inr s' \<Rightarrow> system_ok s'
    | Inl e \<Rightarrow> e = Hang
        \<or> e = Panicked \<and> function_no = SEND
            \<and> (nat src_dest, ready_process s) \<in> (wait_graph (proc_table s))\<^sup>+
        \<or> e = Assert_failed \<and> function_no = SEND
            \<and> accepts (unmark (proc_table s (nat src_dest))) (ready_process s) \<and> marked (proc_table s (nat src_dest))
        \<or> e = Assert_failed \<and> function_no = RECEIVE
            \<and> (\<exists>f. sending_to (proc_table s) f (ready_process s) \<and> marked (proc_table s f)
                   \<and> (src_dest = ANY \<or> src_dest = int f))"
proof -
  have "system_ok s"
    by (rule reachable_system_ok [OF assms(1) init_system_ok [where gdt = gdt, OF assms(2,3,4)]])
  then show ?thesis by (rule sys_sendrec_system [OF _ assms(5-7)])
qed

text \<open>C4. In every state reached by system calls, clock interrupts, memory writes and the writes of the
  memory-manager task that leave message passing alone, no set of processes is blocked in a cycle of
  sends; the queue of every process is a list without repetitions of just the processes blocked in a
  send to it; every slot is, apart from the marks of the memory manager, idle, sending, receiving or
  free with the fields of that state; and the running process has no flag set.\<close>

theorem reachable_no_send_cycle:
  assumes "reachable (init_proc gdt init_eip task_stack s0) s"
    and "desc_base (gdt 2) = 0" and "k_reenter s0 = 0"
    and "\<And>j. NR_TASKS + NR_NATIVE_PROCS \<le> j \<Longrightarrow> j < NR_SLOTS \<Longrightarrow> q_sending (proc_table s0 j) = None"
  shows "acyclic (wait_graph (proc_table s)) \<and> (\<exists>qs. queues_ok (proc_table s) qs)
    \<and> (\<forall>i < NR_SLOTS. proc_ok (unmark (proc_table s i)))
    \<and> ready_process s < NR_SLOTS \<and> p_flags (proc_table s (ready_process s)) = 0"
proof -
  have "system_ok s"
    by (rule reachable_system_ok [OF assms(1) init_system_ok [where gdt = gdt, OF assms(2,3,4)]])
  then obtain qs where inv: "marked_inv (proc_table s) qs" and run: "ready_process s < NR_SLOTS"
    "p_flags (proc_table s (ready_process s)) = 0" by (auto simp: system_ok_def)
  have "queues_ok (proc_table s) qs" "acyclic (wait_graph (proc_table s))"
    using marked_inv_links [OF inv] by (simp_all add: links_ok_def)
  then show ?thesis using run marked_inv_proc_ok [OF inv] by blast
qed

text \<open>Two clock ticks after the start the task runs and marks slot 4.\<close>

definition boot_marked :: kernel where
  "boot_marked = upd_proc 4 (\<lambda>p. p\<lparr>p_flags := p_flags p OR WAITING\<rparr>) (boot\<lparr>ready_process := 2, ticks := 2\<rparr>)"

lemma boot_marked_reachable:
  "reachable (init_proc flat_gdt (\<lambda>i. 0x1000 * of_nat i) 0x20000 zero_kernel) boot_marked"
  "p_flags (proc_table boot_marked 4) = WAITING" "ready_process boot_marked = 2"
proof -
  let ?init = "init_proc flat_gdt (\<lambda>i. 0x1000 * of_nat i) 0x20000 zero_kernel"
  have fl: "p_flags (proc_table boot i) = 0" if "i < 7" for i using boot_idle [OF that] by (simp add: idle_def)
  have k: "k_reenter boot = 0" "ticks boot = 0" "ready_process boot = 0"
    by (simp_all add: boot_def init_proc_fields zero_kernel_def)
  have "schedule_loop (proc_table boot) 0 = Some 1" "schedule_loop (proc_table boot) 1 = Some 2"
    using fl [of 1] fl [of 2] by (subst schedule_loop_unfold; simp add: next_slot_def numeral_2_eq_2)+
  then have t1: "clock_handler boot = Inr (boot\<lparr>ready_process := 1, ticks := 1\<rparr>)"
    and t2: "clock_handler (boot\<lparr>ready_process := 1, ticks := 1\<rparr>) = Inr (boot\<lparr>ready_process := 2, ticks := 2\<rparr>)"
    using clock_handler_idle [of boot 1] clock_handler_idle [of "boot\<lparr>ready_process := 1, ticks := 1\<rparr>" 2]
    by (simp_all add: k)
  show f4: "p_flags (proc_table boot_marked 4) = WAITING" "ready_process boot_marked = 2"
    using fl [of 4] by (simp_all add: boot_marked_def upd_proc_def)
  have "undisturbed (boot\<lparr>ready_process := 2, ticks := 2\<rparr>) boot_marked"
    using fl [of 4] fl [of 2] by (simp add: undisturbed_def boot_marked_def upd_proc_def)
  then have "system_step (boot\<lparr>ready_process := 2, ticks := 2\<rparr>) boot_marked"
    by (intro system_step.manager) (simp_all add: boot_marked_def mm_write.wait_mark)
  moreover have "reachable ?init boot" unfolding boot_def by (rule reachable.init)
  ultimately show "reachable ?init boot_marked"
    using t1 t2 by (metis reachable.step system_step.tick)
qed

theorem reachable_sendrec_safe_witness:
  "\<exists>s. reachable (init_proc flat_gdt (\<lambda>i. 0x1000 * of_nat i) 0x20000 zero_kernel) s \<and> marked (proc_table s 4)
    \<and> (\<forall>e. sys_sendrec SEND 3 0x4000 (ready_process s) s = Inl e \<longrightarrow> e \<noteq> Out_of_bounds)"
proof (intro exI conjI allI impI)
  note r = boot_marked_reachable
  show "reachable (init_proc flat_gdt (\<lambda>i. 0x1000 * of_nat i) 0x20000 zero_kernel) boot_marked" by (rule r(1))
  show "marked (proc_table boot_marked 4)" by (simp add: marked_def r(2))
  fix e assume "sys_sendrec SEND 3 0x4000 (ready_process boot_marked) boot_marked = Inl e"
  with reachable_sendrec_safe [OF r(1) flat_gdt_base _ zero_kernel_queue, of "0x4000" SEND 3]
  show "e \<noteq> Out_of_bounds" by (auto simp: r(3) valid_pid_def zero_kernel_def)
qed

theorem reachable_no_send_cycle_witness:
  "marked (proc_table boot_marked 4) \<and> acyclic (wait_graph (proc_table boot_marked))
    \<and> proc_ok (unmark (proc_table boot_marked 4)) \<and> p_flags (proc_table boot_marked 2) = 0"
proof -
  note r = boot_marked_reachable
  have "k_reenter zero_kernel = 0" by (simp add: zero_kernel_def)
  from reachable_no_send_cycle [OF r(1) flat_gdt_base this zero_kernel_queue] show ?thesis
    by (simp add: r(3) marked_def) (simp add: r(2))
qed

text \<open>Also: A hanging sender stops the kernel: when the memory manager has marked a process that is blocked in
  a send, the receive that should take its message fails the assertion that its flags are just
  those of a sender (process.c:711 and 744).\<close>

theorem marked_sender_fails:
  assumes ok: "system_ok s" and m: "m \<noteq> 0" and f: "sending_to (proc_table s) f (ready_process s)"
    and mk: "marked (proc_table s f)"
  shows "sys_sendrec RECEIVE (int f) m (ready_process s) s = Inl Assert_failed"
proof -
  let ?w = "ready_process s"
  obtain qs where inv: "marked_inv (proc_table s) qs" and run: "?w < NR_SLOTS" "p_flags (proc_table s ?w) = 0" "k_reenter s = 0"
    using ok by (auto simp: system_ok_def)
  have ne: "f \<noteq> ?w" using mk run(2) by (auto simp: marked_def)
  have v: "valid_pid (int f)" "int f \<noteq> ANY" using f by (auto simp: sending_to_def valid_pid_def)
  have flat: "flat_natives (proc_table s)" using marked_inv_links [OF inv] by (simp add: links_ok_def)
  have "f \<in> set (qs ?w)" using f links_queue(3) [OF marked_inv_links [OF inv] run(1)] by simp
  then have "pick_sender (int f) (qs ?w) = Some f" using v(2) by (simp add: pick_sender_def)
  then show ?thesis
    using msg_receive_marked [of "s\<lparr>mem := mm\<rparr>" qs ?w m "int f" for mm] inv run v ne m mk
      runs_unmarked(1) [OF inv run(1,2)] va2la_ok [OF flat]
    by (simp add: sys_sendrec_def Let_def)
qed

end
