(* ===== verification/Mm_Writes.thy ===== *)
theory Mm_Writes
  imports System_Runs
begin

text \<open>
  The memory-manager task does nothing to the process table but the writes of \<open>mm_write\<close>: every
  turn of its loop, whatever the other processes have done when it goes on after a system call,
  is a sequence of such writes between system calls.
\<close>

unbundle bit_operations_syntax

section \<open>What file access leaves alone\<close>

definition table_of :: "'a kernel_scheme \<Rightarrow> ptable \<times> nat \<times> int" where
  "table_of s = (proc_table s, ready_process s, k_reenter s)"

lemma table_of_frame [simp]:
  "table_of (s\<lparr>mem := m\<rparr>) = table_of s" "table_of (clear_line l s) = table_of s"
  "table_of (put_field x v s) = table_of s" "table_of (reset_msg x s) = table_of s"
  by (simp_all add: table_of_def clear_line_def put_field_def reset_msg_def)

lemma table_of_print [simp]:
  "table_of (s32_print str vb s) = table_of s" "table_of (s\<lparr>cur_vb := c\<rparr>) = table_of s"
  by (simp_all add: table_of_def s32_print_def case_prod_beta)

lemma table_of_dump: "table_of (p_dump_loop n buff vb s) = table_of s"
  by (induction n arbitrary: buff vb s) (simp_all add: Let_def case_prod_beta)

lemma table_of_blocks [simp]:
  "table_of (snd (alloc_mem s)) = table_of s" "free_mem a s = Inr s' \<Longrightarrow> table_of s' = table_of s"
  by (auto simp: table_of_def alloc_mem_def find_free_area_def free_mem_def case_prod_beta Let_def split: if_splits)

lemma table_of_dout: "dout p d a n s = Inr (r, s') \<Longrightarrow> table_of s' = table_of s"
  by (auto simp: dout_def ramdisk_dout_def Let_def split: if_splits dout_fn.splits)

lemma table_of_field: "print_field label line col v radix s = Inr s' \<Longrightarrow> table_of s' = table_of s"
  by (auto simp: print_field_def s32_print_int_def res_simps)

lemma table_of_entry: "print_romfs_entry line offset buf False s = Inr (h, next_offset, s') \<Longrightarrow> table_of s' = table_of s"
  by (auto simp: print_romfs_entry_def Let_def res_simps)

lemma table_of_found: "namei_found sb dir buf off s = Inr (ino, s') \<Longrightarrow> table_of s' = table_of s"
  by (auto simp: namei_found_def case_prod_beta Let_def res_simps)

lemma table_of_report: "namei_report buf line off s = Inr (l, s') \<Longrightarrow> table_of s' = table_of s"
  by (auto simp: namei_report_def p_dump_u8_def table_of_dump Let_def res_simps dest!: table_of_field split: if_splits)

lemma table_of_scan:
  assumes "namei_scan sb dir buf line off s = Some (Inr (r, s'))"
  shows "table_of s' = table_of s"
proof -
  have "\<forall>r s'. y = Inr (r, s') \<longrightarrow> table_of s' = table_of s"
    if "namei_scan sb dir buf line off s = Some y" for y
    by (rule namei_scan.raw_induct [where P = "\<lambda>sb dir buf line off s y. \<forall>r s'. y = Inr (r, s') \<longrightarrow> table_of s' = table_of s",
          OF _ that])
      (auto simp: Let_def res_simps dest!: table_of_entry table_of_found table_of_report
        split: sum.splits option.splits if_splits)
  then show ?thesis using assms by blast
qed

lemma table_of_loop:
  assumes "namei_loop sb dir buf n s = Some (Inr (ino, s'))"
  shows "table_of s' = table_of s"
proof -
  have "\<forall>r s'. y = Inr (r, s') \<longrightarrow> table_of s' = table_of s"
    if "namei_loop sb dir buf n s = Some y" for y
    by (rule namei_loop.raw_induct [where P = "\<lambda>sb dir buf n s y. \<forall>r s'. y = Inr (r, s') \<longrightarrow> table_of s' = table_of s",
          OF _ that])
      (auto simp: Let_def res_simps dest!: table_of_dout table_of_scan
        split: sum.splits option.splits if_splits prod.splits)
  then show ?thesis using assms by blast
qed

lemma table_of_namei: "romfs_namei sb dir s = Inr (ino, s') \<Longrightarrow> table_of s' = table_of s"
  by (auto simp: romfs_namei_def case_prod_beta res_simps dest!: table_of_loop)

lemma table_of_execl: "execl_loop src buf i ph s = Inr s' \<Longrightarrow> table_of s' = table_of s"
proof (induction src buf i ph s rule: execl_loop.induct)
  case (1 src buf i ph s)
  show ?case
    using 1(2) by (subst (asm) execl_loop.simps) (auto simp: res_simps dest!: 1(1) split: if_splits)
qed

section \<open>Programs that only make the writes\<close>

inductive performs :: "'a kernel_scheme \<Rightarrow> ('a kernel_scheme, 'b) prog \<Rightarrow> bool" where
  returns: "mm_write\<^sup>*\<^sup>* s s' \<Longrightarrow> performs s (Return x s')"
| stops: "performs s (Stop e)"
| calls: "mm_write\<^sup>*\<^sup>* s t \<Longrightarrow> sys_sendrec fn sd m (ready_process t) t = Inr s' \<Longrightarrow> (\<And>u. performs u (k u)) \<Longrightarrow>
    performs s (Suspend s' k)"

lemma performs_after:
  assumes "performs t p" and "mm_write\<^sup>*\<^sup>* s t"
  shows "performs s p"
  using assms
proof cases
  case (calls t' fn sd m s' k)
  from performs.calls [OF rtranclp_trans [OF assms(2) calls(2)] calls(3,4)] show ?thesis by (simp add: calls(1))
qed (auto intro: performs.intros rtranclp_trans)

lemma performs_bind:
  assumes "performs s p" and "\<And>x t. performs t (f x t)"
  shows "performs s (pbind p f)"
  using assms(1)
proof induction
  case (returns s s' x)
  then show ?case using performs_after [OF assms(2)] by simp
qed (auto intro: performs.intros)

lemma write_elsewhere: "table_of s' = table_of s \<Longrightarrow> mm_write\<^sup>*\<^sup>* s s'"
  by (auto simp: table_of_def intro: mm_write.elsewhere)

lemma performs_elsewhere: "performs t p \<Longrightarrow> table_of t = table_of s \<Longrightarrow> performs s p"
  by (rule performs_after) (auto intro: write_elsewhere)

lemma performs_upd:
  "performs t p \<Longrightarrow> mm_write s t \<Longrightarrow> performs s p"
  by (rule performs_after) auto

lemma performs_sendrec: "performs s (sendrec fn sd m s)" for s :: "'a kernel_scheme"
proof (cases "sys_sendrec fn sd m (ready_process s) s")
  case (Inr s')
  have "performs u (resume u)" for u :: "'a kernel_scheme"
    by (simp add: resume_def performs.returns)
  then have "performs s (Suspend s' resume)" by (rule performs.calls [OF rtranclp.rtrancl_refl Inr])
  then show ?thesis using Inr by (simp add: sendrec_def)
qed (simp add: sendrec_def performs.stops)

lemma performs_send_recv: "performs s (send_recv fn sd m s)"
  by (auto simp: send_recv_def Let_def intro!: performs_bind performs.stops performs.returns
      intro: performs_sendrec performs_elsewhere [OF performs_sendrec])

section \<open>The task\<close>

lemma find_slot_le: "find_slot n i pt \<le> i + n"
  by (induction n i pt rule: find_slot.induct) auto

lemma performs_send: "table_of t = table_of s \<Longrightarrow> performs s (send_recv fn sd m t)"
  by (rule performs_elsewhere [OF performs_send_recv])

lemma cleanup_performs: "performs s (cleanup L proc s)"
  by (auto simp: cleanup_def Let_def intro!: performs_bind performs_send performs.returns r_into_rtranclp mm_write.release)

lemma exit_orphans_performs: "performs s (exit_orphans L who n i s)"
proof (induction n arbitrary: i s)
  case (Suc n)
  have "performs s (pbind (cleanup L i (upd_proc INIT_PID (\<lambda>p. p\<lparr>p_flags := p_flags p AND NOT WAITING\<rparr>) s))
      (\<lambda>_. exit_orphans L who n (Suc i)))"
    by (rule performs_upd [OF performs_bind [OF cleanup_performs Suc.IH] mm_write.wait_over])
  then show ?case using Suc.IH by simp
qed (simp add: performs.returns)

lemma do_exit_performs: "performs s (do_exit L st s)"
proof -
  let ?s1 = "\<lambda>who. upd_proc who (\<lambda>p. p\<lparr>exit_status := st\<rparr>) s"
  have "performs s (pbind
      (if b then cleanup L who (upd_proc parent (\<lambda>p. p\<lparr>p_flags := p_flags p AND NOT WAITING\<rparr>) (?s1 who))
       else Return () (upd_proc parent (\<lambda>p. p\<lparr>p_flags := p_flags p OR HANGING\<rparr>) (?s1 who)))
      (\<lambda>_. exit_orphans L who n i))" for b who parent n i
  proof (rule performs_bind [OF _ exit_orphans_performs])
    have "performs (?s1 who) (if b
        then cleanup L who (upd_proc parent (\<lambda>p. p\<lparr>p_flags := p_flags p AND NOT WAITING\<rparr>) (?s1 who))
        else Return () (upd_proc parent (\<lambda>p. p\<lparr>p_flags := p_flags p OR HANGING\<rparr>) (?s1 who)))"
      using performs_upd [OF cleanup_performs mm_write.wait_over]
      by (auto intro: performs.returns mm_write.hang_mark)
    then show "performs s (if b
        then cleanup L who (upd_proc parent (\<lambda>p. p\<lparr>p_flags := p_flags p AND NOT WAITING\<rparr>) (?s1 who))
        else Return () (upd_proc parent (\<lambda>p. p\<lparr>p_flags := p_flags p OR HANGING\<rparr>) (?s1 who)))"
      by (rule performs_upd) (rule mm_write.status)
  qed
  then show ?thesis by (simp add: do_exit_def Let_def performs.stops)
qed

lemma do_wait_performs: "performs s (do_wait L s)"
  by (auto simp: do_wait_def Let_def split: sum.splits
      intro!: cleanup_performs performs.stops performs_bind performs_send performs.returns r_into_rtranclp mm_write.wait_mark)

lemma do_fork_performs: "performs s (do_fork L s)"
proof -
  let ?i = "find_slot (NR_TASKS + NR_PROCS) 0 (proc_table s)" and ?src = "msg_source L s"
  let ?p = "proc_table s (nat ?src)"
  have "performs s (do_fork L s)"
    if i: "?i \<ge> NR_TASKS + NR_NATIVE_PROCS" "?i \<noteq> NR_SLOTS" and src: "valid_pid ?src"
      and nm: "child_name (p_name ?p) ?i = Inr nm" and seg: "same_segments ?p" for nm
  proof -
    let ?s1 = "snd (alloc_mem s)"
    let ?s2 = "?s1\<lparr>mem := p_asm_memcpy (mem ?s1) (CHILD_BASE + 0x100000)
                 (fork_base (ldt ?p LDT_CODE) + 0x100000) 0x100000\<rparr>"
    let ?s3 = "upd_proc ?i (\<lambda>c. child_slot ?p (ldt_sel c) (nat ?src) nm) ?s2"
    let ?s5 = "put_field (fork_msg L + OFF_PID) 0 (put_field (fork_msg L + OFF_RETVAL) 0
                 (put_field (fork_msg L + OFF_TYPE) SYSCALL_RET (put_field (mm_msg L + OFF_PID) (of_nat ?i) ?s3)))"
    have run: "do_fork L s = pbind (send_recv SEND (int ?i) (fork_msg L) ?s5) (\<lambda>_. Return 0)"
      using that by (simp add: do_fork_def Let_def)
    have pt: "proc_table ?s2 = proc_table s" by simp
    have "?i \<le> NR_SLOTS" using find_slot_le [of NR_SLOTS 0 "proc_table s"] by simp
    then have lt: "?i < NR_SLOTS" using i(2) by linarith
    then have free: "p_flags (proc_table s ?i) = FREE_SLOT" using find_slot_free [of NR_SLOTS 0 "proc_table s" ?i] by simp
    have "mm_write ?s2 ?s3"
      using mm_write.spawn [of ?s2 ?i "nat ?src" nm] i(1) lt free src unfolding pt by (simp add: valid_pid_def nat_less_iff)
    moreover have "performs ?s3 (pbind (send_recv SEND (int ?i) (fork_msg L) ?s5) (\<lambda>_. Return 0))"
      by (rule performs_bind [OF performs_send]) (simp_all add: performs.returns)
    ultimately have "performs ?s2 (do_fork L s)" unfolding run by (rule performs_upd [rotated])
    then show ?thesis by (rule performs_elsewhere) simp
  qed
  then show ?thesis
    by (cases "child_name (p_name ?p) ?i")
      (auto simp: do_fork_def Let_def intro: performs.stops performs.returns)
qed

lemma do_execl_performs: "performs s (prog_of (do_execl L s))"
proof (cases "do_execl L s")
  case (Inr s')
  then obtain t i e where t: "table_of t = table_of s" "s' = upd_proc i (\<lambda>p. p\<lparr>regs := (regs p)\<lparr>rg_eip := e\<rparr>\<rparr>) t"
    by (auto simp: do_execl_def kassert_def case_prod_beta Let_def res_simps split: if_splits
        dest!: table_of_namei table_of_dout table_of_execl table_of_blocks(2))
  have "mm_write\<^sup>*\<^sup>* s t" by (rule write_elsewhere [OF t(1)])
  moreover have "mm_write t s'" unfolding t(2) by (rule mm_write.entry)
  ultimately have "mm_write\<^sup>*\<^sup>* s s'" by simp
  then show ?thesis using Inr by (simp add: prog_of_def performs.returns)
qed (simp add: prog_of_def performs.stops)

lemma mm_reply_performs: "table_of t = table_of s \<Longrightarrow> performs s (mm_reply L src t)"
  by (auto simp: mm_reply_def turn_over_def intro!: performs_bind performs_send performs.returns)

text \<open>Also: Whatever the other processes have done when the task goes on after a system call, a turn of
  its loop changes the process table by the writes of \<open>mm_write\<close> and by system calls only.\<close>

theorem task_mm_performs: "performs s (task_mm L eax s)"
  unfolding task_mm_def
proof (rule performs_bind [OF performs_send])
  fix x and t :: "'a files_scheme"
  have "performs t (pbind (do_fork L t)
      (\<lambda>r s2. mm_reply L src (put_field (mm_msg L + OFF_RETVAL) (word_of_int r) s2)))" for src
    by (rule performs_bind [OF do_fork_performs]) (rule mm_reply_performs, simp)
  moreover have "performs t (pbind (prog_of (do_execl L t))
      (\<lambda>_ s2. mm_reply L src (put_field (mm_msg L + OFF_RETVAL) eax s2)))" for src
    by (rule performs_bind [OF do_execl_performs]) (rule mm_reply_performs, simp)
  ultimately show "performs t (let src = msg_source L t; ty = get_field (mm_msg L + OFF_TYPE) t
       in if ty = FORK then
            pbind (do_fork L t) (\<lambda>r s2. mm_reply L src (put_field (mm_msg L + OFF_RETVAL) (word_of_int r) s2))
          else if ty = EXIT then do_exit L (get_field (mm_msg L + OFF_STATUS) t) t
          else if ty = WAIT then do_wait L t
          else if ty = EXEC then
            pbind (prog_of (do_execl L t)) (\<lambda>_ s2. mm_reply L src (put_field (mm_msg L + OFF_RETVAL) eax s2))
          else Stop Panicked)"
    by (simp add: Let_def do_exit_performs do_wait_performs performs.stops)
qed simp

end
