(* ===== verification/Exec_Load.thy ===== *)
theory Exec_Load
  imports Mm_Task
begin

text \<open>
  The service that replaces the program of a process: \<open>do_execl\<close> looks the file up, reads it from
  the device into a block and places its segments in the memory of the caller.
\<close>

section \<open>Segments in the memory of a process\<close>

definition shifted :: "u32 \<Rightarrow> (u32 \<times> u32 \<times> u32) list \<Rightarrow> (u32 \<times> u32 \<times> u32) list" where
  "shifted base gs = map (\<lambda>(va, off, sz). (base + va, off, sz)) gs"

lemma shifted_append: "shifted base (xs @ ys) = shifted base xs @ shifted base ys"
  by (simp add: shifted_def)

lemma execl_loop_places:
  fixes s :: "'a kernel_scheme"
  assumes "agrees (mem s) buf img N" and "unat (e_phnum img 0) = i + k" and "46 \<le> N"
    and "unat x + 32 * k \<le> N"
    and "\<And>a. va2la (proc_table s) TASK_MM a = Inr a" and "\<And>a. va2la (proc_table s) src a = Inr (base + a)"
    and "\<forall>(va, off, sz) \<in> set (segments img x k). unat off + unat sz \<le> N \<and> disjoint_ranges (base + va) (unat sz) buf N"
  shows "execl_loop src buf i (buf + x) s = Inr (s\<lparr>mem := fold (place img) (shifted base (segments img x k)) (mem s)\<rparr>)"
  using assms
proof (induction k arbitrary: i x s)
  case 0
  have "unat (e_phnum (mem s) buf) = i"
    using agrees_read16 [OF "0.prems"(1), of 44] "0.prems"(2,3) by (simp add: e_phnum_def)
  then show ?case by (simp add: execl_loop.simps [of src buf i] shifted_def)
next
  case (Suc k)
  have "e_phnum (mem s) buf = e_phnum img 0"
    using agrees_read16 [OF Suc.prems(1), of 44] Suc.prems(3) by (simp add: e_phnum_def)
  then have i: "i < unat (e_phnum (mem s) buf)" using Suc.prems(2) by simp
  have "unat x + 32 \<le> N" using Suc.prems(4) by simp
  note hdr = header_fields [OF Suc.prems(1) this]
  let ?va = "p_vaddr img x" and ?off = "p_offset img x" and ?sz = "p_filesz img x"
  let ?here = "if p_type img x = PT_LOAD then [(?va, ?off, ?sz)] else []"
  define m where "m = fold (place img) (shifted base ?here) (mem s)"
  have m: "m = p_asm_memcpy (mem s) (base + ?va) (buf + ?off) ?sz \<and> agrees m buf img N" if "p_type img x = PT_LOAD"
  proof -
    have "unat ?off + unat ?sz \<le> N" "disjoint_ranges (base + ?va) (unat ?sz) buf N" using Suc.prems(7) that by auto
    note placed = copy_places_to [OF Suc.prems(1) this]
    have "m = p_asm_memcpy (mem s) (base + ?va) (buf + ?off) ?sz"
      using placed(1) that by (intro ext) (simp add: m_def shifted_def)
    then show ?thesis using placed(2) by simp
  qed
  have agr: "agrees m buf img N"
  proof (cases "p_type img x = PT_LOAD")
    case True
    then show ?thesis using m by blast
  next
    case False
    then show ?thesis using Suc.prems(1) by (simp add: m_def shifted_def)
  qed
  have one: "(if p_type (mem s) (buf + x) = PT_LOAD then
       rbind (va2la (proc_table s) src (p_vaddr (mem s) (buf + x))) (\<lambda>to.
       rbind (va2la (proc_table s) TASK_MM (buf + p_offset (mem s) (buf + x))) (\<lambda>from.
         Inr (s\<lparr>mem := p_asm_memcpy (mem s) to from (p_filesz (mem s) (buf + x))\<rparr>)))
     else Inr s) = Inr (s\<lparr>mem := m\<rparr>)"
    unfolding hdr Suc.prems(5,6) rbind_Inr using m by (simp add: m_def shifted_def)
  have "unat (x + 32) + 32 * k \<le> N" using unat_add_le [of x 32] Suc.prems(4) by simp
  then have "execl_loop src buf (Suc i) (buf + (x + 32)) (s\<lparr>mem := m\<rparr>) =
      Inr (s\<lparr>mem := m\<rparr>\<lparr>mem := fold (place img) (shifted base (segments img (x + 32) k)) (mem (s\<lparr>mem := m\<rparr>))\<rparr>)"
    using Suc.prems agr by (intro Suc.IH) auto
  then show ?case using i one by (subst execl_loop.simps) (simp add: m_def shifted_append add.assoc)
qed

section \<open>The file in the block\<close>

abbreviation (input) echo_name :: cstring where "echo_name \<equiv> map of_char ''echo''"

lemma block_of:
  assumes "mm_ok s" and "b \<in> blocks s"
  shows "unat (mm_start s) \<le> unat b" and "unat b + 0x80000 \<le> 2 ^ 32"
proof -
  obtain k where k: "k < 32" "b = block_addr (mm_start s) k" using assms(2) by (auto simp: blocks_def)
  then have "unat b = unat (mm_start s) + k * 0x80000" using unat_block_addr [OF assms(1) k(1)] by simp
  then show "unat (mm_start s) \<le> unat b" "unat b + 0x80000 \<le> 2 ^ 32" using assms(1) k(1) by (simp_all add: mm_ok_def)
qed

text \<open>What lies below the managed memory and not on the screen is read into a block unchanged.\<close>

lemma block_holds_file:
  assumes "mm_ok s" and "buf \<in> blocks s" and "unat from + unat sz \<le> unat (mm_start s)" and "unat sz \<le> 0x80000"
  shows "agrees (p_asm_memcpy m buf from sz) buf (\<lambda>x. m (from + x)) (unat sz)"
proof -
  note b = block_of [OF assms(1,2)]
  have "disjoint_ranges buf (unat sz) from (unat sz)"
    by (subst disjoint_ranges_sym, rule disjoint_ranges_apart) (use b assms in linarith)+
  then show ?thesis by (simp add: agrees_def p_asm_memcpy_apply addr_in_def)
qed

lemma below_blocks:
  assumes "mm_ok s" and "b \<in> blocks s" and "unat x < unat (mm_start s)"
  shows "\<not> addr_in b 0x80000 x"
proof -
  note b = block_of [OF assms(1,2)]
  have "unat (x - b) = unat x + 2 ^ 32 - unat b" using b(1) assms(3) by (simp add: unat_sub_if')
  then show ?thesis using b assms(3) unfolding addr_in_def by linarith
qed

text \<open>
  The state in which the request arrives: the file system holds a file "echo", whose data lie in the
  image, and the image is not on the screen.
\<close>

definition exec_ready ::
  "Mm_Link \<Rightarrow> 'a files_scheme \<Rightarrow> nat \<Rightarrow> nat \<Rightarrow> u32 \<Rightarrow> u32 \<Rightarrow> bool" where
  "exec_ready L s src D o' sz \<longleftrightarrow>
     (let sb = fs_type s ROMFS; dev = sb_device (sb_obj s sb)
      in sb \<noteq> 0 \<and> sint (get_field (mm_msg L + OFF_NAME_LEN) s) < MAX_PATH
        \<and> msg_source L s = int src \<and> src < NR_SLOTS
        \<and> (\<exists>n volume pre post. lookup_ready s sb n D volume (pre @ (o', echo_name, sz) # post)
            \<and> echo_name \<notin> (\<lambda>(_, name, _). name) ` set pre
            \<and> unat o' + 32 + unat sz \<le> n \<and> disjoint_ranges (start_pos (sd_obj s dev)) n VB D)
        \<and> unat o' mod 16 = 0 \<and> 52 \<le> unat sz \<and> 2 \<le> card (blocks s - held_blocks s)
        \<and> ldt_seg_linear (proc_table s TASK_MM) LDT_DATA = 0
        \<and> (src < NR_TASKS + NR_NATIVE_PROCS \<longrightarrow> ldt_seg_linear (proc_table s src) LDT_DATA = 0))"

lemma file_read:
  fixes s :: "'a files_scheme"
  assumes rdy: "exec_ready L s src D o' sz"
  defines "F \<equiv> \<lambda>x. mem s (start_pos (sd_obj s (sb_device (sb_obj s (fs_type s ROMFS)))) + (o' + 32) + x)"
  shows "\<exists>ino buf s1 s3. romfs_namei (fs_type s ROMFS) echo_name s = Inr (ino, s1)
    \<and> buf = fst (alloc_mem s1) \<and> buf \<in> blocks s - held_blocks s \<and> ino \<noteq> buf \<and> ino \<in> blocks s - held_blocks s
    \<and> dout (sb_device (sb_obj (snd (alloc_mem s1)) (fs_type s ROMFS))) buf (romfs_get_daddr ino (mem s1))
        (inode_dsize (mem (snd (alloc_mem s1))) ino) (snd (alloc_mem s1)) = Inr (sint sz, s3)
    \<and> agrees (mem s3) buf F (unat sz) \<and> unat sz \<le> 0x80000 \<and> kept D s s3 \<and> mm_ok s3
    \<and> held_blocks s3 = insert buf (insert ino (held_blocks s))"
proof -
  let ?sb = "fs_type s ROMFS"
  let ?dev = "sb_device (sb_obj s ?sb)"
  let ?start = "start_pos (sd_obj s ?dev)"
  note rdy' = rdy [unfolded exec_ready_def Let_def]
  obtain n volume pre post where lk: "lookup_ready s ?sb n D volume (pre @ (o', echo_name, sz) # post)"
    "echo_name \<notin> (\<lambda>(_, name, _). name) ` set pre" "unat o' + 32 + unat sz \<le> n" "disjoint_ranges ?start n VB D"
    using rdy' by (elim conjE exE)
  have o': "unat o' mod 16 = 0" "52 \<le> unat sz" and two: "2 \<le> card (blocks s - held_blocks s)"
    using rdy' by simp_all
  have r: "?dev \<noteq> 0" "n \<le> 0x80000" "mm_ok s" "unat ?start + n \<le> unat (mm_start s)"
    using lk(1) unfolding lookup_ready_def Let_def by blast+
  obtain ino s1 where s1: "romfs_namei ?sb echo_name s = Inr (ino, s1)" "ino \<in> blocks s - held_blocks s"
    "held_blocks s1 = insert ino (held_blocks s)" "inode_dsize (mem s1) ino = sz" "inode_daddr (mem s1) ino = o'"
    "kept D s s1" "mm_ok s1"
    using namei_lookup [OF lk(1,2) _ two] by auto
  have keep: "sd_obj s1 = sd_obj s" "sb_obj s1 = sb_obj s" "mm_start s1 = mm_start s" using s1(6) by (simp_all add: kept_def)
  have blk: "blocks s1 = blocks s" by (simp add: blocks_def keep(3))
  let ?buf = "fst (alloc_mem s1)" and ?s2 = "snd (alloc_mem s1)" and ?a = "romfs_get_daddr ino (mem s1)"
  have free: "held_blocks s1 \<noteq> blocks s1" using two_free(2) [OF two, of ino] s1(3) blk by simp
  have buf: "?buf \<in> blocks s1 - held_blocks s1" by (rule mm.alloc_block [OF s1(7) free])
  have "unat ?a = unat o' + 32"
  proof -
    have "sz \<noteq> 0" using o'(2) by auto
    moreover have "unat o' + 64 < 2 ^ 32" using lk(3) r(2) by simp
    ultimately show ?thesis using get_daddr_nat [of "mem s1" ino] s1(4,5) o'(1) by simp
  qed
  moreover have "unat (o' + 32) = unat o' + 32" using lk(3) r(2) by (simp add: unat_word_ariths)
  ultimately have a: "?a = o' + 32" by (simp only: word_unat_eq_iff)
  let ?from = "?a + start_pos (sd_obj s ?dev)"
  let ?s3 = "?s2\<lparr>mem := p_asm_memcpy (mem s1) ?buf ?from sz\<rparr>"
  have d: "dout (sb_device (sb_obj ?s2 ?sb)) ?buf ?a (inode_dsize (mem ?s2) ino) ?s2 = Inr (sint sz, ?s3)"
    using s1(4) keep r(1) by (simp add: dout_ramdisk)
  have fr: "unat ?from = unat o' + 32 + unat ?start"
    using lk(3) r(2,4) \<open>unat ?a = unat o' + 32\<close> unat_le_32 [of "mm_start s"] r(3)
    by (simp add: unat_word_ariths mm_ok_def)
  have N: "unat sz \<le> 0x80000" using lk(3) r(2) by simp
  have "agrees (p_asm_memcpy (mem s1) ?buf ?from sz) ?buf (\<lambda>x. mem s1 (?from + x)) (unat sz)"
    using buf fr lk(3) r(4) keep(3) by (intro block_holds_file [OF s1(7) _ _ N]) simp_all
  moreover have "mem s1 (?from + x) = F x" if "unat x < unat sz" for x
  proof -
    have ux: "unat (?from + x) = unat ?from + unat x"
      using fr lk(3) r(2,4) that unat_le_32 [of "mm_start s"] by (simp add: unat_word_ariths)
    have "addr_in ?start n (?from + x)"
    proof -
      have "unat (?from + x - ?start) = unat (?from + x) - unat ?start"
        using ux fr by (intro unat_sub) (simp add: word_le_nat_alt)
      then show ?thesis using ux fr lk(3) that by (simp add: addr_in_def)
    qed
    then have "\<not> addr_in VB D (?from + x)" by (rule disjoint_rangesD [OF lk(4)])
    moreover have "\<forall>b \<in> blocks s. \<not> addr_in b 0x80000 (?from + x)"
      using below_blocks [OF r(3)] ux fr lk(3) r(4) that by simp
    ultimately have "mem s1 (?from + x) = mem s (?from + x)" using s1(6) by (simp add: kept_def)
    then show ?thesis by (simp add: F_def a add.commute)
  qed
  ultimately have agr: "agrees (mem ?s3) ?buf F (unat sz)" by (simp add: agrees_def)
  have "?buf \<in> blocks ?s2" using buf mm.alloc_area [of s1] by simp
  moreover have "\<not> addr_in ?buf (unat sz) x" if "\<not> addr_in ?buf 0x80000 x" for x using that N by (auto simp: addr_in_def)
  ultimately have "kept D ?s2 ?s3" by (intro kept_block) (auto simp: p_asm_memcpy_outside)
  then have "kept D s ?s3" using kept_trans [OF kept_trans [OF s1(6) kept_alloc]] by blast
  moreover have "mm_ok ?s3" "held_blocks ?s3 = insert ?buf (insert ino (held_blocks s))"
    using mm.alloc_ok [OF s1(7)] mm.alloc_held [OF s1(7) free] s1(3) by (simp_all add: mm_ok_def held_blocks_def)
  ultimately show ?thesis using s1(1,2,3) buf blk d agr N by blast
qed

text \<open>C15. Replacing the program of a process. When the request is sane, the file "echo" of the file system is
  an executable whose headers and segments lie in its data, and the segments, in the memory of the caller, do not meet the
  managed blocks, the service ends: the caller continues at the entry address of the file, its
  loadable segments are at their addresses in the data segment of the caller, no other slot of the process
  table and no other memory outside the screen and the managed blocks has changed. The block of
  the inode stays allocated.\<close>

theorem do_execl_loads:
  fixes s :: "'a files_scheme"
  assumes rdy: "exec_ready L s src D o' sz"
    and elf: "F = (\<lambda>x. mem s (start_pos (sd_obj s (sb_device (sb_obj s (fs_type s ROMFS)))) + (o' + 32) + x))"
      "k = unat (e_phnum F 0)" "gs = segments F (e_phoff F 0) k" "base = ldt_seg_linear (proc_table s src) LDT_DATA"
    and table: "unat (e_phoff F 0) + 32 * k \<le> unat sz"
    and segs: "\<forall>(va, off, z) \<in> set gs. unat off + unat z \<le> unat sz \<and>
      (\<forall>b \<in> blocks s. disjoint_ranges (base + va) (unat z) b 0x80000)"
  shows "\<exists>s' ino. do_execl L s = Inr s' \<and> rg_eip (regs (proc_table s' src)) = e_entry F 0
    \<and> (\<forall>i. i \<noteq> src \<longrightarrow> proc_table s' i = proc_table s i)
    \<and> (\<forall>y. \<not> addr_in VB D y \<and> (\<forall>b \<in> blocks s. \<not> addr_in b 0x80000 y) \<longrightarrow>
         mem s' y = fold (place F) (shifted base gs) (mem s) y)
    \<and> ino \<notin> held_blocks s \<and> held_blocks s' = insert ino (held_blocks s)"
proof -
  let ?sb = "fs_type s ROMFS"
  obtain ino buf s1 s3 where r: "romfs_namei ?sb echo_name s = Inr (ino, s1)" "buf = fst (alloc_mem s1)"
    "buf \<in> blocks s - held_blocks s" "ino \<noteq> buf" "ino \<in> blocks s - held_blocks s"
    "dout (sb_device (sb_obj (snd (alloc_mem s1)) ?sb)) buf (romfs_get_daddr ino (mem s1))
        (inode_dsize (mem (snd (alloc_mem s1))) ino) (snd (alloc_mem s1)) = Inr (sint sz, s3)"
    "agrees (mem s3) buf F (unat sz)" "unat sz \<le> 0x80000" "kept D s s3" "mm_ok s3"
    "held_blocks s3 = insert buf (insert ino (held_blocks s))"
    using file_read [OF rdy] unfolding elf(1) by blast
  have q: "?sb \<noteq> 0" "sint (get_field (mm_msg L + OFF_NAME_LEN) s) < MAX_PATH" "msg_source L s = int src" "src < NR_SLOTS"
    "52 \<le> unat sz" "ldt_seg_linear (proc_table s TASK_MM) LDT_DATA = 0"
    "src < NR_TASKS + NR_NATIVE_PROCS \<longrightarrow> base = 0"
    using rdy elf(4) by (simp_all add: exec_ready_def Let_def)
  have pt: "proc_table s3 = proc_table s" using r(9) by (simp add: kept_def)
  have va: "va2la (proc_table s3) TASK_MM a = Inr a" "va2la (proc_table s3) src a = Inr (base + a)" for a
    using q(6,7) elf(4) by (simp_all add: va2la_def Let_def pt kassert_def)
  have "e_phoff (mem s3) buf = e_phoff F 0" "e_entry (mem s3) buf = e_entry F 0"
    using agrees_read32 [OF r(7), of 28] agrees_read32 [OF r(7), of 24] q(5) by (simp_all add: e_phoff_def e_entry_def)
  note hdr = this
  let ?m = "fold (place F) (shifted base gs) (mem s3)"
  have apart: "disjoint_ranges p z b n" if "disjoint_ranges p z b 0x80000" "n \<le> 0x80000" for p z b n
    using that by (auto simp: disjoint_ranges_def)
  have "execl_loop src buf 0 (buf + e_phoff F 0) s3 = Inr (s3\<lparr>mem := ?m\<rparr>)"
    unfolding elf(3) using r(3,8) segs elf(2,3) table q(5) va apart
    by (intro execl_loop_places [OF r(7)]) auto
  note loop = this
  let ?s4 = "s3\<lparr>mem := ?m\<rparr>"
  have "mm_ok ?s4" "buf \<in> held_blocks ?s4" using r(10,11) by (simp_all add: mm_ok_def held_blocks_def)
  then obtain s5 where s5: "free_mem buf ?s4 = Inr s5" "held_blocks s5 = held_blocks ?s4 - {buf}"
    using mm.release_held by blast
  let ?s' = "upd_proc src (\<lambda>p. p\<lparr>regs := (regs p)\<lparr>rg_eip := e_entry F 0\<rparr>\<rparr>) s5"
  have "\<not> \<not> valid_pid (int src)" using q(4) by (simp add: valid_pid_def)
  then have "do_execl L s = Inr ?s'"
    using q(1,2) r(1,6) s5(1) loop
    by (simp add: do_execl_def Let_def q(3) case_prod_unfold r(2) [symmetric] hdr kassert_def)
  moreover have "proc_table s5 = proc_table s" "mem s5 = ?m"
    using s5(1) pt by (auto simp: free_mem_def Let_def split: if_splits)
  moreover have "?m y = fold (place F) (shifted base gs) (mem s) y"
    if "\<not> addr_in VB D y" "\<forall>b \<in> blocks s. \<not> addr_in b 0x80000 y" for y
    using r(9) that by (intro fold_place_cong) (simp add: kept_def)
  moreover have "held_blocks ?s' = insert ino (held_blocks s)"
  proof -
    have "held_blocks ?s' = held_blocks s5" "held_blocks ?s4 = held_blocks s3" by (simp_all add: held_blocks_def upd_proc_def)
    moreover have "buf \<notin> held_blocks s" using r(3) by simp
    ultimately show ?thesis using s5(2) r(4,11) by auto
  qed
  ultimately show ?thesis using r(5) by (intro exI [of _ ?s'] exI [of _ ino]) (simp add: upd_proc_def)
qed

text \<open>An image whose file "echo" is the sample executable; the request comes from slot 7, whose data
  segment starts at 0x400000.\<close>

definition echo_image :: "u8 list" where
  "echo_image = map of_char ''-rom1fs-'' @ [0, 0, 0, 0xc0, 0, 0, 0, 0]
     @ map of_char ''v'' @ replicate 15 0
     @ [0, 0, 0, 0x49, 0, 0, 0, 0x20, 0, 0, 0, 0, 0, 0, 0, 0] @ map of_char ''.'' @ replicate 15 0
     @ [0, 0, 0, 2, 0, 0, 0, 0, 0, 0, 0, 88, 0, 0, 0, 0] @ map of_char ''echo'' @ replicate 12 0
     @ sample_elf @ replicate 8 0"

definition echo_memory :: mem where
  "echo_memory x = (if x - 0x200000 < 192 then echo_image ! unat (x - 0x200000) else if x = 0x300000 then 7 else 0)"

definition exec_state :: files where
  "exec_state = lookup_state\<lparr>mem := echo_memory, ready_process := TASK_MM,
     sd_obj := (\<lambda>_. (ramdisk_sd_initial sample_link)\<lparr>storage_size := 192\<rparr>),
     proc_table := (\<lambda>_. zero_process)(7 := zero_process\<lparr>ldt := (\<lambda>_. init_descriptor 0x400000 0xff 0)\<rparr>)\<rparr>"

abbreviation (input) exec_link :: Mm_Link where
  "exec_link \<equiv> \<lparr>mm_msg = 0x300000, fork_msg = 0, cleanup_msg = 0, wait_msg = 0\<rparr>"

lemma exec_state_fields:
  "fs_type exec_state ROMFS = 0x2000" "sb_device (sb_obj exec_state 0x2000) = 0x1000" "mem exec_state = echo_memory"
  "start_pos (sd_obj exec_state 0x1000) = 0x200000" "storage_size (sd_obj exec_state 0x1000) = 192"
  "mm_start exec_state = 0x1000000" "memory_used exec_state = 0" "ready_process exec_state = TASK_MM"
  "proc_table exec_state = (\<lambda>_. zero_process)(7 := zero_process\<lparr>ldt := (\<lambda>_. init_descriptor 0x400000 0xff 0)\<rparr>)"
  by (simp_all add: exec_state_def lookup_state_def mounted_files_def blank_files_def blank_memory_def
      keyboard.defs memory.defs files.defs ramdisk_sd_initial_def sample_link_def)

lemma exec_entries:
  "entry_at (\<lambda>x. echo_memory (0x200000 + x)) 192 0 [0x76] 0xc0"
  "entry_at (\<lambda>x. echo_memory (0x200000 + x)) 192 32 [0x2e] 0"
  "entry_at (\<lambda>x. echo_memory (0x200000 + x)) 192 64 [0x65, 0x63, 0x68, 0x6f] 88"
  "next_of (\<lambda>x. echo_memory (0x200000 + x)) 32 = 64" "next_of (\<lambda>x. echo_memory (0x200000 + x)) 64 = 0"
  by code_simp+

lemma exec_segments:
  "unat (e_phnum (\<lambda>x. echo_memory (0x200000 + (64 + 32) + x)) 0) = 1"
  "e_phoff (\<lambda>x. echo_memory (0x200000 + (64 + 32) + x)) 0 = 52"
  "e_entry (\<lambda>x. echo_memory (0x200000 + (64 + 32) + x)) 0 = 0x100000"
  "segments (\<lambda>x. echo_memory (0x200000 + (64 + 32) + x)) 52 1 = [(0x100000, 84, 4)]"
  "echo_memory (0x200000 + (64 + 32) + 87) = 0xde"
  "read32 echo_memory 0x300000 = 7" "read32 echo_memory 0x30000c = 0"
  by code_simp+

lemma exec_bases:
  "ldt_seg_linear zero_process LDT_DATA = 0"
  "ldt_seg_linear (zero_process\<lparr>ldt := (\<lambda>_. init_descriptor 0x400000 0xff 0)\<rparr>) LDT_DATA = 0x400000"
  by (simp_all add: ldt_seg_linear_def zero_process_def desc_base_init)

lemma exec_state_ready: "exec_ready exec_link exec_state 7 0x2000 64 88"
proof -
  have "mm_ok exec_state" by (simp add: mm_ok_def exec_state_fields)
  then have two: "2 \<le> card (blocks exec_state - held_blocks exec_state)"
    using card_blocks [of exec_state] by (simp add: held_blocks_def exec_state_fields)
  have "lookup_ready exec_state 0x2000 192 0x2000 [0x76] [(64, [0x65, 0x63, 0x68, 0x6f], 88)]"
    unfolding lookup_ready_def Let_def exec_state_fields
    using exec_entries sample_entries(6) by (auto simp: mm_ok_def exec_state_fields)
  moreover have "disjoint_ranges 0x200000 192 VB 0x2000" by (simp add: disjoint_ranges_def)
  ultimately have "\<exists>n volume pre post. lookup_ready exec_state 0x2000 n 0x2000 volume (pre @ (64, echo_name, 88) # post)
      \<and> echo_name \<notin> (\<lambda>(_, name, _). name) ` set pre
      \<and> unat (64 :: u32) + 32 + unat (88 :: u32) \<le> n \<and> disjoint_ranges 0x200000 n VB 0x2000"
    by (intro exI [of _ 192] exI [of _ "[0x76]"] exI [of _ "[]"]) simp
  then show ?thesis
    unfolding exec_ready_def Let_def using two exec_segments(6,7) exec_bases
    by (simp add: exec_state_fields msg_source_def get_field_def self_addr_def data_addr_def)
qed

theorem do_execl_loads_witness:
  "\<exists>s'. do_execl exec_link exec_state = Inr s' \<and> rg_eip (regs (proc_table s' 7)) = 0x100000
    \<and> mem s' 0x500003 = 0xde"
proof -
  have apart: "disjoint_ranges 0x500000 4 b 0x80000" "\<not> addr_in b 0x80000 0x500003" if "b \<in> blocks exec_state" for b
  proof -
    have ok: "mm_ok exec_state" by (simp add: mm_ok_def exec_state_fields)
    note b = block_of [OF ok that]
    have "disjoint_ranges 0x500000 0x80000 b 0x80000"
      using b by (intro disjoint_ranges_apart) (simp_all add: exec_state_fields)
    then show "disjoint_ranges 0x500000 4 b 0x80000" by (auto simp: disjoint_ranges_def)
    show "\<not> addr_in b 0x80000 0x500003" using below_blocks [OF ok that, of "0x500003"] by (simp add: exec_state_fields)
  qed
  let ?F = "\<lambda>x. echo_memory (0x200000 + (64 + 32) + x)"
  obtain s' where s': "do_execl exec_link exec_state = Inr s'" "rg_eip (regs (proc_table s' 7)) = 0x100000"
    "\<forall>y. \<not> addr_in VB 0x2000 y \<and> (\<forall>b \<in> blocks exec_state. \<not> addr_in b 0x80000 y) \<longrightarrow>
      mem s' y = fold (place ?F) (shifted 0x400000 [(0x100000, 84, 4)]) echo_memory y"
    using do_execl_loads [OF exec_state_ready, of ?F 1 "[(0x100000, 84, 4)]" "0x400000"] exec_segments exec_bases apart(1)
    by (auto simp: exec_state_fields)
  have "\<not> addr_in VB 0x2000 0x500003" by (simp add: addr_in_def)
  then have "mem s' 0x500003 = 0xde" using s'(3) apart(2) exec_segments(5) by (simp add: shifted_def place_def addr_in_def)
  then show ?thesis using s'(1,2) by blast
qed

end
