(* ===== verification/Genromfs.thy ===== *)
theory Genromfs
  imports Kstring
begin

text \<open>
  The tool others/genromfs.c, with which the makefile builds the file-system image the kernel
  mounts. It builds a tree of nodes for the files of a directory and writes the tree. The nodes
  are a store addressed in the order of their allocation; the linked list of the children of a node is the list of
  their addresses. The file system of the host is the record \<open>Host\<close>, an argument of the operations. The
  words of a header are kept as the host, a little-endian machine, has them in memory.
\<close>

unbundle bit_operations_syntax

section \<open>The host\<close>

record Stat =
  st_dev :: "64 word"
  st_ino :: "64 word"
  st_mode :: u32
  st_size :: int
  st_rdev :: "64 word"

text \<open>
  \<open>host_readdir\<close> is \<open>None\<close> when the directory cannot be opened; \<open>host_content\<close> is what \<open>read\<close> delivers
  from the file, nothing when it cannot be opened; \<open>host_fopen\<close> tells whether a file can be opened for writing.
\<close>

record Host =
  host_lstat :: "cstring \<Rightarrow> Stat option"
  host_readdir :: "cstring \<Rightarrow> cstring list option"
  host_access :: "cstring \<Rightarrow> bool"
  host_readlink :: "cstring \<Rightarrow> cstring"
  host_content :: "cstring \<Rightarrow> u8 list"
  host_fnmatch :: "cstring \<Rightarrow> cstring \<Rightarrow> bool"
  host_makedev :: "int \<Rightarrow> int \<Rightarrow> 64 word"
  host_major :: "64 word \<Rightarrow> u32"
  host_minor :: "64 word \<Rightarrow> u32"
  host_fopen :: "cstring \<Rightarrow> bool"

definition S_IFMT :: u32 where "S_IFMT = 0xf000"

definition S_ISREG :: "u32 \<Rightarrow> bool" where "S_ISREG m \<longleftrightarrow> m AND S_IFMT = 0x8000"
definition S_ISDIR :: "u32 \<Rightarrow> bool" where "S_ISDIR m \<longleftrightarrow> m AND S_IFMT = 0x4000"
definition S_ISLNK :: "u32 \<Rightarrow> bool" where "S_ISLNK m \<longleftrightarrow> m AND S_IFMT = 0xa000"
definition S_ISCHR :: "u32 \<Rightarrow> bool" where "S_ISCHR m \<longleftrightarrow> m AND S_IFMT = 0x2000"
definition S_ISBLK :: "u32 \<Rightarrow> bool" where "S_ISBLK m \<longleftrightarrow> m AND S_IFMT = 0x6000"
definition S_ISFIFO :: "u32 \<Rightarrow> bool" where "S_ISFIFO m \<longleftrightarrow> m AND S_IFMT = 0x1000"
definition S_ISSOCK :: "u32 \<Rightarrow> bool" where "S_ISSOCK m \<longleftrightarrow> m AND S_IFMT = 0xc000"

lemmas S_defs = S_IFMT_def S_ISREG_def S_ISDIR_def S_ISLNK_def S_ISCHR_def S_ISBLK_def S_ISFIFO_def S_ISSOCK_def

text \<open>The bytes of a word in memory, and the conversion to network order.\<close>

definition le_bytes :: "u32 \<Rightarrow> u8 list" where
  "le_bytes v = [ucast v, ucast (drop_bit 8 v), ucast (drop_bit 16 v), ucast (drop_bit 24 v)]"

definition le32 :: "u8 \<Rightarrow> u8 \<Rightarrow> u8 \<Rightarrow> u8 \<Rightarrow> u32" where
  "le32 a b c d = ucast a OR push_bit 8 (ucast b) OR push_bit 16 (ucast c) OR push_bit 24 (ucast d)"

definition htonl :: "u32 \<Rightarrow> u32" where
  "htonl v = le32 (ucast (drop_bit 24 v)) (ucast (drop_bit 16 v)) (ucast (drop_bit 8 v)) (ucast v)"

abbreviation (input) ntohl :: "u32 \<Rightarrow> u32" where "ntohl \<equiv> htonl"

section \<open>Nodes\<close>

record romfh =
  rf_nextfh :: u32
  rf_spec :: u32
  rf_size :: u32
  rf_checksum :: u32

abbreviation (input) ROMFH_HRD :: u32 where "ROMFH_HRD \<equiv> 0"
abbreviation (input) ROMFH_DIR :: u32 where "ROMFH_DIR \<equiv> 1"
abbreviation (input) ROMFH_REG :: u32 where "ROMFH_REG \<equiv> 2"
abbreviation (input) ROMFH_LNK :: u32 where "ROMFH_LNK \<equiv> 3"
abbreviation (input) ROMFH_BLK :: u32 where "ROMFH_BLK \<equiv> 4"
abbreviation (input) ROMFH_CHR :: u32 where "ROMFH_CHR \<equiv> 5"
abbreviation (input) ROMFH_SCK :: u32 where "ROMFH_SCK \<equiv> 6"
abbreviation (input) ROMFH_FIF :: u32 where "ROMFH_FIF \<equiv> 7"
abbreviation (input) ROMFH_EXEC :: u32 where "ROMFH_EXEC \<equiv> 8"

record filenode =
  nd_parent :: "nat option"
  nd_dirlist :: "nat list"
  nd_owner :: nat
  nd_orig_link :: "nat option"
  nd_name :: cstring
  nd_realname :: cstring
  nd_ondev :: "64 word"
  nd_devnode :: "64 word"
  nd_onino :: "64 word"
  nd_modes :: u32
  nd_offset :: u32
  nd_size :: u32
  nd_pad :: u32

text \<open>Addresses that are not allocated are never read.\<close>

definition null_node :: filenode where
  "null_node = \<lparr>nd_parent = None, nd_dirlist = [], nd_owner = 0, nd_orig_link = None, nd_name = [], nd_realname = [],
     nd_ondev = 0, nd_devnode = 0, nd_onino = 0, nd_modes = 0, nd_offset = 0, nd_size = 0, nd_pad = 0\<rparr>"

record tree =
  nodes :: "nat \<Rightarrow> filenode"
  node_count :: nat

definition upd_node :: "nat \<Rightarrow> (filenode \<Rightarrow> filenode) \<Rightarrow> tree \<Rightarrow> tree" where
  "upd_node i f t = t\<lparr>nodes := (nodes t)(i := f (nodes t i))\<rparr>"

text \<open>\<open>append\<close>: the new child is the last one and gets the owner of the list as its parent.\<close>

definition append_node :: "nat \<Rightarrow> nat \<Rightarrow> tree \<Rightarrow> tree" where
  "append_node dir n t =
     upd_node n (\<lambda>x. x\<lparr>nd_parent := Some (nd_owner (nodes t dir))\<rparr>)
       (upd_node dir (\<lambda>x. x\<lparr>nd_dirlist := nd_dirlist x @ [n]\<rparr>) t)"

definition setnode :: "Stat \<Rightarrow> filenode \<Rightarrow> filenode" where
  "setnode sb n = n\<lparr>nd_ondev := st_dev sb, nd_onino := st_ino sb, nd_modes := st_mode sb\<rparr>"

definition path_of :: "cstring \<Rightarrow> cstring \<Rightarrow> cstring" where
  "path_of base name = (if base \<noteq> [] then base @ [0x2f] @ name else name)"

definition newnode :: "cstring \<Rightarrow> cstring \<Rightarrow> u32 \<Rightarrow> tree \<Rightarrow> nat \<times> tree" where
  "newnode base name curroffset t =
     (let n = node_count t;
          nd = \<lparr>nd_parent = None, nd_dirlist = [], nd_owner = n, nd_orig_link = None, nd_name = name,
                nd_realname = path_of base (if curroffset = 0 then [0x2e] else name),
                nd_ondev = - 1, nd_devnode = 0, nd_onino = - 1, nd_modes = - 1, nd_offset = curroffset,
                nd_size = 0, nd_pad = 0\<rparr>
      in (n, \<lparr>nodes = (nodes t)(n := nd), node_count = Suc n\<rparr>))"

text \<open>The search of the whole tree for a file that is already there. The number of steps down is bounded by
  the first argument.\<close>

fun findnode :: "nat \<Rightarrow> tree \<Rightarrow> 64 word \<Rightarrow> 64 word \<Rightarrow> nat \<Rightarrow> nat option result"
  and findnode_list :: "nat \<Rightarrow> tree \<Rightarrow> 64 word \<Rightarrow> 64 word \<Rightarrow> nat list \<Rightarrow> nat option result" where
  "findnode 0 t dev ino n = Inl Hang"
| "findnode (Suc k) t dev ino n =
     (if nd_ondev (nodes t n) = dev \<and> nd_onino (nodes t n) = ino then Inr (Some n)
      else findnode_list k t dev ino (nd_dirlist (nodes t n)))"
| "findnode_list k t dev ino [] = Inr None"
| "findnode_list k t dev ino (p # ps) =
     rbind (findnode k t dev ino p) (\<lambda>found.
       case found of Some q \<Rightarrow> Inr (Some q) | None \<Rightarrow> findnode_list k t dev ino ps)"

section \<open>Alignment\<close>

record Options =
  opt_align :: u32
  opt_alignlist :: "(u32 \<times> cstring) list"
  opt_excludelist :: "cstring list"
  realbase :: nat

text \<open>A pattern that starts with a slash is matched against the name without the source directory. True when
  it matches.\<close>

definition nodematch :: "Host \<Rightarrow> Options \<Rightarrow> cstring \<Rightarrow> filenode \<Rightarrow> bool result" where
  "nodematch H G pattern node =
     (if take 1 pattern = [0x2f] then
        if realbase G \<le> length (nd_realname node)
        then Inr (host_fnmatch H pattern (drop (realbase G) (nd_realname node)))
        else Inl Out_of_bounds
      else Inr (host_fnmatch H pattern (nd_name node)))"

fun findalign_loop :: "Host \<Rightarrow> Options \<Rightarrow> filenode \<Rightarrow> (u32 \<times> cstring) list \<Rightarrow> u32 \<Rightarrow> u32 result" where
  "findalign_loop H G node [] i = Inr i"
| "findalign_loop H G node ((al, pattern) # pas) i =
     (if sint al > sint i then
        rbind (nodematch H G pattern node) (\<lambda>found. findalign_loop H G node pas (if found then al else i))
      else findalign_loop H G node pas i)"

definition findalign :: "Host \<Rightarrow> Options \<Rightarrow> filenode \<Rightarrow> u32 result" where
  "findalign H G node =
     findalign_loop H G node (opt_alignlist G) (if S_ISREG (nd_modes node) then opt_align G else 16)"

definition ALIGNUP16 :: "u32 \<Rightarrow> u32" where
  "ALIGNUP16 x = (x + 15) AND NOT 15"

definition spaceneeded :: "filenode \<Rightarrow> u32" where
  "spaceneeded node = 16 + ALIGNUP16 (of_nat (length (nd_name node)) + 1) + ALIGNUP16 (nd_size node)"

definition alignnode :: "Host \<Rightarrow> Options \<Rightarrow> nat \<Rightarrow> u32 \<Rightarrow> u32 \<Rightarrow> tree \<Rightarrow> (u32 \<times> tree) result" where
  "alignnode H G n curroffset extraspace t =
     rbind (findalign H G (nodes t n)) (\<lambda>al.
       let d = (curroffset + extraspace) AND (al - 1)
       in if d \<noteq> 0
          then Inr (curroffset + (al - d),
            upd_node n (\<lambda>x. x\<lparr>nd_offset := nd_offset x + (al - d), nd_pad := al - d\<rparr>) t)
          else Inr (curroffset, t))"

section \<open>Reading the directory\<close>

text \<open>The two entries every directory starts with are added by hand for the root, whose list of children then
  belongs to the first of them.\<close>

definition add_dots :: "Host \<Rightarrow> Options \<Rightarrow> cstring \<Rightarrow> nat \<Rightarrow> u32 \<Rightarrow> tree \<Rightarrow> (u32 \<times> tree) result" where
  "add_dots H G base dir curroffset t =
     (let (link, t1) = newnode base [0x2e] curroffset t
      in case host_lstat H (nd_realname (nodes t1 link)) of
           None \<Rightarrow> Inr (curroffset, t1)
         | Some sb \<Rightarrow>
             let t2 = append_node dir link (upd_node link (setnode sb) t1);
                 t3 = upd_node dir (\<lambda>x. x\<lparr>nd_owner := link\<rparr>) t2
             in rbind (alignnode H G link curroffset 0 t3) (\<lambda>(cur, t4).
                let cur1 = cur + spaceneeded (nodes t4 link);
                    (n, t5) = newnode base [0x2e, 0x2e] cur1 t4
                in case host_lstat H (nd_realname (nodes t5 n)) of
                     None \<Rightarrow> Inr (cur1, t5)
                   | Some sb' \<Rightarrow>
                       let t6 = append_node dir n (upd_node n (setnode sb') t5);
                           t7 = upd_node n (\<lambda>x. x\<lparr>nd_orig_link := Some link\<rparr>) t6
                       in rbind (alignnode H G n cur1 0 t7) (\<lambda>(cur2, t8).
                            Inr (cur2 + spaceneeded (nodes t8 n), t8))))"

fun excluded_by :: "Host \<Rightarrow> Options \<Rightarrow> cstring list \<Rightarrow> filenode \<Rightarrow> bool result" where
  "excluded_by H G [] node = Inr False"
| "excluded_by H G (pe # pes) node =
     rbind (nodematch H G pe node) (\<lambda>found. if found then Inr True else excluded_by H G pes node)"

text \<open>
  The format \<open>@%[a-zA-Z0-9_+-],%c,%d,%d\<close> of \<open>sscanf\<close>; the name is stored in 32 bytes even when the rest does
  not match.
\<close>

definition devname_char :: "u8 \<Rightarrow> bool" where
  "devname_char c \<longleftrightarrow> 0x61 \<le> c \<and> c \<le> 0x7a \<or> 0x41 \<le> c \<and> c \<le> 0x5a \<or> 0x30 \<le> c \<and> c \<le> 0x39
     \<or> c = 0x5f \<or> c = 0x2b \<or> c = 0x2d"

definition is_space :: "u8 \<Rightarrow> bool" where
  "is_space c \<longleftrightarrow> c = 0x20 \<or> 9 \<le> c \<and> c \<le> 13"

definition is_digit :: "u8 \<Rightarrow> bool" where
  "is_digit c \<longleftrightarrow> 0x30 \<le> c \<and> c \<le> 0x39"

definition scan_int :: "cstring \<Rightarrow> (int \<times> cstring) option" where
  "scan_int cs =
     (let cs1 = dropWhile is_space cs;
          neg = (take 1 cs1 = [0x2d]);
          cs2 = (if neg \<or> take 1 cs1 = [0x2b] then drop 1 cs1 else cs1);
          ds = takeWhile is_digit cs2;
          v = foldl (\<lambda>acc c. 10 * acc + (uint c - 0x30)) 0 ds
      in if ds = [] then None else Some (if neg then - v else v, dropWhile is_digit cs2))"

definition scan_special :: "cstring \<Rightarrow> (cstring \<times> u8 \<times> int \<times> int) option result" where
  "scan_special cs =
     (let devname = takeWhile devname_char (drop 1 cs); rest = dropWhile devname_char (drop 1 cs)
      in if take 1 cs \<noteq> [0x40] \<or> devname = [] then Inr None
         else if length devname \<ge> 32 then Inl Out_of_bounds
         else case rest of
           c1 # type # c2 # num \<Rightarrow>
             if c1 = 0x2c \<and> c2 = 0x2c then
               (case scan_int num of
                  Some (maj, c3 # num') \<Rightarrow>
                    if c3 = 0x2c then
                      (case scan_int num' of Some (mnr, _) \<Rightarrow> Inr (Some (devname, type, maj, mnr)) | None \<Rightarrow> Inr None)
                    else Inr None
                | _ \<Rightarrow> Inr None)
             else Inr None
         | _ \<Rightarrow> Inr None)"

text \<open>Names that start with @: a link to follow, or a device. \<open>None\<close> when the entry is to be ignored.\<close>

definition special_name :: "Host \<Rightarrow> nat \<Rightarrow> Stat \<Rightarrow> tree \<Rightarrow> (Stat \<times> tree) option result" where
  "special_name H n sb t =
     (let nd = nodes t n
      in if take 1 (nd_name nd) = [0x40] then
           if S_ISLNK (st_mode sb) then
             let target = host_readlink H (nd_realname nd);
                 t1 = upd_node n (\<lambda>x. x\<lparr>nd_name := drop 1 (nd_name x), nd_realname := target\<rparr>) t
             in if length target \<ge> 4096 then Inl Out_of_bounds
                else case host_lstat H target of
                       None \<Rightarrow> Inr None
                     | Some sb' \<Rightarrow> Inr (Some (sb', t1))
           else if S_ISREG (st_mode sb) \<and> st_size sb = 0 then
             rbind (scan_special (nd_name nd)) (\<lambda>r.
               case r of
                 None \<Rightarrow> Inr (Some (sb, t))
               | Some (devname, type, maj, mnr) \<Rightarrow>
                   let t1 = upd_node n (\<lambda>x. x\<lparr>nd_name := devname\<rparr>) t;
                       m = st_mode sb AND NOT S_IFMT;
                       sb1 = sb\<lparr>st_rdev := host_makedev H maj mnr\<rparr>
                   in if type = 0x63 \<or> type = 0x75 then Inr (Some (sb1\<lparr>st_mode := m OR 0x2000\<rparr>, t1))
                      else if type = 0x62 then Inr (Some (sb1\<lparr>st_mode := m OR 0x6000\<rparr>, t1))
                      else if type = 0x70 then Inr (Some (sb1\<lparr>st_mode := m OR 0x1000\<rparr>, t1))
                      else Inr None)
           else Inr (Some (sb, t))
         else Inr (Some (sb, t)))"

text \<open>The file the new entry is a link to, if it is one, and the tree with the entry appended.\<close>

definition link_of :: "nat \<Rightarrow> nat \<Rightarrow> tree \<Rightarrow> (nat option \<times> tree) result" where
  "link_of dir n t =
     (let nd = nodes t n; t1 = append_node dir n t
      in if nd_name nd = [0x2e] then Inr (nd_parent (nodes t1 n), t1)
         else if nd_name nd = [0x2e, 0x2e] then
           (case nd_parent (nodes t1 n) of
              None \<Rightarrow> Inl Out_of_bounds
            | Some p \<Rightarrow> Inr (nd_parent (nodes t1 p), t1))
         else rbind (findnode (node_count t) t (nd_ondev nd) (nd_onino nd) 0) (\<lambda>link. Inr (link, t1)))"

text \<open>Size and offset of an entry that is appended. The last component is the directory to be read next: the
  name under which it is read and the node that takes its entries.\<close>

definition place_node ::
  "Host \<Rightarrow> Options \<Rightarrow> Stat \<Rightarrow> nat \<Rightarrow> nat \<Rightarrow> nat option \<Rightarrow> u32 \<Rightarrow> tree \<Rightarrow> (u32 \<times> tree \<times> (cstring \<times> nat) option) result"
where
  "place_node H G sb dir n link curroffset t =
     (case link of
        Some l \<Rightarrow>
          rbind (alignnode H G n curroffset 0 (upd_node n (\<lambda>x. x\<lparr>nd_orig_link := Some l\<rparr>) t)) (\<lambda>(cur, t1).
            Inr (cur + spaceneeded (nodes t1 n), t1, None))
      | None \<Rightarrow>
          rbind
            (if S_ISREG (st_mode sb) then
               rbind (alignnode H G n curroffset (spaceneeded (nodes t n)) t) (\<lambda>(cur, t1).
                 Inr (cur, upd_node n (\<lambda>x. x\<lparr>nd_size := word_of_int (st_size sb)\<rparr>) t1))
             else alignnode H G n curroffset 0 t) (\<lambda>(cur, t1).
          let t2 = (if S_ISLNK (st_mode sb) then upd_node n (\<lambda>x. x\<lparr>nd_size := word_of_int (st_size sb)\<rparr>) t1 else t1);
              cur1 = cur + spaceneeded (nodes t2 n);
              t3 = (if S_ISCHR (st_mode sb) \<or> S_ISBLK (st_mode sb)
                    then upd_node n (\<lambda>x. x\<lparr>nd_devnode := st_rdev sb\<rparr>) t2 else t2)
          in Inr (cur1, t3,
               if S_ISDIR (st_mode sb) then
                 Some (if nd_name (nodes t3 n) = [0x2e, 0x2e] then (nd_realname (nodes t3 dir), dir)
                       else (nd_realname (nodes t3 n), n))
               else None)))"

definition process_entry ::
  "Host \<Rightarrow> Options \<Rightarrow> nat \<Rightarrow> cstring \<Rightarrow> nat \<Rightarrow> cstring \<Rightarrow> u32 \<Rightarrow> tree \<Rightarrow> (u32 \<times> tree \<times> (cstring \<times> nat) option) result"
where
  "process_entry H G level base dir d_name curroffset t =
     (if level \<le> 1 \<and> (d_name = [0x2e] \<or> d_name = [0x2e, 0x2e]) then Inr (curroffset, t, None)
      else
        let (n, t1) = newnode base d_name curroffset t
        in rbind (excluded_by H G (opt_excludelist G) (nodes t1 n)) (\<lambda>skip.
           if skip then Inr (curroffset, t1, None)
           else case host_lstat H (nd_realname (nodes t1 n)) of
             None \<Rightarrow> Inr (curroffset, t1, None)
           | Some sb0 \<Rightarrow>
               rbind (special_name H n sb0 t1) (\<lambda>r.
               case r of
                 None \<Rightarrow> Inr (curroffset, t1, None)
               | Some (sb, t2) \<Rightarrow>
                   let t3 = upd_node n (setnode sb) t2
                   in if \<not> S_ISLNK (nd_modes (nodes t3 n)) \<and> \<not> host_access H (nd_realname (nodes t3 n))
                      then Inr (curroffset, t3, None)
                      else rbind (link_of dir n t3) (\<lambda>(link, t4).
                             place_node H G sb dir n link curroffset t4))))"

text \<open>The loop over the entries; \<open>descend\<close> reads a directory below.\<close>

fun process_entries ::
  "(cstring \<Rightarrow> nat \<Rightarrow> u32 \<Rightarrow> tree \<Rightarrow> (u32 \<times> tree) result) \<Rightarrow> Host \<Rightarrow> Options \<Rightarrow> nat \<Rightarrow> cstring \<Rightarrow> nat \<Rightarrow>
    cstring list \<Rightarrow> u32 \<Rightarrow> tree \<Rightarrow> (u32 \<times> tree) result" where
  "process_entries descend H G level base dir [] curroffset t = Inr (curroffset, t)"
| "process_entries descend H G level base dir (e # es) curroffset t =
     rbind (process_entry H G level base dir e curroffset t) (\<lambda>(cur, t1, sub).
     rbind (case sub of None \<Rightarrow> Inr (cur, t1) | Some (base', dir') \<Rightarrow> descend base' dir' cur t1) (\<lambda>(cur2, t2).
       process_entries descend H G level base dir es cur2 t2))"

text \<open>The number bounds the depth of the directories that are read.\<close>

fun processdir :: "nat \<Rightarrow> Host \<Rightarrow> Options \<Rightarrow> nat \<Rightarrow> cstring \<Rightarrow> nat \<Rightarrow> u32 \<Rightarrow> tree \<Rightarrow> (u32 \<times> tree) result" where
  "processdir 0 H G level base dir curroffset t = Inl Hang"
| "processdir (Suc k) H G level base dir curroffset t =
     rbind (if level \<le> 1 then add_dots H G base dir curroffset t else Inr (curroffset, t)) (\<lambda>(cur, t1).
       case host_readdir H (nd_realname (nodes t1 dir)) of
         None \<Rightarrow> Inr (cur, t1)
       | Some es \<Rightarrow> process_entries (processdir k H G (Suc level)) H G level base dir es cur t1)"

section \<open>Writing\<close>

text \<open>The first 512 bytes are held back in \<open>fixbuf\<close> until the checksum of the image can be computed.\<close>

record gen =
  fixbuf :: "u8 list"
  atoffs :: nat
  out :: "u8 list"

fun checksum_loop :: "nat \<Rightarrow> u8 list \<Rightarrow> u32 \<Rightarrow> u32" where
  "checksum_loop (Suc k) (a # b # c # d # ws) acc = checksum_loop k ws (acc + ntohl (le32 a b c d))"
| "checksum_loop _ _ acc = acc"

definition romfs_checksum :: "u8 list \<Rightarrow> nat \<Rightarrow> u32" where
  "romfs_checksum data sz = checksum_loop (sz div 4) data 0"

definition put32 :: "u8 list \<Rightarrow> nat \<Rightarrow> u32 \<Rightarrow> u8 list" where
  "put32 bs i v = take i bs @ le_bytes v @ drop (i + 4) bs"

definition fixsum :: "u8 list \<Rightarrow> nat \<Rightarrow> u8 list" where
  "fixsum ri sz = (let ri0 = put32 ri 12 0 in put32 ri0 12 (htonl (- romfs_checksum ri0 sz)))"

definition dumpdata :: "u8 list \<Rightarrow> gen \<Rightarrow> gen" where
  "dumpdata data s =
     (let len = length data
      in if len = 0 then s
         else if atoffs s \<ge> 512 then s\<lparr>out := out s @ data, atoffs := atoffs s + len\<rparr>
         else
           let tocopy = min len (512 - atoffs s);
               buf = take (atoffs s) (fixbuf s) @ take tocopy data @ drop (atoffs s + tocopy) (fixbuf s);
               at = atoffs s + tocopy;
               rest = drop tocopy data;
               s1 = (if at = 512 then
                       let sz = unat (ntohl (le32 (buf ! 8) (buf ! 9) (buf ! 10) (buf ! 11)));
                           fixed = fixsum buf (if at < sz then at else sz)
                       in s\<lparr>fixbuf := fixed, atoffs := at, out := out s @ fixed\<rparr>
                     else s\<lparr>fixbuf := buf, atoffs := at\<rparr>)
           in if rest \<noteq> [] then s1\<lparr>out := out s1 @ rest, atoffs := atoffs s1 + length rest\<rparr> else s1)"

text \<open>\<open>bigbuf\<close> has 4096 bytes.\<close>

definition dumpzero :: "u32 \<Rightarrow> gen \<Rightarrow> gen result" where
  "dumpzero len s = (if len > 4096 then Inl Out_of_bounds else Inr (dumpdata (replicate (unat len) 0) s))"

definition dumpdataa :: "u8 list \<Rightarrow> gen \<Rightarrow> gen result" where
  "dumpdataa data s =
     (let s1 = dumpdata data s; r = (of_nat (length data) :: u32) AND 15
      in if r \<noteq> 0 then dumpzero (16 - r) s1 else Inr s1)"

definition ri_bytes :: "romfh \<Rightarrow> u8 list" where
  "ri_bytes ri = le_bytes (rf_nextfh ri) @ le_bytes (rf_spec ri) @ le_bytes (rf_size ri) @ le_bytes (rf_checksum ri)"

definition dumpri :: "romfh \<Rightarrow> filenode \<Rightarrow> gen \<Rightarrow> gen result" where
  "dumpri ri n s =
     (let len = length (nd_name n) + 1;
          name = nd_name n @ [0] @ (if len mod 16 \<noteq> 0 then replicate (16 - len mod 16) 0 else []);
          block = ri_bytes ri @ name
      in if length block > 4096 then Inl Out_of_bounds
         else Inr (dumpdata (if nd_offset n \<noteq> 0 then fixsum block (length block) else block) s))"

text \<open>The content of a file, block by block, and the zeros up to the next multiple of sixteen.\<close>

function dump_content :: "u8 list \<Rightarrow> int \<Rightarrow> int \<Rightarrow> gen \<Rightarrow> int \<times> gen" where
  "dump_content content maxlen offset s =
     (if offset < maxlen then
        let avail = min (maxlen - offset) 4096; data = take (nat avail) (drop (nat offset) content)
        in if data = [] then (offset, s)
           else dump_content content maxlen (offset + int (length data)) (dumpdata data s)
      else (offset, s))"
  by pat_completeness auto
termination by (relation "measure (\<lambda>(content, maxlen, offset, s). nat (maxlen - offset))") auto

function dump_padding :: "int \<Rightarrow> int \<Rightarrow> gen \<Rightarrow> gen" where
  "dump_padding maxlen offset s =
     (if offset < maxlen then
        let avail = min (maxlen - offset) 4096
        in dump_padding maxlen (offset + avail) (dumpdata (replicate (nat avail) 0) s)
      else s)"
  by pat_completeness auto
termination by (relation "measure (\<lambda>(maxlen, offset, s). nat (maxlen - offset))") auto

declare dump_content.simps [simp del] dump_padding.simps [simp del]

definition dump_regular :: "Host \<Rightarrow> filenode \<Rightarrow> gen \<Rightarrow> gen" where
  "dump_regular H n s =
     (let maxlen = sint (nd_size n); (offset, s1) = dump_content (host_content H (nd_realname n)) maxlen 0 s
      in dump_padding ((maxlen + 15) AND NOT 15) offset s1)"

text \<open>\<open>succ\<close> is the entry that follows in the list of the directory.\<close>

definition dump_entry :: "Host \<Rightarrow> tree \<Rightarrow> nat \<Rightarrow> nat option \<Rightarrow> gen \<Rightarrow> gen result" where
  "dump_entry H t i succ s =
     (let node = nodes t i; m = nd_modes node;
          nextfh0 = (case succ of None \<Rightarrow> 0 | Some j \<Rightarrow> htonl (nd_offset (nodes t j)));
          nextfh = (if m AND 0x49 \<noteq> 0 \<and> (S_ISDIR m \<or> S_ISREG m) then nextfh0 OR htonl ROMFH_EXEC else nextfh0);
          ri = \<lparr>rf_nextfh = nextfh, rf_spec = 0, rf_size = htonl (nd_size node), rf_checksum = htonl 0x55555555\<rparr>;
          dev = htonl (push_bit 16 (host_major H (nd_devnode node)) OR host_minor H (nd_devnode node))
      in rbind (if nd_pad node \<noteq> 0 then dumpzero (nd_pad node) s else Inr s) (\<lambda>s1.
         case nd_orig_link node of
           Some l \<Rightarrow>
             dumpri (ri\<lparr>rf_nextfh := (nextfh OR htonl ROMFH_HRD) AND NOT (htonl ROMFH_EXEC),
                        rf_spec := htonl (nd_offset (nodes t l))\<rparr>) node s1
         | None \<Rightarrow>
             if S_ISDIR m then
               dumpri (ri\<lparr>rf_nextfh := nextfh OR htonl ROMFH_DIR,
                          rf_spec := (case nd_dirlist node of
                             [] \<Rightarrow> htonl (nd_offset node) | c # _ \<Rightarrow> htonl (nd_offset (nodes t c)))\<rparr>) node s1
             else if S_ISLNK m then
               rbind (dumpri (ri\<lparr>rf_nextfh := nextfh OR htonl ROMFH_LNK\<rparr>) node s1) (\<lambda>s2.
                 let n = unat (nd_size node); target = take n (host_readlink H (nd_realname node))
                 in if n > 4096 then Inl Out_of_bounds else dumpdataa (target @ replicate (n - length target) 0) s2)
             else if S_ISREG m then
               rbind (dumpri (ri\<lparr>rf_nextfh := nextfh OR htonl ROMFH_REG\<rparr>) node s1) (\<lambda>s2.
                 Inr (dump_regular H node s2))
             else if S_ISCHR m then dumpri (ri\<lparr>rf_nextfh := nextfh OR htonl ROMFH_CHR, rf_spec := dev\<rparr>) node s1
             else if S_ISBLK m then dumpri (ri\<lparr>rf_nextfh := nextfh OR htonl ROMFH_BLK, rf_spec := dev\<rparr>) node s1
             else if S_ISFIFO m then dumpri (ri\<lparr>rf_nextfh := nextfh OR htonl ROMFH_FIF\<rparr>) node s1
             else if S_ISSOCK m then dumpri (ri\<lparr>rf_nextfh := nextfh OR htonl ROMFH_SCK\<rparr>) node s1
             else Inr s1))"

text \<open>A node and the nodes below it; the number bounds the depth.\<close>

fun dumpnode :: "nat \<Rightarrow> Host \<Rightarrow> tree \<Rightarrow> nat \<Rightarrow> nat option \<Rightarrow> gen \<Rightarrow> gen result"
  and dumpnode_list :: "nat \<Rightarrow> Host \<Rightarrow> tree \<Rightarrow> nat list \<Rightarrow> gen \<Rightarrow> gen result" where
  "dumpnode 0 H t i succ s = Inl Hang"
| "dumpnode (Suc k) H t i succ s =
     rbind (dump_entry H t i succ s) (\<lambda>s1. dumpnode_list k H t (nd_dirlist (nodes t i)) s1)"
| "dumpnode_list k H t [] s = Inr s"
| "dumpnode_list k H t (p # ps) s =
     rbind (dumpnode k H t p (case ps of [] \<Rightarrow> None | q # _ \<Rightarrow> Some q) s) (\<lambda>s1. dumpnode_list k H t ps s1)"

definition dumpall :: "Host \<Rightarrow> tree \<Rightarrow> u32 \<Rightarrow> gen \<Rightarrow> gen result" where
  "dumpall H t lastoff s =
     (let ri = \<lparr>rf_nextfh = htonl 0x2d726f6d, rf_spec = htonl 0x3166732d, rf_size = htonl lastoff,
                rf_checksum = htonl 0x55555555\<rparr>
      in rbind (dumpri ri (nodes t 0) s) (\<lambda>s1.
         rbind (dumpnode_list (node_count t) H t (nd_dirlist (nodes t 0)) s1) (\<lambda>s2.
           if lastoff AND 1023 \<noteq> 0 then dumpzero (1024 - (lastoff AND 1023)) s2 else Inr s2)))"

text \<open>The last part of \<open>main\<close>: the content of the image file.\<close>

definition genromfs :: "Host \<Rightarrow> Options \<Rightarrow> nat \<Rightarrow> cstring \<Rightarrow> cstring \<Rightarrow> u8 list result" where
  "genromfs H G depth dir volname =
     (let G' = G\<lparr>realbase := length dir\<rparr>;
          (root, t) = newnode dir volname 0 \<lparr>nodes = (\<lambda>_. null_node), node_count = 0\<rparr>;
          t1 = upd_node root (\<lambda>x. x\<lparr>nd_parent := Some root\<rparr>) t
      in rbind (processdir depth H G' 1 dir root (spaceneeded (nodes t1 root)) t1) (\<lambda>(lastoff, t2).
         rbind (dumpall H t2 lastoff \<lparr>fixbuf = replicate 512 0, atoffs = 0, out = []\<rparr>) (\<lambda>s. Inr (out s))))"

section \<open>Options\<close>

text \<open>\<open>strtoul\<close> with base 0: the value and the rest of the string.\<close>

definition digit_value :: "u8 \<Rightarrow> int" where
  "digit_value c =
     (if is_digit c then uint c - 0x30
      else if 0x61 \<le> c \<and> c \<le> 0x66 then uint c - 0x61 + 10
      else if 0x41 \<le> c \<and> c \<le> 0x46 then uint c - 0x41 + 10
      else 16)"

definition strtoul :: "cstring \<Rightarrow> int \<times> cstring" where
  "strtoul cs =
     (let cs1 = dropWhile is_space cs;
          neg = (take 1 cs1 = [0x2d]);
          cs2 = (if neg \<or> take 1 cs1 = [0x2b] then drop 1 cs1 else cs1);
          hex = (take 1 cs2 = [0x30] \<and> (take 1 (drop 1 cs2) = [0x78] \<or> take 1 (drop 1 cs2) = [0x58])
             \<and> drop 2 cs2 \<noteq> [] \<and> digit_value (hd (drop 2 cs2)) < 16);
          base = (if hex then 16 else if take 1 cs2 = [0x30] then 8 else 10);
          cs3 = (if hex then drop 2 cs2 else cs2);
          ds = takeWhile (\<lambda>c. digit_value c < base) cs3;
          v = foldl (\<lambda>acc c. base * acc + digit_value c) 0 ds
      in if ds = [] then (0, cs)
         else (if v \<ge> 2 ^ 64 then 2 ^ 64 - 1 else if neg then (- v) mod 2 ^ 64 else v, drop (length ds) cs3))"

record Args =
  arg_dir :: cstring
  arg_outf :: "cstring option"
  arg_volname :: "cstring option"
  arg_verbose :: bool
  arg_options :: Options

definition good_align :: "u32 \<Rightarrow> bool" where
  "good_align a \<longleftrightarrow> \<not> (sint a < 16 \<or> a AND (a - 1) \<noteq> 0)"

text \<open>One option as \<open>getopt\<close> returns it, with its argument; \<open>Inl\<close> is the status with which the program exits.\<close>

definition main_option :: "u8 \<times> cstring \<Rightarrow> Args \<Rightarrow> int + Args" where
  "main_option opt a =
     (let (c, optarg) = opt; G = arg_options a
      in if c = 0x64 then Inr (a\<lparr>arg_dir := optarg\<rparr>)
         else if c = 0x66 then Inr (a\<lparr>arg_outf := Some optarg\<rparr>)
         else if c = 0x56 then Inr (a\<lparr>arg_volname := Some optarg\<rparr>)
         else if c = 0x76 then Inr (a\<lparr>arg_verbose := True\<rparr>)
         else if c = 0x68 then Inl 0
         else if c = 0x61 then
           let al = word_of_int (fst (strtoul optarg))
           in if good_align al then Inr (a\<lparr>arg_options := G\<lparr>opt_align := al\<rparr>\<rparr>) else Inl 1
         else if c = 0x41 then
           let (v, p) = strtoul optarg; i = word_of_int v
           in if \<not> good_align i then Inl 1
              else if take 1 p \<noteq> [0x2c] \<or> drop 1 p = [] then Inl 1
              else Inr (a\<lparr>arg_options := G\<lparr>opt_alignlist := opt_alignlist G @ [(i, drop 1 p)]\<rparr>\<rparr>)
         else if c = 0x78 then Inr (a\<lparr>arg_options := G\<lparr>opt_excludelist := opt_excludelist G @ [optarg]\<rparr>\<rparr>)
         else Inl 1)"

fun main_options :: "(u8 \<times> cstring) list \<Rightarrow> Args \<Rightarrow> int + Args" where
  "main_options [] a = Inr a"
| "main_options (opt # opts) a = (case main_option opt a of Inl e \<Rightarrow> Inl e | Inr a1 \<Rightarrow> main_options opts a1)"

text \<open>\<open>sprintf\<close> with \<open>rom %08lx\<close>.\<close>

definition hex_char :: "nat \<Rightarrow> u8" where
  "hex_char d = (if d < 10 then of_nat (0x30 + d) else of_nat (0x61 + (d - 10)))"

function hex_digits :: "nat \<Rightarrow> cstring" where
  "hex_digits n = (if n < 16 then [hex_char n] else hex_digits (n div 16) @ [hex_char (n mod 16)])"
  by pat_completeness auto
termination by (relation "measure id") auto

declare hex_digits.simps [simp del]

definition default_volname :: "nat \<Rightarrow> cstring" where
  "default_volname now =
     (let ds = hex_digits now in [0x72, 0x6f, 0x6d, 0x20] @ replicate (8 - length ds) 0x30 @ ds)"

definition initial_args :: Args where
  "initial_args = \<lparr>arg_dir = [0x2e], arg_outf = None, arg_volname = None, arg_verbose = False,
     arg_options = \<lparr>opt_align = 16, opt_alignlist = [], opt_excludelist = [], realbase = 0\<rparr>\<rparr>"

text \<open>The exit status and what is written to the image file.\<close>

definition genromfs_main :: "Host \<Rightarrow> nat \<Rightarrow> nat \<Rightarrow> (u8 \<times> cstring) list \<Rightarrow> (int \<times> u8 list) result" where
  "genromfs_main H depth now opts =
     (case main_options opts initial_args of
        Inl e \<Rightarrow> Inr (e, [])
      | Inr a \<Rightarrow>
          let volname = (case arg_volname a of Some v \<Rightarrow> v | None \<Rightarrow> default_volname now)
          in (case arg_outf a of
               None \<Rightarrow> Inr (1, [])
             | Some outf \<Rightarrow>
                 if outf \<noteq> [0x2d] \<and> \<not> host_fopen H outf then Inr (1, [])
                 else rbind (genromfs H (arg_options a) depth (arg_dir a) volname) (\<lambda>img. Inr (0, img))))"

end
