(* ===== verification/Genromfs_Image.thy ===== *)
theory Genromfs_Image
  imports Genromfs Romfs
begin

text \<open>
  What the writer of genromfs.c produces: the byte stream that is handed to it piece by piece, with the
  checksum of its first 512 bytes put in place when they are complete; and the bytes of a
  header and of a file.
\<close>

unbundle bit_operations_syntax

section \<open>Words and bytes\<close>

lemma bytes_of_le32:
  "ucast (le32 a b c d) = a" "ucast (drop_bit 8 (le32 a b c d)) = b"
  "ucast (drop_bit 16 (le32 a b c d)) = c" "ucast (drop_bit 24 (le32 a b c d)) = d"
  by (rule bit_word_eqI, auto simp: le32_def bit_simps dest: bit_imp_le_length)+

lemma le32_of_bytes: "le32 (ucast v) (ucast (drop_bit 8 v)) (ucast (drop_bit 16 v)) (ucast (drop_bit 24 v)) = v"
proof (rule bit_word_eqI)
  fix n assume "n < LENGTH(32)"
  then consider "n < 8" | "8 \<le> n" "n < 16" | "16 \<le> n" "n < 24" | "24 \<le> n" "n < 32" by fastforce
  then show "bit (le32 (ucast v) (ucast (drop_bit 8 v)) (ucast (drop_bit 16 v)) (ucast (drop_bit 24 v))) n = bit v n"
    by cases (auto simp: le32_def bit_simps)
qed

lemma htonl_htonl [simp]: "htonl (htonl v) = v"
  by (simp only: htonl_def [of "htonl v"]) (simp add: htonl_def bytes_of_le32 le32_of_bytes)

lemma be32tole32_htonl: "be32tole32 v = htonl v"
  by (simp add: be32tole32_def xor_swap_swaps Let_def htonl_def le32_def)

lemma htonl_zero [simp]: "htonl 0 = 0" by (simp add: htonl_def le32_def)

lemma length_le_bytes [simp]: "length (le_bytes v) = 4" by (simp add: le_bytes_def)

lemma htonl_or: "htonl (a OR b) = htonl a OR htonl b"
  by (rule bit_word_eqI) (auto simp: htonl_def le32_def bit_simps)

lemma htonl_and_not: "htonl (a AND NOT b) = htonl a AND NOT (htonl b)"
proof (rule bit_word_eqI)
  fix n assume "n < LENGTH(32)"
  then consider "n < 8" | "8 \<le> n" "n < 16" | "16 \<le> n" "n < 24" | "24 \<le> n" "n < 32" by fastforce
  then show "bit (htonl (a AND NOT b)) n = bit (htonl a AND NOT (htonl b)) n"
    by cases (auto simp: htonl_def le32_def bit_simps)
qed

section \<open>The writer\<close>

lemma length_fixsum: "16 \<le> length bs \<Longrightarrow> length (fixsum bs n) = length bs"
  by (simp add: fixsum_def put32_def Let_def)

definition size_field :: "u8 list \<Rightarrow> nat" where
  "size_field w = unat (ntohl (le32 (w ! 8) (w ! 9) (w ! 10) (w ! 11)))"

definition image_of :: "u8 list \<Rightarrow> u8 list" where
  "image_of w = fixsum (take 512 w) (min 512 (size_field w)) @ drop 512 w"

text \<open>The stream \<open>w\<close> has been handed to the writer.\<close>

definition holding :: "u8 list \<Rightarrow> gen \<Rightarrow> bool" where
  "holding w s \<longleftrightarrow> length (fixbuf s) = 512 \<and> atoffs s = length w
     \<and> (if length w < 512 then out s = [] \<and> take (length w) (fixbuf s) = w else out s = image_of w)"

lemma size_field_append: "12 \<le> length w \<Longrightarrow> size_field (w @ d) = size_field w"
  by (simp add: size_field_def nth_append)

lemma image_of_append: "512 \<le> length w \<Longrightarrow> image_of (w @ d) = image_of w @ d"
  by (simp add: image_of_def size_field_append)

lemma dumpdata_holding:
  assumes "holding w s"
  shows "holding (w @ d) (dumpdata d s)"
proof (cases "d = [] \<or> 512 \<le> length w")
  case True
  then show ?thesis using assms by (auto simp: holding_def dumpdata_def Let_def image_of_append)
next
  case False
  then have short: "length w < 512" and d: "d \<noteq> []" by auto
  note h = assms [unfolded holding_def, simplified short, simplified]
  let ?k = "min (length d) (512 - length w)"
  let ?buf = "w @ take ?k d @ drop (length w + ?k) (fixbuf s)"
  show ?thesis
  proof (cases "length w + length d < 512")
    case True
    then have "dumpdata d s = s\<lparr>fixbuf := ?buf, atoffs := length w + ?k\<rparr>"
      using h short d by (simp add: dumpdata_def Let_def)
    then show ?thesis using True h by (simp add: holding_def)
  next
    case False
    then have k: "?k = 512 - length w" by simp
    let ?full = "w @ take (512 - length w) d"
    have len: "length ?full = 512" using False short by simp
    have full: "take 512 (w @ d) = ?full" "drop 512 (w @ d) = drop (512 - length w) d" using short by simp_all
    have "size_field (w @ d) = size_field ?full"
      using size_field_append [of ?full "drop (512 - length w) d"] len by simp
    then have img: "image_of (w @ d) = fixsum ?full (min 512 (size_field ?full)) @ drop (512 - length w) d"
      by (simp only: image_of_def full)
    have "take (atoffs s) (fixbuf s) @ take ?k d @ drop (atoffs s + ?k) (fixbuf s) = ?full" using h short k by simp
    then have "dumpdata d s = (let f = fixsum ?full (min 512 (size_field ?full)); rest = drop (512 - length w) d
       in if rest \<noteq> [] then s\<lparr>fixbuf := f, out := f @ rest, atoffs := 512 + length rest\<rparr>
          else s\<lparr>fixbuf := f, atoffs := 512, out := f\<rparr>)"
      using h short d k by (simp add: dumpdata_def Let_def size_field_def min_def)
    moreover have "length (fixsum ?full n) = 512" for n using len length_fixsum [of ?full n] by simp
    ultimately show ?thesis using img False short by (auto simp: holding_def Let_def)
  qed
qed

text \<open>A routine writes the bytes \<open>d\<close> when it hands exactly them to the writer.\<close>

definition writes :: "u8 list \<Rightarrow> (gen \<Rightarrow> gen result) \<Rightarrow> bool" where
  "writes d f \<longleftrightarrow> (\<forall>w s. holding w s \<longrightarrow> (\<exists>s'. f s = Inr s' \<and> holding (w @ d) s'))"

lemma writes_data: "writes d (\<lambda>s. Inr (dumpdata d s))"
  by (auto simp: writes_def dumpdata_holding)

lemma writes_nothing: "writes [] Inr"
  by (simp add: writes_def)

lemma writes_seq: "writes a f \<Longrightarrow> writes b g \<Longrightarrow> writes (a @ b) (\<lambda>s. rbind (f s) g)"
  unfolding writes_def by (metis append.assoc rbind_Inr)

lemma writes_zero:
  assumes "unat n \<le> 4096"
  shows "writes (replicate (unat n) 0) (dumpzero n)"
proof -
  have "dumpzero n = (\<lambda>s. Inr (dumpdata (replicate (unat n) 0) s))"
    using assms by (intro ext) (simp add: dumpzero_def word_less_nat_alt)
  then show ?thesis using writes_data by simp
qed

section \<open>Headers and content\<close>

definition padded :: "u8 list \<Rightarrow> u8 list" where
  "padded bs = bs @ replicate ((16 - length bs mod 16) mod 16) 0"

lemma length_padded: "length (padded bs) = 16 * ((length bs + 15) div 16)"
proof (cases "length bs mod 16 = 0")
  case True
  then show ?thesis using round_up_16(1) [OF True] by (simp add: padded_def)
next
  case False
  then have "(16 - length bs mod 16) mod 16 = 16 - length bs mod 16" by simp
  then show ?thesis using round_up_16(2) [OF False] by (simp add: padded_def)
qed

lemma padded_Nil [simp]: "padded [] = []" by (simp add: padded_def)

text \<open>A header followed by the name, whatever the checksum.\<close>

definition header_bytes :: "u32 \<Rightarrow> u32 \<Rightarrow> u32 \<Rightarrow> cstring \<Rightarrow> u8 list \<Rightarrow> bool" where
  "header_bytes nf sp sz name b \<longleftrightarrow>
     (\<exists>cs. length cs = 4 \<and> b = le_bytes nf @ le_bytes sp @ le_bytes sz @ cs @ padded (name @ [0]))"

lemma dumpri_writes:
  assumes "length (nd_name n) \<le> 4000"
  shows "\<exists>b. header_bytes (rf_nextfh ri) (rf_spec ri) (rf_size ri) (nd_name n) b \<and> writes b (dumpri ri n)"
proof -
  let ?name = "padded (nd_name n @ [0])"
  let ?block = "ri_bytes ri @ ?name"
  let ?b = "if nd_offset n \<noteq> 0 then fixsum ?block (length ?block) else ?block"
  have "length ?name \<le> 4016 + 16" using assms unfolding length_padded by simp
  then have len: "length ?block \<le> 4096" by (simp add: ri_bytes_def)
  have name: "nd_name n @ [0] @ (if (length (nd_name n) + 1) mod 16 \<noteq> 0
      then replicate (16 - (length (nd_name n) + 1) mod 16) 0 else []) = ?name"
    by (auto simp: padded_def)
  have "dumpri ri n = (\<lambda>s. Inr (dumpdata ?b s))"
    using len unfolding dumpri_def Let_def name by (intro ext) simp
  moreover have "header_bytes (rf_nextfh ri) (rf_spec ri) (rf_size ri) (nd_name n) ?b"
    unfolding header_bytes_def fixsum_def put32_def Let_def ri_bytes_def by auto
  ultimately show ?thesis using writes_data by auto
qed

lemma content_writes:
  assumes "holding w s" and "0 \<le> off" and "off \<le> int (length bs)"
  shows "\<exists>s'. dump_content bs (int (length bs)) off s = (int (length bs), s') \<and> holding (w @ drop (nat off) bs) s'"
  using assms
proof (induction "nat (int (length bs) - off)" arbitrary: off w s rule: less_induct)
  case less
  show ?case
  proof (cases "off < int (length bs)")
    case False
    then show ?thesis using less.prems by (subst dump_content.simps) auto
  next
    case True
    let ?avail = "min (int (length bs) - off) 4096"
    let ?d = "take (nat ?avail) (drop (nat off) bs)"
    have len: "int (length ?d) = ?avail" using True less.prems(2) by simp
    then have d: "?d \<noteq> []" using True by auto
    have h: "holding (w @ ?d) (dumpdata ?d s)" by (rule dumpdata_holding [OF less.prems(1)])
    have "\<exists>s'. dump_content bs (int (length bs)) (off + ?avail) (dumpdata ?d s) = (int (length bs), s')
      \<and> holding ((w @ ?d) @ drop (nat (off + ?avail)) bs) s'"
      by (rule less.hyps [OF _ h]) (use True less.prems(2) in auto)
    moreover have "?d @ drop (nat (off + ?avail)) bs = drop (nat off) bs"
    proof -
      have "drop (nat (off + ?avail)) bs = drop (nat ?avail) (drop (nat off) bs)"
        using True less.prems(2) by (simp add: nat_add_distrib add.commute)
      then show ?thesis by (simp only: append_take_drop_id)
    qed
    moreover have "dump_content bs (int (length bs)) off s = dump_content bs (int (length bs)) (off + ?avail) (dumpdata ?d s)"
      using True d len by (subst dump_content.simps) (simp only: Let_def if_True if_False)
    ultimately show ?thesis by simp
  qed
qed

lemma padding_writes:
  assumes "holding w s" and "off \<le> m"
  shows "holding (w @ replicate (nat (m - off)) 0) (dump_padding m off s)"
  using assms
proof (induction "nat (m - off)" arbitrary: off w s rule: less_induct)
  case less
  show ?case
  proof (cases "off < m")
    case False
    then show ?thesis using less.prems by (subst dump_padding.simps) simp
  next
    case True
    let ?avail = "min (m - off) 4096"
    let ?d = "replicate (nat ?avail) 0"
    have "holding (w @ ?d) (dumpdata ?d s)" by (rule dumpdata_holding [OF less.prems(1)])
    then have "holding ((w @ ?d) @ replicate (nat (m - (off + ?avail))) 0) (dump_padding m (off + ?avail) (dumpdata ?d s))"
      by (intro less.hyps) (use True in auto)
    moreover have "nat (m - off) = nat ?avail + nat (m - (off + ?avail))" using True by simp
    ultimately show ?thesis using True by (subst dump_padding.simps) (simp add: replicate_add Let_def)
  qed
qed

lemma int_round_16: "((m :: int) + 15) AND NOT 15 = 16 * ((m + 15) div 16)"
proof -
  have "(m + 15) AND NOT 15 = (m + 15) AND NOT (mask 4)" by (simp add: mask_eq_exp_minus_1)
  also have "\<dots> = push_bit 4 (drop_bit 4 (m + 15))" by (rule bit_eqI) (auto simp: bit_simps)
  also have "\<dots> = 16 * ((m + 15) div 16)" by (simp add: push_bit_eq_mult drop_bit_eq_div)
  finally show ?thesis .
qed

lemma dump_regular_writes:
  assumes "host_content H (nd_realname n) = bs" and "nd_size n = of_nat (length bs)" and "length bs < 2 ^ 31"
  shows "writes (padded bs) (\<lambda>s. Inr (dump_regular H n s))"
  unfolding writes_def
proof (intro allI impI)
  fix w s assume h: "holding w s"
  have "sint (nd_size n) = int (length bs)"
    using assms(2,3) by (simp add: signed_of_nat signed_take_bit_int_eq_self)
  note m = this
  obtain s1 where s1: "dump_content bs (int (length bs)) 0 s = (int (length bs), s1)" "holding (w @ bs) s1"
    using content_writes [OF h, of 0] by auto
  let ?m = "16 * ((int (length bs) + 15) div 16)"
  have le: "int (length bs) \<le> ?m" by linarith
  have "holding ((w @ bs) @ replicate (nat (?m - int (length bs))) 0) (dump_padding ?m (int (length bs)) s1)"
    by (rule padding_writes [OF s1(2) le])
  moreover have "bs @ replicate (nat (?m - int (length bs))) 0 = padded bs"
  proof -
    have "int (length (padded bs)) = ?m" unfolding length_padded by (simp add: zdiv_int)
    then show ?thesis by (simp add: padded_def)
  qed
  ultimately show "\<exists>s'. Inr (dump_regular H n s) = Inr s' \<and> holding (w @ padded bs) s'"
    using s1(1) unfolding dump_regular_def Let_def m assms(1) int_round_16 by simp
qed

end
