(* ===== verification/Genromfs_Tree.thy ===== *)
theory Genromfs_Tree
  imports Genromfs_Image
begin

text \<open>
  Reading a directory of regular files with genromfs.c: the tree that \<open>processdir\<close> builds and the image that
  \<open>dumpall\<close> writes for it.
\<close>

unbundle bit_operations_syntax

section \<open>The layout of the image\<close>

type_synonym entry = "cstring \<times> u8 list"

definition name_len :: "cstring \<Rightarrow> nat" where
  "name_len name = 16 * ((length name + 16) div 16)"

definition entry_len :: "entry \<Rightarrow> nat" where
  "entry_len e = 16 + name_len (fst e) + 16 * ((length (snd e) + 15) div 16)"

definition offset_of :: "cstring \<Rightarrow> entry list \<Rightarrow> nat" where
  "offset_of vol es = 16 + name_len vol + sum_list (map entry_len es)"

lemma offset_of_append: "offset_of vol (es @ [e]) = offset_of vol es + entry_len e"
  by (simp add: offset_of_def)

lemma offset_of_take: "i \<le> j \<Longrightarrow> offset_of vol (take i es) \<le> offset_of vol (take j es)"
  unfolding offset_of_def by (auto simp: min_def take_map dest!: le_Suc_ex simp flip: take_map)
    (metis le_add1 sum_list_append take_add)

lemma offset_of_mod: "offset_of vol es mod 16 = 0"
proof -
  have "16 dvd sum_list (map entry_len es)" by (induction es) (simp_all add: entry_len_def name_len_def)
  then show ?thesis by (auto simp: offset_of_def name_len_def mod_eq_0_iff_dvd)
qed

lemma offset_of_pos: "0 < offset_of vol es" by (simp add: offset_of_def)

section \<open>Alignment\<close>

lemma unat_and_15: "unat ((x :: u32) AND 15) = unat x mod 16"
proof -
  have m: "x AND 15 = take_bit 4 x" using and_masks(1) [of x] by simp
  have "unat (take_bit 4 x) = take_bit 4 (unat x)" by (simp add: unsigned_take_bit_eq)
  then show ?thesis by (simp add: m take_bit_eq_mod)
qed

lemma unat_ALIGNUP16:
  assumes "unat x + 15 < 2 ^ 32"
  shows "unat (ALIGNUP16 x) = 16 * ((unat x + 15) div 16)"
proof -
  have "ALIGNUP16 x = push_bit 4 (drop_bit 4 (x + 15))"
  proof -
    have m: "(15 :: u32) = mask 4" by (simp add: mask_eq_exp_minus_1)
    show ?thesis unfolding ALIGNUP16_def unfolding m by (rule bit_word_eqI) (auto simp: bit_simps)
  qed
  moreover have "unat (x + 15) = unat x + 15" using assms by (simp add: unat_word_ariths)
  moreover have "unat (drop_bit 4 (x + 15)) = unat (x + 15) div 16"
    by (simp add: unsigned_drop_bit_eq drop_bit_eq_div unat_div)
  moreover have "unat (push_bit 4 y) = 16 * unat y" if "16 * unat y < 2 ^ 32" for y :: u32
    using that by (simp add: push_bit_eq_mult unat_word_ariths mult.commute)
  ultimately show ?thesis using assms by (simp add: mult.commute)
qed

lemma unat_space:
  assumes "length (nd_name n) < 0x10000" and "unat (nd_size n) = k" and "k < 0x80000000"
  shows "unat (spaceneeded n) = 16 + name_len (nd_name n) + 16 * ((k + 15) div 16)"
proof -
  let ?l = "of_nat (length (nd_name n)) + 1 :: u32"
  have l: "unat ?l = length (nd_name n) + 1" using assms(1) by (simp add: unat_word_ariths unat_of_nat)
  have "unat (ALIGNUP16 ?l) = name_len (nd_name n)" "unat (ALIGNUP16 (nd_size n)) = 16 * ((k + 15) div 16)"
    using l assms by (subst unat_ALIGNUP16; simp add: name_len_def)+
  moreover have "name_len (nd_name n) \<le> 0x10010" "16 * ((k + 15) div 16) \<le> 0x80000010" using assms(1,3) by (simp_all add: name_len_def)
  ultimately show ?thesis by (simp add: spaceneeded_def unat_word_ariths)
qed

text \<open>The options of the makefile: none.\<close>

definition no_options :: Options where
  "no_options = \<lparr>opt_align = 16, opt_alignlist = [], opt_excludelist = [], realbase = 0\<rparr>"

lemma align_none:
  assumes "unat cur mod 16 = 0" and "unat extra mod 16 = 0" and "opt_align G = 16" and "opt_alignlist G = []"
  shows "alignnode H G n cur extra t = Inr (cur, t)"
proof -
  have "findalign H G (nodes t n) = Inr 16" using assms(3,4) by (simp add: findalign_def)
  moreover have "(cur + extra) AND 15 = 0"
  proof -
    have "unat (cur + extra) mod 16 = (unat cur + unat extra) mod 16"
      by (simp add: unat_word_ariths mod_mod_cancel)
    then have "unat ((cur + extra) AND 15) = 0" using assms(1,2) by (simp add: unat_and_15 mod_add_eq [symmetric])
    then show ?thesis by (metis unat_eq_zero)
  qed
  ultimately show ?thesis by (simp add: alignnode_def)
qed

section \<open>The tree of a plain directory\<close>

text \<open>The node of an entry at an offset.\<close>

definition node_for :: "Host \<Rightarrow> nat \<Rightarrow> entry \<Rightarrow> filenode \<Rightarrow> bool" where
  "node_for H off e nd \<longleftrightarrow>
     nd_name nd = fst e \<and> nd_offset nd = of_nat off \<and> nd_size nd = of_nat (length (snd e)) \<and> nd_pad nd = 0
     \<and> nd_dirlist nd = []
     \<and> (nd_orig_link nd = None \<and> S_ISREG (nd_modes nd) \<and> host_content H (nd_realname nd) = snd e
        \<or> snd e = [] \<and> (nd_orig_link nd = None \<longrightarrow> S_ISDIR (nd_modes nd)))"

definition node_id :: "filenode \<Rightarrow> 64 word \<times> 64 word" where
  "node_id nd = (nd_ondev nd, nd_onino nd)"

definition tree_for :: "Host \<Rightarrow> cstring \<Rightarrow> entry list \<Rightarrow> (64 word \<times> 64 word) list \<Rightarrow> tree \<Rightarrow> bool" where
  "tree_for H vol es ids t \<longleftrightarrow>
     node_count t = Suc (length es) \<and> length ids = length es
     \<and> nd_name (nodes t 0) = vol \<and> nd_offset (nodes t 0) = 0 \<and> node_id (nodes t 0) = (- 1, - 1)
     \<and> nd_dirlist (nodes t 0) = [1..<Suc (length es)]
     \<and> (\<forall>j < length es. node_for H (offset_of vol (take j es)) (es ! j) (nodes t (Suc j))
          \<and> node_id (nodes t (Suc j)) = ids ! j)"

lemma tree_for_snoc:
  assumes "tree_for H vol es ids t" and "node_count t' = Suc (node_count t)"
    and "\<And>i. 0 < i \<Longrightarrow> i < node_count t \<Longrightarrow> nodes t' i = nodes t i"
    and "nd_name (nodes t' 0) = nd_name (nodes t 0)" "nd_offset (nodes t' 0) = nd_offset (nodes t 0)"
      "node_id (nodes t' 0) = node_id (nodes t 0)" "nd_dirlist (nodes t' 0) = nd_dirlist (nodes t 0) @ [node_count t]"
    and "node_for H (offset_of vol es) e (nodes t' (node_count t))" and "node_id (nodes t' (node_count t)) = x"
  shows "tree_for H vol (es @ [e]) (ids @ [x]) t'"
proof -
  note t = assms(1) [unfolded tree_for_def]
  have n: "node_count t = Suc (length es)" using t by blast
  have "node_for H (offset_of vol (take j (es @ [e]))) ((es @ [e]) ! j) (nodes t' (Suc j))
      \<and> node_id (nodes t' (Suc j)) = (ids @ [x]) ! j" if "j < length (es @ [e])" for j
  proof (cases "j = length es")
    case True
    then show ?thesis using assms(8,9) t n by (simp add: nth_append)
  next
    case False
    then have "j < length es" using that by simp
    then show ?thesis using t assms(3) [of "Suc j"] n by (simp add: nth_append)
  qed
  then show ?thesis unfolding tree_for_def using assms(2,4-7) t n by simp
qed

lemma find_none:
  assumes "\<forall>p \<in> set ps. node_id (nodes t p) \<noteq> (dev, ino) \<and> nd_dirlist (nodes t p) = []"
  shows "findnode_list (Suc k) t dev ino ps = Inr None"
  using assms by (induction ps) (auto simp: node_id_def)

lemma tree_find_none:
  assumes "tree_for H vol es ids t" and "(dev, ino) \<notin> set ids" and "(dev, ino) \<noteq> (- 1, - 1)"
    and "\<And>i. i < node_count t \<Longrightarrow> nodes t' i = nodes t i"
  shows "findnode (Suc (Suc k)) t' dev ino 0 = Inr None"
proof -
  note t = assms(1) [unfolded tree_for_def]
  have "\<forall>p \<in> set [1..<Suc (length es)]. node_id (nodes t' p) \<noteq> (dev, ino) \<and> nd_dirlist (nodes t' p) = []"
  proof
    fix p assume p: "p \<in> set [1..<Suc (length es)]"
    then have "1 \<le> p \<and> p < Suc (length es)" by (simp only: set_upt atLeastLessThan_iff)
    then obtain j where j: "p = Suc j" "j < length es" by (cases p) auto
    then have "node_id (nodes t' p) = ids ! j" "nd_dirlist (nodes t' p) = []"
      using t assms(4) [of p] by (auto simp: node_for_def)
    moreover have "ids ! j \<in> set ids" using t j(2) by simp
    ultimately show "node_id (nodes t' p) \<noteq> (dev, ino) \<and> nd_dirlist (nodes t' p) = []"
      using assms(2) by metis
  qed
  then have "findnode_list (Suc k) t' dev ino [1..<Suc (length es)] = Inr None" by (rule find_none)
  moreover have "nodes t' 0 = nodes t 0" using t assms(4) [of 0] by simp
  ultimately show ?thesis using t assms(3) by (auto simp: node_id_def simp del: upt_Suc findnode_list.simps)
qed

section \<open>Reading a plain directory\<close>

type_synonym plainfile = "cstring \<times> Stat \<times> u8 list"

definition file_entry :: "plainfile \<Rightarrow> entry" where "file_entry f = (fst f, snd (snd f))"

definition file_id :: "plainfile \<Rightarrow> 64 word \<times> 64 word" where
  "file_id f = (st_dev (fst (snd f)), st_ino (fst (snd f)))"

definition plain_file :: "Host \<Rightarrow> cstring \<Rightarrow> plainfile \<Rightarrow> bool" where
  "plain_file H dir f \<longleftrightarrow>
     (case f of (name, sb, bs) \<Rightarrow>
        host_lstat H (path_of dir name) = Some sb \<and> S_ISREG (st_mode sb) \<and> host_access H (path_of dir name)
        \<and> host_content H (path_of dir name) = bs \<and> st_size sb = int (length bs)
        \<and> 0 \<notin> set name \<and> length name < 256 \<and> take 1 name \<noteq> [0x40] \<and> name \<noteq> [0x2e] \<and> name \<noteq> [0x2e, 0x2e])"

lemma plain_entry:
  assumes t: "tree_for H vol es ids t" and f: "plain_file H dir f" and id: "file_id f \<notin> set ids" "file_id f \<noteq> (- 1, - 1)"
    and es: "es \<noteq> []" and room: "offset_of vol es + entry_len (file_entry f) < 2 ^ 31"
    and G: "opt_align G = 16" "opt_alignlist G = []" "opt_excludelist G = []"
  shows "\<exists>t'. process_entry H G 1 dir 0 (fst f) (of_nat (offset_of vol es)) t =
      Inr (of_nat (offset_of vol (es @ [file_entry f])), t', None)
    \<and> tree_for H vol (es @ [file_entry f]) (ids @ [file_id f]) t'"
proof -
  obtain name sb bs where f_eq: "f = (name, sb, bs)" by (cases f)
  note p = f [unfolded plain_file_def f_eq prod.case]
  let ?n = "node_count t" and ?cur = "of_nat (offset_of vol es) :: u32"
  have n: "?n = Suc (length es)" using t by (simp add: tree_for_def)
  have cur: "unat ?cur = offset_of vol es" "?cur \<noteq> 0"
    using room offset_of_pos [of vol es] by (simp_all add: unat_of_nat word_unat_eq_iff)
  let ?nd = "\<lparr>nd_parent = None, nd_dirlist = [], nd_owner = ?n, nd_orig_link = None, nd_name = name,
     nd_realname = path_of dir name, nd_ondev = st_dev sb, nd_devnode = 0, nd_onino = st_ino sb, nd_modes = st_mode sb,
     nd_offset = ?cur, nd_size = 0, nd_pad = 0\<rparr>"
  let ?t3 = "\<lparr>nodes = (nodes t)(?n := ?nd), node_count = Suc ?n\<rparr>"
  have "findnode (Suc (Suc (length es))) ?t3 (st_dev sb) (st_ino sb) 0 = Inr None"
    using id by (intro tree_find_none [OF t]) (auto simp: file_id_def f_eq)
  then have link: "link_of 0 ?n ?t3 = Inr (None, append_node 0 ?n ?t3)"
    using p n by (simp add: link_of_def Let_def)
  let ?t4 = "append_node 0 ?n ?t3"
  let ?t5 = "upd_node ?n (\<lambda>x. x\<lparr>nd_size := of_nat (length bs)\<rparr>) ?t4"
  have mode: "\<not> S_ISLNK (st_mode sb)" "\<not> S_ISDIR (st_mode sb)" "\<not> S_ISCHR (st_mode sb)" "\<not> S_ISBLK (st_mode sb)"
    using p by (auto simp: S_defs)
  have nodes: "nodes ?t4 ?n = ?nd\<lparr>nd_parent := Some (nd_owner (nodes t 0))\<rparr>"
    "nodes ?t5 ?n = ?nd\<lparr>nd_parent := Some (nd_owner (nodes t 0)), nd_size := of_nat (length bs)\<rparr>"
    using n p by (simp_all add: append_node_def upd_node_def)
  have bs: "length bs < 0x80000000" using room by (simp add: entry_len_def file_entry_def f_eq)
  have sp: "unat (spaceneeded (nodes ?t4 ?n)) = 16 + name_len name"
    "unat (spaceneeded (nodes ?t5 ?n)) = entry_len (file_entry f)"
    using p bs unat_space [of "nodes ?t4 ?n" 0] unat_space [of "nodes ?t5 ?n" "length bs"]
    by (simp_all add: nodes entry_len_def file_entry_def f_eq unat_of_nat)
  have align: "alignnode H G ?n ?cur (spaceneeded (nodes ?t4 ?n)) ?t4 = Inr (?cur, ?t4)"
    using cur sp offset_of_mod [of vol es] G by (intro align_none) (auto simp: name_len_def)
  have "?cur + spaceneeded (nodes ?t5 ?n) = of_nat (offset_of vol (es @ [file_entry f]))"
    using sp(2) room unfolding offset_of_append by (simp add: word_unat_eq_iff unat_word_ariths unat_of_nat)
  note cur1 = this
  have place: "place_node H G sb 0 ?n None ?cur ?t4 = Inr (of_nat (offset_of vol (es @ [file_entry f])), ?t5, None)"
    using p mode align cur1 by (simp add: place_node_def Let_def)
  have "process_entry H G 1 dir 0 name ?cur t = Inr (of_nat (offset_of vol (es @ [file_entry f])), ?t5, None)"
    using p cur(2) G(3) link place mode(1)
    by (simp add: process_entry_def newnode_def Let_def special_name_def upd_node_def setnode_def)
  moreover have "tree_for H vol (es @ [file_entry f]) (ids @ [file_id f]) ?t5"
  proof (rule tree_for_snoc [OF t])
    show "node_for H (offset_of vol es) (file_entry f) (nodes ?t5 ?n)" "node_id (nodes ?t5 ?n) = file_id f"
      using p unfolding nodes by (simp_all add: node_for_def node_id_def file_entry_def file_id_def f_eq)
  qed (use n in \<open>simp_all add: append_node_def upd_node_def node_id_def\<close>)
  ultimately show ?thesis by (auto simp: f_eq)
qed

lemma plain_entries:
  assumes "tree_for H vol es ids t" and "\<forall>f \<in> set fs. plain_file H dir f \<and> file_id f \<noteq> (- 1, - 1)"
    and "distinct (map file_id fs) \<and> set ids \<inter> file_id ` set fs = {}"
    and "es \<noteq> []" and "offset_of vol (es @ map file_entry fs) < 2 ^ 31"
    and "opt_align G = 16" "opt_alignlist G = []" "opt_excludelist G = []"
    and "filter (\<lambda>d. d \<noteq> [0x2e] \<and> d \<noteq> [0x2e, 0x2e]) ds = map fst fs"
  shows "\<exists>t'. process_entries D H G 1 dir 0 ds (of_nat (offset_of vol es)) t =
      Inr (of_nat (offset_of vol (es @ map file_entry fs)), t')
    \<and> tree_for H vol (es @ map file_entry fs) (ids @ map file_id fs) t'"
  using assms
proof (induction ds arbitrary: es ids t fs)
  case Nil
  then show ?case by simp
next
  case (Cons d ds)
  show ?case
  proof (cases "d = [0x2e] \<or> d = [0x2e, 0x2e]")
    case True
    then have "process_entry H G 1 dir 0 d (of_nat (offset_of vol es)) t = Inr (of_nat (offset_of vol es), t, None)"
      by (simp add: process_entry_def)
    moreover have "filter (\<lambda>d. d \<noteq> [0x2e] \<and> d \<noteq> [0x2e, 0x2e]) ds = map fst fs" using Cons.prems(9) True by auto
    ultimately show ?thesis using Cons.IH [OF Cons.prems(1-8)] by simp
  next
    case False
    then obtain f fs' where fs: "fs = f # fs'" "d = fst f" "filter (\<lambda>d. d \<noteq> [0x2e] \<and> d \<noteq> [0x2e, 0x2e]) ds = map fst fs'"
      using Cons.prems(9) by (cases fs) auto
    have "offset_of vol es + entry_len (file_entry f) < 2 ^ 31" using Cons.prems(5) fs(1) by (simp add: offset_of_def)
    then obtain t1 where t1: "process_entry H G 1 dir 0 d (of_nat (offset_of vol es)) t =
        Inr (of_nat (offset_of vol (es @ [file_entry f])), t1, None)"
      "tree_for H vol (es @ [file_entry f]) (ids @ [file_id f]) t1"
      using plain_entry [OF Cons.prems(1), of dir f G] Cons.prems(2-4,6-8) fs(1,2) by auto
    then show ?thesis
      using Cons.IH [OF t1(2), of fs'] Cons.prems(2-8) fs(1,3) by simp
  qed
qed

definition dots :: "entry list" where "dots = [([0x2e], []), ([0x2e, 0x2e], [])]"

text \<open>The tree before the directory is read.\<close>

definition root_tree :: "cstring \<Rightarrow> cstring \<Rightarrow> tree" where
  "root_tree dir vol = (let (root, t) = newnode dir vol 0 \<lparr>nodes = (\<lambda>_. null_node), node_count = 0\<rparr>
     in upd_node root (\<lambda>x. x\<lparr>nd_parent := Some root\<rparr>) t)"

lemma root_tree_for: "tree_for H vol [] [] (root_tree dir vol)" "nd_realname (nodes (root_tree dir vol) 0) = path_of dir [0x2e]"
  by (simp_all add: tree_for_def root_tree_def newnode_def Let_def upd_node_def node_id_def)

lemma dots_added:
  assumes "host_lstat H (path_of dir [0x2e]) = Some sb1" "S_ISDIR (st_mode sb1)"
    and "host_lstat H (path_of dir [0x2e, 0x2e]) = Some sb2"
    and "offset_of vol dots < 2 ^ 31" and "opt_align G = 16" "opt_alignlist G = []"
  shows "\<exists>t'. add_dots H G dir 0 (of_nat (offset_of vol [])) (root_tree dir vol) = Inr (of_nat (offset_of vol dots), t')
    \<and> tree_for H vol dots [(st_dev sb1, st_ino sb1), (st_dev sb2, st_ino sb2)] t'
    \<and> nd_realname (nodes t' 0) = path_of dir [0x2e]"
proof -
  let ?c0 = "of_nat (offset_of vol []) :: u32" and ?c1 = "of_nat (offset_of vol []) + 32 :: u32"
  have c: "unat ?c0 = offset_of vol []" "unat ?c1 = offset_of vol [] + 32" "?c0 \<noteq> 0" "?c1 \<noteq> 0"
    "?c1 + 32 = of_nat (offset_of vol dots)" "offset_of vol [([0x2e], [])] = offset_of vol [] + 32"
    using assms(4) by (simp_all add: offset_of_def dots_def entry_len_def name_len_def unat_of_nat unat_word_ariths word_unat_eq_iff)
  have al: "alignnode H G n ?c0 0 t = Inr (?c0, t)" "alignnode H G n ?c1 0 t = Inr (?c1, t)" for n t
    using offset_of_mod [of vol "[]"] c assms(5,6) by (auto intro!: align_none simp: mod_add_left_eq [symmetric])
  have sp: "spaceneeded nd = 32" if "nd_name nd = [0x2e] \<or> nd_name nd = [0x2e, 0x2e]" "nd_size nd = 0" for nd
    using that by (auto simp: spaceneeded_def ALIGNUP16_def)
  show ?thesis
    using c(3,4) assms(1-3)
    by (simp add: add_dots_def root_tree_def newnode_def append_node_def upd_node_def setnode_def Let_def al sp c(5)
        tree_for_def node_for_def node_id_def dots_def less_Suc_eq all_conj_distrib c(6))
qed

end
