(* ===== verification/Genromfs_Properties.thy ===== *)
theory Genromfs_Properties
  imports Genromfs_Tree
begin

text \<open>
  The image that genromfs.c writes for a directory of regular files: its entries one after the other, its
  length and its checksum.
\<close>

unbundle bit_operations_syntax

section \<open>The entries of the image\<close>

text \<open>The bytes of an entry whose successor is at \<open>nx\<close>.\<close>

definition entry_bytes :: "u32 \<Rightarrow> entry \<Rightarrow> u8 list \<Rightarrow> bool" where
  "entry_bytes nx e b \<longleftrightarrow>
     (\<exists>nf sp h. htonl nf AND 0xfffffff0 = nx \<and> header_bytes nf sp (htonl (of_nat (length (snd e)))) (fst e) h
        \<and> b = h @ padded (snd e))"

fun image_entries :: "nat \<Rightarrow> entry list \<Rightarrow> u8 list \<Rightarrow> bool" where
  "image_entries off [] w \<longleftrightarrow> w = []"
| "image_entries off (e # es) w \<longleftrightarrow>
     (\<exists>b w'. w = b @ w' \<and> entry_bytes (if es = [] then 0 else of_nat (off + entry_len e)) e b
        \<and> image_entries (off + entry_len e) es w')"

lemma length_header: "header_bytes nf sp sz name h \<Longrightarrow> length h = 16 + name_len name"
  by (auto simp: header_bytes_def length_padded name_len_def)

lemma length_entry: "entry_bytes nx e b \<Longrightarrow> length b = entry_len e"
  by (auto simp: entry_bytes_def length_padded entry_len_def dest: length_header)

lemma length_entries: "image_entries off es w \<Longrightarrow> length w = sum_list (map entry_len es)"
  by (induction es arbitrary: off w) (auto dest: length_entry)

lemma flags_masked:
  assumes "(nx :: u32) AND 15 = 0"
  shows "(nx OR 1) AND 0xfffffff0 = nx" "(nx OR 2) AND 0xfffffff0 = nx" "nx AND 0xfffffff0 = nx"
    "((nx OR 8) OR 1) AND 0xfffffff0 = nx" "((nx OR 8) OR 2) AND 0xfffffff0 = nx"
    "((nx OR 8) AND NOT 8) AND 0xfffffff0 = nx" "(nx AND NOT 8) AND 0xfffffff0 = nx"
proof -
  have "nx AND NOT 15 = nx"
  proof (rule bit_word_eqI)
    fix n assume "n < LENGTH(32)"
    have "\<not> (bit nx n \<and> bit (15 :: u32) n)" using assms by (metis bit_and_iff bit_0_eq bot_apply bot_bool_def)
    then show "bit (nx AND NOT 15) n = bit nx n" using \<open>n < LENGTH(32)\<close> by (auto simp: bit_simps)
  qed
  moreover have "(0xfffffff0 :: u32) = NOT 15" by code_simp
  ultimately show nx: "nx AND 0xfffffff0 = nx" by (simp only:)
  show "(nx OR 1) AND 0xfffffff0 = nx" "(nx OR 2) AND 0xfffffff0 = nx"
    "((nx OR 8) OR 1) AND 0xfffffff0 = nx" "((nx OR 8) OR 2) AND 0xfffffff0 = nx"
    "((nx OR 8) AND NOT 8) AND 0xfffffff0 = nx" "(nx AND NOT 8) AND 0xfffffff0 = nx"
    using nx by (simp_all add: bit.conj_disj_distrib2 and.assoc or.assoc)
qed

lemma dump_entry_writes:
  assumes nd: "node_for H off e (nodes t i)" and len: "length (fst e) \<le> 4000" "length (snd e) < 2 ^ 31"
    and nx: "case succ of None \<Rightarrow> nx = 0 | Some j \<Rightarrow> nd_offset (nodes t j) = nx" "nx AND 15 = 0"
  shows "\<exists>b. entry_bytes nx e b \<and> writes b (dump_entry H t i succ)"
proof -
  let ?nd = "nodes t i" and ?n0 = "case succ of None \<Rightarrow> 0 | Some j \<Rightarrow> htonl (nd_offset (nodes t j))"
  note n = nd [unfolded node_for_def]
  have n0: "htonl ?n0 = nx" using nx(1) by (cases succ) auto
  define nf where "nf = (if nd_modes ?nd AND 0x49 \<noteq> 0 \<and> (S_ISDIR (nd_modes ?nd) \<or> S_ISREG (nd_modes ?nd))
     then ?n0 OR htonl ROMFH_EXEC else ?n0)"
  have nf: "htonl nf = nx \<or> htonl nf = nx OR 8" using n0 by (simp add: nf_def htonl_or)
  have low: "htonl (nf OR htonl 2) AND 0xfffffff0 = nx" "htonl (nf OR htonl 1) AND 0xfffffff0 = nx"
    "htonl (nf AND NOT (htonl 8)) AND 0xfffffff0 = nx"
    using nf flags_masked [OF nx(2)] by (auto simp: htonl_or htonl_and_not)
  let ?ri = "\<lparr>rf_nextfh = nf, rf_spec = 0, rf_size = htonl (nd_size ?nd), rf_checksum = htonl 0x55555555\<rparr>"
  have name: "length (nd_name ?nd) \<le> 4000" using n len(1) by simp
  have hdr: "\<exists>h. header_bytes (rf_nextfh ri) (rf_spec ri) (htonl (of_nat (length (snd e)))) (fst e) h \<and> writes h (dumpri ri ?nd)"
    if "rf_size ri = rf_size ?ri" for ri
    using dumpri_writes [OF name, of ri] that n by simp
  consider (link) l where "nd_orig_link ?nd = Some l" "snd e = []"
    | (dir) "nd_orig_link ?nd = None" "S_ISDIR (nd_modes ?nd)" "snd e = []"
    | (reg) "nd_orig_link ?nd = None" "S_ISREG (nd_modes ?nd)" "host_content H (nd_realname ?nd) = snd e"
    using n by (cases "nd_orig_link ?nd") auto
  then show ?thesis
  proof cases
    case link
    let ?ri' = "?ri\<lparr>rf_nextfh := nf AND NOT (htonl 8), rf_spec := htonl (nd_offset (nodes t l))\<rparr>"
    obtain h where h: "header_bytes (rf_nextfh ?ri') (rf_spec ?ri') (htonl (of_nat (length (snd e)))) (fst e) h"
      "writes h (dumpri ?ri' ?nd)" using hdr [of ?ri'] by auto
    have "dump_entry H t i succ = dumpri ?ri' ?nd"
      using link(1) n by (intro ext) (simp add: dump_entry_def Let_def nf_def)
    moreover have "entry_bytes nx e h" using h(1) low(3) link(2) unfolding entry_bytes_def by fastforce
    ultimately show ?thesis using h(2) by auto
  next
    case dir
    let ?ri' = "?ri\<lparr>rf_nextfh := nf OR htonl 1, rf_spec := htonl (nd_offset ?nd)\<rparr>"
    obtain h where h: "header_bytes (rf_nextfh ?ri') (rf_spec ?ri') (htonl (of_nat (length (snd e)))) (fst e) h"
      "writes h (dumpri ?ri' ?nd)" using hdr [of ?ri'] by auto
    have "dump_entry H t i succ = dumpri ?ri' ?nd"
      using dir(1,2) n by (intro ext) (simp add: dump_entry_def Let_def nf_def)
    moreover have "entry_bytes nx e h" using h(1) low(2) dir(3) unfolding entry_bytes_def by fastforce
    ultimately show ?thesis using h(2) by auto
  next
    case reg
    let ?ri' = "?ri\<lparr>rf_nextfh := nf OR htonl 2\<rparr>"
    obtain h where h: "header_bytes (rf_nextfh ?ri') (rf_spec ?ri') (htonl (of_nat (length (snd e)))) (fst e) h"
      "writes h (dumpri ?ri' ?nd)" using hdr [of ?ri'] by auto
    have "\<not> S_ISDIR (nd_modes ?nd)" "\<not> S_ISLNK (nd_modes ?nd)" using reg(2) by (auto simp: S_defs)
    then have "dump_entry H t i succ = (\<lambda>s. rbind (dumpri ?ri' ?nd s) (\<lambda>s. Inr (dump_regular H ?nd s)))"
      using reg(1,2) n by (intro ext) (simp add: dump_entry_def Let_def nf_def)
    moreover have "writes (padded (snd e)) (\<lambda>s. Inr (dump_regular H ?nd s))"
      using reg(3) n len(2) by (intro dump_regular_writes) simp_all
    moreover have "entry_bytes nx e (h @ padded (snd e))" using h(1) low(1) unfolding entry_bytes_def by fastforce
    ultimately show ?thesis using writes_seq [OF h(2)] by auto
  qed
qed

lemma entries_written:
  assumes t: "tree_for H vol es ids t" and len: "\<forall>e \<in> set es. length (fst e) \<le> 4000"
    and room: "offset_of vol es < 2 ^ 31" and "j \<le> length es"
  shows "\<exists>w. image_entries (offset_of vol (take j es)) (drop j es) w
    \<and> writes w (dumpnode_list (Suc k) H t [Suc j..<Suc (length es)])"
  using \<open>j \<le> length es\<close>
proof (induction rule: inc_induct)
  case base
  have "dumpnode_list (Suc k) H t [] = Inr" by (intro ext) simp
  then show ?case using writes_nothing by simp
next
  case (step j)
  let ?e = "es ! j" and ?off = "offset_of vol (take j es)"
  have j: "j < length es" by fact
  have next_off: "offset_of vol (take (Suc j) es) = ?off + entry_len ?e" using j by (simp add: take_Suc_conv_app_nth offset_of_append)
  have nd: "node_for H ?off ?e (nodes t (Suc j))" using t j by (simp add: tree_for_def)
  have e: "length (fst ?e) \<le> 4000" "length (snd ?e) < 2 ^ 31"
  proof -
    show "length (fst ?e) \<le> 4000" using len j by simp
    have "offset_of vol (take (Suc j) es) \<le> offset_of vol es" using offset_of_take [of "Suc j" "length es" vol es] j by simp
    then have "entry_len ?e < 2 ^ 31" using room next_off by linarith
    then show "length (snd ?e) < 2 ^ 31" by (simp add: entry_len_def)
  qed
  let ?rest = "[Suc (Suc j)..<Suc (length es)]"
  let ?succ = "case ?rest of [] \<Rightarrow> None | q # _ \<Rightarrow> Some q"
  let ?nx = "if drop (Suc j) es = [] then 0 else of_nat (?off + entry_len ?e) :: u32"
  have nx: "case ?succ of None \<Rightarrow> ?nx = 0 | Some q \<Rightarrow> nd_offset (nodes t q) = ?nx"
  proof (cases "Suc j < length es")
    case True
    then have "?rest = Suc (Suc j) # [Suc (Suc (Suc j))..<Suc (length es)]" by (intro upt_conv_Cons) simp
    moreover have "nd_offset (nodes t (Suc (Suc j))) = of_nat (?off + entry_len ?e)"
      using t True next_off by (simp add: tree_for_def node_for_def)
    ultimately show ?thesis using True by simp
  next
    case False
    then show ?thesis using j by simp
  qed
  have "unat ((of_nat (?off + entry_len ?e) :: u32) AND 15) = 0"
    using offset_of_mod [of vol "take (Suc j) es"] unfolding unat_and_15 next_off [symmetric]
    by (simp add: unat_of_nat mod_mod_cancel)
  then have "?nx AND 15 = 0" by (simp add: unat_eq_zero)
  then obtain b where b: "entry_bytes ?nx ?e b" "writes b (dump_entry H t (Suc j) ?succ)"
    using dump_entry_writes [OF nd e nx] by blast
  obtain w where w: "image_entries (?off + entry_len ?e) (drop (Suc j) es) w" "writes w (dumpnode_list (Suc k) H t ?rest)"
    using step.IH next_off by auto
  have "[Suc j..<Suc (length es)] = Suc j # ?rest" using j by (intro upt_conv_Cons) simp
  moreover have "dumpnode (Suc k) H t (Suc j) ?succ = dump_entry H t (Suc j) ?succ"
  proof
    fix s show "dumpnode (Suc k) H t (Suc j) ?succ s = dump_entry H t (Suc j) ?succ s"
      using nd by (cases "dump_entry H t (Suc j) ?succ s") (simp_all add: node_for_def)
  qed
  ultimately have "dumpnode_list (Suc k) H t [Suc j..<Suc (length es)] =
      (\<lambda>s. rbind (dump_entry H t (Suc j) ?succ s) (dumpnode_list (Suc k) H t ?rest))"
    by (intro ext) (simp only: dumpnode_list.simps)
  then have "writes (b @ w) (dumpnode_list (Suc k) H t [Suc j..<Suc (length es)])" using writes_seq [OF b(2) w(2)] by simp
  moreover have "image_entries ?off (?e # drop (Suc j) es) (b @ w)" using b(1) w(1) unfolding image_entries.simps by blast
  then have "image_entries ?off (drop j es) (b @ w)" using j by (simp only: Cons_nth_drop_Suc)
  ultimately show ?case by blast
qed

section \<open>The image of a plain directory\<close>

definition plain_dir :: "Host \<Rightarrow> cstring \<Rightarrow> plainfile list \<Rightarrow> bool" where
  "plain_dir H dir fs \<longleftrightarrow>
     (\<exists>sb1 sb2 ds. host_lstat H (path_of dir [0x2e]) = Some sb1 \<and> S_ISDIR (st_mode sb1)
        \<and> host_lstat H (path_of dir [0x2e, 0x2e]) = Some sb2 \<and> host_readdir H (path_of dir [0x2e]) = Some ds
        \<and> filter (\<lambda>d. d \<noteq> [0x2e] \<and> d \<noteq> [0x2e, 0x2e]) ds = map fst fs
        \<and> (\<forall>f \<in> set fs. plain_file H dir f
             \<and> file_id f \<notin> {(- 1, - 1), (st_dev sb1, st_ino sb1), (st_dev sb2, st_ino sb2)})
        \<and> distinct (map file_id fs))"

definition image_end :: "cstring \<Rightarrow> plainfile list \<Rightarrow> nat" where
  "image_end vol fs = offset_of vol (dots @ map file_entry fs)"

definition stream_for :: "cstring \<Rightarrow> plainfile list \<Rightarrow> u8 list \<Rightarrow> bool" where
  "stream_for vol fs W \<longleftrightarrow>
     (\<exists>h w. header_bytes (htonl 0x2d726f6d) (htonl 0x3166732d) (htonl (of_nat (image_end vol fs))) vol h
        \<and> image_entries (offset_of vol []) (dots @ map file_entry fs) w
        \<and> W = h @ w @ replicate ((1024 - image_end vol fs mod 1024) mod 1024) 0)"

lemma unat_and_1023: "unat ((x :: u32) AND 1023) = unat x mod 1024"
proof -
  have m: "x AND 1023 = take_bit 10 x" by (simp add: take_bit_eq_mask mask_eq_exp_minus_1)
  have "unat (take_bit 10 x) = take_bit 10 (unat x)" by (simp add: unsigned_take_bit_eq)
  then show ?thesis unfolding m by (simp add: take_bit_eq_mod)
qed

lemma length_stream:
  assumes "stream_for vol fs W"
  shows "length W = 1024 * ((image_end vol fs + 1023) div 1024)" and "512 \<le> length W"
proof -
  let ?n = "image_end vol fs"
  obtain h w where hw: "header_bytes (htonl 0x2d726f6d) (htonl 0x3166732d) (htonl (of_nat ?n)) vol h"
    "image_entries (offset_of vol []) (dots @ map file_entry fs) w" "W = h @ w @ replicate ((1024 - ?n mod 1024) mod 1024) 0"
    using assms unfolding stream_for_def by blast
  have "length h + length w = ?n"
    using length_header [OF hw(1)] length_entries [OF hw(2)] by (simp add: image_end_def offset_of_def)
  then have len: "length W = ?n + (1024 - ?n mod 1024) mod 1024" using hw(3) by simp
  show "length W = 1024 * ((?n + 1023) div 1024)"
  proof (cases "?n mod 1024 = 0")
    case True
    then obtain q where "?n = 1024 * q" by auto
    then show ?thesis using len by simp
  next
    case False
    define q r where "q = ?n div 1024" and "r = ?n mod 1024"
    have n: "?n = 1024 * q + r" "0 < r" "r < 1024" using False by (simp_all add: q_def r_def)
    have "(1024 * q + r + 1023) div 1024 = q + 1"
      using n(2,3) div_mult_self3 [of 1024 q "r + 1023"] by (simp add: div_nat_eqI add.assoc)
    then show ?thesis using len n by simp
  qed
  moreover have "0 < ?n" by (simp add: image_end_def offset_of_pos)
  then have "1 \<le> (?n + 1023) div 1024" by linarith
  ultimately show "512 \<le> length W" by linarith
qed

lemma plain_dir_tree:
  assumes d: "plain_dir H dir fs" and vol: "length vol \<le> 4000" and room: "image_end vol fs < 2 ^ 31"
    and G: "opt_align G = 16" "opt_alignlist G = []" "opt_excludelist G = []"
  shows "\<exists>ids t. processdir (Suc k) H G 1 dir 0 (spaceneeded (nodes (root_tree dir vol) 0)) (root_tree dir vol) =
      Inr (of_nat (image_end vol fs), t) \<and> tree_for H vol (dots @ map file_entry fs) ids t
    \<and> (\<forall>e \<in> set (dots @ map file_entry fs). length (fst e) \<le> 4000)"
proof -
  obtain sb1 sb2 ds where p: "host_lstat H (path_of dir [0x2e]) = Some sb1" "S_ISDIR (st_mode sb1)"
    "host_lstat H (path_of dir [0x2e, 0x2e]) = Some sb2" "host_readdir H (path_of dir [0x2e]) = Some ds"
    "filter (\<lambda>d. d \<noteq> [0x2e] \<and> d \<noteq> [0x2e, 0x2e]) ds = map fst fs"
    "\<forall>f \<in> set fs. plain_file H dir f \<and> file_id f \<notin> {(- 1, - 1), (st_dev sb1, st_ino sb1), (st_dev sb2, st_ino sb2)}"
    "distinct (map file_id fs)"
    using d unfolding plain_dir_def by blast
  let ?ids = "[(st_dev sb1, st_ino sb1), (st_dev sb2, st_ino sb2)]"
  have "offset_of vol dots < 2 ^ 31" using room by (simp add: image_end_def offset_of_def)
  then obtain t1 where t1: "add_dots H G dir 0 (of_nat (offset_of vol [])) (root_tree dir vol) = Inr (of_nat (offset_of vol dots), t1)"
    "tree_for H vol dots ?ids t1" "nd_realname (nodes t1 0) = path_of dir [0x2e]"
    using dots_added [OF p(1-3) _ G(1,2)] by blast
  have "\<forall>f \<in> set fs. plain_file H dir f \<and> file_id f \<noteq> (- 1, - 1)" using p(6) by blast
  moreover have "distinct (map file_id fs) \<and> set ?ids \<inter> file_id ` set fs = {}" using p(6,7) by auto
  moreover have "dots \<noteq> []" by (simp add: dots_def)
  ultimately have "\<exists>t. process_entries (processdir k H G (Suc 1)) H G 1 dir 0 ds (of_nat (offset_of vol dots)) t1 =
      Inr (of_nat (image_end vol fs), t) \<and> tree_for H vol (dots @ map file_entry fs) (?ids @ map file_id fs) t"
    using room unfolding image_end_def by (intro plain_entries [OF t1(2) _ _ _ _ G p(5)])
  then obtain t where t: "process_entries (processdir k H G (Suc 1)) H G 1 dir 0 ds (of_nat (offset_of vol dots)) t1 =
      Inr (of_nat (image_end vol fs), t)" "tree_for H vol (dots @ map file_entry fs) (?ids @ map file_id fs) t" by blast
  have "spaceneeded (nodes (root_tree dir vol) 0) = of_nat (offset_of vol [])"
  proof -
    have "nd_size (nodes (root_tree dir vol) 0) = 0" by (simp add: root_tree_def newnode_def Let_def upd_node_def)
    then have "unat (spaceneeded (nodes (root_tree dir vol) 0)) = offset_of vol []"
      using unat_space [of "nodes (root_tree dir vol) 0" 0] root_tree_for(1) [of H vol dir] vol by (simp add: tree_for_def offset_of_def)
    then show ?thesis by (metis of_nat_unat ucast_id)
  qed
  then have "processdir (Suc k) H G 1 dir 0 (spaceneeded (nodes (root_tree dir vol) 0)) (root_tree dir vol) = Inr (of_nat (image_end vol fs), t)"
    using t1 t(1) p(4) by simp
  moreover have "\<forall>e \<in> set (dots @ map file_entry fs). length (fst e) \<le> 4000"
    using p(6) by (fastforce simp: dots_def file_entry_def plain_file_def)
  ultimately show ?thesis using t(2) by blast
qed

lemma tail_written:
  assumes "n < 2 ^ 31"
  shows "writes (replicate ((1024 - n mod 1024) mod 1024) 0)
    (\<lambda>s. if (of_nat n :: u32) AND 1023 \<noteq> 0 then dumpzero (1024 - (of_nat n AND 1023)) s else Inr s)"
proof -
  have r: "unat ((of_nat n :: u32) AND 1023) = n mod 1024" using assms by (simp add: unat_and_1023 unat_of_nat)
  show ?thesis
  proof (cases "n mod 1024 = 0")
    case True
    then have "(of_nat n :: u32) AND 1023 = 0" using r by (metis unat_eq_zero)
    then show ?thesis using True writes_nothing by simp
  next
    case False
    then have nz: "(of_nat n :: u32) AND 1023 \<noteq> 0" using r by (metis unsigned_0)
    have lt: "n mod 1024 < 1024" by simp
    have u: "unat (1024 - ((of_nat n :: u32) AND 1023)) = 1024 - n mod 1024"
      by (subst unat_sub) (use lt in \<open>simp_all add: r word_le_nat_alt\<close>)
    have "writes (replicate (unat (1024 - ((of_nat n :: u32) AND 1023))) 0) (dumpzero (1024 - (of_nat n AND 1023)))"
      by (rule writes_zero) (unfold u, simp)
    then show ?thesis using nz False unfolding u by simp
  qed
qed

lemma genromfs_image:
  assumes d: "plain_dir H dir fs" and vol: "length vol \<le> 4000" and room: "image_end vol fs < 2 ^ 31"
  shows "\<exists>W. genromfs H no_options (Suc k) dir vol = Inr (image_of W) \<and> stream_for vol fs W"
proof -
  let ?es = "dots @ map file_entry fs" and ?n = "image_end vol fs"
  let ?G = "no_options\<lparr>realbase := length dir\<rparr>"
  have "opt_align ?G = 16" "opt_alignlist ?G = []" "opt_excludelist ?G = []" by (simp_all add: no_options_def)
  then obtain ids t where t: "processdir (Suc k) H ?G 1 dir 0 (spaceneeded (nodes (root_tree dir vol) 0)) (root_tree dir vol) = Inr (of_nat ?n, t)"
    "tree_for H vol ?es ids t" and names: "\<forall>e \<in> set ?es. length (fst e) \<le> 4000"
    using plain_dir_tree [OF assms] by blast
  have root: "nd_name (nodes t 0) = vol" "node_count t = Suc (length ?es)" "nd_dirlist (nodes t 0) = [Suc 0..<Suc (length ?es)]"
    using t(2) by (simp_all add: tree_for_def)
  obtain w where w: "image_entries (offset_of vol []) ?es w"
    "writes w (dumpnode_list (node_count t) H t (nd_dirlist (nodes t 0)))"
    using entries_written [OF t(2) names, of 0 "length ?es"] room unfolding root(2,3) by (auto simp: image_end_def)
  let ?ri = "\<lparr>rf_nextfh = htonl 0x2d726f6d, rf_spec = htonl 0x3166732d, rf_size = htonl (of_nat ?n), rf_checksum = htonl 0x55555555\<rparr>"
  obtain h where h: "header_bytes (htonl 0x2d726f6d) (htonl 0x3166732d) (htonl (of_nat ?n)) vol h" "writes h (dumpri ?ri (nodes t 0))"
    using dumpri_writes [of "nodes t 0" ?ri] vol root(1) by auto
  let ?z = "\<lambda>s. if (of_nat ?n :: u32) AND 1023 \<noteq> 0 then dumpzero (1024 - (of_nat ?n AND 1023)) s else Inr s"
  let ?W = "h @ w @ replicate ((1024 - ?n mod 1024) mod 1024) 0"
  let ?s0 = "\<lparr>fixbuf = replicate 512 0, atoffs = 0, out = []\<rparr>"
  have "writes ?W (\<lambda>s. rbind (dumpri ?ri (nodes t 0) s) (\<lambda>s1.
      rbind (dumpnode_list (node_count t) H t (nd_dirlist (nodes t 0)) s1) ?z))"
    by (rule writes_seq [OF h(2) writes_seq [OF w(2) tail_written [OF room]]])
  moreover have "holding [] ?s0" by (simp add: holding_def)
  ultimately obtain s where s: "dumpall H t (of_nat ?n) ?s0 = Inr s" "holding ?W s"
    unfolding writes_def dumpall_def Let_def by fastforce
  have W: "stream_for vol fs ?W" using h(1) w(1) unfolding stream_for_def by blast
  have "out s = image_of ?W" using s(2) length_stream(2) [OF W] by (simp add: holding_def)
  moreover have "genromfs H no_options (Suc k) dir vol =
      rbind (processdir (Suc k) H ?G 1 dir 0 (spaceneeded (nodes (root_tree dir vol) 0)) (root_tree dir vol)) (\<lambda>(lastoff, t2).
        rbind (dumpall H t2 lastoff ?s0) (\<lambda>s. Inr (out s)))"
    by (simp add: genromfs_def root_tree_def Let_def newnode_def)
  ultimately show ?thesis using W s(1) unfolding t(1) by auto
qed

section \<open>The checksum\<close>

lemma checksum_append:
  "length a = 4 * j \<Longrightarrow> checksum_loop (j + k) (a @ r) acc = checksum_loop k r (checksum_loop j a acc)"
proof (induction j arbitrary: a acc)
  case (Suc j)
  then have "length a = Suc (Suc (Suc (Suc (4 * j))))" by simp
  then obtain b0 b1 b2 b3 a' where "a = b0 # b1 # b2 # b3 # a'" "length a' = 4 * j"
    by (auto simp: length_Suc_conv)
  then show ?case using Suc.IH [of a'] by simp
qed simp

lemma checksum_acc: "checksum_loop k ws acc = acc + checksum_loop k ws 0"
proof (induction k arbitrary: ws acc)
  case (Suc k)
  show ?case
  proof (cases "\<exists>a b c d ws'. ws = a # b # c # d # ws'")
    case True
    then obtain a b c d ws' where ws: "ws = a # b # c # d # ws'" by blast
    show ?thesis unfolding ws checksum_loop.simps(1)
      by (subst Suc.IH, subst (2) Suc.IH) (simp add: add.assoc)
  next
    case False
    then show ?thesis by (cases "(Suc k, ws, acc)" rule: checksum_loop.cases) auto
  qed
qed simp

lemma checksum_word:
  assumes "length a = 12" and "16 \<le> n"
  shows "romfs_checksum (a @ le_bytes v @ r) n = htonl v + romfs_checksum (a @ le_bytes 0 @ r) n"
proof -
  have n: "n div 4 = 3 + (1 + (n div 4 - 4))" using assms(2) by simp
  have "checksum_loop (3 + (1 + k)) (a @ le_bytes x @ r) 0 = checksum_loop 3 a 0 + htonl x + checksum_loop k r 0" for x k
    using checksum_append [of a 3 "1 + k" "le_bytes x @ r" 0] assms(1) checksum_acc [of k r "checksum_loop 3 a 0 + htonl x"]
    by (simp add: le_bytes_def le32_of_bytes)
  then show ?thesis unfolding romfs_checksum_def by (subst (1 2) n) simp
qed

lemma fixsum_shape:
  assumes "length a = 12" and "length c = 4"
  shows "fixsum (a @ c @ r) n = a @ le_bytes (htonl (- romfs_checksum (a @ le_bytes 0 @ r) n)) @ r"
  using assms by (simp add: fixsum_def put32_def Let_def)

lemma fixsum_checksum: "length a = 12 \<Longrightarrow> length c = 4 \<Longrightarrow> 16 \<le> n \<Longrightarrow> romfs_checksum (fixsum (a @ c @ r) n) n = 0"
  by (simp only: fixsum_shape checksum_word [of a n "htonl (- romfs_checksum (a @ le_bytes 0 @ r) n)"] htonl_htonl) simp

lemma stream_shape:
  assumes "stream_for vol fs W"
  shows "\<exists>a c r. W = a @ c @ r \<and> length a = 12 \<and> length c = 4
    \<and> a = le_bytes (htonl 0x2d726f6d) @ le_bytes (htonl 0x3166732d) @ le_bytes (htonl (of_nat (image_end vol fs)))"
  using assms unfolding stream_for_def header_bytes_def by fastforce

lemma stream_size:
  assumes "stream_for vol fs W" and "image_end vol fs < 2 ^ 31"
  shows "size_field W = image_end vol fs"
proof -
  obtain a c r where W: "W = a @ c @ r" "length a = 12"
    and a: "a = le_bytes (htonl 0x2d726f6d) @ le_bytes (htonl 0x3166732d) @ le_bytes (htonl (of_nat (image_end vol fs)))"
    using stream_shape [OF assms(1)] by blast
  have "size_field W = size_field a" unfolding W(1) by (rule size_field_append) (simp add: W(2))
  then show ?thesis using assms(2) by (simp add: a size_field_def le_bytes_def nth_append le32_of_bytes unat_of_nat)
qed

lemma checksum_prefix: "n \<le> length f \<Longrightarrow> romfs_checksum (f @ d) n = romfs_checksum f n"
proof -
  assume n: "n \<le> length f"
  let ?k = "n div 4"
  have "length (take (4 * ?k) f) = 4 * ?k" using n by simp
  then have "checksum_loop (?k + 0) (take (4 * ?k) f @ r) 0 = checksum_loop 0 r (checksum_loop ?k (take (4 * ?k) f) 0)" for r
    by (rule checksum_append)
  from this [of "drop (4 * ?k) f @ d"] this [of "drop (4 * ?k) f"] show ?thesis
    unfolding romfs_checksum_def by (simp flip: append_assoc)
qed

text \<open>C35. The image of a directory of regular files: the tool ends, the length of the image is the next multiple of
  1024, and the big-endian words of its first 512 bytes, or of all its entries when they are fewer, add up to
  zero, as the format demands.\<close>

theorem genromfs_checksum:
  assumes "plain_dir H dir fs" and "length vol \<le> 4000" and "image_end vol fs < 2 ^ 31"
  shows "\<exists>img. genromfs H no_options (Suc k) dir vol = Inr img
    \<and> length img = 1024 * ((image_end vol fs + 1023) div 1024) \<and> romfs_checksum img (min 512 (image_end vol fs)) = 0"
proof -
  obtain W where W: "genromfs H no_options (Suc k) dir vol = Inr (image_of W)" "stream_for vol fs W"
    using genromfs_image [OF assms] by blast
  note len = length_stream [OF W(2)]
  obtain a c r where s: "W = a @ c @ r" "length a = 12" "length c = 4" using stream_shape [OF W(2)] by blast
  have tk: "take 512 W = a @ c @ take 496 r" using s by simp
  let ?n = "min 512 (image_end vol fs)"
  have f: "length (fixsum (take 512 W) ?n) = 512" using len(2) length_fixsum [of "take 512 W" ?n] by simp
  have n: "16 \<le> ?n" by (simp add: image_end_def offset_of_def)
  have img: "image_of W = fixsum (take 512 W) ?n @ drop 512 W" unfolding image_of_def stream_size [OF W(2) assms(3)] ..
  have "romfs_checksum (image_of W) ?n = romfs_checksum (fixsum (take 512 W) ?n) ?n"
    unfolding img by (rule checksum_prefix) (simp add: f)
  also have "\<dots> = 0" unfolding tk by (rule fixsum_checksum [OF s(2,3) n])
  finally show ?thesis using W(1) len f img by simp
qed

text \<open>A directory with two files.\<close>

definition plain_stat :: "64 word \<Rightarrow> u32 \<Rightarrow> int \<Rightarrow> Stat" where
  "plain_stat ino mode sz = \<lparr>st_dev = 1, st_ino = ino, st_mode = mode, st_size = sz, st_rdev = 0\<rparr>"

definition sample_files :: "plainfile list" where
  "sample_files = [([0x62], plain_stat 13 0x81a4 20, replicate 20 0x55),
     ([0x65, 0x63, 0x68, 0x6f], plain_stat 12 0x81ed 3, [0x61, 0x62, 0x63])]"

definition sample_host :: Host where
  "sample_host = \<lparr>
     host_lstat = (\<lambda>p. map_of ((path_of [0x64] [0x2e], plain_stat 10 0x41ed 0) # (path_of [0x64] [0x2e, 0x2e], plain_stat 11 0x41ed 0)
       # map (\<lambda>(name, sb, _). (path_of [0x64] name, sb)) sample_files) p),
     host_readdir = (\<lambda>_. Some [[0x2e, 0x2e], [0x62], [0x2e], [0x65, 0x63, 0x68, 0x6f]]),
     host_access = (\<lambda>_. True), host_readlink = (\<lambda>_. []),
     host_content = (\<lambda>p. if p = path_of [0x64] [0x62] then replicate 20 0x55 else [0x61, 0x62, 0x63]),
     host_fnmatch = (\<lambda>_ _. False), host_makedev = (\<lambda>_ _. 0), host_major = (\<lambda>_. 0), host_minor = (\<lambda>_. 0), host_fopen = (\<lambda>_. True)\<rparr>"

lemma sample_plain: "plain_dir sample_host [0x64] sample_files"
  by (simp add: plain_dir_def sample_host_def sample_files_def plain_stat_def plain_file_def path_of_def file_id_def S_defs)

lemma sample_end: "image_end [0x76] sample_files = 208"
  by (simp add: image_end_def offset_of_def dots_def sample_files_def file_entry_def entry_len_def name_len_def)

theorem genromfs_checksum_witness:
  "\<exists>img. genromfs sample_host no_options 1 [0x64] [0x76] = Inr img \<and> length img = 1024 \<and> romfs_checksum img 208 = 0"
  using genromfs_checksum [OF sample_plain, of "[0x76]" 0] unfolding sample_end by simp

end
