(* ===== verification/Genromfs_Align.thy ===== *)
theory Genromfs_Align
  imports Genromfs_Properties
begin

text \<open>
  The alignment of file data that the options of genromfs.c ask for: the test of the command line accepts the powers
  of two from sixteen on only, and every node is then placed on a multiple of its alignment.
\<close>

unbundle bit_operations_syntax

section \<open>Powers of two\<close>

lemma odd_part: "0 < (a :: nat) \<Longrightarrow> \<exists>k m. a = 2 ^ k * m \<and> odd m"
proof (induction a rule: less_induct)
  case (less a)
  show ?case
  proof (cases "even a")
    case True
    then obtain b where b: "a = 2 * b" by blast
    then obtain k m where "b = 2 ^ k * m" "odd m" using less.IH [of b] less.prems by auto
    then show ?thesis using b by (intro exI [of _ "Suc k"] exI [of _ m]) simp
  next
    case False
    then show ?thesis by (intro exI [of _ 0] exI [of _ a]) simp
  qed
qed

lemma odd_and_pred:
  assumes "odd (m :: nat)"
  shows "m AND (m - 1) = m - 1"
proof -
  obtain q where m: "m = 2 * q + 1" using assms by (rule oddE)
  have "m AND (m - 1) = of_bool (odd m \<and> odd (m - 1)) + 2 * (m div 2 AND (m - 1) div 2)" by (rule and_rec)
  then show ?thesis by (simp add: m)
qed

lemma pow2_nat:
  assumes "0 < (a :: nat)" and "a AND (a - 1) = 0"
  shows "\<exists>k. a = 2 ^ k"
proof -
  obtain k m where a: "a = 2 ^ k * m" "odd m" using odd_part [OF assms(1)] by blast
  have m: "0 < m" using a(2) by (auto intro: Nat.gr0I)
  have "(a - 1) div 2 ^ k = m - 1"
  proof (rule div_nat_eqI)
    have "a - 2 ^ k \<le> a - 1" by (intro diff_le_mono2) simp
    then show "2 ^ k * (m - 1) \<le> a - 1" "a - 1 < 2 ^ k * Suc (m - 1)" using m by (simp_all add: a(1) diff_mult_distrib2)
  qed
  moreover have "a div 2 ^ k = m" by (simp add: a(1))
  moreover have "drop_bit k (a AND (a - 1)) = drop_bit k a AND drop_bit k (a - 1)" by (rule drop_bit_and)
  ultimately have "drop_bit k (a AND (a - 1)) = m AND (m - 1)" by (simp only: drop_bit_eq_div)
  then have "m - 1 = 0" unfolding assms(2) odd_and_pred [OF a(2)] by (metis drop_bit_of_0)
  then show ?thesis using a(1) m by (intro exI [of _ k]) simp
qed

lemma good_align_pow2:
  assumes "good_align a"
  shows "\<exists>k < 32. unat a = 2 ^ k"
proof -
  have nz: "a \<noteq> 0" using assms by (auto simp: good_align_def)
  have "a AND (a - 1) = 0" using assms by (simp add: good_align_def)
  moreover have "unat (a AND (a - 1)) = unat a AND unat (a - 1)" by (rule unsigned_and_eq)
  ultimately have "unat a AND (unat a - 1) = 0" using nz by (simp add: unat_minus_one)
  moreover have "0 < unat a" using nz by (simp add: unat_gt_0)
  ultimately obtain k where k: "unat a = 2 ^ k" using pow2_nat by blast
  moreover have "unat a < 2 ^ LENGTH(32)" by (rule unsigned_less)
  ultimately have "(2 :: nat) ^ k < 2 ^ 32" by simp
  then have "k < 32" by (rule power_less_imp_less_exp [rotated]) simp
  then show ?thesis using k by blast
qed

lemma unat_and_pred:
  assumes "good_align a"
  shows "unat ((x :: u32) AND (a - 1)) = unat x mod unat a"
proof -
  obtain k where k: "k < 32" "unat a = 2 ^ k" using good_align_pow2 [OF assms] by blast
  moreover have "a = of_nat (unat a)" by simp
  ultimately have "a = 2 ^ k" by simp
  then have m: "x AND (a - 1) = take_bit k x" by (simp add: take_bit_eq_mask mask_eq_exp_minus_1)
  have "unat (take_bit k x) = take_bit k (unat x)" by (rule unsigned_take_bit_eq)
  then show ?thesis unfolding m using k(2) by (simp only: take_bit_eq_mod)
qed

lemma gap_fills:
  assumes "good_align a" and "x AND (a - 1) \<noteq> 0"
  shows "(x + (a - (x AND (a - 1)))) AND (a - 1) = 0" and "unat (a - (x AND (a - 1))) < unat a"
proof -
  let ?d = "x AND (a - 1)"
  obtain k where k: "k < 32" "unat a = 2 ^ k" using good_align_pow2 [OF assms(1)] by blast
  have d: "unat ?d = unat x mod 2 ^ k" using unat_and_pred [OF assms(1), of x] k(2) by simp
  have lt: "unat x mod 2 ^ k < 2 ^ k" by simp
  have gap: "unat (a - ?d) = 2 ^ k - unat x mod 2 ^ k"
    using lt by (subst unat_sub) (simp_all add: d k(2) word_le_nat_alt)
  moreover have "0 < unat x mod 2 ^ k" using assms(2) d by (metis gr0I unat_eq_zero)
  ultimately show "unat (a - ?d) < unat a" by (simp add: k(2))
  have "unat (x + (a - ?d)) mod 2 ^ k = (unat x + (2 ^ k - unat x mod 2 ^ k)) mod 2 ^ k"
  proof -
    have "(2 :: nat) ^ k dvd 2 ^ 32" using k(1) by (intro le_imp_power_dvd) simp
    then have "unat (x + (a - ?d)) mod 2 ^ k = (unat x + unat (a - ?d)) mod 2 ^ k"
      by (simp add: unat_word_ariths(1) mod_mod_cancel)
    then show ?thesis unfolding gap .
  qed
  also have "\<dots> = (unat x - unat x mod 2 ^ k + 2 ^ k) mod 2 ^ k" using lt by simp
  also have "\<dots> = 0" by (simp add: minus_mod_eq_mult_div)
  finally have "unat ((x + (a - ?d)) AND (a - 1)) = 0" using unat_and_pred [OF assms(1), of "x + (a - ?d)"] k(2) by simp
  then show "(x + (a - ?d)) AND (a - 1) = 0" by (simp add: unat_eq_zero)
qed

section \<open>Options\<close>

definition good_options :: "Options \<Rightarrow> bool" where
  "good_options G \<longleftrightarrow> good_align (opt_align G) \<and> (\<forall>p \<in> set (opt_alignlist G). good_align (fst p))"

lemma good_align_16: "good_align 16" by (simp add: good_align_def)

lemma option_keeps_good: "main_option opt a = Inr a' \<Longrightarrow> good_options (arg_options a) \<Longrightarrow> good_options (arg_options a')"
  by (cases opt) (auto simp: main_option_def Let_def good_options_def split: if_splits prod.splits)

lemma options_keep_good: "main_options opts a = Inr a' \<Longrightarrow> good_options (arg_options a) \<Longrightarrow> good_options (arg_options a')"
  by (induction opts arbitrary: a) (auto split: sum.splits dest: option_keeps_good)

lemma findalign_loop_good:
  "findalign_loop H G nd pas i = Inr al \<Longrightarrow> good_align i \<Longrightarrow> \<forall>p \<in> set pas. good_align (fst p) \<Longrightarrow>
     good_align al \<and> sint i \<le> sint al"
proof (induction pas arbitrary: i)
  case (Cons p pas)
  obtain pal pattern where p: "p = (pal, pattern)" by (cases p)
  show ?case
  proof (cases "sint pal > sint i")
    case True
    then obtain found where "findalign_loop H G nd pas (if found then pal else i) = Inr al"
      using Cons.prems(1) by (auto simp: p res_simps)
    then have "good_align al \<and> sint (if found then pal else i) \<le> sint al" using Cons.prems by (intro Cons.IH) (auto simp: p)
    then show ?thesis using True by (auto split: if_splits)
  next
    case False
    then show ?thesis using Cons by (simp add: p)
  qed
qed simp

text \<open>C36. Alignment. Whatever options the command line sets, the alignment the tool finds for a node is a power of two, for a
  regular file not less than the one of the -a option, and placing the node leaves a gap smaller than it after which the node with
  the extra space ends on a multiple of the alignment.\<close>

theorem alignnode_aligns:
  assumes opts: "main_options opts initial_args = Inr a" and G: "G = (arg_options a)\<lparr>realbase := r\<rparr>"
    and al: "findalign H G (nodes t n) = Inr al"
  shows "\<exists>k gap t'. unat al = 2 ^ k \<and> (S_ISREG (nd_modes (nodes t n)) \<longrightarrow> sint (opt_align G) \<le> sint al)
    \<and> alignnode H G n cur extra t = Inr (cur + gap, t') \<and> unat gap < unat al \<and> unat (cur + gap + extra) mod unat al = 0
    \<and> nd_offset (nodes t' n) = nd_offset (nodes t n) + gap \<and> (\<forall>i. i \<noteq> n \<longrightarrow> nodes t' i = nodes t i)"
proof -
  have "good_options (arg_options initial_args)" by (simp add: good_options_def initial_args_def good_align_16)
  then have go: "good_options G" using options_keep_good [OF opts] G by (simp add: good_options_def)
  have f: "good_align al" "S_ISREG (nd_modes (nodes t n)) \<longrightarrow> sint (opt_align G) \<le> sint al"
    using findalign_loop_good [OF al [unfolded findalign_def]] go good_align_16 by (auto simp: good_options_def)
  obtain k where k: "unat al = 2 ^ k" using good_align_pow2 [OF f(1)] by blast
  let ?x = "cur + extra"
  show ?thesis
  proof (cases "?x AND (al - 1) = 0")
    case True
    then have "unat ?x mod unat al = 0" using unat_and_pred [OF f(1), of ?x] by simp
    moreover have "0 < unat al" by (simp add: k)
    moreover have "alignnode H G n cur extra t = Inr (cur + 0, t)" using True al by (simp add: alignnode_def)
    ultimately show ?thesis using f(2) k by (intro exI [of _ k] exI [of _ 0] exI [of _ t]) simp
  next
    case False
    let ?g = "al - (?x AND (al - 1))"
    note gf = gap_fills [OF f(1) False]
    have "unat (?x + ?g) mod unat al = 0" using unat_and_pred [OF f(1), of "?x + ?g"] gf(1) by simp
    then have "unat (cur + ?g + extra) mod unat al = 0" by (simp only: add.assoc add.commute [of ?g])
    moreover have "alignnode H G n cur extra t =
        Inr (cur + ?g, upd_node n (\<lambda>x. x\<lparr>nd_offset := nd_offset x + ?g, nd_pad := ?g\<rparr>) t)"
      using False al by (simp add: alignnode_def Let_def)
    ultimately show ?thesis using gf(2) f(2) k
      by (intro exI [of _ k] exI [of _ ?g] exI [of _ "upd_node n (\<lambda>x. x\<lparr>nd_offset := nd_offset x + ?g, nd_pad := ?g\<rparr>) t"])
        (simp add: upd_node_def)
  qed
qed

theorem alignnode_aligns_witness:
  "\<exists>gap t'. alignnode sample_host ((arg_options initial_args)\<lparr>opt_align := 32\<rparr>) 0 40 0
      \<lparr>nodes = (\<lambda>_. null_node\<lparr>nd_modes := 0x81a4\<rparr>), node_count = 1\<rparr> = Inr (40 + gap, t')
    \<and> unat gap < 32 \<and> unat (40 + gap + 0) mod 32 = 0"
proof -
  let ?t = "\<lparr>nodes = (\<lambda>_. null_node\<lparr>nd_modes := 0x81a4\<rparr>), node_count = 1\<rparr>"
  let ?G = "(arg_options initial_args)\<lparr>opt_align := 32\<rparr>"
  have "strtoul [0x33, 0x32] = (32, [])" by code_simp
  then have o': "main_options [(0x61, [0x33, 0x32])] initial_args = Inr (initial_args\<lparr>arg_options := ?G\<rparr>)"
    by (simp add: main_option_def good_align_def)
  have G: "?G = (arg_options (initial_args\<lparr>arg_options := ?G\<rparr>))\<lparr>realbase := 0\<rparr>" by (simp add: initial_args_def)
  have "findalign sample_host ?G (nodes ?t 0) = Inr 32" by (simp add: findalign_def initial_args_def S_defs)
  then show ?thesis using alignnode_aligns [OF o' G, of sample_host ?t 0 32 40 0] by auto
qed

end
