(* ===== verification/Genromfs_Readback.thy ===== *)
theory Genromfs_Readback
  imports Genromfs_Properties Romfs_Lookup
begin

text \<open>
  The file system of the kernel reads the image that genromfs.c writes: the two programs agree on the format.
\<close>

unbundle bit_operations_syntax

section \<open>An image in memory\<close>

definition holds :: "mem \<Rightarrow> nat \<Rightarrow> u8 list \<Rightarrow> bool" where
  "holds img off bs \<longleftrightarrow> (\<forall>i < length bs. img (of_nat (off + i)) = bs ! i)"

lemma holds_append: "holds img off (a @ b) \<longleftrightarrow> holds img off a \<and> holds img (off + length a) b"
proof
  assume h: "holds img off (a @ b)"
  have "img (of_nat (off + length a + i)) = b ! i" if "i < length b" for i
    using h that unfolding holds_def by (metis add.assoc length_append nat_add_left_cancel_less nth_append_length_plus)
  moreover have "img (of_nat (off + i)) = a ! i" if "i < length a" for i
    using h that unfolding holds_def by (metis length_append nth_append trans_less_add1)
  ultimately show "holds img off a \<and> holds img (off + length a) b" unfolding holds_def by blast
next
  assume h: "holds img off a \<and> holds img (off + length a) b"
  show "holds img off (a @ b)" unfolding holds_def
  proof (intro allI impI)
    fix i assume i: "i < length (a @ b)"
    show "img (of_nat (off + i)) = (a @ b) ! i"
    proof (cases "i < length a")
      case True
      then show ?thesis using h by (simp add: holds_def nth_append)
    next
      case False
      then obtain j where "i = length a + j" "j < length b" using i by (metis add_diff_inverse_nat length_append nat_add_left_cancel_less)
      then show ?thesis using h unfolding holds_def by (metis add.assoc nth_append_length_plus)
    qed
  qed
qed

lemma holds_Cons: "holds img off (c # cs) \<longleftrightarrow> img (of_nat off) = c \<and> holds img (Suc off) cs"
  using holds_append [of img off "[c]" cs] by (simp add: holds_def)

lemma holds_word: "holds img off (le_bytes v) \<Longrightarrow> read32 img (of_nat off) = v"
  using le32_of_bytes [of v] by (simp add: le_bytes_def holds_Cons read32_def le32_def add.commute)

lemma holds_string: "holds img off (cs @ 0 # r) \<Longrightarrow> 0 \<notin> set cs \<Longrightarrow> string_in img (of_nat off) cs"
proof (induction cs arbitrary: off)
  case (Cons c cs)
  then have "string_in img (of_nat (Suc off)) cs" by (intro Cons.IH) (simp_all add: holds_Cons)
  then show ?case using Cons.prems by (simp add: holds_Cons add.commute)
qed (simp add: holds_Cons)

lemma header_read:
  assumes "header_bytes nf sp sz name h" and "holds img off h" and "0 \<notin> set name" and "off + 16 + length name < n" and "n \<le> 2 ^ 31"
  shows "entry_at img n (of_nat off) name (htonl sz)" and "next_of img (of_nat off) = htonl nf AND 0xfffffff0"
proof -
  obtain cs z where b: "length cs = 4" "h = le_bytes nf @ le_bytes sp @ le_bytes sz @ cs @ name @ 0 # z"
    using assms(1) unfolding header_bytes_def padded_def by auto
  have h: "holds img off (le_bytes nf)" "holds img (off + 8) (le_bytes sz)" "holds img (off + 16) (name @ 0 # z)"
    using assms(2) b(1) unfolding b(2) by (simp_all add: holds_append add.commute add.left_commute)
  have "read32 img (of_nat off) = nf" "read32 img (of_nat (off + 8)) = sz" by (rule holds_word [OF h(1)], rule holds_word [OF h(2)])
  moreover have "string_in img (of_nat (off + 16)) name" using h(3) assms(3) by (rule holds_string)
  moreover have "unat (of_nat off :: u32) = off" using assms(4,5) by (simp add: unat_of_nat)
  ultimately show "entry_at img n (of_nat off) name (htonl sz)" "next_of img (of_nat off) = htonl nf AND 0xfffffff0"
    using assms(4) by (simp_all add: entry_at_def next_of_def hdr_size_def hdr_nextfh_def be32tole32_htonl)
qed

fun dir_list :: "nat \<Rightarrow> entry list \<Rightarrow> (u32 \<times> cstring \<times> u32) list" where
  "dir_list off [] = []"
| "dir_list off (e # es) = (of_nat off, fst e, of_nat (length (snd e))) # dir_list (off + entry_len e) es"

lemma dir_list_append: "dir_list off (es @ es') = dir_list off es @ dir_list (off + sum_list (map entry_len es)) es'"
  by (induction es arbitrary: off) (simp_all add: add.assoc)

lemma entry_read:
  assumes "entry_bytes nx e b" and "holds img off b" and "0 \<notin> set (fst e)" and "off + entry_len e \<le> n" and "n \<le> 2 ^ 31"
  shows "entry_at img n (of_nat off) (fst e) (of_nat (length (snd e)))" and "next_of img (of_nat off) = nx"
    and "holds img (off + 16 + name_len (fst e)) (snd e)"
proof -
  obtain nf sp h where b: "htonl nf AND 0xfffffff0 = nx"
    "header_bytes nf sp (htonl (of_nat (length (snd e)))) (fst e) h" "b = h @ padded (snd e)"
    using assms(1) unfolding entry_bytes_def by blast
  have h: "holds img off h" "holds img (off + 16 + name_len (fst e)) (padded (snd e))"
    using assms(2) length_header [OF b(2)] by (simp_all add: b(3) holds_append add.assoc)
  have "length (fst e) < name_len (fst e)" by (simp add: name_len_def)
  then have "off + 16 + length (fst e) < n" using assms(4) by (simp add: entry_len_def)
  note r = header_read [OF b(2) h(1) assms(3) this assms(5)]
  show "entry_at img n (of_nat off) (fst e) (of_nat (length (snd e)))" "next_of img (of_nat off) = nx"
    using r b(1) by simp_all
  show "holds img (off + 16 + name_len (fst e)) (snd e)" using h(2) by (simp add: padded_def holds_append)
qed

lemma entries_directory:
  assumes "image_entries off (e # es) w" and "holds img off w" and "\<forall>x \<in> set (e # es). 0 \<notin> set (fst x)"
    and "off + length w \<le> n" and "n \<le> 2 ^ 31"
  shows "entry_at img n (of_nat off) (fst e) (of_nat (length (snd e)))
    \<and> directory img n (of_nat off) (dir_list (off + entry_len e) es)"
  using assms
proof (induction es arbitrary: e off w)
  case Nil
  then show ?case using entry_read [of 0 e _ img off n] length_entry by fastforce
next
  case (Cons e' es)
  let ?off = "off + entry_len e"
  obtain b w' where b: "w = b @ w'" "entry_bytes (of_nat ?off) e b" "image_entries ?off (e' # es) w'"
    using Cons.prems(1) by auto
  have h: "holds img off b" "holds img ?off w'" using Cons.prems(2) b length_entry [OF b(2)] by (simp_all add: holds_append)
  have len: "?off + length w' \<le> n" using Cons.prems(4) b(1) length_entry [OF b(2)] by simp
  have "entry_at img n (of_nat ?off) (fst e') (of_nat (length (snd e')))
    \<and> directory img n (of_nat ?off) (dir_list (?off + entry_len e') es)"
    using Cons.prems(3) by (intro Cons.IH [OF b(3) h(2) _ len Cons.prems(5)]) simp
  moreover have "entry_at img n (of_nat off) (fst e) (of_nat (length (snd e)))" "next_of img (of_nat off) = of_nat ?off"
    using entry_read [OF b(2) h(1) _ _ Cons.prems(5)] Cons.prems(3) len by auto
  moreover have "(of_nat ?off :: u32) \<noteq> 0"
  proof -
    have "?off \<le> n" "0 < ?off" using len by (simp_all add: entry_len_def)
    then show ?thesis using Cons.prems(5) by (simp add: word_unat_eq_iff unat_of_nat del: of_nat_add)
  qed
  ultimately show ?case by (simp del: of_nat_add)
qed

lemma entries_data:
  assumes "image_entries off (pre @ e # post) w" and "holds img off w" and "\<forall>x \<in> set (pre @ e # post). 0 \<notin> set (fst x)"
    and "off + length w \<le> n" and "n \<le> 2 ^ 31"
  shows "holds img (off + sum_list (map entry_len pre) + 16 + name_len (fst e)) (snd e)"
  using assms
proof (induction pre arbitrary: off w)
  case Nil
  then obtain b w' nx where b: "w = b @ w'" "entry_bytes nx e b" by auto
  then show ?case using entry_read(3) [OF b(2), of img off n] Nil.prems length_entry [OF b(2)] by (simp add: holds_append)
next
  case (Cons p pre)
  then obtain b w' nx where b: "w = b @ w'" "entry_bytes nx p b" "image_entries (off + entry_len p) (pre @ e # post) w'" by auto
  have "holds img (off + entry_len p) w'" "off + entry_len p + length w' \<le> n"
    using Cons.prems(2,4) b(1) length_entry [OF b(2)] by (simp_all add: holds_append)
  then show ?case using Cons.IH [OF b(3)] Cons.prems(3,5) by (simp add: add.assoc)
qed

section \<open>The lookup\<close>

text \<open>Putting the checksum in place changes nothing else.\<close>

lemma image_stream:
  assumes "stream_for vol fs W"
  shows "stream_for vol fs (image_of W)"
proof -
  let ?a = "le_bytes (htonl 0x2d726f6d) @ le_bytes (htonl 0x3166732d) @ le_bytes (htonl (of_nat (image_end vol fs)))"
  let ?z = "replicate ((1024 - image_end vol fs mod 1024) mod 1024) 0" and ?p = "padded (vol @ [0])"
  obtain cs w where W: "length cs = 4" "image_entries (offset_of vol []) (dots @ map file_entry fs) w" "W = ?a @ cs @ ?p @ w @ ?z"
    using assms unfolding stream_for_def header_bytes_def by auto
  define a where "a = ?a"
  define r where "r = ?p @ w @ ?z"
  have a: "length a = 12" "W = a @ cs @ r" using W(3) by (simp_all add: a_def r_def)
  have "take 512 W = a @ cs @ take 496 r" "drop 512 W = drop 496 r" using W(1) a by simp_all
  then obtain x where "image_of W = a @ le_bytes x @ r"
    unfolding image_of_def using fixsum_shape [OF a(1) W(1), of "take 496 r"] by simp
  then have "image_of W = ?a @ le_bytes x @ ?p @ w @ ?z" by (simp add: a_def r_def)
  then show ?thesis using W(2) unfolding stream_for_def header_bytes_def
    by (intro exI [of _ "?a @ le_bytes x @ ?p"] exI [of _ w]) auto
qed

lemma names_dir_list: "(\<lambda>(_, name, _). name) ` set (dir_list off es) = fst ` set es"
  by (induction es arbitrary: off) auto

lemma length_dir_list: "length (dir_list off es) = length es"
  by (induction es arbitrary: off) auto

lemma sizes_dir_list: "(o', name, z) \<in> set (dir_list off es) \<Longrightarrow> \<exists>e \<in> set es. z = of_nat (length (snd e))"
  by (induction es arbitrary: off) auto

lemma first_entry:
  assumes "length vol < 256" and "length vol mod 16 \<noteq> 0"
  shows "get_next_16_boundary (s_strlen vol + 0x10) = of_nat (offset_of vol [])"
proof -
  have u: "unat (s_strlen vol + 0x10) = length vol + 16" using assms(1) by (simp add: s_strlen_short unat_word_ariths unat_of_nat)
  have "unat (get_next_16_boundary (s_strlen vol + 0x10)) = 16 * ((length vol + 31) div 16)"
    using next_16_boundary_nat [of "s_strlen vol + 0x10"] assms(1) unfolding u by simp
  moreover have "16 * ((length vol + 31) div 16) = offset_of vol []"
  proof -
    define q r where "q = length vol div 16" and "r = length vol mod 16"
    have v: "length vol = 16 * q + r" "0 < r" "r < 16" using assms(2) by (simp_all add: q_def r_def)
    have "(16 * q + (r + 31)) div 16 = q + 2" "(16 * q + (r + 16)) div 16 = q + 1"
      using v(2,3) div_mult_self4 [of 16 q "r + 31"] div_mult_self4 [of 16 q "r + 16"] by (simp_all add: div_nat_eqI)
    then show ?thesis by (simp add: offset_of_def name_len_def v(1) add.assoc)
  qed
  moreover have "offset_of vol [] < 2 ^ 32" using assms(1) by (simp add: offset_of_def name_len_def)
  ultimately show ?thesis by (simp add: word_unat_eq_iff unat_of_nat)
qed

text \<open>The image is the content of the device of the file system, and there is room for what the scan prints and reads.\<close>

definition image_mounted :: "'a files_scheme \<Rightarrow> u32 \<Rightarrow> u8 list \<Rightarrow> plainfile list \<Rightarrow> nat \<Rightarrow> bool" where
  "image_mounted s sb img fs D \<longleftrightarrow>
     (let dev = sb_device (sb_obj s sb); start = start_pos (sd_obj s dev)
      in dev \<noteq> 0 \<and> unat (storage_size (sd_obj s dev)) = length img \<and> length img \<le> 0x80000
        \<and> holds (\<lambda>x. mem s (start + x)) 0 img \<and> mm_ok s \<and> 2 \<le> card (blocks s - held_blocks s)
        \<and> unat start + length img \<le> unat (mm_start s) \<and> 0xb8000 + D \<le> unat (mm_start s)
        \<and> 26 * 160 + 200 \<le> D \<and> 160 * (2 * length fs + 11) \<le> D \<and> (\<forall>f \<in> set fs. 6 * length (snd (snd f)) \<le> D))"

lemma mounted_ready:
  fixes s :: "'a files_scheme"
  assumes W: "stream_for vol fs img" and m: "image_mounted s sb img fs D"
    and names: "\<forall>f \<in> set fs. 0 \<notin> set (fst f)" and vol: "0 \<notin> set vol" "length vol < 256" "length vol mod 16 \<noteq> 0"
  shows "lookup_ready s sb (length img) D vol (dir_list (offset_of vol [] + 32) (tl dots @ map file_entry fs))"
    and "fs = pre @ f # post \<Longrightarrow> holds (\<lambda>x. mem s (start_pos (sd_obj s (sb_device (sb_obj s sb))) + x))
      (offset_of vol (dots @ map file_entry pre) + 16 + name_len (fst f)) (snd (snd f))"
proof -
  note m' = m [unfolded image_mounted_def Let_def]
  let ?img = "\<lambda>x. mem s (start_pos (sd_obj s (sb_device (sb_obj s sb))) + x)" and ?n = "length img" and ?es = "dots @ map file_entry fs"
  obtain h w where hw: "header_bytes (htonl 0x2d726f6d) (htonl 0x3166732d) (htonl (of_nat (image_end vol fs))) vol h"
    "image_entries (offset_of vol []) ?es w" "img = h @ w @ replicate ((1024 - image_end vol fs mod 1024) mod 1024) 0"
    using W unfolding stream_for_def by blast
  have n: "?n \<le> 2 ^ 31" using m' by simp
  have len: "length h = offset_of vol []" using length_header [OF hw(1)] by (simp add: offset_of_def)
  have "holds ?img 0 img" using m' by blast
  then have h: "holds ?img 0 h" "holds ?img (offset_of vol []) w" using len unfolding hw(3) by (simp_all add: holds_append)
  have nul: "\<forall>e \<in> set ?es. 0 \<notin> set (fst e)" using names by (auto simp: dots_def file_entry_def)
  have fit: "offset_of vol [] + length w \<le> ?n" using len hw(3) by simp
  have "length vol < name_len vol" by (simp add: name_len_def)
  then have v: "entry_at ?img ?n 0 vol (of_nat (image_end vol fs))"
    using header_read(1) [OF hw(1) h(1) vol(1) _ n] fit by (simp add: offset_of_def)
  let ?rest = "tl dots @ map file_entry fs"
  have d: "?es = ([0x2e], []) # ?rest" "entry_len ([0x2e], []) = 32" by (simp_all add: dots_def entry_len_def name_len_def)
  have dir: "entry_at ?img ?n (of_nat (offset_of vol [])) [0x2e] 0" "directory ?img ?n (of_nat (offset_of vol [])) (dir_list (offset_of vol [] + 32) ?rest)"
    using entries_directory [OF hw(2) [unfolded d(1)] h(2) _ fit n] nul unfolding d by simp_all
  have sz: "6 * nat (sint z) \<le> D" if "(o', name, z) \<in> set (dir_list (offset_of vol [] + 32) ?rest)" for o' name z
  proof -
    obtain e where e: "e \<in> set ?rest" "z = of_nat (length (snd e))" using sizes_dir_list [OF \<open>_ \<in> _\<close>] by blast
    have "6 * length (snd e) \<le> D" using e(1) m' by (auto simp: dots_def file_entry_def)
    moreover have "D < 2 ^ 32" using m' unat_le_32 [of "mm_start s"] by simp
    ultimately show ?thesis by (simp add: e(2) signed_of_nat signed_take_bit_int_eq_self)
  qed
  have "length (dir_list (offset_of vol [] + 32) ?rest) = Suc (length fs)" by (simp add: length_dir_list dots_def)
  then have "160 * (2 * length (dir_list (offset_of vol [] + 32) ?rest) + 9) \<le> D" using m' by simp
  then show "lookup_ready s sb ?n D vol (dir_list (offset_of vol [] + 32) ?rest)"
    unfolding lookup_ready_def Let_def first_entry [OF vol(2,3)] using m' v dir sz by blast
  assume "fs = pre @ f # post"
  then have "?es = (dots @ map file_entry pre) @ file_entry f # map file_entry post" by simp
  then show "holds ?img (offset_of vol (dots @ map file_entry pre) + 16 + name_len (fst f)) (snd (snd f))"
    using entries_data [of "offset_of vol []" "dots @ map file_entry pre" "file_entry f" "map file_entry post" w ?img ?n] hw(2) h(2) nul fit n
    by (simp add: offset_of_def file_entry_def add.assoc)
qed

text \<open>The name of the volume when none is given: "rom " and at least eight digits.\<close>

lemma hex_char_nonzero: "d < 16 \<Longrightarrow> hex_char d \<noteq> 0"
  by (auto simp: hex_char_def word_unat_eq_iff unat_of_nat simp del: of_nat_add)

lemma hex_digits_nonzero: "0 \<notin> set (hex_digits n)"
  by (induction n rule: hex_digits.induct) (subst hex_digits.simps, auto simp: hex_char_nonzero dest: sym)

lemma hex_digits_length: "n < 16 ^ Suc j \<Longrightarrow> length (hex_digits n) \<le> Suc j"
proof (induction j arbitrary: n)
  case (Suc j)
  then have "n div 16 < 16 ^ Suc j" by (simp add: less_mult_imp_div_less mult.commute)
  then show ?case using Suc.IH [of "n div 16"] by (subst hex_digits.simps) simp
qed (subst hex_digits.simps, simp)

lemma default_volname_plain:
  assumes "now < 2 ^ 32"
  shows "0 \<notin> set (default_volname now)" "length (default_volname now) < 256" "length (default_volname now) mod 16 \<noteq> 0"
proof -
  have "length (hex_digits now) \<le> 8" using hex_digits_length [of now 7] assms by simp
  then have "length (default_volname now) = 12" by (simp add: default_volname_def Let_def)
  then show "length (default_volname now) < 256" "length (default_volname now) mod 16 \<noteq> 0" by simp_all
  show "0 \<notin> set (default_volname now)" using hex_digits_nonzero by (auto simp: default_volname_def Let_def)
qed

text \<open>C33. The kernel reads what the tool writes. Called as the makefile calls it, on a directory of regular files and at a time
  before the year 2106, the tool ends with an image. On every state in which the image is the content of the
  device, the lookup of a nonempty file with a name of at most fifteen characters succeeds; the size in its inode is that of the
  file, and the address that the file system computes for its data is where the content of the file lies.\<close>

theorem genromfs_read_back:
  assumes d: "plain_dir H dir fs" "distinct (map fst fs)" and now: "now < 2 ^ 32" and opened: "host_fopen H outf"
    and room: "image_end (default_volname now) fs < 2 ^ 31" and f: "(name, st, bs) \<in> set fs" "bs \<noteq> []" "length name \<le> 15"
  shows "\<exists>img. genromfs_main H (Suc k) now [(0x64, dir), (0x66, outf)] = Inr (0, img) \<and>
    (\<forall>(s :: 'a files_scheme) sb D. image_mounted s sb img fs D \<longrightarrow>
       (\<exists>ino s'. romfs_namei sb name s = Inr (ino, s') \<and> inode_dsize (mem s') ino = of_nat (length bs)
          \<and> holds (\<lambda>x. mem s (start_pos (sd_obj s (sb_device (sb_obj s sb))) + x)) (unat (romfs_get_daddr ino (mem s'))) bs))"
proof -
  let ?vol = "default_volname now"
  note vol = default_volname_plain [OF now]
  obtain W where W: "genromfs H no_options (Suc k) dir ?vol = Inr (image_of W)" "stream_for ?vol fs W"
    using genromfs_image [OF d(1) _ room] vol(2) by auto
  note img = image_stream [OF W(2)]
  have plain: "\<forall>f \<in> set fs. plain_file H dir f" using d(1) unfolding plain_dir_def by blast
  then have names: "\<forall>f \<in> set fs. 0 \<notin> set (fst f)" and dd: "name \<noteq> [0x2e, 0x2e]" using f(1) by (auto simp: plain_file_def)
  obtain pre post where fs: "fs = pre @ (name, st, bs) # post" using split_list [OF f(1)] by blast
  have "\<exists>ino s'. romfs_namei sb name s = Inr (ino, s') \<and> inode_dsize (mem s') ino = of_nat (length bs)
      \<and> holds (\<lambda>x. mem s (start_pos (sd_obj s (sb_device (sb_obj s sb))) + x)) (unat (romfs_get_daddr ino (mem s'))) bs"
    if m: "image_mounted s sb (image_of W) fs D" for s :: "'a files_scheme" and sb D
  proof -
    note m' = m [unfolded image_mounted_def Let_def]
    note ready = mounted_ready [OF img m names vol]
    let ?pre = "tl dots @ map file_entry pre" and ?off = "offset_of ?vol (dots @ map file_entry pre)"
    have off: "offset_of ?vol [] + 32 + sum_list (map entry_len ?pre) = ?off"
      by (simp add: offset_of_def dots_def entry_len_def name_len_def)
    have es: "dir_list (offset_of ?vol [] + 32) (tl dots @ map file_entry fs) =
        dir_list (offset_of ?vol [] + 32) ?pre @ (of_nat ?off, name, of_nat (length bs)) # dir_list (?off + entry_len (name, bs)) (map file_entry post)"
      using dir_list_append [of "offset_of ?vol [] + 32" ?pre "(name, bs) # map file_entry post"] unfolding off fs by (simp add: file_entry_def)
    have "name \<notin> (\<lambda>(_, name, _). name) ` set (dir_list (offset_of ?vol [] + 32) ?pre)"
      using d(2) dd unfolding names_dir_list fs by (force simp: dots_def file_entry_def)
    then obtain ino s' where s': "romfs_namei sb name s = Inr (ino, s')" "inode_dsize (mem s') ino = of_nat (length bs)"
      "inode_daddr (mem s') ino = of_nat ?off"
      using namei_lookup [OF ready(1) [unfolded es]] f(3) m' by fastforce
    have "image_end ?vol fs \<le> length (image_of W)" unfolding length_stream(1) [OF img] by linarith
    moreover have "?off + entry_len (name, bs) \<le> image_end ?vol fs" by (simp add: image_end_def offset_of_def fs file_entry_def)
    moreover have "length bs \<le> entry_len (name, bs)" by (simp add: entry_len_def)
    moreover have "length (image_of W) \<le> 0x80000" using m' by blast
    ultimately have fit: "?off \<le> 0x80000" "length bs < 0x80000000" by linarith+
    then have u: "unat (of_nat ?off :: u32) = ?off" by (simp add: unat_of_nat)
    have "(of_nat (length bs) :: u32) \<noteq> 0" using fit(2) f(2) by (simp add: word_unat_eq_iff unat_of_nat)
    then have "unat (romfs_get_daddr ino (mem s')) = ?off + 32"
      using get_daddr_nat [of "mem s'" ino] s'(2,3) u offset_of_mod [of ?vol] fit(1) by simp
    moreover have "name_len name = 16" using f(3) by (simp add: name_len_def div_nat_eqI)
    ultimately show ?thesis using ready(2) [OF fs] s'(1,2) by (simp add: add.assoc)
  qed
  moreover have "genromfs_main H (Suc k) now [(0x64, dir), (0x66, outf)] = Inr (0, image_of W)"
    using W(1) opened by (simp add: genromfs_main_def main_option_def initial_args_def no_options_def)
  ultimately show ?thesis by blast
qed

text \<open>The sample directory of the tool on a device of the kernel.\<close>

definition image_state :: "u8 list \<Rightarrow> files" where
  "image_state img = lookup_state\<lparr>mem := (\<lambda>x. let k = unat (x - 0x200000) in if k < length img then img ! k else 0),
     sd_obj := (\<lambda>_. (ramdisk_sd_initial sample_link)\<lparr>storage_size := of_nat (length img)\<rparr>)\<rparr>"

lemma image_state_mounted:
  assumes "length img = 1024"
  shows "image_mounted (image_state img) 0x2000 img sample_files 0x2000"
proof -
  have fields: "sb_device (sb_obj (image_state img) 0x2000) = 0x1000" "start_pos (sd_obj (image_state img) 0x1000) = 0x200000"
    "storage_size (sd_obj (image_state img) 0x1000) = 1024" "mm_start (image_state img) = 0x1000000" "memory_used (image_state img) = 0"
    "mem (image_state img) = (\<lambda>x. let k = unat (x - 0x200000) in if k < length img then img ! k else 0)"
    using assms by (simp_all add: image_state_def lookup_state_def mounted_files_def blank_files_def blank_memory_def
        keyboard.defs memory.defs files.defs ramdisk_sd_initial_def sample_link_def)
  have ok: "mm_ok (image_state img)" by (simp add: mm_ok_def fields)
  then have "2 \<le> card (blocks (image_state img) - held_blocks (image_state img))"
    using card_blocks [of "image_state img"] by (simp add: held_blocks_def fields)
  moreover have "holds (\<lambda>x. mem (image_state img) (0x200000 + x)) 0 img"
    using assms by (simp add: holds_def fields unat_of_nat)
  ultimately show ?thesis unfolding image_mounted_def Let_def fields using ok assms by (simp add: sample_files_def)
qed

theorem genromfs_read_back_witness:
  "\<exists>img ino s'. genromfs_main sample_host 1 0 [(0x64, [0x64]), (0x66, [0x72])] = Inr (0, img)
    \<and> romfs_namei 0x2000 [0x65, 0x63, 0x68, 0x6f] (image_state img) = Inr (ino, s') \<and> inode_dsize (mem s') ino = 3
    \<and> holds (\<lambda>x. mem (image_state img) (start_pos (sd_obj (image_state img) (sb_device (sb_obj (image_state img) 0x2000))) + x))
        (unat (romfs_get_daddr ino (mem s'))) [0x61, 0x62, 0x63]"
proof -
  let ?vol = "default_volname 0"
  have f: "([0x65, 0x63, 0x68, 0x6f], plain_stat 12 0x81ed 3, [0x61, 0x62, 0x63]) \<in> set sample_files"
    "[0x61, 0x62, 0x63 :: u8] \<noteq> []" "length [0x65, 0x63, 0x68, 0x6f :: u8] \<le> 15" "distinct (map fst sample_files)"
    by (simp_all add: sample_files_def)
  have v: "length ?vol = 12" by (simp add: default_volname_def hex_digits.simps)
  then have e: "image_end ?vol sample_files = 208" using sample_end by (simp add: image_end_def offset_of_def name_len_def)
  have room: "image_end ?vol sample_files < 2 ^ 31" unfolding e by simp
  have op: "host_fopen sample_host [0x72]" "(0 :: nat) < 2 ^ 32" by (simp_all add: sample_host_def)
  obtain img where img: "genromfs_main sample_host (Suc 0) 0 [(0x64, [0x64]), (0x66, [0x72])] = Inr (0, img)"
    and find: "\<And>(s :: files) sb D. image_mounted s sb img sample_files D \<Longrightarrow>
       \<exists>ino s'. romfs_namei sb [0x65, 0x63, 0x68, 0x6f] s = Inr (ino, s') \<and> inode_dsize (mem s') ino = of_nat (length [0x61, 0x62, 0x63 :: u8])
          \<and> holds (\<lambda>x. mem s (start_pos (sd_obj s (sb_device (sb_obj s sb))) + x)) (unat (romfs_get_daddr ino (mem s'))) [0x61, 0x62, 0x63]"
    using genromfs_read_back [OF sample_plain f(4) op(2,1) room f(1-3), of 0] by blast
  obtain W where W: "genromfs sample_host no_options (Suc 0) [0x64] ?vol = Inr (image_of W)" "stream_for ?vol sample_files W"
    using genromfs_image [OF sample_plain _ room, of 0] v by auto
  have "length (image_of W) = 1024" using length_stream(1) [OF image_stream [OF W(2)]] unfolding e by simp
  moreover have "img = image_of W"
    using img W(1) op(1) by (simp add: genromfs_main_def main_option_def initial_args_def no_options_def)
  ultimately have "length img = 1024" by simp
  from find [OF image_state_mounted [OF this]] show ?thesis using img by auto
qed

end
