(* ===== verification/Floppy.thy ===== *)
theory Floppy
  imports Kstdio
begin

text \<open>
  What the two loaders share: the BIOS services they call, the text they print through them, the
  translation of a sector number to the geometry of a 1.44 MB floppy disk, and the contract of
  their routines that read a sector (the locale \<open>sector_reader\<close>). The BIOS is not part of the
  sources: it is the record \<open>Bios\<close> of what its two disk services return for the registers they are
  given. That it serves a disk with the content \<open>img\<close> is the predicate \<open>serves\<close>.
\<close>

unbundle bit_operations_syntax

section \<open>State\<close>

text \<open>
  \<open>int13_read ax bx cx dx es m\<close> is the carry flag, the register ax and the memory after the
  disk service 2; \<open>int13_params ax dx\<close> the carry flag and the registers cx, dx and es after
  the service 8.
\<close>

record Bios =
  int13_read :: "u16 \<Rightarrow> u16 \<Rightarrow> u16 \<Rightarrow> u16 \<Rightarrow> u16 \<Rightarrow> mem \<Rightarrow> bool \<times> u16 \<times> mem"
  int13_params :: "u16 \<Rightarrow> u16 \<Rightarrow> bool \<times> u16 \<times> u16 \<times> u16"

text \<open>The characters given to the teletype service, oldest first, and the segment register es.\<close>

record bios_state = machine +
  tty_out :: "u8 list"
  seg_es :: u16

definition seg_addr :: "u16 \<Rightarrow> u16 \<Rightarrow> u32" where
  "seg_addr seg off = push_bit 4 (ucast seg) + ucast off"

definition print_ch :: "u8 \<Rightarrow> 'a bios_state_scheme \<Rightarrow> 'a bios_state_scheme" where
  "print_ch c s = s\<lparr>tty_out := tty_out s @ [c]\<rparr>"

text \<open>\<open>print\<close> stops at the first NUL byte of its argument.\<close>

definition print :: "cstring \<Rightarrow> 'a bios_state_scheme \<Rightarrow> 'a bios_state_scheme" where
  "print str s = fold print_ch (takeWhile (\<lambda>c. c \<noteq> 0) str) s"

definition msg :: "string \<Rightarrow> cstring" where
  "msg str = map of_char str"

definition CRLF :: cstring where
  "CRLF = [0x0d, 0x0a]"

section \<open>Geometry\<close>

text \<open>The track, head and sector of a logical sector, as both loaders compute them.\<close>

definition track_of :: "int \<Rightarrow> u8" where
  "track_of i = word_of_int (i sdiv 18 div 2)"

definition head_of :: "int \<Rightarrow> u8" where
  "head_of i = word_of_int (i sdiv 18 mod 2)"

definition sector_of :: "int \<Rightarrow> u8" where
  "sector_of i = word_of_int (i smod 18 + 1)"

section \<open>A disk behind the BIOS\<close>

text \<open>The bytes of the disk, and the memory after \<open>n\<close> sectors from \<open>lba\<close> on are read to \<open>a\<close>.\<close>

type_synonym floppy = "nat \<Rightarrow> u8"

definition sectors :: "floppy \<Rightarrow> nat \<Rightarrow> nat \<Rightarrow> u32 \<Rightarrow> mem \<Rightarrow> mem" where
  "sectors img lba n a m x = (if addr_in a (512 * n) x then img (512 * lba + unat (x - a)) else m x)"

definition lba :: "u8 \<Rightarrow> u8 \<Rightarrow> u8 \<Rightarrow> nat" where
  "lba t h c = (unat t * 2 + unat h) * 18 + (unat c - 1)"

definition in_geometry :: "u8 \<Rightarrow> u8 \<Rightarrow> u8 \<Rightarrow> u8 \<Rightarrow> bool" where
  "in_geometry t h c n \<longleftrightarrow> unat t < 80 \<and> unat h < 2 \<and> 0 < unat c \<and> 0 < unat n \<and> unat c + unat n \<le> 19"

text \<open>
  The documented behaviour of service 2 for drive 0: sectors of one track are read to es:bx, if
  the buffer does not leave the segment.
\<close>

definition serves :: "Bios \<Rightarrow> floppy \<Rightarrow> bool" where
  "serves B img \<longleftrightarrow>
     (\<forall>t h c n bx es m. in_geometry t h c n \<and> unat bx + 512 * unat n \<le> 65536 \<longrightarrow>
       int13_read B (0x200 OR ucast n) bx (push_bit 8 (ucast t) OR ucast c) (push_bit 8 (ucast h)) es m =
         (False, ucast n, sectors img (lba t h c) (unat n) (seg_addr es bx) m))"

text \<open>Such a BIOS exists.\<close>

definition drive :: "floppy \<Rightarrow> Bios" where
  "drive img =
     \<lparr>int13_read = (\<lambda>ax bx cx dx es m.
        (False, ax AND 0xff,
         sectors img (lba (ucast (drop_bit 8 cx)) (ucast (drop_bit 8 dx)) (ucast cx)) (unat (ax AND 0xff))
           (seg_addr es bx) m)),
      int13_params = (\<lambda>ax dx. (False, 0x4f12, 0x0101, 0xf000))\<rparr>"

lemma bytes_of_pair:
  fixes t c :: u8
  shows "ucast (drop_bit 8 (push_bit 8 (ucast t) OR ucast c :: u16)) = t"
    and "ucast (push_bit 8 (ucast t) OR ucast c :: u16) = c"
    and "ucast (drop_bit 8 (push_bit 8 (ucast t) :: u16)) = t"
  by (rule bit_word_eqI, auto simp: bit_simps dest: bit_imp_le_length)+

lemma read_command: "(0x200 OR ucast c) AND (0xff :: u16) = ucast (c :: u8)"
proof -
  have "0x200 = push_bit 9 (1 :: u16)" by simp
  then show ?thesis unfolding and_masks
    by (intro bit_word_eqI) (auto simp: bit_simps dest: bit_imp_le_length)
qed

lemma unat_ucast_8_16: "unat (ucast (x :: u8) :: u16) = unat x"
  using unsigned_less [of x, where ?'a = nat]
  by (simp add: unsigned_ucast_eq take_bit_nat_eq_self less_trans)

lemma drive_serves: "serves (drive img) img"
  by (simp add: serves_def drive_def bytes_of_pair read_command unat_ucast_8_16 del: drop_bit_or)

lemma serves_reads:
  "serves B img \<Longrightarrow> in_geometry t h c n \<Longrightarrow> unat bx + 512 * unat n \<le> 65536 \<Longrightarrow>
   int13_read B (0x200 OR ucast n) bx (push_bit 8 (ucast t) OR ucast c) (push_bit 8 (ucast h)) es m =
     (False, ucast n, sectors img (lba t h c) (unat n) (seg_addr es bx) m)"
  by (simp add: serves_def)

lemma unat_of_int_8: "k < 256 \<Longrightarrow> unat (word_of_int (int k) :: u8) = k"
  by (simp add: unat_of_nat take_bit_nat_eq_self)

lemma geometry:
  assumes "i < 2880"
  shows "unat (track_of (int i)) = i div 18 div 2" and "unat (head_of (int i)) = i div 18 mod 2"
    and "unat (sector_of (int i)) = i mod 18 + 1"
proof -
  have sd: "int i sdiv 18 = int (i div 18)" "int i smod 18 = int (i mod 18)"
    by (cases "i = 0"; simp add: signed_divide_int_def signed_modulo_int_def zdiv_int zmod_int)+
  have "int (i div 18) div 2 = int (i div 18 div 2)" "int (i div 18) mod 2 = int (i div 18 mod 2)"
    "int (i mod 18) + 1 = int (i mod 18 + 1)" by (simp_all add: zdiv_int zmod_int)
  note eqs = this
  have "i div 18 \<le> 2879 div 18" using assms by (intro div_le_mono) simp
  then have "i div 18 div 2 \<le> 159 div 2" by (intro div_le_mono) simp
  then have a: "i div 18 div 2 < 256" by simp
  have b: "i div 18 mod 2 < 256" by (rule less_trans [of _ 2]) simp_all
  have "i mod 18 < 18" by simp
  then have c: "i mod 18 + 1 < 256" by linarith
  show "unat (track_of (int i)) = i div 18 div 2"
    unfolding track_of_def sd eqs by (rule unat_of_int_8 [OF a])
  show "unat (head_of (int i)) = i div 18 mod 2"
    unfolding head_of_def sd eqs by (rule unat_of_int_8 [OF b])
  show "unat (sector_of (int i)) = i mod 18 + 1"
    unfolding sector_of_def sd eqs by (rule unat_of_int_8 [OF c])
qed

lemma geometry_lba:
  assumes "i < 2880"
  shows "lba (track_of (int i)) (head_of (int i)) (sector_of (int i)) = i"
    and "in_geometry (track_of (int i)) (head_of (int i)) (sector_of (int i)) 1"
proof -
  have d: "i div 18 div 2 * 2 + i div 18 mod 2 = i div 18" "i div 18 * 18 + i mod 18 = i" by simp_all
  then show "lba (track_of (int i)) (head_of (int i)) (sector_of (int i)) = i"
    by (simp only: lba_def geometry [OF assms] add_diff_cancel_right')
  have "i div 18 \<le> 2879 div 18" using assms by (intro div_le_mono) simp
  then have "i div 18 div 2 \<le> 159 div 2" by (intro div_le_mono) simp
  moreover have "i div 18 mod 2 < 2" "i mod 18 < 18" by simp_all
  ultimately show "in_geometry (track_of (int i)) (head_of (int i)) (sector_of (int i)) 1"
    by (simp add: in_geometry_def geometry [OF assms])
qed

section \<open>Reading a sector\<close>

text \<open>
  The contract of a routine that reads one sector to an address of the segment es: on a disk, the
  sector is in the buffer, and nothing else of memory has changed.
\<close>

locale sector_reader =
  fixes reads :: "u16 \<Rightarrow> u8 \<Rightarrow> u8 \<Rightarrow> u8 \<Rightarrow> 's \<Rightarrow> 's"
    and memory :: "'s \<Rightarrow> mem"
    and segment :: "'s \<Rightarrow> u16"
    and on_disk :: "floppy \<Rightarrow> bool"
  assumes reads_sector:
      "on_disk img \<Longrightarrow> in_geometry t h c 1 \<Longrightarrow> unat b + 512 \<le> 65536 \<Longrightarrow>
       memory (reads b c t h s) = sectors img (lba t h c) 1 (seg_addr (segment s) b) (memory s)"
    and reads_segment: "segment (reads b c t h s) = segment s"
begin

lemma reads_logical:
  assumes "on_disk img" and "i < 2880" and "unat b + 512 \<le> 65536"
  shows "memory (reads b (sector_of (int i)) (track_of (int i)) (head_of (int i)) s) =
    sectors img i 1 (seg_addr (segment s) b) (memory s)"
  using reads_sector [OF assms(1) geometry_lba(2) [OF assms(2)] assms(3)] geometry_lba(1) [OF assms(2)]
  by simp

lemma reads_byte:
  assumes "on_disk img" and "i < 2880" and "unat b + 512 \<le> 65536" and "k < 512"
  shows "memory (reads b (sector_of (int i)) (track_of (int i)) (head_of (int i)) s)
      (seg_addr (segment s) b + of_nat k) = img (512 * i + k)"
  using assms(4) unfolding reads_logical [OF assms(1-3)]
  by (simp add: sectors_def addr_in_def unat_of_nat)

lemma reads_outside:
  assumes "on_disk img" and "i < 2880" and "unat b + 512 \<le> 65536"
    and "\<not> addr_in (seg_addr (segment s) b) 512 x"
  shows "memory (reads b (sector_of (int i)) (track_of (int i)) (head_of (int i)) s) x = memory s x"
  using assms(4) unfolding reads_logical [OF assms(1-3)] by (simp add: sectors_def)

end

section \<open>Directory entries on the disk\<close>

definition dir_byte :: "floppy \<Rightarrow> nat \<Rightarrow> nat \<Rightarrow> u8" where
  "dir_byte img k i = img (512 * 19 + 32 * k + i)"

definition dir_name :: "floppy \<Rightarrow> nat \<Rightarrow> cstring" where
  "dir_name img k = map (dir_byte img k) [0..<11]"

definition dir_cluster :: "floppy \<Rightarrow> nat \<Rightarrow> u16" where
  "dir_cluster img k = push_bit 8 (ucast (dir_byte img k 0x1b)) OR ucast (dir_byte img k 0x1a)"

text \<open>The directory entries of the sectors \<open>is\<close> of the directory, sixteen in each.\<close>

definition entries :: "nat list \<Rightarrow> nat list" where
  "entries is = concat (map (\<lambda>i. map (\<lambda>j. 16 * i + j) [0..<16]) is)"

lemma entries_root: "entries [0..<15] = [0..<240]"
  unfolding entries_def by code_simp

lemma dir_byte_sector:
  assumes "\<And>k. k < 512 \<Longrightarrow> m (a + of_nat k) = img (512 * (19 + i) + k)" and "j < 16" and "q < 32"
  shows "m (a + of_nat (j * 32 + q)) = dir_byte img (16 * i + j) q"
proof -
  have "m (a + of_nat (j * 32 + q)) = img (512 * (19 + i) + (j * 32 + q))"
    using assms(2,3) by (intro assms(1)) auto
  moreover have "512 * (19 + i) + (j * 32 + q) = 512 * 19 + 32 * (16 * i + j) + q" by simp
  ultimately show ?thesis by (simp only: dir_byte_def)
qed

lemma dir_fields_sector:
  assumes "\<And>k. k < 512 \<Longrightarrow> m (a + of_nat k) = img (512 * (19 + i) + k)" and "j < 16"
  shows "map (\<lambda>q. m (a + of_nat (j * 32 + q))) [0..<11] = dir_name img (16 * i + j)"
    and "push_bit 8 (ucast (m (a + of_nat (0x1b + j * 32)))) OR ucast (m (a + of_nat (0x1a + j * 32)))
      = dir_cluster img (16 * i + j)"
proof -
  note at = dir_byte_sector [where m = m and a = a and img = img and i = i and j = j, OF assms]
  show "map (\<lambda>q. m (a + of_nat (j * 32 + q))) [0..<11] = dir_name img (16 * i + j)"
    unfolding dir_name_def by (rule map_cong) (use at in auto)
  show "push_bit 8 (ucast (m (a + of_nat (0x1b + j * 32)))) OR ucast (m (a + of_nat (0x1a + j * 32)))
      = dir_cluster img (16 * i + j)"
    using at [of "0x1b"] at [of "0x1a"] by (simp add: dir_cluster_def add.commute)
qed

lemma print_machine [simp]: "mem (print str s) = mem s" "seg_es (print str s) = seg_es s"
proof -
  have "mem (fold print_ch cs s) = mem s \<and> seg_es (fold print_ch cs s) = seg_es s" for cs
    by (induction cs arbitrary: s) (simp_all add: print_ch_def)
  then show "mem (print str s) = mem s" "seg_es (print str s) = seg_es s" by (simp_all add: print_def)
qed

text \<open>A disk with one file of the given name, in cluster 2, which starts with the byte 0xeb.\<close>

definition one_file :: "cstring \<Rightarrow> floppy" where
  "one_file name p =
     (if p = 12 then 2
      else if 9728 \<le> p \<and> p < 9739 then name ! (p - 9728)
      else if p = 9754 then 2
      else if p = 16896 then 0xeb else 0)"

definition blank_bios :: bios_state where
  "blank_bios = \<lparr>mem = (\<lambda>_. 0), io_log = [], tty_out = [], seg_es = 0\<rparr>"

lemma one_file_name:
  assumes "length name = 11"
  shows "dir_name (one_file name) 0 = name" and "dir_cluster (one_file name) 0 = 2"
proof -
  show "dir_name (one_file name) 0 = name"
    using assms by (intro nth_equalityI) (simp_all add: dir_name_def dir_byte_def one_file_def)
  show "dir_cluster (one_file name) 0 = 2"
    by (simp add: dir_cluster_def dir_byte_def one_file_def)
qed

end
