(* ===== verification/Boot_Sector.thy ===== *)
theory Boot_Sector
  imports Floppy Kstring
begin

text \<open>
  The boot sector: c-bootloader/fat.c as it is built for a disk. It looks through the root
  directory for the second-stage loader, reads the first sector of that file and jumps to it.
  The segment of the code and its data is the argument \<open>ds\<close>.
\<close>

unbundle bit_operations_syntax

section \<open>The code\<close>

abbreviation (input) LOADER_LMA :: u16 where "LOADER_LMA \<equiv> 0x2000"

definition ln :: cstring where
  "ln = msg ''LOADER  BIN''"

definition boot_read_sector ::
  "Bios \<Rightarrow> u16 \<Rightarrow> u8 \<Rightarrow> u8 \<Rightarrow> u8 \<Rightarrow> 'a bios_state_scheme \<Rightarrow> 'a bios_state_scheme" where
  "boot_read_sector B buff sector_no track_no head_no s =
     (case int13_read B 0x0201 buff (push_bit 8 (ucast track_no) OR ucast sector_no)
          (push_bit 8 (ucast head_no)) (seg_es s) (mem s) of
        (_, _, m) \<Rightarrow> s\<lparr>mem := m\<rparr>)"

text \<open>The comparison of two names, byte by byte, as far as both go on; \<open>r\<close> is the flag of the code.\<close>

fun compare_loop :: "bool \<Rightarrow> u8 list \<Rightarrow> u8 list \<Rightarrow> bool" where
  "compare_loop r (x # xs) (y # ys) = (if x \<noteq> y then False else compare_loop True xs ys)"
| "compare_loop r _ _ = r"

text \<open>The entries of the directory sector at \<open>a\<close>: the first cluster of the one that is looked for.\<close>

fun find_entry :: "mem \<Rightarrow> u32 \<Rightarrow> nat list \<Rightarrow> u16 option" where
  "find_entry m a [] = None"
| "find_entry m a (j # js) =
     (let f_c = push_bit 8 (ucast (m (a + of_nat (0x1b + j * 32)))) OR ucast (m (a + of_nat (0x1a + j * 32)));
          filename = map (\<lambda>i. m (a + of_nat (j * 32 + i))) [0..<11]
      in if compare_loop False filename ln then Some f_c else find_entry m a js)"

fun scan_root :: "Bios \<Rightarrow> u16 \<Rightarrow> nat list \<Rightarrow> 'a bios_state_scheme \<Rightarrow> u16 option \<times> 'a bios_state_scheme" where
  "scan_root B ds [] s = (None, s)"
| "scan_root B ds (i # is) s =
     (let s1 = boot_read_sector B LOADER_LMA (sector_of (int i)) (track_of (int i)) (head_of (int i)) s
      in case find_entry (mem s1) (seg_addr ds LOADER_LMA) [0..<512 div 32] of
           Some f_c \<Rightarrow> (Some f_c, s1)
         | None \<Rightarrow> scan_root B ds is s1)"

text \<open>
  \<open>main\<close> ends with a jump, whose target is returned, or in an endless loop. The call
  \<open>print('s')\<close> passes the code of the letter as the address of a string.
\<close>

definition boot_main :: "Bios \<Rightarrow> u16 \<Rightarrow> 'a bios_state_scheme \<Rightarrow> (u32 \<times> 'a bios_state_scheme) result" where
  "boot_main B ds s =
     (let s1 = boot_read_sector B LOADER_LMA 1 0 0 s;
          buff = seg_addr ds LOADER_LMA;
          byte_per_sector = unat (push_bit 8 (ucast (mem s1 (buff + 12))) OR ucast (mem s1 (buff + 11)) :: u16);
          root_entry_count = 224
      in if byte_per_sector = 0 then Inl Divide_error
         else
           let root_dir_sectors =
                 (if root_entry_count * 32 mod byte_per_sector \<noteq> 0
                  then root_entry_count * 32 div byte_per_sector + 1
                  else root_entry_count * 32 div byte_per_sector);
               (found, s2) = scan_root B ds [19..<Suc (root_dir_sectors + 19)] s1;
               read_sec = (case found of None \<Rightarrow> 0 | Some f_c \<Rightarrow> f_c - 2 + of_nat root_dir_sectors + 19)
           in if read_sec = 0 then Inl Hang
              else rbind (loop_result (str_at (mem s2) (seg_addr ds 0x73))) (\<lambda>str.
                let s3 = print str s2;
                    r = int (unat read_sec);
                    s4 = boot_read_sector B LOADER_LMA (sector_of r) (track_of r) (head_of r) s3
                in Inr (buff, s4)))"

section \<open>Reading sectors\<close>

interpretation boot_disk: sector_reader "boot_read_sector B" mem seg_es "serves B"
  for B
proof
  fix img t h c and b :: u16 and s :: "'a bios_state_scheme"
  assume "serves B img" and "in_geometry t h c 1" and "unat b + 512 \<le> 65536"
  then show "mem (boot_read_sector B b c t h s) = sectors img (lba t h c) 1 (seg_addr (seg_es s) b) (mem s)"
    using serves_reads [of B img t h c 1 b "seg_es s" "mem s"] by (simp add: boot_read_sector_def)
next
  fix b :: u16 and c t h and s :: "'a bios_state_scheme"
  show "seg_es (boot_read_sector B b c t h s) = seg_es s"
    by (simp add: boot_read_sector_def split: prod.split)
qed

lemma compare_loop_eq: "length xs = length ys \<Longrightarrow> xs \<noteq> [] \<Longrightarrow> compare_loop r xs ys \<longleftrightarrow> xs = ys"
proof (induction r xs ys rule: compare_loop.induct)
  case (1 r x xs y ys)
  then show ?case by (cases "xs = []") auto
qed auto

lemma find_append: "List.find P (xs @ ys) = (case List.find P xs of None \<Rightarrow> List.find P ys | Some x \<Rightarrow> Some x)"
  by (induction xs) auto

lemma find_entry_sector:
  assumes "\<And>k. k < 512 \<Longrightarrow> m (a + of_nat k) = img (512 * (19 + i) + k)" and "\<forall>j \<in> set js. j < 16"
  shows "find_entry m a js = map_option (dir_cluster img)
    (List.find (\<lambda>k. dir_name img k = ln) (map (\<lambda>j. 16 * i + j) js))"
  using assms(2)
proof (induction js)
  case (Cons j js)
  then have j: "j < 16" by simp
  note fields = dir_fields_sector [where m = m and a = a and img = img and i = i and j = j, OF assms(1) j]
  have "compare_loop False (dir_name img (16 * i + j)) ln \<longleftrightarrow> dir_name img (16 * i + j) = ln"
    by (rule compare_loop_eq) (simp_all add: dir_name_def ln_def msg_def)
  then show ?case
    using Cons fields by (cases "dir_name img (16 * i + j) = ln") (simp_all only: find_entry.simps Let_def, simp_all)
qed simp

lemma lma_fits: "unat LOADER_LMA + 512 \<le> 65536"
  by simp

lemma find_entry_read:
  assumes "serves B img" and "i + 19 < 2880" and "seg_es s = ds"
  defines "t \<equiv> boot_read_sector B LOADER_LMA (sector_of (int (i + 19))) (track_of (int (i + 19))) (head_of (int (i + 19))) s"
  shows "find_entry (mem t) (seg_addr ds LOADER_LMA) [0..<512 div 32] =
      map_option (dir_cluster img) (List.find (\<lambda>k. dir_name img k = ln) (map (\<lambda>j. 16 * i + j) [0..<16]))"
proof -
  have "mem t (seg_addr ds LOADER_LMA + of_nat k) = img (512 * (19 + i) + k)" if "k < 512" for k
    using boot_disk.reads_byte [OF assms(1,2) lma_fits that, of s] assms(3) by (simp add: t_def add.commute)
  then have "find_entry (mem t) (seg_addr ds LOADER_LMA) [0..<16] =
      map_option (dir_cluster img) (List.find (\<lambda>k. dir_name img k = ln) (map (\<lambda>j. 16 * i + j) [0..<16]))"
    by (rule find_entry_sector) simp_all
  then show ?thesis by simp
qed

lemma scan_root_finds:
  assumes "serves B img" and "seg_es s = ds" and "\<forall>i \<in> set is. i + 19 < 2880"
  shows "fst (scan_root B ds (map (\<lambda>i. i + 19) is) s) =
      map_option (dir_cluster img) (List.find (\<lambda>k. dir_name img k = ln) (entries is)) \<and>
    seg_es (snd (scan_root B ds (map (\<lambda>i. i + 19) is) s)) = ds \<and>
    (\<forall>x. \<not> addr_in (seg_addr ds LOADER_LMA) 512 x \<longrightarrow>
      mem (snd (scan_root B ds (map (\<lambda>i. i + 19) is) s)) x = mem s x)"
  using assms(2,3)
proof (induction "is" arbitrary: s)
  case Nil
  then show ?case by (simp add: entries_def)
next
  case (Cons i "is")
  let ?s = "boot_read_sector B LOADER_LMA (sector_of (int (i + 19))) (track_of (int (i + 19))) (head_of (int (i + 19))) s"
  let ?here = "List.find (\<lambda>k. dir_name img k = ln) (map (\<lambda>j. 16 * i + j) [0..<16])"
  have i: "i + 19 < 2880" using Cons.prems(2) by simp
  have ent: "entries (i # is) = map (\<lambda>j. 16 * i + j) [0..<16] @ entries is" by (simp add: entries_def)
  have es: "seg_es ?s = ds" using Cons.prems(1) by (simp add: boot_disk.reads_segment)
  have out: "mem ?s x = mem s x" if "\<not> addr_in (seg_addr ds LOADER_LMA) 512 x" for x
    using boot_disk.reads_outside [OF assms(1) i lma_fits, of s x] that Cons.prems(1) by simp
  note found = find_entry_read [OF assms(1) i Cons.prems(1)]
  show ?case
  proof (cases ?here)
    case None
    then have "scan_root B ds (map (\<lambda>i. i + 19) (i # is)) s = scan_root B ds (map (\<lambda>i. i + 19) is) ?s"
      using found by (simp add: Let_def)
    then show ?thesis using Cons.IH [OF es] Cons.prems(2) None out unfolding ent find_append by simp
  next
    case (Some k)
    then have "scan_root B ds (map (\<lambda>i. i + 19) (i # is)) s = (Some (dir_cluster img k), ?s)"
      using found by (simp add: Let_def)
    then show ?thesis using es out Some unfolding ent find_append by simp
  qed
qed

lemma str_at_returns: "m (a + of_nat j) = 0 \<Longrightarrow> \<exists>cs. str_at m a = Some cs"
proof (induction j arbitrary: a)
  case 0
  then show ?case by (subst str_at.simps) simp
next
  case (Suc j)
  have "\<exists>cs. str_at m (a + 1) = Some cs" using Suc by (intro Suc.IH) (simp add: algebra_simps)
  then show ?case by (subst str_at.simps) auto
qed

lemma loader_before_buffer:
  assumes "j < 0x1f8d"
  shows "\<not> addr_in (seg_addr ds LOADER_LMA) 512 (seg_addr ds 0x73 + of_nat j)"
proof -
  have eq: "seg_addr ds 0x73 + of_nat j - seg_addr ds LOADER_LMA = 0 - (of_nat (0x1f8d - j) :: u32)"
    using assms by (simp add: seg_addr_def)
  have "unat (0 - (of_nat (0x1f8d - j) :: u32)) = 4294967296 - (0x1f8d - j)"
    unfolding unat_sub_if_size using assms by (simp add: unat_of_nat32 word_size del: of_nat_diff)
  then show ?thesis using assms unfolding addr_in_def eq by linarith
qed

section \<open>What the boot sector loads\<close>

text \<open>C21. On a disk with 512 bytes to the sector that has a file LOADER.BIN among the 240 entries that are
  looked at, the boot sector jumps to its buffer with the first sector of that file in it and
  no other byte of memory changed. The bytes at 0x73, printed by mistake, have to end with a NUL
  before the buffer.\<close>

theorem boot_main_loads:
  assumes disk: "serves B img" "img 11 = 0" "img 12 = 2"
    and seg: "seg_es s = ds"
    and loader: "List.find (\<lambda>k. dir_name img k = ln) [0..<240] = Some k"
    and clus: "2 \<le> unat (dir_cluster img k)" "unat (dir_cluster img k) + 31 < 2880"
    and nul: "j < 0x1f8d" "mem s (seg_addr ds 0x73 + of_nat j) = 0"
  shows "\<exists>s'. boot_main B ds s = Inr (seg_addr ds LOADER_LMA, s') \<and>
    (\<forall>i < 512. mem s' (seg_addr ds LOADER_LMA + of_nat i) = img (512 * (unat (dir_cluster img k) + 31) + i)) \<and>
    (\<forall>x. \<not> addr_in (seg_addr ds LOADER_LMA) 512 x \<longrightarrow> mem s' x = mem s x)"
proof -
  let ?b = "seg_addr ds LOADER_LMA" and ?s1 = "boot_read_sector B LOADER_LMA 1 0 0 s" and ?c = "dir_cluster img k"
  have first: "sector_of (int 0) = 1" "track_of (int 0) = 0" "head_of (int 0) = 0"
    by (simp_all add: sector_of_def track_of_def head_of_def signed_divide_int_def signed_modulo_int_def)
  have "mem ?s1 (?b + of_nat i) = img i" if "i < 512" for i
    using boot_disk.reads_byte [OF disk(1) _ lma_fits that, of 0 s] seg first by simp
  from this [of 11] this [of 12] have bps: "mem ?s1 (?b + 11) = 0" "mem ?s1 (?b + 12) = 2" using disk by simp_all
  have es: "seg_es ?s1 = ds" using seg by (simp add: boot_disk.reads_segment)
  have out1: "mem ?s1 x = mem s x" if "\<not> addr_in ?b 512 x" for x
    using boot_disk.reads_outside [OF disk(1) _ lma_fits, of 0 s x] that seg first by simp
  define r where "r = scan_root B ds [19..<34] ?s1"
  have "[19..<34] = map (\<lambda>i. i + 19) [0..<15 :: nat]" by code_simp
  then have scan: "fst r = Some ?c" "seg_es (snd r) = ds" "\<And>x. \<not> addr_in ?b 512 x \<Longrightarrow> mem (snd r) x = mem ?s1 x"
    using scan_root_finds [OF disk(1) es, of "[0..<15]"] loader unfolding r_def entries_root by simp_all
  have "mem (snd r) (seg_addr ds 0x73 + of_nat j) = 0"
    using nul scan(3) out1 loader_before_buffer [OF nul(1), of ds] by simp
  then obtain str where str: "str_at (mem (snd r)) (seg_addr ds 0x73) = Some str" using str_at_returns by blast
  let ?read = "?c - 2 + of_nat 14 + 19"
  have read: "unat ?read = unat ?c + 31"
  proof -
    have "?read = of_nat (unat ?c + 31)" by simp
    then show ?thesis using clus by (simp only: unat_of_nat) (simp add: take_bit_nat_eq_self)
  qed
  then have nz: "?read \<noteq> 0" by (metis add_is_0 unat_0 zero_neq_numeral)
  let ?i = "unat ?c + 31"
  let ?s' = "boot_read_sector B LOADER_LMA (sector_of (int ?i)) (track_of (int ?i)) (head_of (int ?i)) (print str (snd r))"
  have pair: "scan_root B ds [19..<Suc (14 + 19)] ?s1 = (Some ?c, snd r)"
    using scan(1) by (simp add: r_def prod_eq_iff del: upt_rec_numeral upt_Suc)
  have sizes: "unat (push_bit 8 (ucast (2 :: u8)) OR ucast (0 :: u8) :: u16) = 512" "(224 * 32 mod 512 \<noteq> (0 :: nat)) = False"
    "224 * 32 div 512 = (14 :: nat)" "(512 = (0 :: nat)) = False" by simp_all
  have "boot_main B ds s = Inr (?b, ?s')"
    using nz by (simp only: boot_main_def Let_def bps sizes if_False pair prod.case option.case read str
        loop_result_Some rbind_Inr)
  moreover have "mem ?s' (?b + of_nat i) = img (512 * ?i + i)" if "i < 512" for i
    using boot_disk.reads_byte [OF disk(1) clus(2) lma_fits that, of "print str (snd r)"] scan(2) by simp
  moreover have "mem ?s' x = mem s x" if "\<not> addr_in ?b 512 x" for x
    using boot_disk.reads_outside [OF disk(1) clus(2) lma_fits, of "print str (snd r)" x] that scan(2,3) out1 by simp
  ultimately show ?thesis by blast
qed

theorem boot_main_loads_witness:
  "\<exists>s'. boot_main (drive (one_file ln)) 0 blank_bios = Inr (0x2000, s') \<and> mem s' 0x2000 = 0xeb"
proof -
  have "length ln = 11" by (simp add: ln_def msg_def)
  note name = one_file_name [OF this]
  have "List.find (\<lambda>k. dir_name (one_file ln) k = ln) [0..<240] = Some 0"
    using name(1) by (subst upt_conv_Cons) simp_all
  moreover have "seg_addr 0 LOADER_LMA = 0x2000" by (simp add: seg_addr_def)
  moreover have "one_file ln 11 = 0" "one_file ln 12 = 2" "one_file ln (512 * 33 + 0) = 0xeb" by (simp_all add: one_file_def)
  moreover have "seg_es blank_bios = 0" "mem blank_bios x = 0" for x by (simp_all add: blank_bios_def)
  ultimately show ?thesis
    using boot_main_loads [OF drive_serves, of "one_file ln" blank_bios 0 0 0] name(2) by force
qed

end
