(* ===== verification/Kernel_Loader.thy ===== *)
theory Kernel_Loader
  imports Boot_Sector Elf
begin

text \<open>
  The second-stage loader: kernel_loader/kernel_loader.c, in the mode between real and protected
  mode in which fs reaches all of memory. It reads the parameters of the disk, looks for
  the kernel in the root directory, follows the chain of its clusters through the allocation
  table and copies them to 0x300000. The code and its data are in one segment; the offsets of its
  two buffers are decided by the linker. The other globals are fields of the state.
\<close>

unbundle bit_operations_syntax

section \<open>State\<close>

record BPB =
  vendor_name :: "u8 list"
  byte_per_sector :: u16
  sector_per_cluster :: u8
  boot_occupy_sector :: u16
  fat_count :: u8
  root_entry_count :: u16
  logic_sector_count :: u16
  floppy_type :: u8
  fat_occupy_sector :: u16
  sector_per_track :: u16
  head_count :: u16
  hidden_sector_count :: u16
  root_dir_occupy_sector :: u16
  root_dir_start_sector :: u16

record loader = bios_state +
  bpb :: BPB
  kernel_addr :: u32

record Loader_Link =
  loader_ds :: u16
  fat_buffer :: u16
  read_data :: u16

record drive_params =
  spt :: u8
  numh :: u8

abbreviation (input) IMAGE_LMA :: u16 where "IMAGE_LMA \<equiv> 0x4000"

definition kernel_name :: cstring where
  "kernel_name = msg ''P_KERNELELF''"

text \<open>Two bytes of a buffer as the code joins them.\<close>

definition join :: "u8 \<Rightarrow> u8 \<Rightarrow> u16" where
  "join hi lo = push_bit 8 (ucast hi) OR ucast lo"

definition init_bpb :: "mem \<Rightarrow> u32 \<Rightarrow> BPB \<Rightarrow> BPB" where
  "init_bpb m buff b =
     (let logic = join (m (buff + 0x14)) (m (buff + 0x13))
      in b\<lparr>vendor_name := map (\<lambda>i. m (buff + of_nat (0x3 + i))) [0..<9],
           byte_per_sector := join (m (buff + 12)) (m (buff + 11)),
           sector_per_cluster := m (buff + 0xd),
           boot_occupy_sector := join (m (buff + 0xf)) (m (buff + 0xe)),
           fat_count := m (buff + 0x10),
           root_entry_count := join (m (buff + 18)) (m (buff + 17)),
           logic_sector_count := (if logic = 0 then join (m (buff + 0x23)) (m (buff + 0x20)) else logic),
           fat_occupy_sector := join (m (buff + 0x17)) (m (buff + 0x16)),
           sector_per_track := join (m (buff + 0x19)) (m (buff + 0x18)),
           head_count := join (m (buff + 0x1b)) (m (buff + 0x1a)),
           hidden_sector_count := join (m (buff + 0x1f)) (m (buff + 0x1c))\<rparr>)"

section \<open>Output\<close>

definition printn :: "cstring \<Rightarrow> nat \<Rightarrow> 'a bios_state_scheme \<Rightarrow> 'a bios_state_scheme" where
  "printn str num s = fold (\<lambda>i. print_ch (str ! i)) [0..<num] s"

text \<open>
  \<open>itoa\<close> is \<open>s32_itoa_s\<close> of io/k_stdio.c under another name. The most negative number is its own
  negation, and its first digit is looked for in front of the table.
\<close>

definition itoa :: "int \<Rightarrow> int \<Rightarrow> cstring result" where
  "itoa n radix = (if radix = 10 \<and> n = - (2 ^ 31) then Inl Out_of_bounds else s32_itoa_s n radix)"

definition s16_print_int :: "int \<Rightarrow> int \<Rightarrow> 'a bios_state_scheme \<Rightarrow> 'a bios_state_scheme result" where
  "s16_print_int i radix s = rbind (itoa i radix) (\<lambda>str. Inr (print str s))"

definition print_num :: "int \<Rightarrow> cstring \<Rightarrow> 'a bios_state_scheme \<Rightarrow> 'a bios_state_scheme result" where
  "print_num n sy s =
     rbind (itoa n 10) (\<lambda>str. Inr (print str (print (msg '':'') (print sy (print CRLF s)))))"

text \<open>The macro \<open>NAME_VALUE\<close>.\<close>

definition name_value :: "string \<Rightarrow> int \<Rightarrow> 'a bios_state_scheme \<Rightarrow> 'a bios_state_scheme result" where
  "name_value name v s = s16_print_int v 10 (print (msg '': '') (print (msg name) (print CRLF s)))"

definition h2c_16 :: "u8 \<Rightarrow> u8 \<times> u8" where
  "h2c_16 hex =
     (let l = drop_bit 4 hex; c0 = (if l \<le> 9 then l + 0x30 else l + 0x61 - 0xa);
          r = hex AND 0x0f; c1 = (if r \<le> 9 then r + 0x30 else r + 0x61 - 0xa)
      in (c0, c1))"

definition dump_u8 :: "u32 \<Rightarrow> int \<Rightarrow> 'a bios_state_scheme \<Rightarrow> 'a bios_state_scheme" where
  "dump_u8 buff count s =
     fold (\<lambda>i t. let t1 = (if i mod 16 = 0 then print CRLF t else t); (c0, c1) = h2c_16 (mem t1 (buff + of_nat i))
                 in print [c0, c1, 0x20] t1) [0..<nat count] s"

text \<open>
  The bytes of the structure \<open>BPB\<close> with the padding of the compiler, which holds the 1 that the
  start-up code fills the bss with; \<open>vendor_name\<close> is printed up to the first NUL among them.
\<close>

definition half :: "u16 \<Rightarrow> u8 list" where
  "half w = [ucast w, ucast (drop_bit 8 w)]"

definition bpb_bytes :: "BPB \<Rightarrow> u8 list" where
  "bpb_bytes b =
     vendor_name b @ [1] @ half (byte_per_sector b) @ [sector_per_cluster b, 1] @ half (boot_occupy_sector b)
     @ [fat_count b, 1] @ half (root_entry_count b) @ half (logic_sector_count b) @ [floppy_type b, 1]
     @ half (fat_occupy_sector b) @ half (sector_per_track b) @ half (head_count b)
     @ half (hidden_sector_count b) @ half (root_dir_occupy_sector b) @ half (root_dir_start_sector b)"

definition name_values :: "(string \<times> int) list \<Rightarrow> 'a bios_state_scheme \<Rightarrow> 'a bios_state_scheme result" where
  "name_values nvs s = fold (\<lambda>(name, v) r. rbind r (name_value name v)) nvs (Inr s)"

definition print_bpb :: "BPB \<Rightarrow> 'a bios_state_scheme \<Rightarrow> 'a bios_state_scheme result" where
  "print_bpb b s =
     (if 0 \<notin> set (bpb_bytes b) then Inl Out_of_bounds
      else name_values
        [(''bpb->byte_per_sector'', int (unat (byte_per_sector b))),
         (''bpb->sector_per_cluster'', int (unat (sector_per_cluster b))),
         (''bpb->boot_occupy_sector'', int (unat (boot_occupy_sector b))),
         (''bpb->fat_count'', int (unat (fat_count b))),
         (''bpb->root_entry_count'', int (unat (root_entry_count b))),
         (''bpb->logic_sector_count'', int (unat (logic_sector_count b))),
         (''bpb->fat_occupy_sector'', int (unat (fat_occupy_sector b))),
         (''bpb->sector_per_track'', int (unat (sector_per_track b))),
         (''bpb->head_count'', int (unat (head_count b))),
         (''bpb->hidden_sector_count'', int (unat (hidden_sector_count b))),
         (''bpb->root_dir_occupy_sector'', int (unat (root_dir_occupy_sector b)))]
        (print (bpb_bytes b) (print (CRLF @ msg ''bpb->vendor_name: '') s)))"

section \<open>The disk\<close>

definition get_drive_params ::
  "Bios \<Rightarrow> drive_params \<Rightarrow> u8 \<Rightarrow> 'a bios_state_scheme \<Rightarrow> bool \<times> drive_params \<times> 'a bios_state_scheme" where
  "get_drive_params B p bios_drive s =
     (case int13_params B 0x0800 (ucast bios_drive) of
        (failed, tmp1, tmp2, es) \<Rightarrow>
          (failed,
           if failed then p else p\<lparr>spt := ucast (tmp1 AND 0x3F), numh := ucast (drop_bit 8 tmp2)\<rparr>,
           s\<lparr>seg_es := es\<rparr>))"

text \<open>The result says whether reading has failed; no caller looks at it.\<close>

definition read_sector ::
  "Bios \<Rightarrow> u16 \<Rightarrow> u8 \<Rightarrow> u8 \<Rightarrow> u8 \<Rightarrow> u8 \<Rightarrow> u8 \<Rightarrow> 'a bios_state_scheme \<Rightarrow> bool \<times> 'a bios_state_scheme" where
  "read_sector B buff sector_no track_no head_no disk_no n s =
     (case int13_read B (0x0200 OR ucast n) buff (push_bit 8 (ucast track_no) OR ucast sector_no)
          (push_bit 8 (ucast head_no) OR ucast disk_no) (seg_es s) (mem s) of
        (failed, transferred, m) \<Rightarrow> (failed \<or> transferred \<noteq> ucast n, s\<lparr>mem := m\<rparr>))"

text \<open>
  The comparison of at most \<open>n\<close> bytes; the end of a list is its NUL. Where one of the strings
  has ended the pointers stay, and the rest of the loop does nothing.
\<close>

fun strncmp_loop :: "nat \<Rightarrow> cstring \<Rightarrow> cstring \<Rightarrow> int" where
  "strncmp_loop 0 s1 s2 = 0"
| "strncmp_loop (Suc n) (x # xs) (y # ys) =
     (if x \<noteq> 0 \<and> y \<noteq> 0 then (if x \<noteq> y then -1 else strncmp_loop n xs ys)
      else strncmp_loop n (x # xs) (y # ys))"
| "strncmp_loop (Suc n) s1 s2 = strncmp_loop n s1 s2"

definition s_strncmp :: "cstring \<Rightarrow> cstring \<Rightarrow> u8 \<Rightarrow> int" where
  "s_strncmp s1 s2 n = strncmp_loop (unat n) s1 s2"

definition read_fat :: "Bios \<Rightarrow> u16 \<Rightarrow> u16 \<Rightarrow> 'a bios_state_scheme \<Rightarrow> 'a bios_state_scheme" where
  "read_fat B fat_buf fat_sector_no s =
     (let track_no = ucast (drop_bit 1 (fat_sector_no div 18));
          head_no = ucast ((fat_sector_no div 18) AND 1);
          sector_no = ucast (fat_sector_no mod 18)
      in snd (read_sector B fat_buf sector_no track_no head_no 0 2 s))"

definition is_odd :: "int \<Rightarrow> int" where
  "is_odd n = (if n smod 2 = 0 then -1 else 1)"

definition get_next_cluster :: "Bios \<Rightarrow> Loader_Link \<Rightarrow> u16 \<Rightarrow> 'a bios_state_scheme \<Rightarrow> u16 \<times> 'a bios_state_scheme" where
  "get_next_cluster B L cur_cluster s =
     (let cur = unat cur_cluster;
          offset = (if is_odd (int cur) = 1 then (cur - 1) div 2 * 3 else cur div 2 * 3);
          read_fat_sector_no = of_nat (offset div 512 + 2);
          short_offset = offset mod 512;
          s1 = read_fat B (fat_buffer L) read_fat_sector_no s;
          byte = (\<lambda>i. mem s1 (seg_addr (loader_ds L) (fat_buffer L) + of_nat i));
          next_cluster =
            (if is_odd (int cur) = 1
             then (drop_bit 4 (ucast (byte (short_offset + 1))) AND 0x0f) OR push_bit 4 (ucast (byte (short_offset + 2)))
             else push_bit 8 (ucast (byte (short_offset + 1)) AND 0x0f) OR ucast (byte short_offset) :: u32)
      in (ucast next_cluster, s1))"

section \<open>Loading a file\<close>

text \<open>The byte-wise copy from the segment of the loader to any address (kloader_init.S).\<close>

definition asm_4g_memcpy :: "u16 \<Rightarrow> u32 \<Rightarrow> u16 \<Rightarrow> nat \<Rightarrow> mem \<Rightarrow> mem" where
  "asm_4g_memcpy ds dest src n m = memcpy_loop n m dest (seg_addr ds src)"

definition cluster_sector :: "BPB \<Rightarrow> int \<Rightarrow> int" where
  "cluster_sector b c = c - 2 + int (unat (root_dir_occupy_sector b)) + int (unat (root_dir_start_sector b))"

definition load_sector :: "Bios \<Rightarrow> Loader_Link \<Rightarrow> int \<Rightarrow> 'a loader_scheme \<Rightarrow> 'a loader_scheme" where
  "load_sector B L r_sec s =
     (let (_, s1) = read_sector B (read_data L) (sector_of r_sec) (track_of r_sec) (head_of r_sec) 0 1 s
      in s1\<lparr>mem := asm_4g_memcpy (loader_ds L) (kernel_addr s1) (read_data L) 512 (mem s1),
            kernel_addr := kernel_addr s1 + 512\<rparr>)"

partial_function (option) load_clusters ::
  "Bios \<Rightarrow> Loader_Link \<Rightarrow> u16 \<Rightarrow> 'a loader_scheme \<Rightarrow> 'a loader_scheme option" where
  "load_clusters B L cur_cluster s =
     (let (next_cluster, s1) = get_next_cluster B L cur_cluster s
      in if next_cluster = 0xfff then Some s1
         else load_clusters B L next_cluster
           (print (msg ''.'') (load_sector B L (cluster_sector (bpb s1) (int (unat next_cluster))) s1)))"

definition load_file_to_ram ::
  "Bios \<Rightarrow> Loader_Link \<Rightarrow> int \<Rightarrow> bool \<Rightarrow> 'a loader_scheme \<Rightarrow> 'a loader_scheme result" where
  "load_file_to_ram B L begin_cluster fat s =
     (let r_sec = cluster_sector (bpb s) begin_cluster
      in rbind (print_num begin_cluster (msg ''begin_cluster'') s) (\<lambda>s1.
         rbind (print_num r_sec (msg ''cluster sector no'') s1) (\<lambda>s2.
           let s3 = print (CRLF @ msg ''.'') (load_sector B L r_sec s2)
           in if fat then loop_result (load_clusters B L (word_of_int begin_cluster) s3) else Inr s3)))"

section \<open>Looking for the kernel\<close>

record search =
  f_c :: u16
  file_size :: u32
  first_kernel_cluster :: int

text \<open>
  The entries of the directory sector at \<open>buff\<close>. The flag says that the search has ended; the
  file names are printed.
\<close>

fun scan_entries :: "u32 \<Rightarrow> nat list \<Rightarrow> search \<Rightarrow> 'a loader_scheme \<Rightarrow> bool \<times> search \<times> 'a loader_scheme" where
  "scan_entries buff [] se s = (False, se, s)"
| "scan_entries buff (j # js) se s =
     (let byte = (\<lambda>i. mem s (buff + of_nat (j * 32 + i)));
          se1 = se\<lparr>f_c := join (byte 0x1b) (byte 0x1a),
                  file_size := push_bit 24 (ucast (byte 0x1f)) OR push_bit 16 (ucast (byte 0x1e))
                    OR push_bit 8 (ucast (byte 0x1d)) OR ucast (byte 0x1c)\<rparr>;
          filename = map byte [0..<11]
      in if filename ! 0 = 0xe5 then scan_entries buff js se1 s
         else if filename ! 0 = 0 then (True, se1, print (CRLF @ msg ''search end'' @ CRLF) s)
         else if drop_bit 3 (byte 0x0b) AND 1 = 1
         then scan_entries buff js se1 (print filename (print (msg ''label:'') (print CRLF s)))
         else
           let s1 = print filename (print CRLF s)
           in if s_strncmp filename kernel_name 11 = 0
              then (True, se1\<lparr>first_kernel_cluster := int (unat (f_c se1))\<rparr>,
                    print (msg ''load it'' @ CRLF) (print CRLF s1))
              else scan_entries buff js se1 s1)"

fun scan_sectors ::
  "Bios \<Rightarrow> Loader_Link \<Rightarrow> nat list \<Rightarrow> search \<Rightarrow> 'a loader_scheme \<Rightarrow> (search \<times> 'a loader_scheme) result" where
  "scan_sectors B L [] se s = Inr (se, s)"
| "scan_sectors B L (i # is) se s =
     rbind (s16_print_int (int i) 10 (print (CRLF @ msg ''read sector no: '') s)) (\<lambda>s1.
       let (_, s2) = read_sector B IMAGE_LMA (sector_of (int i)) (track_of (int i)) (head_of (int i)) 0 1 s1;
           (stop, se1, s3) = scan_entries (seg_addr (loader_ds L) IMAGE_LMA) [0..<512 div 32] se s2
       in if stop then Inr (se1, s3) else scan_sectors B L is se1 s3)"

section \<open>The memory dump\<close>

text \<open>
  \<open>dump_memory\<close> of kloader_init.S ignores its arguments: it shows the sixteen bytes at 0x300000 in
  the first line of the screen, two digits and a gap of one cell each.
\<close>

definition disp_digit :: "u8 \<Rightarrow> u8" where
  "disp_digit l = (if l \<le> 9 then l + 0x30 else l - 0x0a + 0x41)"

fun dump_loop :: "nat \<Rightarrow> u32 \<Rightarrow> u32 \<Rightarrow> mem \<Rightarrow> mem" where
  "dump_loop 0 src vb m = m"
| "dump_loop (Suc n) src vb m =
     (let al = m src
      in dump_loop n (src + 1) (vb + 6)
           (m(vb := disp_digit (drop_bit 4 al AND 0x0f), vb + 1 := 9,
              vb + 2 := disp_digit (al AND 0x0f), vb + 3 := 9)))"

definition dump_memory :: "mem \<Rightarrow> mem" where
  "dump_memory m = dump_loop 16 0x300000 0xb8000 m"

section \<open>The loader\<close>

text \<open>
  \<open>start_c\<close> up to the switch to protected mode. The local \<open>dp\<close> holds what the stack held when
  the BIOS does not fill it.
\<close>

definition root_dir_size :: "BPB \<Rightarrow> nat" where
  "root_dir_size b =
     (let bytes = unat (root_entry_count b) * 32; size = unat (byte_per_sector b)
      in if bytes mod size \<noteq> 0 then bytes div size + 1 else bytes div size)"

definition read_bpb :: "Bios \<Rightarrow> Loader_Link \<Rightarrow> 'a loader_scheme \<Rightarrow> 'a loader_scheme result" where
  "read_bpb B L s =
     (let (_, s1) = read_sector B IMAGE_LMA 1 0 0 0 1 s;
          b = init_bpb (mem s1) (seg_addr (loader_ds L) IMAGE_LMA) (bpb s1)
      in if byte_per_sector b = 0 then Inl Divide_error
         else let b1 = b\<lparr>root_dir_occupy_sector := of_nat (root_dir_size b)\<rparr>
              in rbind (print_bpb b1 (s1\<lparr>bpb := b1\<rparr>)) (\<lambda>s2.
                Inr (s2\<lparr>bpb := b1\<lparr>root_dir_start_sector :=
                  ucast (fat_count b1) * fat_occupy_sector b1 + boot_occupy_sector b1\<rparr>\<rparr>)))"

definition search_root :: "Bios \<Rightarrow> Loader_Link \<Rightarrow> 'a loader_scheme \<Rightarrow> (search \<times> 'a loader_scheme) result" where
  "search_root B L s =
     (let root_sec_no = unat (root_dir_start_sector (bpb s));
          last_sec_no = unat (root_dir_occupy_sector (bpb s)) + root_sec_no
      in rbind (s16_print_int (int root_sec_no) 10 (print (CRLF @ msg ''root dir sector starts: '') s)) (\<lambda>s1.
         scan_sectors B L [root_sec_no..<Suc last_sec_no] \<lparr>f_c = 0, file_size = 0, first_kernel_cluster = -1\<rparr>
           (print (CRLF @ msg ''read root dir sector to get file name info'') s1)))"

definition start_c :: "Bios \<Rightarrow> Loader_Link \<Rightarrow> drive_params \<Rightarrow> 'a loader_scheme \<Rightarrow> 'a loader_scheme result" where
  "start_c B L dp s =
     (let org_es = seg_es s; (_, dp1, s1) = get_drive_params B dp 0 s
      in rbind (name_values [(''dp.spt'', int (unat (spt dp1))), (''dp.numh'', int (unat (numh dp1)))] s1) (\<lambda>s2.
         rbind (read_bpb B L (print (msg ''begin c'') (print CRLF (s2\<lparr>seg_es := org_es\<rparr>)))) (\<lambda>s3.
         rbind (search_root B L s3) (\<lambda>(se, s4).
         rbind (s16_print_int (first_kernel_cluster se) 10 (print (CRLF @ msg ''first_kernel_cluster: '') s4)) (\<lambda>s5.
         rbind (s16_print_int (-1) 10 (print (CRLF @ msg ''first_ramdisk_cluster: '') s5)) (\<lambda>s6.
         rbind (load_file_to_ram B L (first_kernel_cluster se) (512 < unat (file_size se))
             (print kernel_name (print (CRLF @ msg ''load kernel: '') s6))) (\<lambda>s7.
         rbind (name_value ''file_size'' (sint (file_size se)) (print (CRLF @ msg ''load kernel size:'' @ CRLF) s7)) (\<lambda>s8.
           Inr (print CRLF s8\<lparr>mem := dump_memory (mem s8)\<rparr>)))))))))"

end
