(* ===== verification/Fat_Chain.thy ===== *)
theory Fat_Chain
  imports Kernel_Loader
begin

text \<open>
  What the loader reads from the disk: the entry of the allocation table it decodes, and the clusters of a file
  it places in memory.
\<close>

unbundle bit_operations_syntax

section \<open>Reading sectors\<close>

interpretation loader_disk: sector_reader "\<lambda>b c t h s. snd (read_sector B b c t h 0 1 s)" mem seg_es "serves B"
  for B
proof
  fix img t h c and b :: u16 and s :: "'a bios_state_scheme"
  assume "serves B img" and "in_geometry t h c 1" and "unat b + 512 \<le> 65536"
  then show "mem (snd (read_sector B b c t h 0 1 s)) = sectors img (lba t h c) 1 (seg_addr (seg_es s) b) (mem s)"
    using serves_reads [of B img t h c 1 b "seg_es s" "mem s"] by (simp add: read_sector_def)
next
  fix b :: u16 and c t h and s :: "'a bios_state_scheme"
  show "seg_es (snd (read_sector B b c t h 0 1 s)) = seg_es s"
    by (simp add: read_sector_def split: prod.split)
qed

lemma read_sector_only_mem:
  "snd (read_sector B b c t h d n s) = s\<lparr>mem := mem (snd (read_sector B b c t h d n s))\<rparr>"
  by (simp add: read_sector_def split: prod.split)

lemma seg_addr_in_segment:
  assumes "unat b + n \<le> 65536" and "addr_in (seg_addr ds b) n x"
  shows "addr_in (seg_addr ds 0) 65536 x"
proof -
  have eq: "x - seg_addr ds 0 = (x - seg_addr ds b) + ucast b" by (simp add: seg_addr_def)
  have "unat (x - seg_addr ds b) + unat (ucast b :: u32) < 65536"
    using assms by (simp add: addr_in_def)
  then have "unat ((x - seg_addr ds b) + ucast b) = unat (x - seg_addr ds b) + unat (ucast b :: u32)"
    by (simp add: unat_word_ariths)
  then show ?thesis using assms unfolding addr_in_def eq by simp
qed

section \<open>The allocation table\<close>

text \<open>
  Entry \<open>n\<close> of the table, which starts at the second sector: three bytes hold two entries of
  twelve bits.
\<close>

definition fat_entry :: "floppy \<Rightarrow> nat \<Rightarrow> nat" where
  "fat_entry img n =
     (let p = 512 + 3 * (n div 2)
      in if odd n then unat (img (p + 1)) div 16 + 16 * unat (img (p + 2))
         else unat (img p) + 256 * (unat (img (p + 1)) mod 16))"

lemma or_push_bit_nat: "x < 2 ^ k \<Longrightarrow> x OR push_bit k y = x + 2 ^ k * (y :: nat)"
proof -
  assume "x < 2 ^ k"
  then have "take_bit k x = x" by (rule take_bit_nat_eq_self)
  then have "x AND push_bit k y = take_bit k x AND push_bit k y" by simp
  also have "\<dots> = 0" by (rule bit_eqI) (auto simp: bit_simps)
  finally show ?thesis by (simp add: disjunctive_add_eq_or [symmetric] push_bit_nat_def mult.commute)
qed

lemma odd_entry:
  "unat (ucast ((drop_bit 4 (ucast b) AND 0x0f) OR push_bit 4 (ucast c) :: u32) :: u16) =
     unat b div 16 + 16 * unat c" for b c :: u8
proof -
  have b: "unat b < 256" and c: "unat c < 256" using unsigned_less [of b, where ?'a = nat] unsigned_less [of c, where ?'a = nat] by simp_all
  have "unat b div 16 \<le> 255 div 16" using b by (intro div_le_mono) simp
  then have d: "unat b div 16 < 16" by simp
  have "unat (drop_bit 4 (ucast b) AND 0x0f :: u32) = unat b div 16"
    using d unfolding and_masks by (simp add: unsigned_take_bit_eq unsigned_drop_bit_eq drop_bit_nat_def take_bit_nat_eq_self)
  moreover have "unat (push_bit 4 (ucast c) :: u32) = push_bit 4 (unat c)"
    using c by (simp add: unsigned_push_bit_eq take_bit_nat_eq_self push_bit_nat_def)
  ultimately have "unat ((drop_bit 4 (ucast b) AND 0x0f) OR push_bit 4 (ucast c) :: u32) = unat b div 16 + 16 * unat c"
    using d by (simp add: unsigned_or_eq or_push_bit_nat)
  then show ?thesis using d c by (simp add: unsigned_ucast_eq take_bit_nat_eq_self)
qed

lemma even_entry:
  "unat (ucast (push_bit 8 (ucast b AND 0x0f) OR ucast c :: u32) :: u16) = unat c + 256 * (unat b mod 16)"
  for b c :: u8
proof -
  have c: "unat c < 256" using unsigned_less [of c, where ?'a = nat] by simp
  have d: "unat b mod 16 < 16" by simp
  have "unat (ucast b AND 0x0f :: u32) = unat b mod 16"
    unfolding and_masks by (simp add: unsigned_take_bit_eq take_bit_nat_def)
  then have "unat (push_bit 8 (ucast b AND 0x0f) :: u32) = push_bit 8 (unat b mod 16)"
    using d by (simp add: unsigned_push_bit_eq take_bit_nat_eq_self push_bit_nat_def del: push_bit_and)
  then have "unat (push_bit 8 (ucast b AND 0x0f) OR ucast c :: u32) = unat c + 256 * (unat b mod 16)"
    using or_push_bit_nat [of "unat c" 8 "unat b mod 16"] c by (simp add: unsigned_or_eq or.commute del: push_bit_and)
  then show ?thesis using d c by (simp add: unsigned_ucast_eq take_bit_nat_eq_self)
qed

lemma read_fat_sectors:
  assumes "serves B img" and "0 < k" and "k < 18" and "unat fb + 1024 \<le> 65536"
  shows "mem (read_fat B fb (of_nat k) s) = sectors img (k - 1) 2 (seg_addr (seg_es s) fb) (mem s)"
proof -
  have k: "unat (of_nat k :: u16) = k" using assms(3) by (simp add: unat_of_nat take_bit_nat_eq_self)
  have "of_nat k div 18 = (0 :: u16)" "of_nat k mod 18 = (of_nat k :: u16)"
    using assms(3) k by (simp_all add: word_arith_nat_div word_arith_nat_mod)
  moreover have "unat (ucast (of_nat k :: u16) :: u8) = k"
    using assms(3) k by (simp add: unsigned_ucast_eq take_bit_nat_eq_self)
  ultimately show ?thesis
    using serves_reads [OF assms(1), of 0 0 "ucast (of_nat k :: u16)" 2 fb "seg_es s" "mem s"] assms(2-4)
    by (simp add: read_fat_def read_sector_def in_geometry_def lba_def)
qed

lemma is_odd_iff: "is_odd (int n) = 1 \<longleftrightarrow> odd n"
proof -
  have "int n smod 2 = int (n mod 2)" by (cases "n = 0") (simp_all add: signed_modulo_int_def zmod_int)
  then show ?thesis by (auto simp: is_odd_def odd_iff_mod_2_eq_one)
qed

lemma get_next_cluster_entry:
  assumes "serves B img" and "seg_es s = loader_ds L" and "unat (fat_buffer L) + 1024 \<le> 65536"
    and "unat cur < 4096"
  shows "unat (fst (get_next_cluster B L cur s)) = fat_entry img (unat cur)"
proof -
  let ?n = "unat cur" and ?buf = "seg_addr (loader_ds L) (fat_buffer L)"
  define off where "off = 3 * (?n div 2)"
  have "?n div 2 \<le> 4095 div 2" using assms(4) by (intro div_le_mono) simp
  then have "off \<le> 6141" by (simp add: off_def)
  then have "off div 512 \<le> 6141 div 512" by (rule div_le_mono)
  then have q: "off div 512 + 2 < 18" by simp
  define t where "t = read_fat B (fat_buffer L) (of_nat (off div 512 + 2)) s"
  have byte: "mem t (?buf + of_nat (off mod 512 + e)) = img (512 + off + e)" if "e < 512" for e
  proof -
    have "off mod 512 + e < 1024" using that mod_less_divisor [of 512 off] by linarith
    moreover have "512 * (off div 512 + 1) + (off mod 512 + e) = 512 + off + e"
      using div_mult_mod_eq [of off 512] by (simp add: algebra_simps)
    moreover have "mem t = sectors img (off div 512 + 1) 2 ?buf (mem s)"
      using read_fat_sectors [OF assms(1) _ q assms(3), of s] assms(2) by (simp add: t_def)
    ultimately show ?thesis
      by (simp add: sectors_def addr_in_def unat_of_nat32 add.left_commute add.assoc del: of_nat_add)
  qed
  have odd: "(?n - 1) div 2 = ?n div 2" if "odd ?n" using that by (elim oddE) simp
  show ?thesis
  proof (cases "odd ?n")
    case True
    have par: "(is_odd (int ?n) = 1) = True" using True is_odd_iff [of ?n] by blast
    have "get_next_cluster B L cur s =
        (ucast ((drop_bit 4 (ucast (mem t (?buf + of_nat (off mod 512 + 1)))) AND 0x0f)
           OR push_bit 4 (ucast (mem t (?buf + of_nat (off mod 512 + 2)))) :: u32), t)"
      unfolding get_next_cluster_def Let_def t_def off_def
      by (simp only: par if_True odd [OF True] mult.commute)
    then show ?thesis using True byte [of 1] byte [of 2]
      by (simp only: fst_conv odd_entry fat_entry_def Let_def if_True) (simp add: off_def)
  next
    case False
    have par: "(is_odd (int ?n) = 1) = False" using False is_odd_iff [of ?n] by blast
    have "get_next_cluster B L cur s =
        (ucast (push_bit 8 (ucast (mem t (?buf + of_nat (off mod 512 + 1))) AND 0x0f)
           OR ucast (mem t (?buf + of_nat (off mod 512))) :: u32), t)"
      unfolding get_next_cluster_def Let_def t_def off_def
      by (simp only: par if_False mult.commute)
    then show ?thesis using False byte [of 1] byte [of 0]
      by (simp only: fst_conv even_entry fat_entry_def Let_def if_False add_0_right) (simp add: off_def)
  qed
qed

lemma get_next_cluster_frame:
  assumes "serves B img" and "seg_es s = loader_ds L" and "unat (fat_buffer L) + 1024 \<le> 65536"
    and "unat cur < 4096"
  shows "\<exists>m. snd (get_next_cluster B L cur s) = s\<lparr>mem := m\<rparr> \<and>
    (\<forall>x. \<not> addr_in (seg_addr (loader_ds L) 0) 65536 x \<longrightarrow> m x = mem s x)"
proof -
  let ?n = "unat cur"
  define off where "off = (if is_odd (int ?n) = 1 then (?n - 1) div 2 * 3 else ?n div 2 * 3)"
  have "(?n - 1) div 2 \<le> 4095 div 2" "?n div 2 \<le> 4095 div 2" using assms(4) by (intro div_le_mono; simp)+
  then have "off \<le> 6141" by (simp add: off_def)
  then have "off div 512 \<le> 6141 div 512" by (rule div_le_mono)
  then have q: "off div 512 + 2 < 18" by simp
  define t where "t = read_fat B (fat_buffer L) (of_nat (off div 512 + 2)) s"
  have "snd (get_next_cluster B L cur s) = t" by (simp only: get_next_cluster_def Let_def snd_conv t_def off_def)
  moreover have "t = s\<lparr>mem := mem t\<rparr>"
    unfolding t_def read_fat_def Let_def by (rule read_sector_only_mem)
  moreover have "mem t x = mem s x" if "\<not> addr_in (seg_addr (loader_ds L) 0) 65536 x" for x
  proof -
    have "\<not> addr_in (seg_addr (loader_ds L) (fat_buffer L)) 1024 x"
      using that seg_addr_in_segment [OF assms(3)] by blast
    then show ?thesis using read_fat_sectors [OF assms(1) _ q assms(3), of s] assms(2)
      by (simp add: t_def sectors_def)
  qed
  ultimately show ?thesis by metis
qed

section \<open>The clusters of a file\<close>

text \<open>
  The chain of clusters after \<open>c\<close>, all of them on the disk, when cluster 2 is at sector \<open>off\<close>;
  and byte \<open>p\<close> of the file made of the clusters \<open>cs\<close>.
\<close>

fun fat_chain :: "floppy \<Rightarrow> nat \<Rightarrow> nat \<Rightarrow> nat list \<Rightarrow> bool" where
  "fat_chain img off c [] \<longleftrightarrow> fat_entry img c = 0xfff"
| "fat_chain img off c (d # ds) \<longleftrightarrow>
     fat_entry img c = d \<and> 2 \<le> d \<and> d - 2 + off < 2880 \<and> fat_chain img off d ds"

definition file_byte :: "floppy \<Rightarrow> nat \<Rightarrow> nat list \<Rightarrow> nat \<Rightarrow> u8" where
  "file_byte img off cs p = img (512 * (cs ! (p div 512) - 2 + off) + p mod 512)"

lemma file_byte_Cons:
  "file_byte img off (c # cs) p = (if p < 512 then img (512 * (c - 2 + off) + p) else file_byte img off cs (p - 512))"
proof (cases "p < 512")
  case False
  then obtain q where q: "p = 512 + q" using le_Suc_ex by (metis not_less)
  have "(512 + q) div 512 = Suc (q div 512)" using div_add_self1 [of 512 q] by simp
  then show ?thesis by (simp add: file_byte_def q)
qed (simp add: file_byte_def)

lemma addr_in_unat:
  assumes "unat a + n \<le> 2 ^ 32"
  shows "addr_in a n x \<longleftrightarrow> unat a \<le> unat x \<and> unat x < unat a + n"
proof (cases "unat a \<le> unat x")
  case True
  then have "unat (x - a) = unat x - unat a" by (simp add: unat_sub word_le_nat_alt)
  then show ?thesis using True by (auto simp: addr_in_def)
next
  case False
  then have "unat (x - a) = unat x + 2 ^ 32 - unat a" by (simp add: unat_sub_if')
  then show ?thesis using False assms by (auto simp: addr_in_def)
qed

lemma segment_low: "addr_in (seg_addr ds 0) 65536 x \<Longrightarrow> unat x < 0x110000"
proof -
  assume in_seg: "addr_in (seg_addr ds 0) 65536 x"
  have "unat ds < 65536" using unsigned_less [of ds, where ?'a = nat] by simp
  then have "unat (seg_addr ds 0) = 16 * unat ds"
    by (simp add: seg_addr_def unsigned_push_bit_eq push_bit_nat_def take_bit_nat_eq_self)
  then show ?thesis using in_seg addr_in_unat [of "seg_addr ds 0" 65536 x] \<open>unat ds < 65536\<close> by simp
qed

text \<open>What is required of the loader's buffers and its state.\<close>

definition loader_ok :: "Loader_Link \<Rightarrow> nat \<Rightarrow> 'a loader_scheme \<Rightarrow> bool" where
  "loader_ok L off s \<longleftrightarrow>
     seg_es s = loader_ds L \<and> unat (fat_buffer L) + 1024 \<le> 65536 \<and> unat (read_data L) + 512 \<le> 65536
     \<and> off = unat (root_dir_occupy_sector (bpb s)) + unat (root_dir_start_sector (bpb s))"

lemma load_sector_places:
  assumes "serves B img" and "loader_ok L off s" and "i < 2880"
    and "0x110000 \<le> unat (kernel_addr s)" and "unat (kernel_addr s) + 512 \<le> 2 ^ 32"
  shows "\<exists>m. load_sector B L (int i) s = s\<lparr>mem := m, kernel_addr := kernel_addr s + 512\<rparr> \<and>
    (\<forall>x. 0x110000 \<le> unat x \<longrightarrow> m x =
       (if addr_in (kernel_addr s) 512 x then img (512 * i + unat (x - kernel_addr s)) else mem s x))"
proof -
  let ?ka = "kernel_addr s" and ?rd = "seg_addr (loader_ds L) (read_data L)"
  define t where "t = snd (read_sector B (read_data L) (sector_of (int i)) (track_of (int i)) (head_of (int i)) 0 1 s)"
  have fit: "unat (read_data L) + 512 \<le> 65536" and es: "seg_es s = loader_ds L"
    using assms(2) by (simp_all add: loader_ok_def)
  have mt: "mem t = sectors img i 1 ?rd (mem s)"
    unfolding t_def loader_disk.reads_logical [OF assms(1,3) fit] es ..
  have t: "t = s\<lparr>mem := mem t\<rparr>" unfolding t_def by (rule read_sector_only_mem)
  have high: "\<not> addr_in ?rd 512 x" if "0x110000 \<le> unat x" for x
    using seg_addr_in_segment [OF fit] segment_low that by (meson not_less)
  have "\<not> addr_in ?rd 512 x" if "addr_in ?ka 512 x" for x
    using that high [of x] addr_in_unat [OF assms(5)] assms(4) by auto
  then have copy: "asm_4g_memcpy (loader_ds L) ?ka (read_data L) 512 (mem t) x =
      (if addr_in ?ka 512 x then mem t (?rd + (x - ?ka)) else mem t x)" for x
    unfolding asm_4g_memcpy_def by (intro memcpy_loop_apply) auto
  have src: "mem t (?rd + (x - ?ka)) = img (512 * i + unat (x - ?ka))" if "addr_in ?ka 512 x" for x
    using that by (simp add: mt sectors_def addr_in_def)
  have rest: "mem t x = mem s x" if "0x110000 \<le> unat x" for x
    using high [OF that] by (simp add: mt sectors_def)
  have "load_sector B L (int i) s =
      t\<lparr>mem := asm_4g_memcpy (loader_ds L) (kernel_addr t) (read_data L) 512 (mem t), kernel_addr := kernel_addr t + 512\<rparr>"
    by (simp add: load_sector_def Let_def case_prod_unfold t_def)
  moreover have "kernel_addr t = ?ka" by (subst t) simp
  ultimately have "load_sector B L (int i) s =
      s\<lparr>mem := asm_4g_memcpy (loader_ds L) ?ka (read_data L) 512 (mem t), kernel_addr := ?ka + 512\<rparr>"
    by (subst (asm) (2) t) simp
  then show ?thesis using copy src rest by auto
qed

lemma fat_entry_12_bits: "fat_entry img n < 4096"
proof -
  have "unat b < 256" for b :: u8 using unsigned_less [of b, where ?'a = nat] by simp
  note b = this
  let ?p = "512 + 3 * (n div 2)"
  have "unat (img (?p + 1)) div 16 \<le> 255 div 16" using b [of "img (?p + 1)"] by (intro div_le_mono) simp
  moreover have "unat (img (?p + 1)) mod 16 < 16" by simp
  ultimately show ?thesis using b [of "img ?p"] b [of "img (?p + 2)"]
    unfolding fat_entry_def Let_def by (auto split: if_split)
qed

lemma print_only_text: "\<exists>t. print str s = s\<lparr>tty_out := t\<rparr>"
proof -
  have "\<exists>t. fold print_ch cs s = s\<lparr>tty_out := t\<rparr>" for cs
  proof (induction cs arbitrary: s)
    case Nil
    have "fold print_ch [] s = s\<lparr>tty_out := tty_out s\<rparr>" by simp
    then show ?case by blast
  next
    case (Cons c cs)
    then obtain t where "fold print_ch cs (print_ch c s) = print_ch c s\<lparr>tty_out := t\<rparr>" by blast
    then show ?case by (auto simp: print_ch_def [of c s])
  qed
  then show ?thesis by (simp add: print_def)
qed

lemma cluster_sector_nat:
  "loader_ok L off s \<Longrightarrow> 2 \<le> c \<Longrightarrow> cluster_sector (bpb s) (int c) = int (c - 2 + off)"
  by (simp add: loader_ok_def cluster_sector_def)

lemma placed_Cons:
  assumes "unat ka + 512 * length (d # ds) < 2 ^ 32"
    and "m2 x = (if addr_in ka 512 x then img (512 * (d - 2 + off) + unat (x - ka)) else v)"
    and "m3 x = (if addr_in (ka + 512) (512 * length ds) x then file_byte img off ds (unat (x - (ka + 512))) else m2 x)"
  shows "m3 x = (if addr_in ka (512 * length (d # ds)) x then file_byte img off (d # ds) (unat (x - ka)) else v)"
proof -
  have ka: "unat (ka + 512) = unat ka + 512" using assms(1) by (simp add: unat_word_ariths)
  have r: "addr_in ka (512 * length (d # ds)) x \<longleftrightarrow> unat ka \<le> unat x \<and> unat x < unat ka + 512 * length (d # ds)"
    "addr_in ka 512 x \<longleftrightarrow> unat ka \<le> unat x \<and> unat x < unat ka + 512"
    "addr_in (ka + 512) (512 * length ds) x \<longleftrightarrow> unat ka + 512 \<le> unat x \<and> unat x < unat ka + 512 + 512 * length ds"
    using assms(1) ka by (simp_all add: addr_in_unat)
  have diff: "unat (x - ka) = unat x - unat ka" if "unat ka \<le> unat x"
    using that by (simp add: unat_sub word_le_nat_alt)
  have diff': "unat (x - (ka + 512)) = unat x - unat ka - 512" if "unat ka + 512 \<le> unat x"
    using that ka by (simp add: unat_sub word_le_nat_alt)
  consider "unat x < unat ka" | "unat ka \<le> unat x" "unat x < unat ka + 512" | "unat ka + 512 \<le> unat x" by linarith
  then show ?thesis unfolding assms(2,3) r file_byte_Cons by cases (auto simp: diff diff')
qed

text \<open>The loop over the chain of a file ends, and places its clusters one after the other.\<close>

lemma load_clusters_chain:
  assumes "serves B img"
  shows "fat_chain img off (unat cur) cs \<Longrightarrow> unat cur < 4096 \<Longrightarrow> loader_ok L off s \<Longrightarrow>
    0x110000 \<le> unat (kernel_addr s) \<Longrightarrow> unat (kernel_addr s) + 512 * length cs < 2 ^ 32 \<Longrightarrow>
    \<exists>m t. load_clusters B L cur s = Some (s\<lparr>mem := m, kernel_addr := kernel_addr s + of_nat (512 * length cs), tty_out := t\<rparr>)
      \<and> (\<forall>x. 0x110000 \<le> unat x \<longrightarrow> m x =
          (if addr_in (kernel_addr s) (512 * length cs) x then file_byte img off cs (unat (x - kernel_addr s)) else mem s x))"
proof (induction cs arbitrary: cur s)
  case Nil
  note frame = get_next_cluster_frame [OF assms, of s L cur] and entry = get_next_cluster_entry [OF assms, of s L cur]
  have "unat (fst (get_next_cluster B L cur s)) = 0xfff" using entry Nil.prems by (simp add: loader_ok_def)
  then have "unat (fst (get_next_cluster B L cur s)) = unat (0xfff :: u16)" by simp
  then have nx: "fst (get_next_cluster B L cur s) = 0xfff" by (simp only: word_unat_eq_iff)
  obtain m where m: "snd (get_next_cluster B L cur s) = s\<lparr>mem := m\<rparr>"
    "\<forall>x. \<not> addr_in (seg_addr (loader_ds L) 0) 65536 x \<longrightarrow> m x = mem s x"
    using frame Nil.prems by (auto simp: loader_ok_def)
  have "load_clusters B L cur s = Some (s\<lparr>mem := m\<rparr>)"
    using nx m(1) by (subst load_clusters.simps) (simp add: case_prod_unfold Let_def)
  moreover have "s\<lparr>mem := m\<rparr> = s\<lparr>mem := m, kernel_addr := kernel_addr s, tty_out := tty_out s\<rparr>" by simp
  moreover have "m x = mem s x" if "0x110000 \<le> unat x" for x
    using m(2) segment_low [of "loader_ds L" x] that by (meson not_less)
  ultimately show ?case by (intro exI [of _ m] exI [of _ "tty_out s"]) simp
next
  case (Cons d ds)
  note frame = get_next_cluster_frame [OF assms, of s L cur] and entry = get_next_cluster_entry [OF assms, of s L cur]
  have d: "fat_entry img (unat cur) = d" "2 \<le> d" "d - 2 + off < 2880" "fat_chain img off d ds"
    using Cons.prems(1) by auto
  define nx where "nx = fst (get_next_cluster B L cur s)"
  have nx: "unat nx = d" using entry Cons.prems d(1) by (simp add: loader_ok_def nx_def)
  then have "nx \<noteq> 0xfff" using d(3) by auto
  obtain m where m: "snd (get_next_cluster B L cur s) = s\<lparr>mem := m\<rparr>"
    "\<forall>x. \<not> addr_in (seg_addr (loader_ds L) 0) 65536 x \<longrightarrow> m x = mem s x"
    using frame Cons.prems by (auto simp: loader_ok_def)
  let ?s1 = "s\<lparr>mem := m\<rparr>"
  have ok1: "loader_ok L off ?s1" using Cons.prems(3) by (simp add: loader_ok_def)
  obtain m2 where m2: "load_sector B L (int (d - 2 + off)) ?s1 = ?s1\<lparr>mem := m2, kernel_addr := kernel_addr s + 512\<rparr>"
    "\<forall>x. 0x110000 \<le> unat x \<longrightarrow> m2 x =
       (if addr_in (kernel_addr s) 512 x then img (512 * (d - 2 + off) + unat (x - kernel_addr s)) else m x)"
    using load_sector_places [OF assms ok1 d(3)] Cons.prems(4,5) by auto
  obtain t where t: "print (msg ''.'') (?s1\<lparr>mem := m2, kernel_addr := kernel_addr s + 512\<rparr>) =
      ?s1\<lparr>mem := m2, kernel_addr := kernel_addr s + 512, tty_out := t\<rparr>"
    using print_only_text by blast
  let ?s2 = "s\<lparr>mem := m2, kernel_addr := kernel_addr s + 512, tty_out := t\<rparr>"
  have pair: "get_next_cluster B L cur s = (nx, ?s1)" using m(1) by (simp add: nx_def prod_eq_iff)
  have "cluster_sector (bpb ?s1) (int (unat nx)) = int (d - 2 + off)"
    using cluster_sector_nat [OF ok1 d(2)] by (simp only: nx)
  then have step: "load_clusters B L cur s = load_clusters B L nx ?s2"
    using \<open>nx \<noteq> 0xfff\<close> t by (subst load_clusters.simps) (simp only: pair Let_def prod.case if_False m2(1), simp)
  have ka: "unat (kernel_addr s + 512) = unat (kernel_addr s) + 512"
    using Cons.prems(5) by (simp add: unat_word_ariths)
  have "loader_ok L off ?s2" using Cons.prems(3) by (simp add: loader_ok_def)
  moreover have "unat nx < 4096" using fat_entry_12_bits [of img "unat cur"] nx d(1) by simp
  ultimately obtain m3 t3 where m3:
    "load_clusters B L nx ?s2 = Some (?s2\<lparr>mem := m3, kernel_addr := kernel_addr s + 512 + of_nat (512 * length ds), tty_out := t3\<rparr>)"
    "\<forall>x. 0x110000 \<le> unat x \<longrightarrow> m3 x =
       (if addr_in (kernel_addr s + 512) (512 * length ds) x then file_byte img off ds (unat (x - (kernel_addr s + 512))) else m2 x)"
    using Cons.IH [of nx ?s2] d(4) nx Cons.prems(4,5) ka by auto
  have "m3 x = (if addr_in (kernel_addr s) (512 * length (d # ds)) x
      then file_byte img off (d # ds) (unat (x - kernel_addr s)) else mem s x)" if high: "0x110000 \<le> unat x" for x
  proof -
    have "m x = mem s x" using m(2) segment_low [of "loader_ds L" x] high by (meson not_less)
    then show ?thesis
      using placed_Cons [where ?m2.0 = m2 and ?m3.0 = m3 and x = x and img = img and ka = "kernel_addr s" and d = d and off = off,
          OF Cons.prems(5) m2(2) [rule_format, OF high] m3(2) [rule_format, OF high]] by simp
  qed
  moreover have "kernel_addr s + 512 + of_nat (512 * length ds) = kernel_addr s + of_nat (512 * length (d # ds))" by simp
  ultimately show ?case using step m3(1) by (intro exI [of _ m3] exI [of _ t3]) simp
qed

section \<open>Chains are short\<close>

lemma fat_chain_unique: "fat_chain img off c xs \<Longrightarrow> fat_chain img off c ys \<Longrightarrow> xs = ys"
proof (induction xs arbitrary: c ys)
  case Nil
  then show ?case by (cases ys) auto
next
  case (Cons d ds)
  then show ?case by (cases ys) auto
qed

lemma fat_chain_suffix: "fat_chain img off c (xs @ d # ys) \<Longrightarrow> fat_chain img off d ys"
  by (induction xs arbitrary: c) auto

lemma fat_chain_clusters: "fat_chain img off c cs \<Longrightarrow> set cs \<subseteq> {2..<2882}"
  by (induction cs arbitrary: c) auto

lemma fat_chain_distinct:
  assumes "fat_chain img off c cs"
  shows "distinct cs"
proof (rule ccontr)
  assume "\<not> distinct cs"
  then obtain xs ys zs y where cs: "cs = xs @ [y] @ ys @ [y] @ zs" using not_distinct_decomp by blast
  have "fat_chain img off y (ys @ y # zs)" using assms fat_chain_suffix [of img off c xs y] by (simp add: cs)
  then have "fat_chain img off y zs" by (rule fat_chain_suffix)
  with \<open>fat_chain img off y (ys @ y # zs)\<close> have "ys @ y # zs = zs" by (rule fat_chain_unique)
  then have "length (ys @ y # zs) = length zs" by simp
  then show False by simp
qed

lemma fat_chain_length:
  assumes "fat_chain img off c cs"
  shows "length cs \<le> 2880"
proof -
  have "length cs = card (set cs)" using fat_chain_distinct [OF assms] by (simp add: distinct_card)
  also have "\<dots> \<le> card {2..<2882::nat}" using fat_chain_clusters [OF assms] by (intro card_mono) simp_all
  finally show ?thesis by simp
qed

section \<open>Loading a file\<close>

lemma itoa_returns: "- (2 ^ 31) < n \<Longrightarrow> \<exists>str. itoa n 10 = Inr str"
proof -
  assume "- (2 ^ 31) < n"
  moreover have "\<exists>str. s32_itoa_s n 10 = Inr str"
  proof (cases "n = 0")
    case False
    then show ?thesis using itoa_s_loop_digits [of 10 "- n" "[CH_MINUS]"] itoa_s_loop_digits [of 10 n "[]"]
      by (auto simp: s32_itoa_s_def Let_def)
  qed (simp add: s32_itoa_s_def)
  ultimately show ?thesis by (simp add: itoa_def)
qed

lemma s16_print_int_returns:
  assumes "- (2 ^ 31) < n"
  shows "\<exists>t. s16_print_int n 10 s = Inr (s\<lparr>tty_out := t\<rparr>)"
  using itoa_returns [OF assms] print_only_text [of _ s] by (auto simp: s16_print_int_def)

lemma prints_only_text: "\<exists>t. print a (s\<lparr>tty_out := u\<rparr>) = s\<lparr>tty_out := t\<rparr>"
  using print_only_text [of a "s\<lparr>tty_out := u\<rparr>"] by auto

lemma print_num_returns:
  assumes "- (2 ^ 31) < n"
  shows "\<exists>t. print_num n sy s = Inr (s\<lparr>tty_out := t\<rparr>)"
proof -
  obtain str where "itoa n 10 = Inr str" using itoa_returns [OF assms] by blast
  moreover obtain t1 where "print CRLF s = s\<lparr>tty_out := t1\<rparr>" using print_only_text by blast
  moreover obtain t2 where "print sy (s\<lparr>tty_out := t1\<rparr>) = s\<lparr>tty_out := t2\<rparr>" using prints_only_text by blast
  moreover obtain t3 where "print (msg '':'') (s\<lparr>tty_out := t2\<rparr>) = s\<lparr>tty_out := t3\<rparr>" using prints_only_text by blast
  moreover obtain t4 where "print str (s\<lparr>tty_out := t3\<rparr>) = s\<lparr>tty_out := t4\<rparr>" using prints_only_text by blast
  ultimately have "print_num n sy s = Inr (s\<lparr>tty_out := t4\<rparr>)" by (simp add: print_num_def)
  then show ?thesis by blast
qed

lemma load_file_places:
  assumes serves: "serves B img" and ok: "loader_ok L off s" and c: "2 \<le> c" "c - 2 + off < 2880"
    and ka: "0x110000 \<le> unat (kernel_addr s)" "unat (kernel_addr s) < 2 ^ 31"
    and chain: "if fat then fat_chain img off c cs else cs = []"
  shows "\<exists>m t. load_file_to_ram B L (int c) fat s =
      Inr (s\<lparr>mem := m, kernel_addr := kernel_addr s + of_nat (512 * length (c # cs)), tty_out := t\<rparr>)
    \<and> (\<forall>x. 0x110000 \<le> unat x \<longrightarrow> m x =
        (if addr_in (kernel_addr s) (512 * length (c # cs)) x
         then file_byte img off (c # cs) (unat (x - kernel_addr s)) else mem s x))"
proof -
  have len: "length cs \<le> 2880" using chain fat_chain_length by (auto split: if_splits)
  have sec: "cluster_sector (bpb s) (int c) = int (c - 2 + off)" by (rule cluster_sector_nat [OF ok c(1)])
  obtain t1 where t1: "print_num (int c) (msg ''begin_cluster'') s = Inr (s\<lparr>tty_out := t1\<rparr>)"
    using print_num_returns [of "int c"] by auto
  obtain t2 where t2: "print_num (int (c - 2 + off)) (msg ''cluster sector no'') (s\<lparr>tty_out := t1\<rparr>) = Inr (s\<lparr>tty_out := t2\<rparr>)"
    using print_num_returns [of "int (c - 2 + off)" _ "s\<lparr>tty_out := t1\<rparr>"] by auto
  let ?s2 = "s\<lparr>tty_out := t2\<rparr>"
  have ok2: "loader_ok L off ?s2" using ok by (simp add: loader_ok_def)
  obtain m where m: "load_sector B L (int (c - 2 + off)) ?s2 = ?s2\<lparr>mem := m, kernel_addr := kernel_addr s + 512\<rparr>"
    "\<forall>x. 0x110000 \<le> unat x \<longrightarrow> m x =
      (if addr_in (kernel_addr s) 512 x then img (512 * (c - 2 + off) + unat (x - kernel_addr s)) else mem s x)"
    using load_sector_places [OF serves ok2 c(2)] ka by auto
  obtain t3 where t3: "print (CRLF @ msg ''.'') (?s2\<lparr>mem := m, kernel_addr := kernel_addr s + 512\<rparr>) =
      ?s2\<lparr>mem := m, kernel_addr := kernel_addr s + 512, tty_out := t3\<rparr>" using print_only_text by blast
  let ?s3 = "s\<lparr>mem := m, kernel_addr := kernel_addr s + 512, tty_out := t3\<rparr>"
  have run: "load_file_to_ram B L (int c) fat s =
      (if fat then loop_result (load_clusters B L (of_nat c) ?s3) else Inr ?s3)"
    unfolding load_file_to_ram_def Let_def sec t1 rbind_Inr t2 m(1) t3 by simp
  show ?thesis
  proof (cases fat)
    case False
    then have cs: "cs = []" using chain by simp
    have "m x = (if addr_in (kernel_addr s) (512 * length [c]) x then file_byte img off [c] (unat (x - kernel_addr s)) else mem s x)"
      if "0x110000 \<le> unat x" for x
      using m(2) [rule_format, OF that] ka
      by (intro placed_Cons [where ?m2.0 = m]) simp_all
    then show ?thesis using False run cs by (intro exI [of _ m] exI [of _ t3]) simp
  next
    case True
    have cu: "unat (of_nat c :: u16) = c" using c by (simp add: unat_of_nat take_bit_nat_eq_self)
    have ka3: "unat (kernel_addr s + 512) = unat (kernel_addr s) + 512" using ka by (simp add: unat_word_ariths)
    have "loader_ok L off ?s3" using ok by (simp add: loader_ok_def)
    moreover have "fat_chain img off (unat (of_nat c :: u16)) cs" using chain True cu by simp
    moreover have "unat (of_nat c :: u16) < 4096" using cu c by simp
    moreover have "0x110000 \<le> unat (kernel_addr ?s3)" "unat (kernel_addr ?s3) + 512 * length cs < 2 ^ 32"
      using ka3 ka len by simp_all
    ultimately obtain m3 t4 where m3:
      "load_clusters B L (of_nat c) ?s3 =
         Some (?s3\<lparr>mem := m3, kernel_addr := kernel_addr s + 512 + of_nat (512 * length cs), tty_out := t4\<rparr>)"
      "\<forall>x. 0x110000 \<le> unat x \<longrightarrow> m3 x =
        (if addr_in (kernel_addr s + 512) (512 * length cs) x then file_byte img off cs (unat (x - (kernel_addr s + 512))) else m x)"
      using load_clusters_chain [OF serves, of off "of_nat c" cs L ?s3] by auto
    have "unat (kernel_addr s) + 512 * length (c # cs) < 2 ^ 32" using ka len by simp
    note placed = placed_Cons [where ?m2.0 = m and ?m3.0 = m3 and img = img and ka = "kernel_addr s" and d = c and off = off,
        OF this m(2) [rule_format] m3(2) [rule_format]]
    have "kernel_addr s + 512 + of_nat (512 * length cs) = kernel_addr s + of_nat (512 * length (c # cs))" by simp
    then show ?thesis using True run m3(1) placed by (intro exI [of _ m3] exI [of _ t4]) simp
  qed
qed

section \<open>The table as it is written\<close>

text \<open>The bytes of a table with the entries \<open>f\<close>: each pair of entries is one little-endian number of 24 bits.\<close>

definition pack_fat :: "(nat \<Rightarrow> nat) \<Rightarrow> nat \<Rightarrow> u8" where
  "pack_fat f p = of_nat ((f (2 * (p div 3)) + 4096 * f (2 * (p div 3) + 1)) div 256 ^ (p mod 3) mod 256)"

lemma pack_fat_bytes:
  assumes "f (2 * k) < 4096" and "f (2 * k + 1) < 4096"
  shows "unat (pack_fat f (3 * k)) = f (2 * k) mod 256"
    and "unat (pack_fat f (3 * k + 1)) = f (2 * k) div 256 + 16 * (f (2 * k + 1) mod 16)"
    and "unat (pack_fat f (3 * k + 2)) = f (2 * k + 1) div 16"
proof -
  let ?a = "f (2 * k)" and ?b = "f (2 * k + 1)"
  have idx: "3 * k div 3 = k" "3 * k mod 3 = 0" "(3 * k + 1) div 3 = k" "(3 * k + 1) mod 3 = 1"
    "(3 * k + 2) div 3 = k" "(3 * k + 2) mod 3 = 2" by (simp_all add: mod_Suc)
  have byte: "unat (of_nat (x mod 256) :: u8) = x mod 256" for x
    by (simp add: unat_of_nat take_bit_nat_eq_self)
  show "unat (pack_fat f (3 * k)) = ?a mod 256"
  proof -
    have "(?a + 4096 * ?b) div 256 ^ 0 mod 256 = (?a + 256 * (16 * ?b)) mod 256" by simp
    then show ?thesis unfolding pack_fat_def idx by (simp only: byte mod_mult_self2)
  qed
  show "unat (pack_fat f (3 * k + 1)) = ?a div 256 + 16 * (?b mod 16)"
  proof -
    have "(?a + 4096 * ?b) div 256 ^ 1 = (?a + 256 * (16 * ?b)) div 256" by simp
    also have "\<dots> = ?a div 256 + 16 * ?b" by simp
    also have "\<dots> mod 256 = ?a div 256 + 16 * (?b mod 16)"
    proof -
      have "?a div 256 \<le> 4095 div 256" using assms(1) by (intro div_le_mono) simp
      then have "?a div 256 < 16" by simp
      moreover have "?b mod 16 < 16" by simp
      ultimately have "?a div 256 + 16 * (?b mod 16) < 256" by linarith
      moreover have "?a div 256 + 16 * ?b = (?a div 256 + 16 * (?b mod 16)) + 256 * (?b div 16)"
        using div_mult_mod_eq [of ?b 16] by linarith
      ultimately show ?thesis by (metis mod_less mod_mult_self2)
    qed
    finally show ?thesis unfolding pack_fat_def idx byte .
  qed
  show "unat (pack_fat f (3 * k + 2)) = ?b div 16"
  proof -
    have "(?a + 4096 * ?b) div 256 ^ 2 = (?a + 4096 * ?b) div (4096 * 16)" by simp
    also have "\<dots> = (?a + 4096 * ?b) div 4096 div 16" by (rule div_mult2_eq)
    also have "\<dots> = ?b div 16" using assms(1) by simp
    finally have q: "(?a + 4096 * ?b) div 256 ^ 2 = ?b div 16" .
    have "?b div 16 \<le> 4095 div 16" using assms(2) by (intro div_le_mono) simp
    then have "?b div 16 mod 256 = ?b div 16" by simp
    then show ?thesis unfolding pack_fat_def idx byte q .
  qed
qed

text \<open>C20. The loader reads back the allocation table: when the sectors after the first hold the entries
  \<open>f\<close> packed twelve bits each, the next cluster of every cluster number is the entry of that number,
  also where the three bytes of an entry span two sectors.\<close>

theorem get_next_cluster_unpacks:
  assumes disk: "serves B img" and seg: "seg_es s = loader_ds L" and buf: "unat (fat_buffer L) + 1024 \<le> 65536"
    and table: "\<forall>p < 6144. img (512 + p) = pack_fat f p" "\<forall>n < 4096. f n < 4096"
    and cur: "unat cur < 4096"
  shows "unat (fst (get_next_cluster B L cur s)) = f (unat cur)"
proof -
  let ?n = "unat cur" and ?k = "unat cur div 2"
  have "?k \<le> 4095 div 2" using cur by (intro div_le_mono) simp
  then have k: "?k \<le> 2047" by simp
  have f: "f (2 * ?k) < 4096" "f (2 * ?k + 1) < 4096" using table(2) k by simp_all
  have img: "img (512 + 3 * ?k) = pack_fat f (3 * ?k)" "img (512 + 3 * ?k + 1) = pack_fat f (3 * ?k + 1)"
    "img (512 + 3 * ?k + 2) = pack_fat f (3 * ?k + 2)"
    unfolding add.assoc using k by (intro table(1) [rule_format]; simp)+
  note bytes = pack_fat_bytes [of f ?k, OF f]
  have "fat_entry img ?n = f ?n"
  proof (cases "odd ?n")
    case True
    then have n: "?n = 2 * ?k + 1" by simp
    have "f (2 * ?k) div 256 \<le> 4095 div 256" using f(1) by (intro div_le_mono) simp
    then have "f (2 * ?k) div 256 < 16" by simp
    then have "(f (2 * ?k) div 256 + 16 * (f (2 * ?k + 1) mod 16)) div 16 = f (2 * ?k + 1) mod 16" by simp
    moreover have "f (2 * ?k + 1) mod 16 + 16 * (f (2 * ?k + 1) div 16) = f (2 * ?k + 1)" by simp
    ultimately show ?thesis using True unfolding fat_entry_def Let_def img bytes by (simp only: not_False_eq_True if_True n [symmetric])
  next
    case False
    then have n: "2 * ?k = ?n" by simp
    have "(f (2 * ?k) div 256 + 16 * (f (2 * ?k + 1) mod 16)) mod 16 = f (2 * ?k) div 256 mod 16" by simp
    moreover have "f (2 * ?k) div 256 mod 16 = f (2 * ?k) div 256"
    proof -
      have "f (2 * ?k) div 256 \<le> 4095 div 256" using f(1) by (intro div_le_mono) simp
      then show ?thesis by simp
    qed
    moreover have "f (2 * ?k) mod 256 + 256 * (f (2 * ?k) div 256) = f (2 * ?k)" by simp
    ultimately show ?thesis using False unfolding fat_entry_def Let_def img bytes by (simp only: if_False n)
  qed
  then show ?thesis using get_next_cluster_entry [OF disk seg buf cur] by simp
qed

definition loader_link :: Loader_Link where
  "loader_link = \<lparr>loader_ds = 0x9000, fat_buffer = 0x2000, read_data = 0x2800\<rparr>"

theorem get_next_cluster_unpacks_witness:
  "unat (fst (get_next_cluster (drive (\<lambda>p. pack_fat (\<lambda>n. if n = 341 then 342 else 0xfff) (p - 512))) loader_link 341
     (blank_bios\<lparr>seg_es := 0x9000\<rparr>))) = 342"
  using get_next_cluster_unpacks [OF drive_serves, of "blank_bios\<lparr>seg_es := 0x9000\<rparr>" loader_link
      "\<lambda>p. pack_fat (\<lambda>n. if n = 341 then 342 else 0xfff) (p - 512)" "\<lambda>n. if n = 341 then 342 else 0xfff" 341]
  by (simp add: loader_link_def)

end
