(* ===== verification/Loader_Properties.thy ===== *)
theory Loader_Properties
  imports Fat_Chain
begin

text \<open>
  The loader as a whole: what its search of the root directory finds, the kernel in memory when it
  enters protected mode, and the kernel in its place when the code there has run.
\<close>

unbundle bit_operations_syntax

section \<open>The search\<close>

definition dir_size :: "floppy \<Rightarrow> nat \<Rightarrow> u32" where
  "dir_size img k = push_bit 24 (ucast (dir_byte img k 0x1f)) OR push_bit 16 (ucast (dir_byte img k 0x1e))
     OR push_bit 8 (ucast (dir_byte img k 0x1d)) OR ucast (dir_byte img k 0x1c)"

text \<open>
  A name matches when it is the name of the kernel up to its first NUL. The search passes over
  deleted entries and labels; it ends at the first entry that matches (\<open>True\<close>) or has
  never been used (\<open>False\<close>).
\<close>

definition names_kernel :: "cstring \<Rightarrow> bool" where
  "names_kernel name \<longleftrightarrow> (let stem = takeWhile (\<lambda>c. c \<noteq> 0) name in take (length stem) kernel_name = stem)"

fun dir_scan :: "floppy \<Rightarrow> nat list \<Rightarrow> (bool \<times> nat) option" where
  "dir_scan img [] = None"
| "dir_scan img (k # ks) =
     (if dir_byte img k 0 = 0xe5 then dir_scan img ks
      else if dir_byte img k 0 = 0 then Some (False, k)
      else if bit (dir_byte img k 0x0b) 3 then dir_scan img ks
      else if names_kernel (dir_name img k) then Some (True, k)
      else dir_scan img ks)"

lemma dir_scan_append: "dir_scan img (xs @ ys) = (case dir_scan img xs of None \<Rightarrow> dir_scan img ys | Some r \<Rightarrow> Some r)"
  by (induction xs) auto

definition noted :: "floppy \<Rightarrow> nat \<Rightarrow> search \<Rightarrow> search" where
  "noted img k se = se\<lparr>f_c := dir_cluster img k, file_size := dir_size img k\<rparr>"

definition outcome :: "floppy \<Rightarrow> nat list \<Rightarrow> search \<Rightarrow> search" where
  "outcome img ks se =
     (case dir_scan img ks of
        None \<Rightarrow> fold (noted img) ks se
      | Some (True, k) \<Rightarrow> (noted img k se)\<lparr>first_kernel_cluster := int (unat (dir_cluster img k))\<rparr>
      | Some (False, k) \<Rightarrow> noted img k se)"

lemma noted_noted [simp]: "noted img k (noted img j se) = noted img k se"
  by (simp add: noted_def)

lemma noted_fold: "noted img k (fold (noted img) js se) = noted img k se"
  by (induction js arbitrary: se) auto

lemma outcome_append:
  "outcome img (xs @ ys) se = (if dir_scan img xs = None then outcome img ys (fold (noted img) xs se) else outcome img xs se)"
  by (auto simp: outcome_def dir_scan_append noted_fold split: option.split bool.split prod.split)

lemma strncmp_stuck: "strncmp_loop n (0 # xs) ys = 0"
proof (induction n)
  case (Suc n)
  then show ?case by (cases ys) simp_all
qed simp

lemma strncmp_prefix:
  "length xs = n \<Longrightarrow> length ys = n \<Longrightarrow> 0 \<notin> set ys \<Longrightarrow>
   strncmp_loop n xs ys = 0 \<longleftrightarrow> (let stem = takeWhile (\<lambda>c. c \<noteq> 0) xs in take (length stem) ys = stem)"
proof (induction n arbitrary: xs ys)
  case (Suc n)
  then obtain x xs' y ys' where "xs = x # xs'" "ys = y # ys'" by (metis length_Suc_conv)
  then show ?case using Suc strncmp_stuck [of n xs'] by (cases "x = 0") (auto simp: Let_def)
qed simp

lemma strncmp_kernel: "length name = 11 \<Longrightarrow> s_strncmp name kernel_name 11 = 0 \<longleftrightarrow> names_kernel name"
proof -
  have "length kernel_name = 11" "0 \<notin> set kernel_name" by (simp_all add: kernel_name_def msg_def)
  then show "length name = 11 \<Longrightarrow> s_strncmp name kernel_name 11 = 0 \<longleftrightarrow> names_kernel name"
    unfolding s_strncmp_def names_kernel_def using strncmp_prefix [of name 11 kernel_name] by simp
qed

lemma scan_entries_outcome:
  assumes "\<And>k. k < 512 \<Longrightarrow> mem s (buff + of_nat k) = img (512 * (19 + i) + k)" and "\<forall>j \<in> set js. j < 16"
  shows "\<exists>t. scan_entries buff js se s =
    (dir_scan img (map (\<lambda>j. 16 * i + j) js) \<noteq> None, outcome img (map (\<lambda>j. 16 * i + j) js) se, s\<lparr>tty_out := t\<rparr>)"
  using assms
proof (induction js arbitrary: se s)
  case Nil
  have "s\<lparr>tty_out := tty_out s\<rparr> = s" by simp
  then show ?case by (intro exI [of _ "tty_out s"]) (simp add: outcome_def)
next
  case (Cons j js)
  let ?k = "16 * i + j" and ?ks = "map (\<lambda>j. 16 * i + j) js"
  have byte: "mem s (buff + of_nat (j * 32 + q)) = dir_byte img ?k q" if "q < 32" for q
    using dir_byte_sector [where m = "mem s" and a = buff and img = img and i = i and j = j] Cons.prems that by simp
  have name: "map (\<lambda>q. mem s (buff + of_nat (j * 32 + q))) [0..<11] = dir_name img ?k"
    unfolding dir_name_def by (rule map_cong) (use byte in auto)
  have cl: "join (dir_byte img ?k 0x1b) (dir_byte img ?k 0x1a) = dir_cluster img ?k"
    by (simp add: join_def dir_cluster_def)
  have zero: "dir_name img ?k ! 0 = dir_byte img ?k 0" by (simp add: dir_name_def)
  have label: "drop_bit 3 b AND 1 = 1 \<longleftrightarrow> bit b 3" for b :: u8
    by (simp add: and_one_eq bit_iff_odd_drop_bit odd_iff_mod_2_eq_one)
  have match: "s_strncmp (dir_name img ?k) kernel_name 11 = 0 \<longleftrightarrow> names_kernel (dir_name img ?k)"
    by (rule strncmp_kernel) (simp add: dir_name_def)
  let ?se = "noted img ?k se"
  have step: "scan_entries buff (j # js) se s =
     (if dir_byte img ?k 0 = 0xe5 then scan_entries buff js ?se s
      else if dir_byte img ?k 0 = 0 then (True, ?se, print (CRLF @ msg ''search end'' @ CRLF) s)
      else if bit (dir_byte img ?k 0x0b) 3
      then scan_entries buff js ?se (print (dir_name img ?k) (print (msg ''label:'') (print CRLF s)))
      else if names_kernel (dir_name img ?k)
      then (True, ?se\<lparr>first_kernel_cluster := int (unat (dir_cluster img ?k))\<rparr>,
        print (msg ''load it'' @ CRLF) (print CRLF (print (dir_name img ?k) (print CRLF s))))
      else scan_entries buff js ?se (print (dir_name img ?k) (print CRLF s)))"
    using byte [of "0x1b"] byte [of "0x1a"] byte [of "0x1c"] byte [of "0x1d"] byte [of "0x1e"] byte [of "0x1f"] byte [of "0x0b"]
    by (simp only: scan_entries.simps Let_def name cl zero label match noted_def dir_size_def, simp)
  have out: "outcome img (?k # ?ks) se =
     (if dir_byte img ?k 0 = 0xe5 then outcome img ?ks ?se
      else if dir_byte img ?k 0 = 0 then ?se
      else if bit (dir_byte img ?k 0x0b) 3 then outcome img ?ks ?se
      else if names_kernel (dir_name img ?k) then ?se\<lparr>first_kernel_cluster := int (unat (dir_cluster img ?k))\<rparr>
      else outcome img ?ks ?se)"
    by (auto simp: outcome_def split: option.split bool.split)
  have IH: "\<exists>t. scan_entries buff js ?se (s\<lparr>tty_out := u\<rparr>) =
      (dir_scan img ?ks \<noteq> None, outcome img ?ks ?se, s\<lparr>tty_out := t\<rparr>)" for u
    using Cons.IH [of "s\<lparr>tty_out := u\<rparr>" ?se] Cons.prems by auto
  have IH0: "\<exists>t. scan_entries buff js ?se s = (dir_scan img ?ks \<noteq> None, outcome img ?ks ?se, s\<lparr>tty_out := t\<rparr>)"
    using Cons.IH [of s ?se] Cons.prems by auto
  obtain t1 where t1: "print CRLF s = s\<lparr>tty_out := t1\<rparr>" using print_only_text by blast
  obtain t2 where t2: "print (msg ''label:'') (s\<lparr>tty_out := t1\<rparr>) = s\<lparr>tty_out := t2\<rparr>" using prints_only_text by blast
  obtain t3 where t3: "print (dir_name img ?k) (s\<lparr>tty_out := t2\<rparr>) = s\<lparr>tty_out := t3\<rparr>" using prints_only_text by blast
  obtain t4 where t4: "print (dir_name img ?k) (s\<lparr>tty_out := t1\<rparr>) = s\<lparr>tty_out := t4\<rparr>" using prints_only_text by blast
  obtain t5 where t5: "print CRLF (s\<lparr>tty_out := t4\<rparr>) = s\<lparr>tty_out := t5\<rparr>" using prints_only_text by blast
  obtain t6 where t6: "print (msg ''load it'' @ CRLF) (s\<lparr>tty_out := t5\<rparr>) = s\<lparr>tty_out := t6\<rparr>" using prints_only_text by blast
  obtain t7 where t7: "print (CRLF @ msg ''search end'' @ CRLF) s = s\<lparr>tty_out := t7\<rparr>" using print_only_text by blast
  show ?case using IH [of t3] IH [of t4] IH0 unfolding step list.map out t1 t2 t3 t4 t5 t6 t7 by auto
qed

lemma image_fits: "unat IMAGE_LMA + 512 \<le> 65536"
  by simp

lemma scan_sectors_outcome:
  assumes "serves B img" and "seg_es s = loader_ds L" and "\<forall>i \<in> set is. i + 19 < 2880"
  shows "\<exists>m t. scan_sectors B L (map (\<lambda>i. i + 19) is) se s =
      Inr (outcome img (entries is) se, s\<lparr>mem := m, tty_out := t\<rparr>) \<and>
    (\<forall>x. 0x110000 \<le> unat x \<longrightarrow> m x = mem s x)"
  using assms(2,3)
proof (induction "is" arbitrary: se s)
  case Nil
  have "s = s\<lparr>mem := mem s, tty_out := tty_out s\<rparr>" by simp
  then show ?case by (intro exI [of _ "mem s"] exI [of _ "tty_out s"]) (simp add: outcome_def entries_def)
next
  case (Cons i "is")
  let ?i = "int (i + 19)" and ?b = "seg_addr (loader_ds L) IMAGE_LMA" and ?ks = "map (\<lambda>j. 16 * i + j) [0..<16]"
  have i: "i + 19 < 2880" using Cons.prems(2) by simp
  have ent: "entries (i # is) = ?ks @ entries is" by (simp add: entries_def)
  obtain t1 where "print (CRLF @ msg ''read sector no: '') s = s\<lparr>tty_out := t1\<rparr>" using print_only_text by blast
  moreover obtain t2 where "s16_print_int ?i 10 (s\<lparr>tty_out := t1\<rparr>) = Inr (s\<lparr>tty_out := t2\<rparr>)"
    using s16_print_int_returns [of ?i "s\<lparr>tty_out := t1\<rparr>"] by auto
  ultimately have says: "s16_print_int ?i 10 (print (CRLF @ msg ''read sector no: '') s) = Inr (s\<lparr>tty_out := t2\<rparr>)" by simp
  define r where "r = snd (read_sector B IMAGE_LMA (sector_of ?i) (track_of ?i) (head_of ?i) 0 1 (s\<lparr>tty_out := t2\<rparr>))"
  have r: "r = s\<lparr>tty_out := t2, mem := mem r\<rparr>" unfolding r_def by (rule read_sector_only_mem)
  have sec: "mem r (?b + of_nat k) = img (512 * (19 + i) + k)" if "k < 512" for k
    using loader_disk.reads_byte [OF assms(1) i image_fits that, of "s\<lparr>tty_out := t2\<rparr>"] Cons.prems(1)
    by (simp add: r_def add.commute)
  have rest: "mem r x = mem s x" if "0x110000 \<le> unat x" for x
  proof -
    have "\<not> addr_in ?b 512 x" using seg_addr_in_segment [OF image_fits] segment_low that by (meson not_less)
    then show ?thesis
      using loader_disk.reads_outside [OF assms(1) i image_fits, of "s\<lparr>tty_out := t2\<rparr>" x] Cons.prems(1) by (simp add: r_def)
  qed
  have js: "\<forall>j \<in> set [0..<512 div 32]. j < (16 :: nat)" by simp
  obtain t3 where t3: "scan_entries ?b [0..<512 div 32] se r = (dir_scan img ?ks \<noteq> None, outcome img ?ks se, r\<lparr>tty_out := t3\<rparr>)"
    using scan_entries_outcome [where s = r and buff = ?b and img = img and i = i, OF sec js] by auto
  have r3: "r\<lparr>tty_out := t3\<rparr> = s\<lparr>mem := mem r, tty_out := t3\<rparr>" by (subst r) simp
  have step: "scan_sectors B L (map (\<lambda>i. i + 19) (i # is)) se s =
      (if dir_scan img ?ks \<noteq> None then Inr (outcome img ?ks se, s\<lparr>mem := mem r, tty_out := t3\<rparr>)
       else scan_sectors B L (map (\<lambda>i. i + 19) is) (outcome img ?ks se) (s\<lparr>mem := mem r, tty_out := t3\<rparr>))"
    by (simp only: list.map scan_sectors.simps says rbind_Inr Let_def case_prod_unfold r_def [symmetric] t3 r3 fst_conv snd_conv)
  show ?case
  proof (cases "dir_scan img ?ks")
    case None
    then have "outcome img ?ks se = fold (noted img) ?ks se" by (simp add: outcome_def)
    moreover have "\<exists>m t. scan_sectors B L (map (\<lambda>i. i + 19) is) (outcome img ?ks se) (s\<lparr>mem := mem r, tty_out := t3\<rparr>) =
        Inr (outcome img (entries is) (outcome img ?ks se), s\<lparr>mem := m, tty_out := t\<rparr>) \<and>
        (\<forall>x. 0x110000 \<le> unat x \<longrightarrow> m x = mem r x)"
      using Cons.IH [of "s\<lparr>mem := mem r, tty_out := t3\<rparr>" "outcome img ?ks se"] Cons.prems by auto
    ultimately show ?thesis using None rest unfolding step ent outcome_append by auto
  next
    case (Some k)
    then show ?thesis using rest unfolding step ent outcome_append by auto
  qed
qed

section \<open>The disk parameters\<close>

text \<open>
  The parameters of a 1.44 MB disk: one boot sector, two tables of nine sectors and
  224 root directory entries.
\<close>

definition fat12_disk :: "floppy \<Rightarrow> bool" where
  "fat12_disk img \<longleftrightarrow> img 11 = 0 \<and> img 12 = 2 \<and> img 0xe = 1 \<and> img 0xf = 0 \<and> img 0x10 = 2
     \<and> img 17 = 224 \<and> img 18 = 0 \<and> img 0x16 = 9 \<and> img 0x17 = 0"

lemma name_value_returns:
  assumes "- (2 ^ 31) < v"
  shows "\<exists>t. name_value name v (s\<lparr>tty_out := u\<rparr>) = Inr (s\<lparr>tty_out := t\<rparr>)"
proof -
  obtain t1 where "print CRLF (s\<lparr>tty_out := u\<rparr>) = s\<lparr>tty_out := t1\<rparr>" using prints_only_text by blast
  moreover obtain t2 where "print (msg name) (s\<lparr>tty_out := t1\<rparr>) = s\<lparr>tty_out := t2\<rparr>" using prints_only_text by blast
  moreover obtain t3 where "print (msg '': '') (s\<lparr>tty_out := t2\<rparr>) = s\<lparr>tty_out := t3\<rparr>" using prints_only_text by blast
  ultimately show ?thesis
    using s16_print_int_returns [OF assms, of "s\<lparr>tty_out := t3\<rparr>"] by (simp add: name_value_def)
qed

lemma name_values_returns:
  assumes "\<forall>(name, v) \<in> set nvs. - (2 ^ 31) < v"
  shows "\<exists>t. name_values nvs (s\<lparr>tty_out := u\<rparr>) = Inr (s\<lparr>tty_out := t\<rparr>)"
  unfolding name_values_def using assms
proof (induction nvs arbitrary: u)
  case Nil
  then show ?case by auto
next
  case (Cons nv nvs)
  obtain name v where nv: "nv = (name, v)" by (cases nv)
  then obtain t where "name_value name v (s\<lparr>tty_out := u\<rparr>) = Inr (s\<lparr>tty_out := t\<rparr>)"
    using name_value_returns [where v = v and name = name and s = s and u = u] Cons.prems by auto
  then show ?case using Cons.IH [of t] Cons.prems nv by simp
qed

lemma uint_above: "- 2147483648 < uint w"
  by (rule less_le_trans [of _ 0]) simp_all

lemma print_bpb_returns:
  assumes "ucast (byte_per_sector b) = (0 :: u8)"
  shows "\<exists>t. print_bpb b s = Inr (s\<lparr>tty_out := t\<rparr>)"
proof -
  have "0 \<in> set (bpb_bytes b)" using assms by (simp add: bpb_bytes_def half_def)
  obtain t1 where "print (CRLF @ msg ''bpb->vendor_name: '') s = s\<lparr>tty_out := t1\<rparr>" using print_only_text by blast
  moreover obtain t2 where "print (bpb_bytes b) (s\<lparr>tty_out := t1\<rparr>) = s\<lparr>tty_out := t2\<rparr>" using prints_only_text by blast
  ultimately show ?thesis using \<open>0 \<in> set (bpb_bytes b)\<close> unfolding print_bpb_def
    by (simp only: not_True_eq_False if_False) (rule name_values_returns, simp add: uint_above)
qed

lemma read_bpb_geometry:
  assumes "serves B img" and "fat12_disk img" and "seg_es s = loader_ds L"
  shows "\<exists>m t b. read_bpb B L s = Inr (s\<lparr>mem := m, tty_out := t, bpb := b\<rparr>) \<and>
    root_dir_occupy_sector b = 14 \<and> root_dir_start_sector b = 19 \<and>
    (\<forall>x. 0x110000 \<le> unat x \<longrightarrow> m x = mem s x)"
proof -
  let ?b = "seg_addr (loader_ds L) IMAGE_LMA"
  define r where "r = snd (read_sector B IMAGE_LMA 1 0 0 0 1 s)"
  have first: "sector_of (int 0) = 1" "track_of (int 0) = 0" "head_of (int 0) = 0"
    by (simp_all add: sector_of_def track_of_def head_of_def signed_divide_int_def signed_modulo_int_def)
  have r: "r = s\<lparr>mem := mem r\<rparr>" unfolding r_def by (rule read_sector_only_mem)
  have byte: "mem r (?b + of_nat k) = img k" if "k < 512" for k
    using loader_disk.reads_byte [OF assms(1) _ image_fits that, of 0 s] assms(3) first by (simp add: r_def)
  have rest: "mem r x = mem s x" if "0x110000 \<le> unat x" for x
  proof -
    have "\<not> addr_in ?b 512 x" using seg_addr_in_segment [OF image_fits] segment_low that by (meson not_less)
    then show ?thesis
      using loader_disk.reads_outside [OF assms(1) _ image_fits, of 0 s x] assms(3) first by (simp add: r_def)
  qed
  define b where "b = init_bpb (mem r) ?b (bpb r)"
  have "mem r (?b + 11) = 0" "mem r (?b + 12) = 2" "mem r (?b + 0xe) = 1" "mem r (?b + 0xf) = 0" "mem r (?b + 0x10) = 2"
    "mem r (?b + 17) = 224" "mem r (?b + 18) = 0" "mem r (?b + 0x16) = 9" "mem r (?b + 0x17) = 0"
    using byte [of 11] byte [of 12] byte [of 14] byte [of 15] byte [of 16] byte [of 17] byte [of 18] byte [of 22] byte [of 23]
      assms(2) by (simp_all add: fat12_disk_def)
  then have fields: "byte_per_sector b = 512" "boot_occupy_sector b = 1" "fat_count b = 2" "root_entry_count b = 224"
    "fat_occupy_sector b = 9"
    by (simp_all add: b_def init_bpb_def Let_def join_def)
  have size: "root_dir_size b = 14" by (simp add: root_dir_size_def fields Let_def)
  define b1 where "b1 = b\<lparr>root_dir_occupy_sector := of_nat (root_dir_size b)\<rparr>"
  obtain t where t: "print_bpb b1 (r\<lparr>bpb := b1\<rparr>) = Inr (r\<lparr>bpb := b1, tty_out := t\<rparr>)"
    using print_bpb_returns [of b1 "r\<lparr>bpb := b1\<rparr>"] fields by (auto simp: b1_def)
  define b2 where "b2 = b1\<lparr>root_dir_start_sector := ucast (fat_count b1) * fat_occupy_sector b1 + boot_occupy_sector b1\<rparr>"
  have "read_bpb B L s = Inr (r\<lparr>bpb := b1, tty_out := t\<rparr>\<lparr>bpb := b2\<rparr>)"
    unfolding read_bpb_def Let_def case_prod_unfold r_def [symmetric] b_def [symmetric] b1_def [symmetric] t b2_def
    by (simp add: fields)
  moreover have "r\<lparr>bpb := b1, tty_out := t\<rparr>\<lparr>bpb := b2\<rparr> = s\<lparr>mem := mem r, tty_out := t, bpb := b2\<rparr>" by (subst r) simp
  moreover have "root_dir_occupy_sector b2 = 14" "root_dir_start_sector b2 = 19"
    by (simp_all add: b2_def b1_def size fields)
  ultimately show ?thesis using rest by metis
qed

section \<open>Loading the kernel\<close>

lemma dump_loop_high:
  "unat vb + 6 * n \<le> 0x110000 \<Longrightarrow> 0x110000 \<le> unat x \<Longrightarrow> dump_loop n src vb m x = m x"
proof (induction n arbitrary: src vb m)
  case (Suc n)
  have off: "unat (vb + of_nat k) = unat vb + k" if "k \<le> 6" for k
    using that Suc.prems(1) by (simp add: unat_word_ariths unat_of_nat32)
  have "x \<noteq> vb" "x \<noteq> vb + 1" "x \<noteq> vb + 2" "x \<noteq> vb + 3"
    using off [of 1] off [of 2] off [of 3] Suc.prems by auto
  moreover have "unat (vb + 6) + 6 * n \<le> 0x110000" using off [of 6] Suc.prems(1) by simp
  ultimately show ?case using Suc.IH Suc.prems(2) by (simp add: Let_def)
qed simp

lemma dump_memory_high: "0x110000 \<le> unat x \<Longrightarrow> dump_memory m x = m x"
  unfolding dump_memory_def by (rule dump_loop_high) simp_all

lemma search_root_outcome:
  assumes "serves B img" and "seg_es s = loader_ds L"
    and "root_dir_occupy_sector (bpb s) = 14" and "root_dir_start_sector (bpb s) = 19"
  shows "\<exists>m t. search_root B L s =
      Inr (outcome img [0..<240] \<lparr>f_c = 0, file_size = 0, first_kernel_cluster = -1\<rparr>, s\<lparr>mem := m, tty_out := t\<rparr>) \<and>
    (\<forall>x. 0x110000 \<le> unat x \<longrightarrow> m x = mem s x)"
proof -
  obtain t1 where t1: "print (CRLF @ msg ''root dir sector starts: '') s = s\<lparr>tty_out := t1\<rparr>" using print_only_text by blast
  obtain t2 where t2: "s16_print_int (int 19) 10 (s\<lparr>tty_out := t1\<rparr>) = Inr (s\<lparr>tty_out := t2\<rparr>)"
    using s16_print_int_returns [of "int 19" "s\<lparr>tty_out := t1\<rparr>"] by auto
  obtain t3 where t3: "print (CRLF @ msg ''read root dir sector to get file name info'') (s\<lparr>tty_out := t2\<rparr>) = s\<lparr>tty_out := t3\<rparr>"
    using prints_only_text by blast
  have "[19..<Suc (14 + 19)] = map (\<lambda>i. i + 19) [0..<15 :: nat]" by code_simp
  moreover have "unat (19 :: u16) = 19" "unat (14 :: u16) = 14" by simp_all
  ultimately have "search_root B L s =
      scan_sectors B L (map (\<lambda>i. i + 19) [0..<15]) \<lparr>f_c = 0, file_size = 0, first_kernel_cluster = -1\<rparr> (s\<lparr>tty_out := t3\<rparr>)"
    unfolding search_root_def Let_def assms(3,4) by (simp only: t1 t2 t3 rbind_Inr)
  then show ?thesis
    using scan_sectors_outcome [OF assms(1), of "s\<lparr>tty_out := t3\<rparr>" L "[0..<15]" "\<lparr>f_c = 0, file_size = 0, first_kernel_cluster = -1\<rparr>"]
      assms(2) unfolding entries_root by auto
qed

lemma start_c_runs:
  fixes s :: "'a loader_scheme"
  assumes disk: "serves B img" "fat12_disk img" and seg: "seg_es s = loader_ds L"
    and load: "\<And>s2 :: 'a loader_scheme. \<lbrakk>seg_es s2 = loader_ds L; kernel_addr s2 = kernel_addr s; root_dir_occupy_sector (bpb s2) = 14;
        root_dir_start_sector (bpb s2) = 19; \<forall>x. 0x110000 \<le> unat x \<longrightarrow> mem s2 x = mem s x\<rbrakk> \<Longrightarrow>
      \<exists>s3. load_file_to_ram B L (first_kernel_cluster se) (512 < unat (file_size se)) s2 = Inr s3 \<and> Q (mem s3)"
    and se: "se = outcome img [0..<240] \<lparr>f_c = 0, file_size = 0, first_kernel_cluster = -1\<rparr>"
    and sizes: "- (2 ^ 31) < first_kernel_cluster se" "- (2 ^ 31) < sint (file_size se)"
  shows "\<exists>s'. start_c B L dp s = Inr s' \<and> (\<exists>m. mem s' = dump_memory m \<and> Q m)"
proof -
  obtain failed dp1 s1 where p: "get_drive_params B dp 0 s = (failed, dp1, s1)" by (cases "get_drive_params B dp 0 s")
  then obtain e where s1: "s1 = s\<lparr>seg_es := e\<rparr>" by (auto simp: get_drive_params_def split: prod.splits)
  have "s1 = s1\<lparr>tty_out := tty_out s1\<rparr>" by simp
  moreover have "\<exists>t. name_values [(''dp.spt'', int (unat (spt dp1))), (''dp.numh'', int (unat (numh dp1)))] (s1\<lparr>tty_out := tty_out s1\<rparr>) =
      Inr (s1\<lparr>tty_out := t\<rparr>)" by (rule name_values_returns) (simp add: uint_above)
  ultimately obtain t1 where t1: "name_values [(''dp.spt'', int (unat (spt dp1))), (''dp.numh'', int (unat (numh dp1)))] s1 =
      Inr (s1\<lparr>tty_out := t1\<rparr>)" by metis
  have restored: "s1\<lparr>tty_out := t1\<rparr>\<lparr>seg_es := seg_es s\<rparr> = s\<lparr>tty_out := t1\<rparr>" by (simp add: s1)
  obtain t2 where t2: "print CRLF (s\<lparr>tty_out := t1\<rparr>) = s\<lparr>tty_out := t2\<rparr>" using prints_only_text by blast
  obtain t3 where t3: "print (msg ''begin c'') (s\<lparr>tty_out := t2\<rparr>) = s\<lparr>tty_out := t3\<rparr>" using prints_only_text by blast
  obtain m4 t4 b where r4: "read_bpb B L (s\<lparr>tty_out := t3\<rparr>) = Inr (s\<lparr>mem := m4, tty_out := t4, bpb := b\<rparr>)"
    "root_dir_occupy_sector b = 14" "root_dir_start_sector b = 19" "\<forall>x. 0x110000 \<le> unat x \<longrightarrow> m4 x = mem s x"
    using read_bpb_geometry [OF disk, of "s\<lparr>tty_out := t3\<rparr>" L] seg by auto
  obtain m5 t5 where r5: "search_root B L (s\<lparr>mem := m4, tty_out := t4, bpb := b\<rparr>) = Inr (se, s\<lparr>bpb := b, mem := m5, tty_out := t5\<rparr>)"
    "\<forall>x. 0x110000 \<le> unat x \<longrightarrow> m5 x = m4 x"
    using search_root_outcome [OF disk(1), of "s\<lparr>mem := m4, tty_out := t4, bpb := b\<rparr>" L] seg r4(2,3) se by auto
  let ?s = "s\<lparr>bpb := b, mem := m5\<rparr>"
  obtain t6 where t6: "print (CRLF @ msg ''first_kernel_cluster: '') (?s\<lparr>tty_out := t5\<rparr>) = ?s\<lparr>tty_out := t6\<rparr>"
    using prints_only_text by blast
  obtain t7 where t7: "s16_print_int (first_kernel_cluster se) 10 (?s\<lparr>tty_out := t6\<rparr>) = Inr (?s\<lparr>tty_out := t7\<rparr>)"
    using s16_print_int_returns [OF sizes(1), of "?s\<lparr>tty_out := t6\<rparr>"] by auto
  obtain t8 where t8: "print (CRLF @ msg ''first_ramdisk_cluster: '') (?s\<lparr>tty_out := t7\<rparr>) = ?s\<lparr>tty_out := t8\<rparr>"
    using prints_only_text by blast
  obtain t9 where t9: "s16_print_int (-1) 10 (?s\<lparr>tty_out := t8\<rparr>) = Inr (?s\<lparr>tty_out := t9\<rparr>)"
    using s16_print_int_returns [of "-1" "?s\<lparr>tty_out := t8\<rparr>"] by auto
  obtain t10 where t10: "print (CRLF @ msg ''load kernel: '') (?s\<lparr>tty_out := t9\<rparr>) = ?s\<lparr>tty_out := t10\<rparr>"
    using prints_only_text by blast
  obtain t11 where t11: "print kernel_name (?s\<lparr>tty_out := t10\<rparr>) = ?s\<lparr>tty_out := t11\<rparr>" using prints_only_text by blast
  obtain s3 where s3: "load_file_to_ram B L (first_kernel_cluster se) (512 < unat (file_size se)) (?s\<lparr>tty_out := t11\<rparr>) = Inr s3" "Q (mem s3)"
    using load [of "?s\<lparr>tty_out := t11\<rparr>"] seg r4(2-4) r5(2) by auto
  obtain t12 where t12: "print (CRLF @ msg ''load kernel size:'' @ CRLF) s3 = s3\<lparr>tty_out := t12\<rparr>" using print_only_text by blast
  obtain t13 where t13: "name_value ''file_size'' (sint (file_size se)) (s3\<lparr>tty_out := t12\<rparr>) = Inr (s3\<lparr>tty_out := t13\<rparr>)"
    using name_value_returns [OF sizes(2)] by blast
  have "start_c B L dp s = Inr ((print CRLF (s3\<lparr>tty_out := t13\<rparr>))\<lparr>mem := dump_memory (mem (s3\<lparr>tty_out := t13\<rparr>))\<rparr>)"
    unfolding start_c_def Let_def p
    by (simp only: prod.case t1 rbind_Inr restored t2 t3 r4(1) r5(1) t6 t7 t8 t9 t10 t11 s3(1) t12 t13)
  then show ?thesis using s3(2) by auto
qed

lemma start_c_kernel:
  fixes s :: "'a loader_scheme"
  assumes disk: "serves B img" "fat12_disk img"
    and state: "seg_es s = loader_ds L" "kernel_addr s = LOAD_KERNEL_ADDR"
    and buffers: "unat (fat_buffer L) + 1024 \<le> 65536" "unat (read_data L) + 512 \<le> 65536"
    and entry: "dir_scan img [0..<240] = Some (True, k)" "unat (dir_size img k) < 2 ^ 31"
    and first: "c = unat (dir_cluster img k)" "2 \<le> c" "c + 31 < 2880"
    and chain: "if 512 < unat (dir_size img k) then fat_chain img 33 c cs else cs = []"
  shows "\<exists>s'. start_c B L dp s = Inr s' \<and>
    (\<forall>p < 512 * length (c # cs). mem s' (LOAD_KERNEL_ADDR + of_nat p) = file_byte img 33 (c # cs) p) \<and>
    (\<forall>x. 0x110000 \<le> unat x \<and> \<not> addr_in LOAD_KERNEL_ADDR (512 * length (c # cs)) x \<longrightarrow> mem s' x = mem s x)"
proof -
  let ?n = "512 * length (c # cs)"
  let ?Q = "\<lambda>m. \<forall>x. 0x110000 \<le> unat x \<longrightarrow> m x =
    (if addr_in LOAD_KERNEL_ADDR ?n x then file_byte img 33 (c # cs) (unat (x - LOAD_KERNEL_ADDR)) else mem s x)"
  define se where "se = outcome img [0..<240] \<lparr>f_c = 0, file_size = 0, first_kernel_cluster = -1\<rparr>"
  have se: "first_kernel_cluster se = int c" "file_size se = dir_size img k"
    using entry(1) first(1) by (simp_all add: se_def outcome_def noted_def)
  have len: "length cs \<le> 2880" using chain fat_chain_length by (auto split: if_splits)
  have "\<exists>s3. load_file_to_ram B L (first_kernel_cluster se) (512 < unat (file_size se)) s2 = Inr s3 \<and> ?Q (mem s3)"
    if "seg_es s2 = loader_ds L" "kernel_addr s2 = kernel_addr s" "root_dir_occupy_sector (bpb s2) = 14"
      "root_dir_start_sector (bpb s2) = 19" "\<forall>x. 0x110000 \<le> unat x \<longrightarrow> mem s2 x = mem s x" for s2 :: "'a loader_scheme"
  proof -
    have ok: "loader_ok L 33 s2" using buffers that by (simp add: loader_ok_def)
    have c: "c - 2 + 33 < 2880" using first by simp
    have ka: "0x110000 \<le> unat (kernel_addr s2)" "unat (kernel_addr s2) < 2 ^ 31" using that(2) state(2) by simp_all
    obtain m t where m: "load_file_to_ram B L (int c) (512 < unat (dir_size img k)) s2 =
        Inr (s2\<lparr>mem := m, kernel_addr := kernel_addr s2 + of_nat ?n, tty_out := t\<rparr>)"
      "\<forall>x. 0x110000 \<le> unat x \<longrightarrow> m x =
        (if addr_in (kernel_addr s2) ?n x then file_byte img 33 (c # cs) (unat (x - kernel_addr s2)) else mem s2 x)"
      using load_file_places [OF disk(1) ok first(2) c ka chain] by blast
    have "?Q m" using m(2) that(2,5) state(2) by simp
    then show ?thesis using m(1) se by (intro exI conjI) auto
  qed
  moreover have "- (2 ^ 31) < sint (file_size se)"
  proof -
    have "int (unat (dir_size img k)) < int (2 ^ 31)" using entry(2) by (simp only: of_nat_less_iff)
    then have "uint (file_size se) < 2 ^ 31" using se(2) by simp
    then have "sint (file_size se) = uint (file_size se)"
      by (simp add: sint_uint signed_take_bit_int_eq_self uint_above [THEN less_imp_le])
    then show ?thesis by (simp add: uint_above)
  qed
  ultimately obtain s' m where s': "start_c B L dp s = Inr s'" "mem s' = dump_memory m" "?Q m"
    using start_c_runs [OF disk, of s L se ?Q dp] state(1) se(1) se_def by auto
  have high: "0x110000 \<le> unat (LOAD_KERNEL_ADDR + of_nat p)" "unat (LOAD_KERNEL_ADDR + of_nat p - LOAD_KERNEL_ADDR) = p"
    "addr_in LOAD_KERNEL_ADDR ?n (LOAD_KERNEL_ADDR + of_nat p)" if "p < ?n" for p
    using that len by (simp_all add: unat_word_ariths unat_of_nat32 addr_in_def)
  have "mem s' (LOAD_KERNEL_ADDR + of_nat p) = file_byte img 33 (c # cs) p" if "p < ?n" for p
    using s'(3) high [OF that] unfolding s'(2) by (simp add: dump_memory_high)
  moreover have "mem s' x = mem s x" if "0x110000 \<le> unat x" "\<not> addr_in LOAD_KERNEL_ADDR ?n x" for x
    using s'(3) that unfolding s'(2) by (simp add: dump_memory_high)
  ultimately show ?thesis using s'(1) by blast
qed

text \<open>C19. The loader finds the kernel and loads it. On a 1.44 MB disk whose root directory has a
  file named P_KERNEL.ELF before its first unused entry, the loader returns with all clusters of
  the file, in the order of its chain, at 0x300000 and the following addresses, and no other byte
  above the first megabyte (and the 64 KB its segment can reach beyond) has changed. A file
  of at most 512 bytes is one cluster; the table is not read for it.\<close>

theorem start_c_loads_kernel:
  fixes s :: "'a loader_scheme"
  assumes disk: "serves B img" "fat12_disk img"
    and state: "seg_es s = loader_ds L" "kernel_addr s = LOAD_KERNEL_ADDR"
    and buffers: "unat (fat_buffer L) + 1024 \<le> 65536" "unat (read_data L) + 512 \<le> 65536"
    and entry: "dir_scan img [0..<240] = Some (True, k)" "unat (dir_size img k) < 2 ^ 31"
    and first: "c = unat (dir_cluster img k)" "2 \<le> c" "c + 31 < 2880"
    and chain: "if 512 < unat (dir_size img k) then fat_chain img 33 c cs else cs = []"
  shows "\<exists>s'. start_c B L dp s = Inr s' \<and>
    (\<forall>p < 512 * length (c # cs). mem s' (LOAD_KERNEL_ADDR + of_nat p) = file_byte img 33 (c # cs) p) \<and>
    (\<forall>x. 0x110000 \<le> unat x \<and> \<not> addr_in LOAD_KERNEL_ADDR (512 * length (c # cs)) x \<longrightarrow> mem s' x = mem s x)"
  by (rule start_c_kernel [OF assms])

definition kernel_disk :: floppy where
  "kernel_disk p =
     (if p = 12 then 2 else if p = 14 then 1 else if p = 16 then 2 else if p = 17 then 224 else if p = 22 then 9
      else if 515 \<le> p \<and> p < 518 then [3, 0xf0, 0xff] ! (p - 515)
      else if 9728 \<le> p \<and> p < 9739 then kernel_name ! (p - 9728)
      else if p = 9754 then 2 else if p = 9757 then 4
      else if 16896 \<le> p \<and> p < 16984 then sample_elf ! (p - 16896)
      else if p = 17408 then 0xab else 0)"

definition sample_loader :: loader where
  "sample_loader =
     \<lparr>mem = (\<lambda>_. 0), io_log = [], tty_out = [], seg_es = 0x9000,
      bpb = \<lparr>vendor_name = [], byte_per_sector = 1, sector_per_cluster = 1, boot_occupy_sector = 1, fat_count = 1,
        root_entry_count = 1, logic_sector_count = 1, floppy_type = 1, fat_occupy_sector = 1, sector_per_track = 1,
        head_count = 1, hidden_sector_count = 1, root_dir_occupy_sector = 1, root_dir_start_sector = 1\<rparr>,
      kernel_addr = 0x300000\<rparr>"

lemma kernel_disk_entry:
  "fat12_disk kernel_disk" "dir_scan kernel_disk [0..<240] = Some (True, 0)"
  "dir_cluster kernel_disk 0 = 2" "dir_size kernel_disk 0 = 1024"
  "fat_chain kernel_disk 33 2 [3]"
proof -
  show "fat12_disk kernel_disk" by (simp add: fat12_disk_def kernel_disk_def)
  have name: "dir_name kernel_disk 0 = kernel_name"
    by (intro nth_equalityI) (simp_all add: dir_name_def dir_byte_def kernel_disk_def kernel_name_def msg_def)
  have "dir_byte kernel_disk 0 0 = 0x50" "dir_byte kernel_disk 0 0x0b = 0"
    by (simp_all add: dir_byte_def kernel_disk_def kernel_name_def msg_def)
  moreover have "names_kernel kernel_name" by code_simp
  ultimately show "dir_scan kernel_disk [0..<240] = Some (True, 0)"
    by (subst upt_conv_Cons) (simp_all add: name)
  show "dir_cluster kernel_disk 0 = 2" "dir_size kernel_disk 0 = 1024"
    by (simp_all add: dir_cluster_def dir_size_def dir_byte_def kernel_disk_def)
  show "fat_chain kernel_disk 33 2 [3]"
    by (simp add: fat_entry_def kernel_disk_def)
qed

lemma sample_buffers:
  "seg_es sample_loader = loader_ds loader_link" "kernel_addr sample_loader = 0x300000"
  "unat (fat_buffer loader_link) + 1024 \<le> 65536" "unat (read_data loader_link) + 512 \<le> 65536"
  by (simp_all add: sample_loader_def loader_link_def)

lemma sample_file:
  "unat (dir_size kernel_disk 0) < 2 ^ 31" "2 = unat (dir_cluster kernel_disk 0)" "2 \<le> (2 :: nat)" "2 + 31 < (2880 :: nat)"
  "if 512 < unat (dir_size kernel_disk 0) then fat_chain kernel_disk 33 2 [3] else [3] = []"
  unfolding kernel_disk_entry(3,4) using kernel_disk_entry(5) by simp_all

theorem start_c_loads_kernel_witness:
  "\<exists>s'. start_c (drive kernel_disk) loader_link \<lparr>spt = 0, numh = 0\<rparr> sample_loader = Inr s' \<and>
     mem s' 0x300000 = 0x7f \<and> mem s' 0x300200 = 0xab"
proof -
  have "file_byte kernel_disk 33 [2, 3] 0 = 0x7f" "file_byte kernel_disk 33 [2, 3] 512 = 0xab"
    by (simp_all add: file_byte_def kernel_disk_def sample_elf_def)
  moreover obtain s' where "start_c (drive kernel_disk) loader_link \<lparr>spt = 0, numh = 0\<rparr> sample_loader = Inr s'"
    "\<forall>p < 512 * length [2, 3 :: nat]. mem s' (LOAD_KERNEL_ADDR + of_nat p) = file_byte kernel_disk 33 [2, 3] p"
    using start_c_loads_kernel [OF drive_serves kernel_disk_entry(1) sample_buffers kernel_disk_entry(2) sample_file,
        of "\<lparr>spt = 0, numh = 0\<rparr>"] by blast
  moreover from this(2) [rule_format, of 0] this(2) [rule_format, of 512]
  have "mem s' 0x300000 = file_byte kernel_disk 33 [2, 3] 0" "mem s' 0x300200 = file_byte kernel_disk 33 [2, 3] 512" by simp_all
  ultimately show ?thesis by (intro exI conjI) (simp_all only:)
qed

section \<open>From the disk to the place of the kernel\<close>

lemma agrees_header:
  assumes "agrees m 0 img N" and "52 \<le> N"
  shows "e_entry m 0 = e_entry img 0" "e_phoff m 0 = e_phoff img 0" "e_phnum m 0 = e_phnum img 0"
  using agrees_read32 [OF assms(1), of 24] agrees_read32 [OF assms(1), of 28] agrees_read16 [OF assms(1), of 44] assms(2)
  by (simp_all add: e_entry_def e_phoff_def e_phnum_def)

lemma segments_agree:
  assumes "agrees m 0 img N" and "N < 2 ^ 32"
  shows "unat ph + 32 * n \<le> N \<Longrightarrow> segments m ph n = segments img ph n"
proof (induction n arbitrary: ph)
  case (Suc n)
  have off: "unat (ph + of_nat i) = unat ph + i" if "i \<le> 32" for i
    using that Suc.prems assms(2) by (simp add: unat_word_ariths unat_of_nat32)
  have "read32 m (ph + of_nat i) = read32 img (ph + of_nat i)" if "i \<le> 28" for i
    using agrees_read32 [OF assms(1), of "ph + of_nat i"] off [of i] that Suc.prems by simp
  from this [of 0] this [of 4] this [of 8] this [of 16]
  have "p_type m ph = p_type img ph" "p_offset m ph = p_offset img ph" "p_vaddr m ph = p_vaddr img ph"
    "p_filesz m ph = p_filesz img ph" by (simp_all add: p_type_def p_offset_def p_vaddr_def p_filesz_def)
  moreover have "segments m (ph + 32) n = segments img (ph + 32) n"
    using off [of 32] Suc.prems by (intro Suc.IH) simp
  ultimately show ?case by simp
qed simp

lemma places_agree:
  assumes "agrees m 0 img N" and "N < 2 ^ 32"
  shows "\<forall>g \<in> set gs. segment_ok buf N D g \<Longrightarrow> fold (place m) gs v = fold (place img) gs v"
proof (induction gs arbitrary: v)
  case (Cons g gs)
  obtain va off sz where g: "g = (va, off, sz)" by (cases g)
  have "place m g v x = place img g v x" for x
  proof (cases "addr_in va (unat sz) x")
    case True
    then have "unat off + unat (x - va) < N" using Cons.prems by (simp add: g segment_ok_def addr_in_def)
    then have "unat (off + (x - va)) < N" using assms(2) by (simp add: unat_word_ariths)
    then show ?thesis using assms(1) by (simp add: g place_def agrees_def)
  qed (simp add: g place_def)
  then have "place m g v = place img g v" by blast
  then show ?case using Cons by simp
qed simp

text \<open>C18. From the disk to the kernel in its place. Let the file P_KERNEL.ELF of a 1.44 MB disk be an executable whose
  header, program headers and segments lie in its clusters and are not placed over the
  loaded file or the screen. Then the loader returns, and \<open>copy_elf_code\<close>, started on the memory it
  leaves, returns the entry address of the file with the loadable segments of the file placed at
  their addresses and all other memory but the screen unchanged.\<close>

theorem boot_places_kernel:
  fixes s :: "'a loader_scheme" and u :: "'b stdio_scheme"
  assumes disk: "serves B img" "fat12_disk img"
    and state: "seg_es s = loader_ds L" "kernel_addr s = LOAD_KERNEL_ADDR"
    and buffers: "unat (fat_buffer L) + 1024 \<le> 65536" "unat (read_data L) + 512 \<le> 65536"
    and entry: "dir_scan img [0..<240] = Some (True, k)" "unat (dir_size img k) < 2 ^ 31"
    and first: "c = unat (dir_cluster img k)" "2 \<le> c" "c + 31 < 2880"
    and chain: "if 512 < unat (dir_size img k) then fat_chain img 33 c cs else cs = []"
    and elf: "elf = (\<lambda>x. file_byte img 33 (c # cs) (unat x))" "n = unat (e_phnum elf 0)" "N = 512 * length (c # cs)"
    and table: "unat (e_phoff elf 0) + 32 * n \<le> N"
    and scr: "disjoint_ranges LOAD_KERNEL_ADDR N VB (160 * (3 * n + 13))"
    and ok: "\<forall>g \<in> set (segments elf (e_phoff elf 0) n). segment_ok LOAD_KERNEL_ADDR N (160 * (3 * n + 13)) g"
  shows "\<exists>s'. start_c B L dp s = Inr s' \<and>
    (\<exists>u'. copy_elf_code (u\<lparr>mem := mem s'\<rparr>) = Inr (e_entry elf 0, u') \<and>
      (\<forall>y. \<not> addr_in VB (160 * (3 * n + 13)) y \<longrightarrow>
         mem u' y = fold (place elf) (segments elf (e_phoff elf 0) n) (mem s') y))"
proof -
  obtain s' where s': "start_c B L dp s = Inr s'"
    "\<forall>p < 512 * length (c # cs). mem s' (LOAD_KERNEL_ADDR + of_nat p) = file_byte img 33 (c # cs) p"
    using start_c_kernel [OF disk state buffers entry first chain] by blast
  let ?m = "\<lambda>x. mem (u\<lparr>mem := mem s'\<rparr>) (LOAD_KERNEL_ADDR + x)"
  have len: "length cs \<le> 2880" using chain fat_chain_length by (auto split: if_splits)
  then have N: "52 \<le> N" "N < 2 ^ 32" using elf(3) by simp_all
  have agr: "agrees ?m 0 elf N" unfolding agrees_def
  proof (intro allI impI)
    fix x :: u32 assume "unat x < N"
    then show "?m (0 + x) = elf x" using s'(2) [rule_format, of "unat x"] elf(1,3) by simp
  qed
  note hdr = agrees_header [OF agr N(1)]
  note segs = segments_agree [OF agr N(2) table]
  have "\<exists>u'. copy_elf_code (u\<lparr>mem := mem s'\<rparr>) = Inr (e_entry ?m 0, u') \<and>
      (\<forall>y. \<not> addr_in VB (160 * (3 * unat (e_phnum ?m 0) + 13)) y \<longrightarrow>
        mem u' y = fold (place ?m) (segments ?m (e_phoff ?m 0) (unat (e_phnum ?m 0))) (mem (u\<lparr>mem := mem s'\<rparr>)) y)"
    by (rule elf_code_loads) (use N table scr ok in \<open>simp_all only: hdr segs elf(2) [symmetric] less_imp_le\<close>)
  then show ?thesis
    using s'(1) unfolding hdr elf(2) [symmetric] segs places_agree [OF agr N(2) ok] by auto
qed

lemma kernel_disk_file: "k < 88 \<Longrightarrow> file_byte kernel_disk 33 [2, 3] k = sample_elf ! k"
  by (simp add: file_byte_def kernel_disk_def)

lemma kernel_disk_elf:
  fixes elf defines "elf \<equiv> \<lambda>x. file_byte kernel_disk 33 [2, 3] (unat x)"
  shows "unat (e_phnum elf 0) = 1" "e_phoff elf 0 = 52" "e_entry elf 0 = 0x100000" "segments elf 52 1 = [(0x100000, 84, 4)]"
    "elf 84 = 0xef"
proof -
  have "agrees elf 0 (\<lambda>x. elf_memory (LOAD_KERNEL_ADDR + x)) 88"
    using kernel_disk_file by (simp add: agrees_def elf_def elf_memory_def Let_def)
  note hdr = agrees_header [OF this] and segs = segments_agree [OF this, of 52 1] and agr = this
  show "unat (e_phnum elf 0) = 1" "e_phoff elf 0 = 52" "e_entry elf 0 = 0x100000"
    using hdr sample_elf_headers(1-3) by simp_all
  show "segments elf 52 1 = [(0x100000, 84, 4)]" using segs sample_elf_headers(4) by simp
  show "elf 84 = 0xef" using agr sample_elf_headers(5) by (simp add: agrees_def)
qed

theorem boot_places_kernel_witness:
  "\<exists>s'. start_c (drive kernel_disk) loader_link \<lparr>spt = 0, numh = 0\<rparr> sample_loader = Inr s' \<and>
     (\<exists>u'. copy_elf_code (blank_stdio\<lparr>mem := mem s'\<rparr>) = Inr (0x100000, u') \<and> mem u' 0x100000 = 0xef)"
proof -
  let ?elf = "\<lambda>x. file_byte kernel_disk 33 [2, 3] (unat x)"
  have hyps: "?elf = (\<lambda>x. file_byte kernel_disk 33 (2 # [3]) (unat x))" "1 = unat (e_phnum ?elf 0)" "1024 = 512 * length (2 # [3 :: nat])"
    "unat (e_phoff ?elf 0) + 32 * 1 \<le> 1024" "disjoint_ranges LOAD_KERNEL_ADDR 1024 VB (160 * (3 * 1 + 13))"
    "\<forall>g \<in> set (segments ?elf (e_phoff ?elf 0) 1). segment_ok LOAD_KERNEL_ADDR 1024 (160 * (3 * 1 + 13)) g"
    unfolding kernel_disk_elf(1-4) by (simp_all add: segment_ok_def disjoint_ranges_def)
  obtain s' u' where "start_c (drive kernel_disk) loader_link \<lparr>spt = 0, numh = 0\<rparr> sample_loader = Inr s'"
    "copy_elf_code (blank_stdio\<lparr>mem := mem s'\<rparr>) = Inr (0x100000, u')"
    "\<forall>y. \<not> addr_in VB (160 * (3 * 1 + 13)) y \<longrightarrow> mem u' y = fold (place ?elf) [(0x100000, 84, 4)] (mem s') y"
    using boot_places_kernel [OF drive_serves kernel_disk_entry(1) sample_buffers kernel_disk_entry(2) sample_file hyps,
        where dp = "\<lparr>spt = 0, numh = 0\<rparr>" and u = blank_stdio] unfolding kernel_disk_elf(1-4) by blast
  moreover from this(3) [rule_format, of "0x100000"] have "mem u' 0x100000 = 0xef"
    using kernel_disk_elf(5) by (simp add: addr_in_def place_def)
  ultimately show ?thesis by blast
qed

section \<open>A disk without a kernel\<close>

lemma load_file_missing:
  assumes serves: "serves B img" and ok: "loader_ok L 33 s"
    and ka: "0x110000 \<le> unat (kernel_addr s)" "unat (kernel_addr s) < 2 ^ 31"
  shows "\<exists>m t. load_file_to_ram B L (-1) False s = Inr (s\<lparr>mem := m, kernel_addr := kernel_addr s + 512, tty_out := t\<rparr>)
    \<and> (\<forall>x. 0x110000 \<le> unat x \<longrightarrow> m x =
        (if addr_in (kernel_addr s) 512 x then img (512 * 30 + unat (x - kernel_addr s)) else mem s x))"
proof -
  have "unat (root_dir_occupy_sector (bpb s)) + unat (root_dir_start_sector (bpb s)) = 33" using ok by (simp add: loader_ok_def)
  then have "int (unat (root_dir_occupy_sector (bpb s))) + int (unat (root_dir_start_sector (bpb s))) = 33"
    by (simp only: of_nat_add [symmetric] of_nat_numeral)
  then have sec: "cluster_sector (bpb s) (-1) = int 30" by (simp only: cluster_sector_def) simp
  obtain t1 where t1: "print_num (-1) (msg ''begin_cluster'') s = Inr (s\<lparr>tty_out := t1\<rparr>)"
    using print_num_returns [of "-1"] by auto
  obtain t2 where t2: "print_num (int 30) (msg ''cluster sector no'') (s\<lparr>tty_out := t1\<rparr>) = Inr (s\<lparr>tty_out := t2\<rparr>)"
    using print_num_returns [of "int 30" _ "s\<lparr>tty_out := t1\<rparr>"] by auto
  let ?s2 = "s\<lparr>tty_out := t2\<rparr>"
  have ok2: "loader_ok L 33 ?s2" using ok by (simp add: loader_ok_def)
  have "30 < (2880 :: nat)" by simp
  note placed = load_sector_places [OF serves ok2 this]
  obtain m where m: "load_sector B L (int 30) ?s2 = ?s2\<lparr>mem := m, kernel_addr := kernel_addr s + 512\<rparr>"
    "\<forall>x. 0x110000 \<le> unat x \<longrightarrow> m x =
      (if addr_in (kernel_addr s) 512 x then img (512 * 30 + unat (x - kernel_addr s)) else mem s x)"
    using placed ka by auto
  obtain t3 where t3: "print (CRLF @ msg ''.'') (?s2\<lparr>mem := m, kernel_addr := kernel_addr s + 512\<rparr>) =
      ?s2\<lparr>mem := m, kernel_addr := kernel_addr s + 512, tty_out := t3\<rparr>" using print_only_text by blast
  have "load_file_to_ram B L (-1) False s = Inr (s\<lparr>mem := m, kernel_addr := kernel_addr s + 512, tty_out := t3\<rparr>)"
    unfolding load_file_to_ram_def Let_def sec t1 rbind_Inr t2 m(1) t3 by simp
  then show ?thesis using m(2) by blast
qed

text \<open>C22. The loader does not notice that there is no kernel. When the search of the root directory ends at an unused
  entry, whose size is 0, it loads the sector that precedes the data of the disk by three, in the
  root directory, to 0x300000 and goes on as if this were the kernel.\<close>

theorem start_c_without_kernel:
  fixes s :: "'a loader_scheme"
  assumes disk: "serves B img" "fat12_disk img"
    and state: "seg_es s = loader_ds L" "kernel_addr s = LOAD_KERNEL_ADDR"
    and buffers: "unat (fat_buffer L) + 1024 \<le> 65536" "unat (read_data L) + 512 \<le> 65536"
    and entry: "dir_scan img [0..<240] = Some (False, k)" "dir_size img k = 0"
  shows "\<exists>s'. start_c B L dp s = Inr s' \<and> (\<forall>p < 512. mem s' (LOAD_KERNEL_ADDR + of_nat p) = img (512 * 30 + p))"
proof -
  let ?Q = "\<lambda>m. \<forall>x. 0x110000 \<le> unat x \<longrightarrow> addr_in LOAD_KERNEL_ADDR 512 x \<longrightarrow> m x = img (512 * 30 + unat (x - LOAD_KERNEL_ADDR))"
  define se where "se = outcome img [0..<240] \<lparr>f_c = 0, file_size = 0, first_kernel_cluster = -1\<rparr>"
  have se: "first_kernel_cluster se = -1" "file_size se = 0"
    using entry by (simp_all add: se_def outcome_def noted_def)
  have "\<exists>s3. load_file_to_ram B L (first_kernel_cluster se) (512 < unat (file_size se)) s2 = Inr s3 \<and> ?Q (mem s3)"
    if "seg_es s2 = loader_ds L" "kernel_addr s2 = kernel_addr s" "root_dir_occupy_sector (bpb s2) = 14"
      "root_dir_start_sector (bpb s2) = 19" for s2 :: "'a loader_scheme"
  proof -
    have ok: "loader_ok L 33 s2" using buffers that by (simp add: loader_ok_def)
    have ka: "0x110000 \<le> unat (kernel_addr s2)" "unat (kernel_addr s2) < 2 ^ 31" using that(2) state(2) by simp_all
    obtain m t where m: "load_file_to_ram B L (-1) False s2 = Inr (s2\<lparr>mem := m, kernel_addr := kernel_addr s2 + 512, tty_out := t\<rparr>)"
      "\<forall>x. 0x110000 \<le> unat x \<longrightarrow> m x =
        (if addr_in (kernel_addr s2) 512 x then img (512 * 30 + unat (x - kernel_addr s2)) else mem s2 x)"
      using load_file_missing [OF disk(1) ok ka] by blast
    have "?Q m" using m(2) that(2) state(2) by simp
    then show ?thesis using m(1) se by (intro exI conjI) auto
  qed
  then obtain s' m where s': "start_c B L dp s = Inr s'" "mem s' = dump_memory m" "?Q m"
    using start_c_runs [OF disk, of s L se ?Q dp] state(1) se se_def by auto
  have "mem s' (LOAD_KERNEL_ADDR + of_nat p) = img (512 * 30 + p)" if "p < 512" for p
  proof -
    have "0x110000 \<le> unat (LOAD_KERNEL_ADDR + of_nat p)" "unat (LOAD_KERNEL_ADDR + of_nat p - LOAD_KERNEL_ADDR) = p"
      "addr_in LOAD_KERNEL_ADDR 512 (LOAD_KERNEL_ADDR + of_nat p)"
      using that by (simp_all add: unat_word_ariths unat_of_nat32 addr_in_def)
    then show ?thesis using s'(3) unfolding s'(2) by (simp add: dump_memory_high)
  qed
  then show ?thesis using s'(1) by blast
qed

definition empty_disk :: floppy where
  "empty_disk p = (if p = 12 then 2 else if p = 14 then 1 else if p = 16 then 2 else if p = 17 then 224 else if p = 22 then 9
     else if p = 15360 then 0x90 else 0)"

theorem start_c_without_kernel_witness:
  "\<exists>s'. start_c (drive empty_disk) loader_link \<lparr>spt = 0, numh = 0\<rparr> sample_loader = Inr s' \<and> mem s' 0x300000 = 0x90"
proof -
  have disk: "fat12_disk empty_disk" by (simp add: fat12_disk_def empty_disk_def)
  have scan: "dir_scan empty_disk [0..<240] = Some (False, 0)"
    by (subst upt_conv_Cons) (simp_all add: dir_byte_def empty_disk_def)
  have size: "dir_size empty_disk 0 = 0" by (simp add: dir_size_def dir_byte_def empty_disk_def)
  obtain s' where "start_c (drive empty_disk) loader_link \<lparr>spt = 0, numh = 0\<rparr> sample_loader = Inr s'"
    "\<forall>p < 512. mem s' (LOAD_KERNEL_ADDR + of_nat p) = empty_disk (512 * 30 + p)"
    using start_c_without_kernel [OF drive_serves disk sample_buffers scan size] by blast
  moreover from this(2) [rule_format, of 0] have "mem s' 0x300000 = 0x90" by (simp add: empty_disk_def)
  ultimately show ?thesis by blast
qed

end
