(* ===== verification/Start.thy ===== *)
theory Start
  imports Romfs_Lookup Boot_Table
begin

text \<open>
  Bringing the kernel up: the descriptor and interrupt tables, the task state segment, the
  timer, the exception handler and the list of initialisation functions of start.c. The
  global descriptor table is kept as the bytes the processor reads; the addresses of the
  tables and of the assembly entry points are what the linker provides.
\<close>

unbundle bit_operations_syntax

section \<open>State\<close>

abbreviation (input) GDT_SIZE :: nat where "GDT_SIZE \<equiv> 128"
abbreviation (input) IDT_SIZE :: nat where "IDT_SIZE \<equiv> 256"
abbreviation (input) INDEX_TSS :: nat where "INDEX_TSS \<equiv> 4"
abbreviation (input) INDEX_LDT_FIRST :: nat where "INDEX_LDT_FIRST \<equiv> 5"
abbreviation (input) INT_VECTOR_SYS_CALL :: u8 where "INT_VECTOR_SYS_CALL \<equiv> 0x90"
abbreviation (input) TSS_SIZE :: u32 where "TSS_SIZE \<equiv> 108"

text \<open>The words of the task state segment that the code names: \<open>ss0\<close> and \<open>iobase\<close>.\<close>

abbreviation (input) TSS_SS0 :: nat where "TSS_SS0 \<equiv> 2"
abbreviation (input) TSS_IOBASE :: nat where "TSS_IOBASE \<equiv> 26"

record boot = files +
  gdt_bytes :: "nat \<Rightarrow> u8"
  gdt_limit :: u16
  gdt_base :: u32
  idt :: "u8 \<Rightarrow> Gate"
  idt_limit :: u16
  idt_base :: u32
  tss :: "nat \<Rightarrow> u32"

text \<open>The assembly entry points that the gates lead to.\<close>

datatype entry_point =
    divide_error | single_step_exception | nmi | breakpoint_exception | overflow | bounds_check
  | inval_opcode | copr_not_available | double_fault | copr_seg_overrun | inval_tss
  | segment_not_present | stack_exception | general_protection | page_fault | copr_error
  | hwint nat | sys_call

record Boot_Link = Link +
  gdt_addr :: u32
  idt_addr :: u32
  tss_addr :: u32
  ldt_addr :: "nat \<Rightarrow> u32"
  entry_of :: "entry_point \<Rightarrow> u32"

section \<open>The global descriptor table\<close>

text \<open>The packed layout of a descriptor, little-endian.\<close>

definition desc_bytes :: "Descriptor \<Rightarrow> u8 list" where
  "desc_bytes d =
     [ucast (limit_low d), ucast (drop_bit 8 (limit_low d)), ucast (base_low d),
      ucast (drop_bit 8 (base_low d)), base_mid d, attr1 d, limit_high_attr2 d, base_high d]"

definition desc_at :: "(nat \<Rightarrow> u8) \<Rightarrow> nat \<Rightarrow> Descriptor" where
  "desc_at f i =
     \<lparr>limit_low = ucast (f (8 * i)) OR push_bit 8 (ucast (f (8 * i + 1))),
      base_low = ucast (f (8 * i + 2)) OR push_bit 8 (ucast (f (8 * i + 3))),
      base_mid = f (8 * i + 4), attr1 = f (8 * i + 5), limit_high_attr2 = f (8 * i + 6),
      base_high = f (8 * i + 7)\<rparr>"

definition put_desc :: "nat \<Rightarrow> Descriptor \<Rightarrow> (nat \<Rightarrow> u8) \<Rightarrow> (nat \<Rightarrow> u8)" where
  "put_desc i d f = (\<lambda>k. if k div 8 = i then desc_bytes d ! (k mod 8) else f k)"

abbreviation gdt_of :: "'a boot_scheme \<Rightarrow> nat \<Rightarrow> Descriptor" where
  "gdt_of s \<equiv> desc_at (gdt_bytes s)"

definition init_protected_mode_by_c :: "Boot_Link \<Rightarrow> 'a boot_scheme \<Rightarrow> 'a boot_scheme result" where
  "init_protected_mode_by_c L s =
     (let n = unat (gdt_limit s) + 1
      in if n > 8 * GDT_SIZE then Inl Out_of_bounds
         else Inr (s\<lparr>
           gdt_bytes := (\<lambda>k. if k < n then mem s (gdt_base s + of_nat k) else gdt_bytes s k),
           gdt_limit := of_nat (GDT_SIZE * 8 - 1),
           gdt_base := gdt_addr L\<rparr>))"

section \<open>The interrupt table\<close>

definition exception_gates :: "(u8 \<times> entry_point) list" where
  "exception_gates =
     [(0x0, divide_error), (0x1, single_step_exception), (0x2, nmi), (0x3, breakpoint_exception),
      (0x4, overflow), (0x5, bounds_check), (0x6, inval_opcode), (0x7, copr_not_available),
      (0x8, double_fault), (0x9, copr_seg_overrun), (0xA, inval_tss), (0xB, segment_not_present),
      (0xC, stack_exception), (0xD, general_protection), (0xE, page_fault), (0x10, copr_error)]"

definition hwint_gates :: "(u8 \<times> entry_point) list" where
  "hwint_gates = map (\<lambda>i. (INT_VECTOR_IRQ0 + of_nat i, hwint i)) [0..<16]"

definition put_gate ::
  "Boot_Link \<Rightarrow> u8 \<Rightarrow> entry_point \<Rightarrow> u8 \<Rightarrow> 'a boot_scheme \<Rightarrow> 'a boot_scheme" where
  "put_gate L v h privilege s =
     s\<lparr>idt := init_idt_desc_by_c v DA_386IGate (entry_of L h) privilege (idt s)\<rparr>"

definition init_idt_by_c :: "Boot_Link \<Rightarrow> 'a boot_scheme \<Rightarrow> int \<times> 'a boot_scheme" where
  "init_idt_by_c L s =
     (let s1 = s\<lparr>idt_limit := of_nat (IDT_SIZE * 8 - 1), idt_base := idt_addr L\<rparr>;
          s2 = fold (\<lambda>(v, h). put_gate L v h PRIVILEGE_KRNL) exception_gates s1;
          s3 = fold (\<lambda>(v, h). put_gate L v h PRIVILEGE_KRNL) hwint_gates s2
      in (0, put_gate L INT_VECTOR_SYS_CALL sys_call PRIVILEGE_USER s3))"

section \<open>Exceptions\<close>

definition err_msg :: "string list" where
  "err_msg =
     [''#DE: Dvivde Error'', ''#DB: RESERVED'', ''-- : NMI Interrupt'', ''#BP: Breakppoint'',
      ''#OF: Overflow'', ''#BR: BOUND Range Exceeded'', ''#UD: Invalid Opcode (Undefined Opcode)'',
      ''#NM: Device Not Available (No Math Coprocessor)'', ''#DF: Double Fault'',
      ''   : Coprocessor Segment Overrun (reserved)'', ''#TS: Invalid TSS'',
      ''#NP: Segment Not Present'', ''#SS: Stack-Segment Fault'', ''#GP: General Protection'',
      ''#PF: Page Fault'', ''-- : (Intel reserved. Do not use.)'',
      ''#MF: x87 FPU Floating-Point Error (Math Fault)'', ''#AC: Alignment Check'',
      ''#MC: Machine Check'', ''#XF: SIMD Floating-Point Exceprion'']"

abbreviation (input) at_line :: "nat \<Rightarrow> u32" where "at_line n \<equiv> VB + 160 * of_nat n"

definition exception_handler ::
  "int \<Rightarrow> u32 \<Rightarrow> u32 \<Rightarrow> u32 \<Rightarrow> u32 \<Rightarrow> 'a stdio_scheme \<Rightarrow> 'a stdio_scheme result" where
  "exception_handler vec_no err_code eip cs eflags s =
     (let s1 = s32_print (map of_char ''exception_handler'') (at_line 24) s;
          s2 = clear_line 23 (clear_line 3 (clear_line 2 (clear_line 1 (clear_line 0 s1))))
      in if vec_no < 0 \<or> vec_no \<ge> int (length err_msg) then Inl Out_of_bounds
         else
           let s3 = s32_print (map of_char (err_msg ! nat vec_no)) (at_line 23) s2
           in rbind (s32_itoa eflags 16) (\<lambda>str.
              let s4 = s32_print str (at_line 1) (s32_print (map of_char ''eflags'') (at_line 0) s3)
              in rbind (s32_itoa cs 16) (\<lambda>str.
                 let s5 = s32_print str (at_line 3) (s32_print (map of_char ''cs'') (at_line 2) s4)
                 in rbind (s32_itoa eip 16) (\<lambda>str.
                    let s6 = s32_print str (at_line 5) (clear_line 5
                               (s32_print (map of_char ''eip'') (at_line 4) (clear_line 4 s5)))
                    in if err_code \<noteq> 0xffffffff
                       then rbind (s32_itoa err_code 16) (\<lambda>str.
                         Inr (s32_print str (at_line 7) (clear_line 7
                           (s32_print (map of_char ''err_code'') (at_line 6) (clear_line 6 s6)))))
                       else Inr s6))))"

section \<open>Task state segment, timer, delay\<close>

definition init_tss :: "Boot_Link \<Rightarrow> 'a boot_scheme \<Rightarrow> int \<times> 'a boot_scheme" where
  "init_tss L s =
     (let s1 = s\<lparr>tss := (\<lambda>_. 0)(TSS_SS0 := ucast SELECTOR_KERNEL_DS)\<rparr>;
          s2 = s1\<lparr>gdt_bytes := put_desc INDEX_TSS
                 (init_descriptor (linear2phy (seg2base (gdt_of s1) SELECTOR_KERNEL_DS) (tss_addr L))
                   (TSS_SIZE - 1) DA_386TSS) (gdt_bytes s1)\<rparr>;
          s3 = s2\<lparr>tss := (tss s2)(TSS_IOBASE := TSS_SIZE)\<rparr>
      in (0, fold (\<lambda>i s. s\<lparr>gdt_bytes := put_desc (INDEX_LDT_FIRST + i)
                 (init_descriptor (linear2phy (seg2base (gdt_of s) SELECTOR_KERNEL_DS) (ldt_addr L i))
                   (2 * 8 - 1) DA_LDT) (gdt_bytes s)\<rparr>) [0..<NR_TASKS + NR_PROCS] s3))"

abbreviation (input) TIMER_FREQ :: nat where "TIMER_FREQ \<equiv> 1193182"
abbreviation (input) HZ :: nat where "HZ \<equiv> 100"

definition init_timer :: "'a machine_scheme \<Rightarrow> int \<times> 'a machine_scheme" where
  "init_timer s =
     (0, io_out8 0x40 (drop_bit 8 (of_nat (TIMER_FREQ div HZ)))
           (io_out8 0x40 (of_nat (TIMER_FREQ div HZ)) (io_out8 0x43 0x34 s)))"

text \<open>The three nested loops of \<open>loop_delay\<close> count and change nothing else.\<close>

fun delay_turns :: "nat \<Rightarrow> 'a \<Rightarrow> 'a" where
  "delay_turns 0 s = s"
| "delay_turns (Suc n) s = delay_turns n s"

definition loop_delay :: "int \<Rightarrow> 'a \<Rightarrow> 'a" where
  "loop_delay time s = delay_turns (nat time * 10 * 10000) s"

section \<open>The initialisation list\<close>

datatype init_func =
  Init_8259a | Init_idt | Init_tss | Init_timer | Ramdisk_driver_init | Init_keyboard | Romfs_init | Mm_init

definition init_list :: "init_func list" where
  "init_list = [Init_8259a, Init_idt, Init_tss, Init_timer, Ramdisk_driver_init, Init_keyboard, Romfs_init, Mm_init]"

text \<open>\<open>popf\<close> and \<open>ram\<close> are the two hardware arguments of \<open>mm_init\<close>.\<close>

definition run_init ::
  "Boot_Link \<Rightarrow> (u32 \<Rightarrow> u32) \<Rightarrow> (u32 \<Rightarrow> bool)
    \<Rightarrow> init_func \<Rightarrow> 'a boot_scheme \<Rightarrow> 'a boot_scheme result" where
  "run_init L popf ram f s =
     (case f of
        Init_8259a \<Rightarrow> Inr (init_8259a s)
      | Init_idt \<Rightarrow> Inr (snd (init_idt_by_c L s))
      | Init_tss \<Rightarrow> Inr (snd (init_tss L s))
      | Init_timer \<Rightarrow> Inr (snd (init_timer s))
      | Ramdisk_driver_init \<Rightarrow> rbind (ramdisk_driver_init (Link.truncate L) s) (\<lambda>(_, s'). Inr s')
      | Init_keyboard \<Rightarrow> Inr (init_keyboard s)
      | Romfs_init \<Rightarrow> rbind (romfs_init (Link.truncate L) s) (\<lambda>(_, s'). Inr s')
      | Mm_init \<Rightarrow> mm_init popf ram s)"

fun run_inits ::
  "Boot_Link \<Rightarrow> (u32 \<Rightarrow> u32) \<Rightarrow> (u32 \<Rightarrow> bool)
    \<Rightarrow> init_func list \<Rightarrow> 'a boot_scheme \<Rightarrow> 'a boot_scheme result" where
  "run_inits L popf ram [] s = Inr s"
| "run_inits L popf ram (f # fs) s =
     rbind (run_init L popf ram f s) (run_inits L popf ram fs)"

text \<open>\<open>load_init_boot\<close> with the address of its local buffer, and \<open>plat_boot\<close>.\<close>

definition load_init_boot ::
  "Boot_Link \<Rightarrow> (u32 \<Rightarrow> u32) \<Rightarrow> (u32 \<Rightarrow> bool)
    \<Rightarrow> u32 \<Rightarrow> init_func list \<Rightarrow> 'a boot_scheme \<Rightarrow> 'a boot_scheme result" where
  "load_init_boot L popf ram buf fs s =
     rbind (run_inits L popf ram fs s) (\<lambda>s1.
     rbind (dout (storage s1 RAMDISK) buf 0 512 s1) (\<lambda>(_, s2).
       Inr (p_dump_u8 buf 32 s2)))"

definition plat_boot ::
  "Boot_Link \<Rightarrow> (u32 \<Rightarrow> u32) \<Rightarrow> (u32 \<Rightarrow> bool)
    \<Rightarrow> u32 \<Rightarrow> 'a boot_scheme \<Rightarrow> 'a boot_scheme result" where
  "plat_boot L popf ram buf s = load_init_boot L popf ram buf init_list s"

text \<open>\<open>kernel_main\<close> up to the jump into the first process; the tests around it are compiled out.\<close>

definition kernel_main ::
  "(nat \<Rightarrow> u32) \<Rightarrow> u32 \<Rightarrow> 'a boot_scheme \<Rightarrow> 'a boot_scheme" where
  "kernel_main init_eip task_stack s =
     (let s1 = enable_irq CLOCK_IRQ (put_irq_handler CLOCK_IRQ clock_irq_handler s);
          s2 = s1\<lparr>ready_process := 0\<rparr>;
          s3 = init_proc (gdt_of s2) init_eip task_stack s2
      in set_cursor 0 s3)"

section \<open>Facts\<close>

lemma join_word16:
  "ucast (ucast v :: u8) OR push_bit 8 (ucast (ucast (drop_bit 8 v) :: u8)) = (v :: u16)" (is "?l = v")
proof (rule bit_word_eqI)
  fix n assume "n < LENGTH(16)"
  then show "bit ?l n = bit v n" by (cases "n < 8") (auto simp: bit_simps)
qed

lemma desc_at_put: "desc_at (put_desc i d f) j = (if j = i then d else desc_at f j)"
proof (cases "j = i")
  case True
  have "put_desc i d f (8 * i + k) = desc_bytes d ! k" if "k < 8" for k
    using that by (simp add: put_desc_def)
  from this [of 0] this [of 1] this [of 2] this [of 3] this [of 4] this [of 5] this [of 6] this [of 7]
  show ?thesis unfolding True by (simp add: desc_at_def desc_bytes_def join_word16)
next
  case False
  have "put_desc i d f (8 * j + k) = f (8 * j + k)" if "k < 8" for k
    using that False by (simp add: put_desc_def)
  from this [of 0] this [of 1] this [of 2] this [of 3] this [of 4] this [of 5] this [of 6] this [of 7] False
  show ?thesis by (simp add: desc_at_def)
qed

text \<open>The descriptors that \<open>init_tss\<close> leaves.\<close>

lemma init_tss_loop:
  fixes L :: Boot_Link and s :: "'a boot_scheme"
  assumes "\<forall>i \<in> set is. 2 < INDEX_LDT_FIRST + i"
  defines "f \<equiv> \<lambda>i (s :: 'a boot_scheme). s\<lparr>gdt_bytes := put_desc (INDEX_LDT_FIRST + i)
     (init_descriptor (linear2phy (seg2base (gdt_of s) SELECTOR_KERNEL_DS) (ldt_addr L i)) (2 * 8 - 1) DA_LDT)
     (gdt_bytes s)\<rparr>"
  shows "distinct is \<Longrightarrow> gdt_of (fold f is s) j =
    (if INDEX_LDT_FIRST \<le> j \<and> j - INDEX_LDT_FIRST \<in> set is
     then init_descriptor (desc_base (gdt_of s 2) + ldt_addr L (j - INDEX_LDT_FIRST)) 15 DA_LDT
     else gdt_of s j)"
  using assms(1)
proof (induction "is" arbitrary: s)
  case (Cons i "is")
  have b: "desc_base (gdt_of (f i s) 2) = desc_base (gdt_of s 2)"
    by (simp add: f_def desc_at_put)
  have "gdt_of (f i s) (INDEX_LDT_FIRST + i) =
      init_descriptor (desc_base (gdt_of s 2) + ldt_addr L i) 15 DA_LDT"
    by (simp add: f_def desc_at_put linear2phy_def seg2base_def)
  moreover have "gdt_of (f i s) j = gdt_of s j" if "j \<noteq> INDEX_LDT_FIRST + i"
    using that by (simp add: f_def desc_at_put)
  moreover have "gdt_of (fold f is (f i s)) j = (if INDEX_LDT_FIRST \<le> j \<and> j - INDEX_LDT_FIRST \<in> set is
     then init_descriptor (desc_base (gdt_of s 2) + ldt_addr L (j - INDEX_LDT_FIRST)) 15 DA_LDT
     else gdt_of (f i s) j)"
    using Cons.IH [of "f i s"] Cons.prems b by simp
  ultimately show ?case using Cons.prems by auto
qed simp

lemma init_tss_gdt:
  "gdt_of (snd (init_tss L s)) j =
    (if j = INDEX_TSS then init_descriptor (desc_base (gdt_of s 2) + tss_addr L) (TSS_SIZE - 1) DA_386TSS
     else if INDEX_LDT_FIRST \<le> j \<and> j < INDEX_LDT_FIRST + NR_SLOTS
     then init_descriptor (desc_base (gdt_of s 2) + ldt_addr L (j - INDEX_LDT_FIRST)) 15 DA_LDT
     else gdt_of s j)"
proof -
  have "distinct [0..<NR_TASKS + NR_PROCS]" "\<forall>i \<in> set [0..<NR_TASKS + NR_PROCS]. 2 < INDEX_LDT_FIRST + i"
    by auto
  note loop = init_tss_loop [OF this(2,1)]
  show ?thesis
    unfolding init_tss_def Let_def snd_conv loop
    by (auto simp: desc_at_put linear2phy_def seg2base_def)
qed

text \<open>The gates that \<open>init_idt_by_c\<close> leaves, by vector.\<close>

definition gate_to :: "u32 \<Rightarrow> u8 \<Rightarrow> Gate" where
  "gate_to h privilege = init_idt_desc_by_c 0 DA_386IGate h privilege (\<lambda>_. undefined) 0"

definition gate_dpl :: "Gate \<Rightarrow> u8" where
  "gate_dpl g = drop_bit 5 (gate_attr g) AND 3"

lemma gate_to_facts:
  "gate_offset (gate_to h p) = h" "gate_dpl (gate_to h PRIVILEGE_KRNL) = 0"
  "gate_dpl (gate_to h PRIVILEGE_USER) = 3"
  using gate_offset_init [of 0 DA_386IGate h p "\<lambda>_. undefined"]
  by (simp_all add: gate_to_def gate_dpl_def init_idt_desc_by_c_def)

lemma idt_put_gate: "idt (put_gate L v h p s) = (idt s)(v := gate_to (entry_of L h) p)"
  by (simp add: put_gate_def gate_to_def init_idt_desc_by_c_def)

lemma idt_put_gates:
  "distinct (map fst gs) \<Longrightarrow> idt (fold (\<lambda>(v, h). put_gate L v h p) gs s) v =
    (case map_of gs v of Some h \<Rightarrow> gate_to (entry_of L h) p | None \<Rightarrow> idt s v)"
proof (induction gs arbitrary: s)
  case (Cons g gs)
  obtain w h where g: "g = (w, h)" by (cases g)
  have "map_of gs w = None" using Cons.prems g by (simp add: map_of_eq_None_iff)
  then show ?case using Cons g by (auto simp: idt_put_gate split: option.splits)
qed simp

lemma gate_vectors:
  "distinct (map fst exception_gates)" "distinct (map fst hwint_gates)"
  "map_of (hwint_gates @ exception_gates) INT_VECTOR_SYS_CALL = None"
  "distinct (map fst (hwint_gates @ exception_gates))"
  by code_simp+

text \<open>The vectors by number.\<close>

lemma gate_table:
  "map (map_of (hwint_gates @ exception_gates)) [0, 1, 2, 3, 4, 5, 6, 7, 8, 9, 10, 11, 12, 13, 14, 16]
    = map Some [divide_error, single_step_exception, nmi, breakpoint_exception, overflow, bounds_check,
        inval_opcode, copr_not_available, double_fault, copr_seg_overrun, inval_tss,
        segment_not_present, stack_exception, general_protection, page_fault, copr_error]"
  by code_simp

lemma hwint_vector:
  "i < 16 \<Longrightarrow> map_of (hwint_gates @ exception_gates) (0x20 + of_nat i) = Some (hwint i)"
proof -
  have "\<forall>i \<in> set [0..<16]. map_of (hwint_gates @ exception_gates) (0x20 + of_nat i) = Some (hwint i)"
    by code_simp
  then show "i < 16 \<Longrightarrow> ?thesis" by simp
qed

lemma gate_vector_set:
  "fst ` set (hwint_gates @ exception_gates) = {0, 1, 2, 3, 4, 5, 6, 7, 8, 9, 10, 11, 12, 13, 14, 16,
     0x20, 0x21, 0x22, 0x23, 0x24, 0x25, 0x26, 0x27, 0x28, 0x29, 0x2a, 0x2b, 0x2c, 0x2d, 0x2e, 0x2f}"
  by code_simp

lemma init_idt_gate:
  "idt (snd (init_idt_by_c L s)) v =
    (if v = INT_VECTOR_SYS_CALL then gate_to (entry_of L sys_call) PRIVILEGE_USER
     else case map_of (hwint_gates @ exception_gates) v of
            Some h \<Rightarrow> gate_to (entry_of L h) PRIVILEGE_KRNL
          | None \<Rightarrow> idt s v)"
  by (auto simp: init_idt_by_c_def Let_def idt_put_gate idt_put_gates gate_vectors(1,2) map_add_def
      split: option.splits)

lemma kernel_main_gdt: "gdt_bytes (kernel_main ie stk s) = gdt_bytes s"
  by (simp add: kernel_main_def set_cursor_def init_proc_def enable_irq_def put_irq_handler_def
      disable_irq_def io_defs Let_def)

lemma init_proc_ldt_sel:
  assumes "i < NR_SLOTS"
  shows "ldt_sel (proc_table (init_proc gdt ie stk s) i) = SELECTOR_LDT_FIRST + 8 * of_nat i"
proof (cases "i < NR_TASKS + NR_NATIVE_PROCS")
  case True
  then show ?thesis by (simp add: init_proc_native init_native_def Let_def)
next
  case False
  then show ?thesis using assms by (simp add: init_proc_free)
qed

lemma kernel_main_ldt_sel:
  "i < NR_SLOTS \<Longrightarrow> ldt_sel (proc_table (kernel_main ie stk s) i) = SELECTOR_LDT_FIRST + 8 * of_nat i"
  by (simp add: kernel_main_def set_cursor_def io_defs Let_def init_proc_ldt_sel)

lemma ldt_selector_index:
  assumes "i < NR_SLOTS"
  shows "unat (drop_bit 3 (SELECTOR_LDT_FIRST + 8 * of_nat i :: u16)) = INDEX_LDT_FIRST + i"
proof -
  have "(SELECTOR_LDT_FIRST + 8 * of_nat i :: u16) = of_nat (40 + 8 * i)" by simp
  moreover have "unat (of_nat (40 + 8 * i) :: u16) = 40 + 8 * i"
    using assms by (simp only: unat_of_nat) simp
  ultimately show ?thesis
    using assms by (simp only: unsigned_drop_bit_eq) (simp add: drop_bit_eq_div take_bit_eq_mod)
qed

section \<open>Properties\<close>

text \<open>C40. The interrupt table. After \<open>init_idt_by_c\<close> the vectors 0 to 14 and 16 enter the handlers of
  the processor's exceptions of these numbers, the vectors 0x20 to 0x2f those of the hardware
  interrupts 0 to 15, and vector 0x90 the system call; no other gate is changed. Starting from
  a table without user gates, 0x90 is the only vector that user code can raise.\<close>

theorem idt_user_entry:
  fixes L :: Boot_Link and s :: "'a boot_scheme"
  assumes "\<forall>v. gate_dpl (idt s v) = 0"
  defines "t \<equiv> idt (snd (init_idt_by_c L s))"
  shows "map (\<lambda>v. gate_offset (t v)) [0, 1, 2, 3, 4, 5, 6, 7, 8, 9, 10, 11, 12, 13, 14, 16]
      = map (entry_of L)
          [divide_error, single_step_exception, nmi, breakpoint_exception, overflow, bounds_check,
           inval_opcode, copr_not_available, double_fault, copr_seg_overrun, inval_tss,
           segment_not_present, stack_exception, general_protection, page_fault, copr_error]
    \<and> (\<forall>i < 16. gate_offset (t (0x20 + of_nat i)) = entry_of L (hwint i))
    \<and> gate_offset (t 0x90) = entry_of L sys_call
    \<and> (\<forall>v. t v \<noteq> idt s v \<longrightarrow> v < 15 \<or> v = 16 \<or> 0x20 \<le> v \<and> v < 0x30 \<or> v = 0x90)
    \<and> (\<forall>v. gate_dpl (t v) = (if v = 0x90 then 3 else 0))"
proof (intro conjI allI impI)
  let ?gs = "hwint_gates @ exception_gates"
  have gate: "gate_offset (t v) = entry_of L h" if "map_of ?gs v = Some h" for v h
  proof -
    have "v \<noteq> INT_VECTOR_SYS_CALL" using that gate_vectors(3) by auto
    then show ?thesis using that by (simp only: t_def init_idt_gate if_False option.case gate_to_facts)
  qed
  have gates: "map (\<lambda>v. gate_offset (t v)) vs = map (entry_of L) hs" if "map (map_of ?gs) vs = map Some hs" for vs hs
    using that
  proof (induction vs arbitrary: hs)
    case (Cons v vs)
    then obtain h hs' where "hs = h # hs'" "map_of ?gs v = Some h" "map (map_of ?gs) vs = map Some hs'"
      by (cases hs) auto
    then show ?case using Cons.IH [of hs'] gate [of v h] by simp
  qed simp
  show "map (\<lambda>v. gate_offset (t v)) [0, 1, 2, 3, 4, 5, 6, 7, 8, 9, 10, 11, 12, 13, 14, 16]
      = map (entry_of L)
          [divide_error, single_step_exception, nmi, breakpoint_exception, overflow, bounds_check,
           inval_opcode, copr_not_available, double_fault, copr_seg_overrun, inval_tss,
           segment_not_present, stack_exception, general_protection, page_fault, copr_error]"
    by (rule gates [OF gate_table])
  show "gate_offset (t (0x20 + of_nat i)) = entry_of L (hwint i)" if "i < 16" for i
    by (rule gate) (rule hwint_vector [OF that])
  show "gate_offset (t 0x90) = entry_of L sys_call"
    by (simp add: t_def init_idt_gate gate_to_facts)
  show "v < 15 \<or> v = 16 \<or> 0x20 \<le> v \<and> v < 0x30 \<or> v = 0x90" if ch: "t v \<noteq> idt s v" for v
  proof (cases "v = 0x90")
    case False
    have "t v = idt s v" if "map_of ?gs v = None"
      using that False by (simp only: t_def init_idt_gate if_False option.case)
    then obtain h where "map_of ?gs v = Some h" using ch by (cases "map_of ?gs v") metis+
    then have "v \<in> fst ` set ?gs" by (force dest: map_of_SomeD)
    then show ?thesis unfolding gate_vector_set by auto
  qed simp
  show "gate_dpl (t v) = (if v = 0x90 then 3 else 0)" for v
    using assms(1) unfolding t_def init_idt_gate by (auto simp: gate_to_facts split: option.splits)
qed

definition blank_boot :: "Boot_Link \<Rightarrow> boot" where
  "blank_boot L = files.extend (blank_files (Link.truncate L))
     (boot.fields (\<lambda>_. 0) 0 0
       (\<lambda>_. \<lparr>offset_low = 0, selector = 0, dcount = 0, gate_attr = 0, offset_high = 0\<rparr>) 0 0 (\<lambda>_. 0))"

definition sample_boot_link :: Boot_Link where
  "sample_boot_link = Link.extend sample_link (Boot_Link.fields 0x4000 0x5000 0x6000
     (\<lambda>i. 0x7000 + 0x100 * of_nat i) (\<lambda>h. if h = sys_call then 0x9000 else 0x8000))"

theorem idt_user_entry_witness:
  "gate_offset (idt (snd (init_idt_by_c sample_boot_link (blank_boot sample_boot_link))) 0x90) = 0x9000
   \<and> gate_dpl (idt (snd (init_idt_by_c sample_boot_link (blank_boot sample_boot_link))) 0x20) = 0"
proof -
  have "\<forall>v. gate_dpl (idt (blank_boot sample_boot_link) v) = 0"
    by (simp add: blank_boot_def files.defs boot.defs gate_dpl_def)
  from idt_user_entry [OF this, of sample_boot_link] show ?thesis
    by (simp add: sample_boot_link_def Link.defs Boot_Link.defs)
qed

text \<open>C39. After booting, the local descriptor table selector of every process slot designates the
  descriptor that \<open>init_tss\<close> has set up for that slot: its base is the address of the slot's
  own local descriptor table, and the selectors of different slots designate different
  descriptors.\<close>

theorem ldt_selectors_match:
  fixes s :: "'a boot_scheme"
  assumes "i < NR_SLOTS"
  shows "let t = snd (init_tss L s); k = kernel_main ie stk t; n = unat (drop_bit 3 (ldt_sel (proc_table k i)))
    in n = INDEX_LDT_FIRST + i \<and> desc_base (gdt_of k n) = desc_base (gdt_of s 2) + ldt_addr L i"
proof -
  let ?t = "snd (init_tss L s)"
  let ?k = "kernel_main ie stk ?t"
  have gdt: "gdt_bytes ?k = gdt_bytes ?t" by (rule kernel_main_gdt)
  have "unat (drop_bit 3 (ldt_sel (proc_table ?k i))) = INDEX_LDT_FIRST + i"
    unfolding kernel_main_ldt_sel [OF assms] by (rule ldt_selector_index [OF assms])
  then show ?thesis
    using assms by (simp add: Let_def gdt init_tss_gdt desc_base_init)
qed

theorem ldt_selectors_match_witness:
  "desc_base (gdt_of (kernel_main (\<lambda>_. 0) 0 (snd (init_tss sample_boot_link (blank_boot sample_boot_link)))) 8)
    = 0x7000 + 0x100 * of_nat 3"
proof -
  have "desc_base (gdt_of (blank_boot sample_boot_link) 2) = 0"
    by (simp add: blank_boot_def files.defs boot.defs desc_at_def desc_base_def)
  moreover have "ldt_addr sample_boot_link 3 = 0x7000 + 0x100 * of_nat 3"
    by (simp add: sample_boot_link_def Link.defs Boot_Link.defs)
  ultimately show ?thesis
    using ldt_selectors_match [of 3 sample_boot_link "blank_boot sample_boot_link" "\<lambda>_. 0" 0]
    by (auto simp: Let_def)
qed

text \<open>Also: The timer is programmed with the wrong rate: the divisor for 100 ticks a second is 11931,
  but the cast to a byte before the shift makes the high byte zero, so that the counter is
  loaded with 155 and interrupts come 7697 times a second.\<close>

theorem init_timer_divisor:
  "\<exists>lo hi. io_log (snd (init_timer s)) = io_log s @ [Out8 0x43 0x34, Out8 0x40 lo, Out8 0x40 hi]
    \<and> unat lo + 256 * unat hi = 155 \<and> TIMER_FREQ div HZ = 11931
    \<and> TIMER_FREQ div (unat lo + 256 * unat hi) = 7697"
  by (simp add: init_timer_def io_out8_def)

lemma screen_only_mono: "D \<le> D' \<Longrightarrow> screen_only D s s' \<Longrightarrow> screen_only D' s s'"
  unfolding screen_only_def addr_in_def
  by (elim exE conjE, intro exI conjI, assumption, blast intro: less_le_trans)

lemma line_print:
  assumes "160 * n + 2 * length cs \<le> D" and "D \<le> 2 ^ 32"
  shows "screen_only D s (s32_print cs (at_line n) s)"
  using screen_print [of "160 * n" cs D s] assms by simp

lemma line_clear: "160 * (unat l + 1) \<le> D \<Longrightarrow> D \<le> 2 ^ 32 \<Longrightarrow> screen_only D s (clear_line l s)"
  by (rule screen_clear_line_u8)

lemma line_outside:
  assumes "i < 80" and "n < 200"
  shows "\<not> addr_in VB (160 * n) (at_line n + 2 * of_nat i)"
proof -
  have "unat (160 * of_nat n + 2 * of_nat i :: u32) = 160 * n + 2 * i"
  proof -
    have "unat (of_nat (160 * n + 2 * i) :: u32) = 160 * n + 2 * i" using assms by (intro unat_of_nat32) simp
    then show ?thesis by simp
  qed
  then show ?thesis by (simp add: addr_in_def algebra_simps)
qed

lemma hex_string: "s32_itoa v 16 = Inr (number v 16)"
  using s32_itoa_number [of 16 v] by simp

lemma err_msg_length: "length err_msg = 20" "n < 20 \<Longrightarrow> length (err_msg ! n) \<le> 60"
proof -
  show l: "length err_msg = 20" by (simp add: err_msg_def)
  have "\<forall>m \<in> set err_msg. length m \<le> 60" by (simp add: err_msg_def)
  then show "n < 20 \<Longrightarrow> length (err_msg ! n) \<le> 60" using l by simp
qed

text \<open>The lines below the message: registers and error code, on the first eight lines.\<close>

lemma register_dump:
  fixes s :: "'a stdio_scheme"
  assumes that: "n < 8" "m < 8" "length name \<le> 60"
  defines "D \<equiv> 8 * 160 :: nat"
  shows "screen_only D s (s32_print (number v 16) (at_line n) (s32_print (map of_char name) (at_line m) s))"
proof -
  have "screen_only D s (s32_print (map of_char name) (at_line m) s)"
    by (rule line_print) (use that in \<open>auto simp: D_def\<close>)
  moreover have "screen_only D t (s32_print (number v 16) (at_line n) t)" for t :: "'a stdio_scheme"
    by (rule line_print) (use that length_number(1) [of v] in \<open>auto simp: D_def\<close>)
  ultimately show ?thesis using screen_only_trans by blast
qed

lemma register_dump_cleared:
  fixes s :: "'a stdio_scheme"
  assumes that: "n < 8" "m < 8" "unat a < 8" "unat b < 8" "length name \<le> 60"
  defines "D \<equiv> 8 * 160 :: nat"
  shows "screen_only D s (s32_print (number v 16) (at_line n) (clear_line b
    (s32_print (map of_char name) (at_line m) (clear_line a s))))"
proof -
  have 1: "screen_only D t (clear_line l t)" if "unat l < 8" for l and t :: "'a stdio_scheme"
    by (rule line_clear) (use \<open>unat l < 8\<close> in \<open>auto simp: D_def\<close>)
  have 2: "screen_only D t (s32_print (map of_char name) (at_line m) t)" for t :: "'a stdio_scheme"
    by (rule line_print) (use that in \<open>auto simp: D_def\<close>)
  have 3: "screen_only D t (s32_print (number v 16) (at_line n) t)" for t :: "'a stdio_scheme"
    by (rule line_print) (use that length_number(1) [of v] in \<open>auto simp: D_def\<close>)
  show ?thesis
    by (rule screen_only_trans [OF 1 screen_only_trans [OF 2 screen_only_trans [OF 1 3]]])
      (use that in auto)
qed

text \<open>Also: The exception handler returns for each of the twenty exceptions it has a message for, with
  the message on line 23 of the screen, and writes nothing outside the 25 lines; any other
  vector number reads outside its table of messages.\<close>

theorem exception_handler_reports:
  fixes s :: "'a stdio_scheme"
  shows "(0 \<le> vec \<and> vec < 20 \<longrightarrow>
     (\<exists>s'. exception_handler vec err eip cs eflags s = Inr s' \<and> screen_only 4000 s s'
       \<and> (\<forall>k < length (err_msg ! nat vec). mem s' (at_line 23 + 2 * of_nat k) = of_char (err_msg ! nat vec ! k))))
   \<and> (vec < 0 \<or> 20 \<le> vec \<longrightarrow> exception_handler vec err eip cs eflags s = Inl Out_of_bounds)"
proof (intro conjI impI)
  assume "vec < 0 \<or> 20 \<le> vec"
  then show "exception_handler vec err eip cs eflags s = Inl Out_of_bounds"
    by (simp add: exception_handler_def Let_def err_msg_length)
next
  assume vec: "0 \<le> vec \<and> vec < 20"
  let ?msg = "map of_char (err_msg ! nat vec) :: cstring"
  have len: "length ?msg \<le> 60" using err_msg_length(2) [of "nat vec"] vec by (simp add: nat_less_iff)
  let ?s1 = "s32_print (map of_char ''exception_handler'') (at_line 24) s"
  let ?s2 = "clear_line 23 (clear_line 3 (clear_line 2 (clear_line 1 (clear_line 0 ?s1))))"
  let ?s3 = "s32_print ?msg (at_line 23) ?s2"
  let ?s4 = "s32_print (number eflags 16) (at_line 1) (s32_print (map of_char ''eflags'') (at_line 0) ?s3)"
  let ?s5 = "s32_print (number cs 16) (at_line 3) (s32_print (map of_char ''cs'') (at_line 2) ?s4)"
  let ?s6 = "s32_print (number eip 16) (at_line 5) (clear_line 5
               (s32_print (map of_char ''eip'') (at_line 4) (clear_line 4 ?s5)))"
  let ?s7 = "if err \<noteq> 0xffffffff then s32_print (number err 16) (at_line 7) (clear_line 7
               (s32_print (map of_char ''err_code'') (at_line 6) (clear_line 6 ?s6))) else ?s6"
  have run: "exception_handler vec err eip cs eflags s = Inr ?s7"
    using vec by (simp add: exception_handler_def Let_def err_msg_length hex_string)
  have c: "screen_only 4000 t (clear_line l t)" if "unat l < 25" for l and t :: "'a stdio_scheme"
    by (rule line_clear) (use that in auto)
  have 1: "screen_only 4000 s ?s1" by (rule line_print) auto
  have "screen_only 4000 s ?s2"
    by (rule screen_only_trans [OF 1 screen_only_trans [OF c screen_only_trans [OF c
          screen_only_trans [OF c screen_only_trans [OF c c]]]]]) simp_all
  moreover have "screen_only 4000 ?s2 ?s3" by (rule line_print) (use len in auto)
  ultimately have a: "screen_only 4000 s ?s3" by (rule screen_only_trans)
  have "screen_only (8 * 160) ?s3 ?s6"
    by (rule screen_only_trans [OF register_dump screen_only_trans [OF register_dump register_dump_cleared]]) simp_all
  moreover have "screen_only (8 * 160) ?s6 ?s7"
  proof (cases "err = 0xffffffff")
    case False
    have "screen_only (8 * 160) ?s6 (s32_print (number err 16) (at_line 7) (clear_line 7
        (s32_print (map of_char ''err_code'') (at_line 6) (clear_line 6 ?s6))))"
      by (rule register_dump_cleared) simp_all
    then show ?thesis unfolding if_P [OF False] .
  qed simp
  ultimately have b: "screen_only (8 * 160) ?s3 ?s7" by (rule screen_only_trans)
  have "mem ?s7 (at_line 23 + 2 * of_nat k) = ?msg ! k" if "k < length ?msg" for k
  proof -
    have "\<not> addr_in VB (8 * 160) (at_line 23 + 2 * of_nat k)"
      using line_outside [of k 23] that len by (auto simp: addr_in_def)
    then have "mem ?s7 (at_line 23 + 2 * of_nat k) = mem ?s3 (at_line 23 + 2 * of_nat k)"
      by (rule screen_only_mem [OF b])
    also have "\<dots> = ?msg ! k"
      using s32_print_loop_nth [of ?msg k] that len by (simp add: s32_print_def Let_def case_prod_beta)
    finally show ?thesis .
  qed
  moreover have "screen_only 4000 s ?s7"
    using a screen_only_mono [OF _ b, of 4000] screen_only_trans by auto
  ultimately show "\<exists>s'. exception_handler vec err eip cs eflags s = Inr s' \<and> screen_only 4000 s s'
       \<and> (\<forall>k < length (err_msg ! nat vec). mem s' (at_line 23 + 2 * of_nat k) = of_char (err_msg ! nat vec ! k))"
    using run by (intro exI [of _ ?s7]) simp
qed

theorem exception_handler_reports_witness:
  "\<exists>s'. exception_handler 14 0 0 8 0x202 blank_stdio = Inr s' \<and> mem s' (at_line 23 + 2 * of_nat 1) = of_char CHR ''P''"
proof -
  have "err_msg ! nat 14 = ''#PF: Page Fault''" by (simp add: err_msg_def)
  then show ?thesis using exception_handler_reports [of 14 0 0 8 "0x202" blank_stdio] by fastforce
qed

section \<open>Booting\<close>

text \<open>What each initialisation function leaves alone of the file tables and the allocator.\<close>

definition file_state :: "'a boot_scheme \<Rightarrow> _" where
  "file_state s = (sd_obj s, sb_obj s, storage s, fs_type s, memory_used s)"

lemma file_state_frame:
  "file_state (put_gate L v h p s) = file_state s" "file_state (io_out8 port d s) = file_state s"
  "file_state (s\<lparr>mask_m := a\<rparr>) = file_state s" "file_state (s\<lparr>mask_s := a\<rparr>) = file_state s"
  "file_state (s\<lparr>irq_table := t\<rparr>) = file_state s" "file_state (s\<lparr>idt_limit := l\<rparr>) = file_state s"
  "file_state (s\<lparr>idt_base := b\<rparr>) = file_state s" "file_state (s\<lparr>tss := w\<rparr>) = file_state s"
  "file_state (s\<lparr>gdt_bytes := g\<rparr>) = file_state s" "file_state (s\<lparr>mem := m\<rparr>) = file_state s"
  "file_state (s\<lparr>cur_vb := c\<rparr>) = file_state s" "file_state (s\<lparr>kb_buf := k\<rparr>) = file_state s"
  "file_state (s\<lparr>memsize := z\<rparr>) = file_state s" "file_state (s\<lparr>mm_start := z\<rparr>) = file_state s"
  "file_state (store_cr0 x s) = file_state s" "file_state (io_store_eflags f x s) = file_state s"
  by (simp_all add: file_state_def put_gate_def io_out8_def store_cr0_def io_store_eflags_def)

lemma file_state_fold: "(\<And>x s. file_state (f x s) = file_state s) \<Longrightarrow> file_state (fold f xs s) = file_state s"
  by (induction xs arbitrary: s) simp_all

lemma init_8259a_files: "file_state (init_8259a s) = file_state s"
  unfolding init_8259a_def Let_def
  by (subst file_state_fold, simp add: file_state_frame, simp only: file_state_frame,
      rule file_state_fold, simp add: case_prod_beta file_state_frame)

lemma init_idt_files: "file_state (snd (init_idt_by_c L s)) = file_state s"
proof -
  have "file_state (fold (\<lambda>(v, h). put_gate L v h p) gs t) = file_state t" for p gs and t :: "'a boot_scheme"
    by (rule file_state_fold) (simp add: case_prod_beta file_state_frame)
  then show ?thesis by (simp add: init_idt_by_c_def Let_def file_state_frame)
qed

lemma init_tss_files: "file_state (snd (init_tss L s)) = file_state s"
  unfolding init_tss_def Let_def snd_conv
  by (subst file_state_fold) (simp_all add: file_state_frame)

lemma init_timer_files: "file_state (snd (init_timer s)) = file_state s"
  by (simp add: init_timer_def file_state_frame)

lemma init_keyboard_files: "file_state (init_keyboard s) = file_state s"
  by (simp add: init_keyboard_def Let_def enable_irq_def put_irq_handler_def
      disable_irq_def s32_print_def case_prod_beta file_state_frame)

lemmas init_files =
  init_8259a_files init_idt_files init_tss_files init_timer_files init_keyboard_files

lemma mm_init_result:
  "\<exists>s' k. mm_init popf ram s = Inr s' \<and> file_state s' = file_state s
    \<and> memsize s' = 0x400000 + of_nat k * 0x1000 \<and> k \<le> 0x1c01 \<and> ((\<forall>x. ram x) \<longrightarrow> memsize s' = 0x2001000)
    \<and> mm_start s' = memsize s' - 0x1000000 \<and> (0x1000000 < memsize s' \<longrightarrow> mm_ok s')"
proof -
  have "file_state s' = file_state s" if "mm_init popf ram s = Inr s'" for s'
    using that by (auto simp: mm_init_def memtest_def memtest_sub_def Let_def res_simps file_state_frame split: if_splits)
  then show ?thesis using mm_init_area [of popf ram s] by metis
qed

lemma ramdisk_init_result:
  "storage s RAMDISK = 0 \<Longrightarrow> \<exists>s'. ramdisk_driver_init L s = Inr (0, s')
    \<and> file_state s' = ((sd_obj s)(ramdisk_sd L :=
          (sd_obj s (ramdisk_sd L))\<lparr>storage_size := romfs_end L - romfs_start L\<rparr>),
        sb_obj s, (storage s)(RAMDISK := ramdisk_sd L), fs_type s, memory_used s)"
  by (simp add: ramdisk_driver_init_def register_storage_device_def file_state_def Let_def)

lemma romfs_init_result:
  "fs_type s ROMFS = 0 \<Longrightarrow> \<exists>s'. romfs_init L s = Inr (0, s')
    \<and> file_state s' = (sd_obj s, (sb_obj s)(romfs_sb L := (sb_obj s (romfs_sb L))\<lparr>sb_device := storage s RAMDISK\<rparr>),
        storage s, (fs_type s)(ROMFS := romfs_sb L), memory_used s)"
  by (simp add: romfs_init_def register_file_system_def file_state_def)

lemma file_state_eq:
  "file_state s = (a, b, c, d, e) \<longleftrightarrow>
    sd_obj s = a \<and> sb_obj s = b \<and> storage s = c \<and> fs_type s = d \<and> memory_used s = e"
  by (auto simp: file_state_def)

text \<open>C38. Booting mounts the root file system: starting with empty tables, the initialisation
  functions run to their end in their order, the RAM disk is registered with the size of the
  image, the file system is registered and its device is that RAM disk. The size of memory that
  the probe finds is 4 MB and a number of pages, 0x2001000 when every address has memory; the
  area of the allocator ends there, no block is in use, and the allocator is ready when the size
  is more than 16 MB.\<close>

theorem plat_boot_mounts:
  fixes s :: "'a boot_scheme"
  assumes "storage s RAMDISK = 0" and "fs_type s ROMFS = 0" and "ramdisk_sd L \<noteq> 0"
    and "memory_used s = 0"
  shows "\<exists>s' k. plat_boot L popf ram buf s = Inr s'
    \<and> storage s' RAMDISK = ramdisk_sd L \<and> fs_type s' ROMFS = romfs_sb L
    \<and> sb_device (sb_obj s' (romfs_sb L)) = ramdisk_sd L
    \<and> storage_size (sd_obj s' (ramdisk_sd L)) = romfs_end L - romfs_start L
    \<and> memsize s' = 0x400000 + of_nat k * 0x1000 \<and> k \<le> 0x1c01 \<and> ((\<forall>x. ram x) \<longrightarrow> memsize s' = 0x2001000)
    \<and> mm_start s' + 0x1000000 = memsize s' \<and> held_blocks s' = {}
    \<and> (0x1000000 < memsize s' \<longrightarrow> mm_ok s')"
proof -
  let ?L = "Link.truncate L"
  have L: "ramdisk_sd ?L = ramdisk_sd L" "romfs_sb ?L = romfs_sb L" "romfs_end ?L = romfs_end L"
    "romfs_start ?L = romfs_start L" by (simp_all add: Link.defs)
  define s1 where "s1 = snd (init_timer (snd (init_tss L (snd (init_idt_by_c L (init_8259a s))))))"
  have f1: "file_state s1 = file_state s" by (simp add: s1_def init_files)
  then obtain s2 where s2: "ramdisk_driver_init ?L s1 = Inr (0, s2)"
    and f2: "file_state s2 = ((sd_obj s)(ramdisk_sd L :=
          (sd_obj s (ramdisk_sd L))\<lparr>storage_size := romfs_end L - romfs_start L\<rparr>),
        sb_obj s, (storage s)(RAMDISK := ramdisk_sd L), fs_type s, memory_used s)"
    using ramdisk_init_result [of s1 ?L] assms(1) L by (auto simp: file_state_def)
  define s3 where "s3 = init_keyboard s2"
  have f3: "file_state s3 = file_state s2" by (simp add: s3_def init_files)
  then have "fs_type s3 ROMFS = 0" using f2 assms(2) by (simp add: file_state_eq file_state_def)
  then obtain s4 where s4: "romfs_init ?L s3 = Inr (0, s4)"
    and f4: "sd_obj s4 = sd_obj s2" "storage s4 = storage s2" "fs_type s4 ROMFS = romfs_sb L"
      "sb_device (sb_obj s4 (romfs_sb L)) = storage s2 RAMDISK" "memory_used s4 = memory_used s2"
    using romfs_init_result [of s3 ?L] f3 L by (auto simp: file_state_def)
  obtain s5 k where s5: "mm_init popf ram s4 = Inr s5" and f5: "file_state s5 = file_state s4"
    "memsize s5 = 0x400000 + of_nat k * 0x1000" "k \<le> 0x1c01" "(\<forall>x. ram x) \<longrightarrow> memsize s5 = 0x2001000"
    "mm_start s5 = memsize s5 - 0x1000000" "0x1000000 < memsize s5 \<longrightarrow> mm_ok s5"
    using mm_init_result [of popf ram s4] by blast
  have run: "run_inits L popf ram init_list s = Inr s5"
    using s2 s4 s5 by (simp add: init_list_def run_init_def s1_def s3_def)
  have st: "storage s5 RAMDISK = ramdisk_sd L" using f5(1) f4 f2 by (simp add: file_state_def)
  let ?t = "s5\<lparr>mem := p_asm_memcpy (mem s5) buf (0 + start_pos (sd_obj s5 (ramdisk_sd L))) 512\<rparr>"
  let ?u = "p_dump_u8 buf 32 ?t"
  have fin: "plat_boot L popf ram buf s = Inr ?u"
    using assms(3) by (simp add: plat_boot_def load_init_boot_def run st dout_ramdisk)
  have so: "screen_only 4000 ?t ?u" by (rule screen_dump) simp_all
  then have fu: "file_state ?u = file_state s5" "mm_start ?u = mm_start s5" "memsize ?u = memsize s5"
    by (auto simp: screen_only_def file_state_def)
  have "mm_ok ?u \<longleftrightarrow> mm_ok s5" using fu(2) by (simp add: mm_ok_def)
  moreover have "held_blocks ?u = {}"
    using fu(1) f5(1) f4(5) f2 assms(4) by (simp add: held_blocks_def file_state_def)
  ultimately show ?thesis
    using fin fu f5 f4 f2 by (auto simp: file_state_def intro!: exI [of _ ?u] exI [of _ k])
qed

theorem plat_boot_mounts_witness:
  "\<exists>s'. plat_boot sample_boot_link (\<lambda>v. v) (\<lambda>_. True) 0x90000 (blank_boot sample_boot_link) = Inr s'
    \<and> fs_type s' ROMFS = 0x2000 \<and> sb_device (sb_obj s' 0x2000) = 0x1000 \<and> memsize s' = 0x2001000 \<and> mm_ok s'"
proof -
  have "ramdisk_sd sample_boot_link = 0x1000" "romfs_sb sample_boot_link = 0x2000"
    by (simp_all add: sample_boot_link_def Link.defs Boot_Link.defs sample_link_def)
  moreover have "storage (blank_boot sample_boot_link) RAMDISK = 0" "fs_type (blank_boot sample_boot_link) ROMFS = 0"
    "memory_used (blank_boot sample_boot_link) = 0"
    by (simp_all add: blank_boot_def blank_files_def blank_memory_def keyboard.defs memory.defs files.defs boot.defs)
  ultimately show ?thesis
    using plat_boot_mounts [of "blank_boot sample_boot_link" sample_boot_link "\<lambda>v. v" "\<lambda>_. True" "0x90000"]
    by auto
qed

end
