(* ===== verification/Vga_Mode.thy ===== *)
theory Vga_Mode
  imports OS_Prelude
begin

text \<open>
  The switch to the 256-colour graphics mode without the BIOS: switch_vga_mode.c. A mode
  switch is the sequence of port instructions it appends to the log; what the CRT controller
  holds afterwards is read off that sequence.
\<close>

unbundle bit_operations_syntax

section \<open>Register tables\<close>

definition hor_regs :: "u8 list" where
  "hor_regs = [0x0, 0x1, 0x2, 0x3, 0x4, 0x5, 0x13]"
definition width_256 :: "u8 list" where
  "width_256 = [0x5f, 0x3f, 0x40, 0x82, 0x4a, 0x9a, 0x20]"
definition width_320 :: "u8 list" where
  "width_320 = [0x5f, 0x4f, 0x50, 0x82, 0x54, 0x80, 0x28]"
definition width_360 :: "u8 list" where
  "width_360 = [0x6b, 0x59, 0x5a, 0x8e, 0x5e, 0x8a, 0x2d]"
definition width_376 :: "u8 list" where
  "width_376 = [0x6e, 0x5d, 0x5e, 0x91, 0x62, 0x8f, 0x2f]"
definition width_400 :: "u8 list" where
  "width_400 = [0x70, 0x63, 0x64, 0x92, 0x65, 0x82, 0x32]"

definition ver_regs :: "u8 list" where
  "ver_regs = [0x6, 0x7, 0x9, 0x10, 0x11, 0x12, 0x15, 0x16]"
definition height_200 :: "u8 list" where
  "height_200 = [0xbf, 0x1f, 0x41, 0x9c, 0x8e, 0x8f, 0x96, 0xb9]"
definition height_224 :: "u8 list" where
  "height_224 = [0x0b, 0x3e, 0x41, 0xda, 0x9c, 0xbf, 0xc7, 0x04]"
definition height_240 :: "u8 list" where
  "height_240 = [0x0d, 0x3e, 0x41, 0xea, 0xac, 0xdf, 0xe7, 0x06]"
definition height_256 :: "u8 list" where
  "height_256 = [0x23, 0xb2, 0x61, 0x0a, 0xac, 0xff, 0x07, 0x1a]"
definition height_270 :: "u8 list" where
  "height_270 = [0x30, 0xf0, 0x61, 0x20, 0xa9, 0x1b, 0x1f, 0x2f]"
definition height_300 :: "u8 list" where
  "height_300 = [0x70, 0xf0, 0x61, 0x5b, 0x8c, 0x57, 0x58, 0x70]"
definition height_360 :: "u8 list" where
  "height_360 = [0xbf, 0x1f, 0x40, 0x88, 0x85, 0x67, 0x6d, 0xba]"
definition height_400 :: "u8 list" where
  "height_400 = [0xbf, 0x1f, 0x40, 0x9c, 0x8e, 0x8f, 0x96, 0xb9]"
definition height_480 :: "u8 list" where
  "height_480 = [0x0d, 0x3e, 0x40, 0xea, 0xac, 0xdf, 0xe7, 0x06]"
definition height_564 :: "u8 list" where
  "height_564 = [0x62, 0xf0, 0x60, 0x37, 0x89, 0x33, 0x3c, 0x5c]"
definition height_600 :: "u8 list" where
  "height_600 = [0x70, 0xf0, 0x60, 0x5b, 0x8c, 0x57, 0x58, 0x70]"

text \<open>The two switches: a table and the bits of the miscellaneous output register.\<close>

definition width_mode :: "u16 \<Rightarrow> (u8 list \<times> u8) option" where
  "width_mode width =
     (if width = 256 then Some (width_256, 0x63 + 0x00)
      else if width = 320 then Some (width_320, 0x63 + 0x00)
      else if width = 360 then Some (width_360, 0x63 + 0x04)
      else if width = 376 then Some (width_376, 0x63 + 0x04)
      else if width = 400 then Some (width_400, 0x63 + 0x04)
      else None)"

definition height_mode :: "u16 \<Rightarrow> (u8 list \<times> u8) option" where
  "height_mode height =
     (if height = 200 then Some (height_200, 0x00)
      else if height = 224 then Some (height_224, 0x80)
      else if height = 240 then Some (height_240, 0x80)
      else if height = 256 then Some (height_256, 0x80)
      else if height = 270 then Some (height_270, 0x80)
      else if height = 300 then Some (height_300, 0x80)
      else if height = 360 then Some (height_360, 0x00)
      else if height = 400 then Some (height_400, 0x00)
      else if height = 480 then Some (height_480, 0x80)
      else if height = 564 then Some (height_564, 0x80)
      else if height = 600 then Some (height_600, 0x80)
      else None)"

section \<open>Port sequences\<close>

definition io_in8 :: "u16 \<Rightarrow> 'a machine_scheme \<Rightarrow> 'a machine_scheme" where
  "io_in8 port s = s\<lparr>io_log := io_log s @ [In8 port]\<rparr>"

text \<open>
  The word \<open>(w[a] << 8) + regs[a]\<close>: \<open>byte\<close> is a signed character, so both operands are
  sign-extended before the sum is cut to 16 bits.
\<close>

definition reg_word :: "u8 \<Rightarrow> u8 \<Rightarrow> u16" where
  "reg_word v r = word_of_int (sint v * 2 ^ 8 + sint r)"

definition write_regs :: "u8 list \<Rightarrow> u8 list \<Rightarrow> 'a machine_scheme \<Rightarrow> 'a machine_scheme" where
  "write_regs regs vals s =
     fold (\<lambda>a. io_out16 0x3d4 (reg_word (vals ! a) (regs ! a))) [0..<length regs] s"

definition mode_switch :: "u8 list \<Rightarrow> u8 list \<Rightarrow> u8 \<Rightarrow> u8 \<Rightarrow> 'a machine_scheme \<Rightarrow> 'a machine_scheme" where
  "mode_switch w h val chain4 s =
     (let s1 = io_out16 0x3d4 0x0e11 (io_out8 0x3c2 val s);
          s2 = write_regs hor_regs w s1;
          s3 = write_regs ver_regs h s2;
          s4 = io_out16 0x3d4 0x0008 s3;
          s5 = (if chain4 \<noteq> 0
                then io_out16 0x3c4 0x0e04 (io_out16 0x3d4 0xa317 (io_out16 0x3d4 0x4014 s4))
                else io_out16 0x3c4 0x0604 (io_out16 0x3d4 0xe317 (io_out16 0x3d4 0x0014 s4)));
          s6 = io_out16 0x3ce 0x0506 (io_out16 0x3ce 0x4005
                 (io_out16 0x3c4 0x0f02 (io_out16 0x3c4 0x0101 s5)));
          s7 = io_out8 0x3c0 0x00 (io_out8 0x3c0 0x33 (io_out8 0x3c0 0x41 (io_out8 0x3c0 0x30
                 (io_in8 0x3da s6))));
          s8 = fold (\<lambda>a s. io_out8 0x3c0 (of_nat a) (io_out8 0x3c0 (of_nat a) s)) [0..<16] s7
      in io_out8 0x3c0 0x20 s8)"

text \<open>The body of \<open>init_graph_vga\<close> for given arguments, and the function, which overrides them.\<close>

definition graph_mode :: "u16 \<Rightarrow> u16 \<Rightarrow> u8 \<Rightarrow> 'a machine_scheme \<Rightarrow> int \<times> 'a machine_scheme" where
  "graph_mode width height chain4 s =
     (case width_mode width of
        None \<Rightarrow> (0, s)
      | Some (w, val) \<Rightarrow>
          (case height_mode height of
             None \<Rightarrow> (0, s)
           | Some (h, bits) \<Rightarrow>
               if chain4 \<noteq> 0 \<and> uint width * uint height > 65536 then (0, s)
               else (1, mode_switch w h (val OR bits) chain4 s)))"

definition init_graph_vga :: "u16 \<Rightarrow> u16 \<Rightarrow> u8 \<Rightarrow> 'a machine_scheme \<Rightarrow> int \<times> 'a machine_scheme" where
  "init_graph_vga width height chain4 s =
     (let width = 320; height = 200; chain4 = 1 in graph_mode width height chain4 s)"

section \<open>Palette\<close>

fun palette16_loop :: "nat \<Rightarrow> u8 list \<Rightarrow> 'a machine_scheme \<Rightarrow> 'a machine_scheme" where
  "palette16_loop 0 rgb s = s"
| "palette16_loop (Suc n) rgb s =
     palette16_loop n (drop 3 rgb)
       (io_out8 0x03c9 (rgb ! 2 div 4) (io_out8 0x03c9 (rgb ! 1 div 4) (io_out8 0x03c9 (rgb ! 0 div 4) s)))"

definition set_palette16 :: "int \<Rightarrow> int \<Rightarrow> u8 list \<Rightarrow> 'a machine_scheme \<Rightarrow> 'a machine_scheme result" where
  "set_palette16 start end rgb s =
     (if length rgb < 3 * nat (end - start + 1) then Inl Out_of_bounds
      else Inr (palette16_loop (nat (end - start + 1)) rgb (io_out8 0x03c8 (word_of_int start) s)))"

definition vga_set_palette :: "u8 \<Rightarrow> u8 \<Rightarrow> u8 \<Rightarrow> u8 \<Rightarrow> 'a machine_scheme \<Rightarrow> 'a machine_scheme" where
  "vga_set_palette index r g b s =
     io_out8 0x03c9 (b div 4) (io_out8 0x03c9 (g div 4) (io_out8 0x03c9 (r div 4) (io_out8 0x03c8 index s)))"

definition table_rgb :: "u8 list" where
  "table_rgb =
     [0x00, 0x00, 0x00, 0xff, 0x00, 0x00, 0x00, 0xff, 0x00, 0xff, 0xff, 0x00,
      0x00, 0x00, 0xff, 0xff, 0x00, 0xff, 0x00, 0xff, 0xff, 0xff, 0xff, 0xff,
      0xc6, 0xc6, 0xc6, 0x84, 0x00, 0x00, 0x00, 0x84, 0x00, 0x84, 0x84, 0x00,
      0x00, 0x00, 0x84, 0x84, 0x00, 0x84, 0x00, 0x84, 0x84, 0x84, 0x84, 0x84]"

text \<open>All code that would load the table is compiled out; the function does nothing.\<close>

definition vga_init_palette :: "'a machine_scheme \<Rightarrow> 'a machine_scheme" where
  "vga_init_palette s = (let i = (0 :: int); p = table_rgb in s)"

section \<open>Drawing\<close>

definition write_mem8 :: "u32 \<Rightarrow> u8 \<Rightarrow> 'a machine_scheme \<Rightarrow> 'a machine_scheme" where
  "write_mem8 addr data s = poke addr data s"

text \<open>The address \<open>0xa0000 + (y * xsize + x)\<close> of a pixel.\<close>

definition vga_pixel :: "int \<Rightarrow> int \<Rightarrow> int \<Rightarrow> u32" where
  "vga_pixel xsize x y = 0xa0000 + word_of_int (y * xsize + x)"

definition boxfill8 ::
  "int \<Rightarrow> u8 \<Rightarrow> int \<Rightarrow> int \<Rightarrow> int \<Rightarrow> int \<Rightarrow> 'a machine_scheme \<Rightarrow> 'a machine_scheme" where
  "boxfill8 xsize c x0 y0 x1 y1 s =
     fold (\<lambda>y. fold (\<lambda>x. write_mem8 (vga_pixel xsize x y) c) [x0..x1]) [y0..y1] s"

text \<open>The boxes of \<open>HariMain\<close> in their order: colour, corners.\<close>

definition desktop :: "(u8 \<times> int \<times> int \<times> int \<times> int) list" where
  "desktop = (let xsize = 320; ysize = 200 in
     [(14, 0, 0, xsize - 1, ysize - 29), (8, 0, ysize - 28, xsize - 1, ysize - 28),
      (7, 0, ysize - 27, xsize - 1, ysize - 27), (8, 0, ysize - 26, xsize - 1, ysize - 1),
      (7, 3, ysize - 24, 59, ysize - 24), (7, 2, ysize - 24, 2, ysize - 4),
      (15, 3, ysize - 4, 59, ysize - 4), (15, 59, ysize - 23, 59, ysize - 5),
      (0, 2, ysize - 3, 59, ysize - 3), (0, 60, ysize - 24, 60, ysize - 3),
      (15, xsize - 47, ysize - 24, xsize - 4, ysize - 24),
      (15, xsize - 47, ysize - 23, xsize - 47, ysize - 4),
      (7, xsize - 47, ysize - 3, xsize - 4, ysize - 3),
      (7, xsize - 3, ysize - 24, xsize - 3, ysize - 3)])"

definition HariMain :: "'a machine_scheme \<Rightarrow> 'a machine_scheme" where
  "HariMain s =
     fold (\<lambda>(c, x0, y0, x1, y1). boxfill8 320 c x0 y0 x1 y1) desktop (vga_init_palette s)"

fun fill_from :: "nat \<Rightarrow> u32 \<Rightarrow> u8 \<Rightarrow> 'a machine_scheme \<Rightarrow> 'a machine_scheme" where
  "fill_from 0 i c s = s"
| "fill_from (Suc n) i c s = fill_from n (i + 1) c (write_mem8 i c s)"

definition vga_test :: "'a machine_scheme \<Rightarrow> 'a machine_scheme" where
  "vga_test s = fill_from 0x10000 0xa0000 15 (snd (init_graph_vga 300 200 1 s))"

definition put_char :: "u16 \<Rightarrow> u16 \<Rightarrow> u8 \<Rightarrow> u8 \<Rightarrow> 'a machine_scheme \<Rightarrow> 'a machine_scheme" where
  "put_char x y c attr s =
     (let offset = 0xb8000 + word_of_int (80 * uint x * 2 + uint y * 2)
      in write_mem8 (offset + 1) attr (write_mem8 offset c s))"

text \<open>The statements behind the first \<open>return\<close> of \<open>text_test\<close> are never reached.\<close>

definition text_test :: "'a machine_scheme \<Rightarrow> int \<times> 'a machine_scheme" where
  "text_test s =
     (case init_graph_vga 320 200 1 s of (ok, s1) \<Rightarrow>
        if ok = 0 then (1, s1)
        else (1, fold (\<lambda>x. write_mem8 (word_of_int (0 * 320 + x)) 2) [0..50]
               (vga_set_palette 2 0x00 0xff 0x0 (vga_set_palette 1 0xff 0x0 0x0
                 (vga_set_palette 0 0x0 0x0 0x0 s1)))))"

section \<open>The CRT controller\<close>

text \<open>
  What the ports 3d4h and 3d5h do: a word write loads the register with the index in the low
  byte with the high byte, but bit 7 of register 11h write-protects registers 0 to 7.
\<close>

definition crtc_write :: "(u8 \<Rightarrow> u8) \<Rightarrow> u8 \<Rightarrow> u8 \<Rightarrow> (u8 \<Rightarrow> u8)" where
  "crtc_write regs i v = (if i \<le> 7 \<and> bit (regs 0x11) 7 then regs else regs(i := v))"

fun crtc :: "io_event list \<Rightarrow> (u8 \<Rightarrow> u8) \<Rightarrow> (u8 \<Rightarrow> u8)" where
  "crtc [] regs = regs"
| "crtc (Out16 p d # es) regs =
     crtc es (if p = 0x3d4 then crtc_write regs (ucast d) (ucast (drop_bit 8 d)) else regs)"
| "crtc (e # es) regs = crtc es regs"

lemma crtc_append: "crtc (xs @ ys) regs = crtc ys (crtc xs regs)"
  by (induction xs regs rule: crtc.induct) auto

lemma reg_word_bits:
  assumes "\<not> bit r 7"
  shows "reg_word v r = push_bit 8 (ucast v) OR ucast r"
proof -
  have "sint r = uint r"
  proof (rule bit_eqI)
    fix n
    show "bit (sint r) n = bit (uint r) n"
      using assms less_Suc_eq [of n 7] bit_imp_le_length [of r n]
      by (cases "n < 7") (auto simp: bit_simps min_def)
  qed
  then have "reg_word v r = word_of_int (sint v) * 256 + word_of_int (uint r)"
    by (simp add: reg_word_def)
  moreover have "word_of_int (sint v) * 256 = (push_bit 8 (ucast v) :: u16)"
  proof -
    have "(word_of_int (sint v) * 256 :: u16) = push_bit 8 (word_of_int (sint v))"
      by (simp add: push_bit_eq_mult)
    also have "\<dots> = push_bit 8 (ucast v)" by (rule bit_word_eqI) (auto simp: bit_simps)
    finally show ?thesis .
  qed
  moreover have "push_bit 8 (ucast v) + ucast r = (push_bit 8 (ucast v) OR ucast r :: u16)"
    by (rule disjunctive_add) (auto simp: bit_simps dest: bit_imp_le_length)
  ultimately show ?thesis by simp
qed

lemma reg_word_bytes:
  assumes "\<not> bit r 7"
  shows "ucast (reg_word v r) = r" "ucast (drop_bit 8 (reg_word v r)) = v"
  unfolding reg_word_bits [OF assms]
  by (rule bit_word_eqI, auto simp: bit_simps dest: bit_imp_le_length)+

text \<open>The port log of a mode switch.\<close>

definition reg_writes :: "u8 list \<Rightarrow> u8 list \<Rightarrow> io_event list" where
  "reg_writes regs vals = map (\<lambda>a. Out16 0x3d4 (reg_word (vals ! a) (regs ! a))) [0..<length regs]"

lemma io_log_simps:
  "io_log (io_out8 p d s) = io_log s @ [Out8 p d]" "io_log (io_out16 p e s) = io_log s @ [Out16 p e]"
  "io_log (io_in8 p s) = io_log s @ [In8 p]"
  by (simp_all add: io_out8_def io_out16_def io_in8_def)

lemma fold_out16_log:
  "io_log (fold (\<lambda>a. io_out16 p (g a)) xs s) = io_log s @ map (\<lambda>a. Out16 p (g a)) xs"
  by (induction xs arbitrary: s) (simp_all add: io_out16_def)

lemma fold_out8_log:
  "io_log (fold (\<lambda>a s. io_out8 p (g a) (io_out8 p (g a) s)) xs s) =
    io_log s @ concat (map (\<lambda>a. [Out8 p (g a), Out8 p (g a)]) xs)"
  by (induction xs arbitrary: s) (simp_all add: io_out8_def)

lemma crtc_out8: "crtc (concat (map (\<lambda>a. [Out8 p (g a), Out8 p (g a)]) xs)) regs = regs"
  by (induction xs) auto

lemma mode_switch_log:
  "\<exists>tail. io_log (mode_switch w h val chain4 s) =
     io_log s @ [Out8 0x3c2 val, Out16 0x3d4 0x0e11] @ reg_writes hor_regs w @ reg_writes ver_regs h
       @ [Out16 0x3d4 0x0008, Out16 0x3d4 (if chain4 \<noteq> 0 then 0x4014 else 0x0014),
          Out16 0x3d4 (if chain4 \<noteq> 0 then 0xa317 else 0xe317)] @ tail
     \<and> (\<forall>regs. crtc tail regs = regs)"
  unfolding mode_switch_def write_regs_def reg_writes_def Let_def
  by (cases "chain4 = 0")
    (simp_all add: io_log_simps fold_out16_log fold_out8_log crtc_append crtc_out8 del: upt_Suc)

lemma crtc_reg_word:
  "\<not> bit r 7 \<Longrightarrow> crtc (Out16 0x3d4 (reg_word v r) # es) regs = crtc es (crtc_write regs r v)"
  by (simp add: reg_word_bytes)

lemma bit7_numerals:
  "\<not> bit (0 :: u8) 7" "\<not> bit (1 :: u8) 7" "\<not> bit (2 :: u8) 7" "\<not> bit (3 :: u8) 7" "\<not> bit (4 :: u8) 7"
  "\<not> bit (5 :: u8) 7" "\<not> bit (6 :: u8) 7" "\<not> bit (7 :: u8) 7" "\<not> bit (9 :: u8) 7" "\<not> bit (0xe :: u8) 7"
  "\<not> bit (0x10 :: u8) 7" "\<not> bit (0x11 :: u8) 7" "\<not> bit (0x12 :: u8) 7" "\<not> bit (0x13 :: u8) 7"
  "\<not> bit (0x15 :: u8) 7" "\<not> bit (0x16 :: u8) 7"
  by simp_all

lemma reg_writes_hor:
  "reg_writes hor_regs [a, b, c, d, e, f, g] =
    [Out16 0x3d4 (reg_word a 0), Out16 0x3d4 (reg_word b 1), Out16 0x3d4 (reg_word c 2),
     Out16 0x3d4 (reg_word d 3), Out16 0x3d4 (reg_word e 4), Out16 0x3d4 (reg_word f 5),
     Out16 0x3d4 (reg_word g 0x13)]"
  by (simp add: reg_writes_def hor_regs_def upt_rec)

lemma reg_writes_ver:
  "reg_writes ver_regs [a, b, c, d, e, f, g, h] =
    [Out16 0x3d4 (reg_word a 6), Out16 0x3d4 (reg_word b 7), Out16 0x3d4 (reg_word c 9),
     Out16 0x3d4 (reg_word d 0x10), Out16 0x3d4 (reg_word e 0x11), Out16 0x3d4 (reg_word f 0x12),
     Out16 0x3d4 (reg_word g 0x15), Out16 0x3d4 (reg_word h 0x16)]"
  by (simp add: reg_writes_def ver_regs_def upt_rec)

lemma crtc_program:
  "crtc (reg_writes hor_regs [w0, w1, w2, w3, w4, w5, w6] @ reg_writes ver_regs [h0, h1, h2, h3, h4, h5, h6, h7])
      (regs(0x11 := 0xe)) =
    regs(0 := w0, 1 := w1, 2 := w2, 3 := w3, 4 := w4, 5 := w5, 0x13 := w6, 6 := h0, 7 := h1, 9 := h2,
      0x10 := h3, 0x11 := h4, 0x12 := h5, 0x15 := h6, 0x16 := h7)"
  unfolding reg_writes_hor reg_writes_ver append_Cons append_Nil
  by (simp only: crtc_reg_word bit7_numerals simp_thms)
    (simp add: crtc_write_def bit7_numerals fun_upd_def, rule ext, simp)

lemma width_mode_length: "width_mode width = Some (w, v) \<Longrightarrow> length w = 7"
  by (auto simp: width_mode_def width_256_def width_320_def width_360_def width_376_def width_400_def
      split: if_splits)

lemma height_mode_length: "height_mode height = Some (h, b) \<Longrightarrow> length h = 8"
  by (auto simp: height_mode_def height_200_def height_224_def height_240_def height_256_def
      height_270_def height_300_def height_360_def height_400_def height_480_def height_564_def
      height_600_def split: if_splits)

lemma mode_bytes:
  "(0x4014 :: u8) = 0x14" "(0xa317 :: u8) = 0x17" "(0xe317 :: u8) = 0x17" "(0x0e11 :: u8) = 0x11"
  by simp_all

lemma crtc_unlock: "crtc [Out8 0x3c2 val, Out16 0x3d4 0x0e11] regs = regs(0x11 := 0xe)"
  by (simp add: crtc_write_def mode_bytes)

lemma crtc_mode_switch:
  assumes "length w = 7" and "length h = 8"
  shows "\<exists>es. io_log (mode_switch w h val chain4 s) = io_log s @ es
    \<and> (\<forall>regs. map (crtc es regs) hor_regs = w \<and> map (crtc es regs) ver_regs = h
         \<and> crtc es regs 0x14 = (if chain4 \<noteq> 0 then 0x40 else 0x00)
         \<and> crtc es regs 0x17 = (if chain4 \<noteq> 0 then 0xa3 else 0xe3))"
proof -
  obtain w0 w1 w2 w3 w4 w5 w6 where w: "w = [w0, w1, w2, w3, w4, w5, w6]"
    using assms(1) by (auto simp: length_Suc_conv numeral_eq_Suc)
  obtain h0 h1 h2 h3 h4 h5 h6 h7 where h: "h = [h0, h1, h2, h3, h4, h5, h6, h7]"
    using assms(2) by (auto simp: length_Suc_conv numeral_eq_Suc)
  obtain tail where log: "io_log (mode_switch w h val chain4 s) =
      io_log s @ [Out8 0x3c2 val, Out16 0x3d4 0x0e11] @ reg_writes hor_regs w @ reg_writes ver_regs h
       @ [Out16 0x3d4 0x0008, Out16 0x3d4 (if chain4 \<noteq> 0 then 0x4014 else 0x0014),
          Out16 0x3d4 (if chain4 \<noteq> 0 then 0xa317 else 0xe317)] @ tail"
    and tail: "\<And>regs. crtc tail regs = regs" using mode_switch_log [of w h val chain4 s] by blast
  let ?last = "[Out16 0x3d4 0x0008, Out16 0x3d4 (if chain4 \<noteq> 0 then 0x4014 else 0x0014),
          Out16 0x3d4 (if chain4 \<noteq> 0 then 0xa317 else 0xe317)] @ tail"
  have "crtc ([Out8 0x3c2 val, Out16 0x3d4 0x0e11] @ (reg_writes hor_regs w @ reg_writes ver_regs h) @ ?last) regs
      = crtc ?last (regs(0 := w0, 1 := w1, 2 := w2, 3 := w3, 4 := w4, 5 := w5, 0x13 := w6, 6 := h0, 7 := h1, 9 := h2,
      0x10 := h3, 0x11 := h4, 0x12 := h5, 0x15 := h6, 0x16 := h7))" for regs
    unfolding crtc_append [of "[Out8 0x3c2 val, Out16 0x3d4 0x0e11]"]
      crtc_append [of "reg_writes hor_regs w @ reg_writes ver_regs h"]
    unfolding w h
    by (simp only: crtc_unlock crtc_program)
  then show ?thesis
    using log by (intro exI [of _ "[Out8 0x3c2 val, Out16 0x3d4 0x0e11] @ (reg_writes hor_regs w @ reg_writes ver_regs h) @ ?last"])
      (simp add: w h tail crtc_write_def hor_regs_def ver_regs_def mode_bytes)
qed

lemma graph_mode_320: "graph_mode 320 200 1 s = (1, mode_switch width_320 height_200 0x63 1 s)"
  by (simp add: graph_mode_def width_mode_def height_mode_def)

section \<open>Properties\<close>

text \<open>C37. A mode switch that reports success loads the CRT controller: whatever its registers held
  before, and even when registers 0 to 7 were write-protected, afterwards they hold the
  values of the tables for the width and the height, and the addressing registers those of
  the chained or the planar mode.\<close>

theorem graph_mode_registers:
  assumes "graph_mode width height chain4 s = (1, s')"
  shows "\<exists>w v h b es. width_mode width = Some (w, v) \<and> height_mode height = Some (h, b)
    \<and> io_log s' = io_log s @ es
    \<and> (\<forall>regs. map (crtc es regs) hor_regs = w \<and> map (crtc es regs) ver_regs = h
         \<and> crtc es regs 0x14 = (if chain4 \<noteq> 0 then 0x40 else 0x00)
         \<and> crtc es regs 0x17 = (if chain4 \<noteq> 0 then 0xa3 else 0xe3))"
proof -
  obtain w v h b where wh: "width_mode width = Some (w, v)" "height_mode height = Some (h, b)"
    and s': "s' = mode_switch w h (v OR b) chain4 s"
    using assms by (auto simp: graph_mode_def split: option.splits prod.splits if_splits)
  then show ?thesis
    using crtc_mode_switch [OF width_mode_length [OF wh(1)] height_mode_length [OF wh(2)]] by metis
qed

definition dark_machine :: machine where
  "dark_machine = \<lparr>mem = (\<lambda>_. 0), io_log = []\<rparr>"

theorem graph_mode_registers_witness:
  "\<exists>s' es. graph_mode 256 240 1 dark_machine = (1, s') \<and> io_log s' = io_log dark_machine @ es
    \<and> map (crtc es (\<lambda>_. 0xff)) hor_regs = width_256"
proof -
  have "\<exists>s'. graph_mode 256 240 1 dark_machine = (1, s')"
    by (simp add: graph_mode_def width_mode_def height_mode_def)
  then obtain s' where "graph_mode 256 240 1 dark_machine = (1, s')" ..
  then show ?thesis using graph_mode_registers [of 256 240 1 dark_machine s'] by (auto simp: width_mode_def)
qed

text \<open>Also: The mode switch refuses exactly the widths and heights without a table and the chained
  modes of more than 64 KB, and then touches no port; but \<open>init_graph_vga\<close> overrides its
  arguments, so that every call, also one with an impossible size, reports success and
  performs the same 320 by 200 switch.\<close>

theorem init_graph_vga_ignores_arguments:
  "(fst (graph_mode width height chain4 s) = 0 \<longleftrightarrow>
      width_mode width = None \<or> height_mode height = None \<or> (chain4 \<noteq> 0 \<and> uint width * uint height > 65536))
   \<and> (fst (graph_mode width height chain4 s) = 0 \<longrightarrow> snd (graph_mode width height chain4 s) = s)
   \<and> init_graph_vga width height chain4 s = graph_mode 320 200 1 s
   \<and> fst (init_graph_vga width height chain4 s) = 1"
proof -
  have "(fst (graph_mode width height chain4 s) = 0 \<longleftrightarrow>
      width_mode width = None \<or> height_mode height = None \<or> (chain4 \<noteq> 0 \<and> uint width * uint height > 65536))
   \<and> (fst (graph_mode width height chain4 s) = 0 \<longrightarrow> snd (graph_mode width height chain4 s) = s)"
    unfolding graph_mode_def by (simp split: option.splits prod.splits)
  then show ?thesis using graph_mode_320 [of s] by (simp add: init_graph_vga_def)
qed

theorem init_graph_vga_ignores_arguments_witness:
  "fst (graph_mode 300 200 1 dark_machine) = 0 \<and> snd (graph_mode 300 200 1 dark_machine) = dark_machine
   \<and> fst (init_graph_vga 300 200 1 dark_machine) = 1"
proof -
  have "width_mode 300 = None" by (simp add: width_mode_def)
  then show ?thesis using init_graph_vga_ignores_arguments [of 300 200 1 dark_machine] by blast
qed

lemma fold_write_mem8:
  "fold (\<lambda>x. write_mem8 (g x) c) xs s = s\<lparr>mem := (\<lambda>a. if a \<in> g ` set xs then c else mem s a)\<rparr>"
proof (induction xs arbitrary: s)
  case (Cons x xs)
  have "fold (\<lambda>x. write_mem8 (g x) c) (x # xs) s =
      s\<lparr>mem := (\<lambda>a. if a \<in> g ` set xs then c else ((mem s)(g x := c)) a)\<rparr>"
    by (simp add: Cons.IH write_mem8_def poke_def cong: if_cong)
  also have "(\<lambda>a. if a \<in> g ` set xs then c else ((mem s)(g x := c)) a) =
      (\<lambda>a. if a \<in> g ` set (x # xs) then c else mem s a)" by auto
  finally show ?case .
qed simp

lemma boxfill8_mem:
  "boxfill8 xsize c x0 y0 x1 y1 s =
    s\<lparr>mem := (\<lambda>a. if \<exists>x \<in> {x0..x1}. \<exists>y \<in> {y0..y1}. a = vga_pixel xsize x y then c else mem s a)\<rparr>"
proof -
  have "fold (\<lambda>y. fold (\<lambda>x. write_mem8 (vga_pixel xsize x y) c) [x0..x1]) ys s =
    s\<lparr>mem := (\<lambda>a. if \<exists>x \<in> {x0..x1}. \<exists>y \<in> set ys. a = vga_pixel xsize x y then c else mem s a)\<rparr>" for ys
  proof (induction ys arbitrary: s)
    case (Cons y ys)
    let ?m = "\<lambda>a. if a \<in> (\<lambda>x. vga_pixel xsize x y) ` {x0..x1} then c else mem s a"
    have "fold (\<lambda>y. fold (\<lambda>x. write_mem8 (vga_pixel xsize x y) c) [x0..x1]) (y # ys) s =
      s\<lparr>mem := (\<lambda>a. if \<exists>x \<in> {x0..x1}. \<exists>y \<in> set ys. a = vga_pixel xsize x y then c else ?m a)\<rparr>"
      by (simp add: fold_write_mem8 Cons.IH cong: if_cong)
    also have "(\<lambda>a. if \<exists>x \<in> {x0..x1}. \<exists>y \<in> set ys. a = vga_pixel xsize x y then c else ?m a) =
      (\<lambda>a. if \<exists>x \<in> {x0..x1}. \<exists>y \<in> set (y # ys). a = vga_pixel xsize x y then c else mem s a)"
      by (auto simp: fun_eq_iff)
    finally show ?case .
  qed simp
  from this [of "[y0..y1]"] show ?thesis by (simp add: boxfill8_def)
qed

text \<open>The address of a pixel determines it, and lies in the 64000 bytes of the screen.\<close>

lemma uint_pixel:
  fixes x y :: int
  assumes "0 \<le> x" "x < 320" "0 \<le> y" "y < 200"
  shows "uint (vga_pixel 320 x y - 0xa0000) = y * 320 + x"
proof -
  have "uint (word_of_int k :: u32) = k" if "0 \<le> k" "k < 64000" for k
    using that by (simp add: uint_word_of_int)
  from this [of "y * 320 + x"] show ?thesis using assms unfolding vga_pixel_def by simp
qed

lemma vga_pixel_inj:
  fixes x y :: int
  assumes "0 \<le> x" "x < 320" "0 \<le> y" "y < 200" "0 \<le> x'" "x' < 320" "0 \<le> y'" "y' < 200"
    and "vga_pixel 320 x y = vga_pixel 320 x' y'"
  shows "x = x' \<and> y = y'"
proof -
  have eq: "y * 320 + x = y' * 320 + x'"
    using uint_pixel [OF assms(1-4)] uint_pixel [OF assms(5-8)] assms(9) by metis
  then have "(y * 320 + x) div 320 = (y' * 320 + x') div 320" by simp
  then have "y = y'" using assms by simp
  then show ?thesis using eq by simp
qed

lemma pixel_in_screen:
  fixes x y :: int
  assumes "0 \<le> x" "x < 320" "0 \<le> y" "y < 200"
  shows "addr_in 0xa0000 64000 (vga_pixel 320 x y)"
  using uint_pixel [OF assms] assms by (simp add: addr_in_def unat_eq_nat_uint)

lemma box_in_screen:
  assumes "0 \<le> x0" "x1 < 320" "0 \<le> y0" "y1 < 200"
    and "\<exists>x \<in> {x0..x1}. \<exists>y \<in> {y0..y1}. a = vga_pixel 320 x y"
  shows "addr_in 0xa0000 64000 a"
proof -
  obtain x y where "x \<in> {x0..x1}" "y \<in> {y0..y1}" "a = vga_pixel 320 x y" using assms(5) by blast
  then show ?thesis using assms(1-4) pixel_in_screen [of x y] by simp
qed

text \<open>Also: \<open>boxfill8\<close> fills a box: on the 320 by 200 screen the pixels inside the corners get the
  colour and every other pixel, and every byte outside the screen, keeps its value.\<close>

theorem boxfill8_fills:
  assumes "0 \<le> x0" "x1 < 320" "0 \<le> y0" "y1 < 200" and "0 \<le> x" "x < 320" "0 \<le> y" "y < 200"
  shows "mem (boxfill8 320 c x0 y0 x1 y1 s) (vga_pixel 320 x y) =
      (if x0 \<le> x \<and> x \<le> x1 \<and> y0 \<le> y \<and> y \<le> y1 then c else mem s (vga_pixel 320 x y))
    \<and> (\<forall>a. \<not> addr_in 0xa0000 64000 a \<longrightarrow> mem (boxfill8 320 c x0 y0 x1 y1 s) a = mem s a)"
proof -
  let ?in = "\<lambda>a. \<exists>x \<in> {x0..x1}. \<exists>y \<in> {y0..y1}. a = vga_pixel 320 x y"
  have in_box: "?in (vga_pixel 320 x y) \<longleftrightarrow> x0 \<le> x \<and> x \<le> x1 \<and> y0 \<le> y \<and> y \<le> y1"
  proof
    assume "?in (vga_pixel 320 x y)"
    then obtain a b where ab: "a \<in> {x0..x1}" "b \<in> {y0..y1}" "vga_pixel 320 x y = vga_pixel 320 a b" by blast
    then have "x = a \<and> y = b" using assms by (intro vga_pixel_inj) auto
    then show "x0 \<le> x \<and> x \<le> x1 \<and> y0 \<le> y \<and> y \<le> y1" using ab by auto
  next
    assume "x0 \<le> x \<and> x \<le> x1 \<and> y0 \<le> y \<and> y \<le> y1"
    then have "x \<in> {x0..x1}" "y \<in> {y0..y1}" by auto
    then show "?in (vga_pixel 320 x y)" by blast
  qed
  have out: "\<not> ?in a" if "\<not> addr_in 0xa0000 64000 a" for a
    using box_in_screen [OF assms(1-4)] that by blast
  show ?thesis unfolding boxfill8_mem using in_box out by auto
qed

theorem boxfill8_fills_witness:
  "mem (boxfill8 320 7 2 176 2 196 dark_machine) (vga_pixel 320 2 180) = 7"
  using boxfill8_fills [of 2 2 176 196 2 180 7 dark_machine] by simp

text \<open>Also: \<open>HariMain\<close> draws only on the screen, and leaves the palette alone: the colours it uses
  are never loaded.\<close>

theorem HariMain_on_screen:
  "(\<forall>a. \<not> addr_in 0xa0000 64000 a \<longrightarrow> mem (HariMain s) a = mem s a) \<and> io_log (HariMain s) = io_log s"
proof -
  have inside: "\<forall>(c, x0, y0, x1, y1) \<in> set desktop. 0 \<le> x0 \<and> x1 < 320 \<and> 0 \<le> y0 \<and> y1 < 200"
    by (simp add: desktop_def)
  let ?I = "\<lambda>t. (\<forall>a. \<not> addr_in 0xa0000 64000 a \<longrightarrow> mem t a = mem s a) \<and> io_log t = io_log s"
  have step: "?I (boxfill8 320 c x0 y0 x1 y1 t)"
    if "0 \<le> x0 \<and> x1 < 320 \<and> 0 \<le> y0 \<and> y1 < 200" and "?I t" for c x0 y0 x1 y1 t
    using that box_in_screen [of x0 x1 y0 y1] unfolding boxfill8_mem by auto
  have "?I (fold (\<lambda>(c, x0, y0, x1, y1). boxfill8 320 c x0 y0 x1 y1) desktop s)"
  proof (rule fold_inv)
    fix b t assume b: "b \<in> set desktop" and t: "?I t"
    obtain c x0 y0 x1 y1 where eq: "b = (c, x0, y0, x1, y1)" by (cases b)
    then have "0 \<le> x0 \<and> x1 < 320 \<and> 0 \<le> y0 \<and> y1 < 200" using inside b by blast
    then show "?I ((case b of (c, x0, y0, x1, y1) \<Rightarrow> boxfill8 320 c x0 y0 x1 y1) t)"
      unfolding eq prod.case by (rule step [OF _ t])
  qed simp
  then show ?thesis by (simp add: HariMain_def vga_init_palette_def)
qed

theorem HariMain_on_screen_witness:
  "mem (HariMain dark_machine) 0xb8000 = mem dark_machine 0xb8000"
  using HariMain_on_screen [of dark_machine] by (simp add: addr_in_def)

text \<open>Also: The first test program draws its line of pixels at the addresses 0 to 50 instead of at the
  graphics memory: it overwrites the start of the interrupt vector table.\<close>

theorem text_test_overwrites_vectors:
  "fst (text_test s) = 1 \<and> mem (snd (text_test s)) a = (if unat a \<le> 50 then 2 else mem s a)"
proof -
  have keep: "mem (io_out8 p d t) = mem t" "mem (io_out16 p e t) = mem t" "mem (io_in8 p t) = mem t" for p d e t
    by (simp_all add: io_out8_def io_out16_def io_in8_def)
  have f16: "mem (fold (\<lambda>x. io_out16 p (g x)) xs t) = mem t" for p g xs t
    by (induction xs arbitrary: t) (simp_all add: keep)
  have f8: "mem (fold (\<lambda>x t. io_out8 p (g x) (io_out8 p (g x) t)) xs t) = mem t" for p g xs t
    by (induction xs arbitrary: t) (simp_all add: keep)
  have mode: "mem (mode_switch w h v c t) = mem t" for w h v c t
    unfolding mode_switch_def write_regs_def Let_def by (simp add: keep f16 f8)
  obtain t where t: "init_graph_vga 320 200 1 s = (1, t)" "mem t = mem s"
    using graph_mode_320 [of s] by (simp add: init_graph_vga_def mode)
  have "a \<in> (\<lambda>x. word_of_int (0 * 320 + x)) ` {0..50} \<longleftrightarrow> unat a \<le> 50"
  proof
    assume "unat a \<le> 50"
    then have "a \<le> 50" by (simp add: word_le_nat_alt)
    then have "uint a \<in> {0..50}" by (simp add: word_le_def)
    moreover have "a = word_of_int (0 * 320 + uint a)" by simp
    ultimately show "a \<in> (\<lambda>x. word_of_int (0 * 320 + x)) ` {0..50}" by (rule image_eqI [rotated])
  next
    assume "a \<in> (\<lambda>x. word_of_int (0 * 320 + x)) ` {0..50}"
    then obtain x :: int where "0 \<le> x" "x \<le> 50" "a = word_of_int x" by auto
    moreover have "uint (word_of_int x :: u32) = x" using calculation by (simp add: uint_word_of_int)
    ultimately show "unat a \<le> 50" unfolding unat_eq_nat_uint by simp
  qed
  then show ?thesis
    using t by (simp add: text_test_def fold_write_mem8 vga_set_palette_def keep)
qed

end
