(* ===== verification/Spec2Isabelle.thy ===== *)
theory Spec2Isabelle
  imports Clock_Service Sys_Call Fork_Call Mm_Writes Exec_Load Genromfs_Align Genromfs_Readback Loader_Properties Start Vga_Mode
begin

text \<open>
  A verification development for simple_os, a small 32-bit x86 kernel in C: round-robin
  scheduling, synchronous message passing between tasks and processes, a system task and a
  memory-manager task that serve processes by message, terminals over text and graphics
  consoles, a read-only file system on a RAM disk, and the loader that puts the kernel in place.

  \<^bold>\<open>The program and the theories.\<close> Every definition that models code is named as in the source
  where Isabelle allows it, and stands in the theory of its component.

  \<^item> OS_Prelude: the integers of include/type.h as words of their width, memory as a function from
    32-bit addresses to bytes (\<open>read32\<close>, \<open>write32\<close>, and the copy and fill routines of asm_func.S),
    the log of port instructions, and \<open>'a result\<close>: kernel code ends with a value or with one of
    the errors \<open>kerror\<close> (a failed assertion, a panic, an index outside a table, a loop that never
    ends).
  \<^item> Protect: include/protect.h, segment descriptors and gates as the packed fields the processor
    reads. The locale \<open>segment_base\<close> states what a descriptor promises its readers; it is
    interpreted for the two base computations of the code (\<open>seg_base\<close> and the one of \<open>do_fork\<close>).
  \<^item> Kstring, Kstdio: include/k_string.h, k_ctype.h, endian.h; io/k_stdio.c, number conversion and
    the printf family up to the buffer they fill, and direct output to the text screen.
  \<^item> Process: process.c and include/process.h, \<open>sys_sendrec\<close> of syscall.c and clock.c. The process
    table is a function from slot numbers to records with the fields of \<open>struct Process\<close>; the
    pointers of the code are slot numbers. Scheduling, the queues of blocked senders and both halves of
    message passing.
  \<^item> Ipc, Mailbox, Boot_Table, Kernel_Runs, Ipc_Properties: the invariant of message passing, its
    abstract specification, the table \<open>init_proc\<close> builds, what each entry of the kernel keeps and the
    properties over them.
  \<^item> Draw, Console, Irq, Ring, Tty, Keyboard: vga/draw_func.c, tty/console.c, the interrupt
    controllers of start.c and asm_func.S, tty/tty.c and tty/keyboard.c. The locale \<open>display\<close> is what
    a terminal relies on in its console, \<open>ring_buffer\<close> (in Ring) what both input buffers promise; they
    are interpreted for the text console, the keyboard buffer and the terminal buffer.
  \<^item> Memory: the block bitmap of mm/mm.c and the memory probe, with the loop of \<open>memtest_sub\<close> in p_kernel.s. The locale \<open>block_allocator\<close> is the
    contract of \<open>alloc_mem\<close> and \<open>free_mem\<close>.
  \<^item> Storage, Romfs, Romfs_Lookup: storage.c, fs/vfs.c (the locale \<open>registry\<close> is the contract both
    tables share), fs/romfs.c and what a lookup finds in an image.
  \<^item> Elf: the headers of include/elf.h, \<open>copy_elf_code\<close> of kernel_loader/protected_code.c and
    \<open>get_kernel_info\<close> of k_stdlib.c.
  \<^item> Floppy, Boot_Sector, Kernel_Loader, Fat_Chain, Loader_Properties: the way from the disk to the
    kernel. c-bootloader/fat.c is the boot sector, kernel_loader/kernel_loader.c the second stage, which follows
    the allocation table; the BIOS they call is the record \<open>Bios\<close>, an argument of both, and
    \<open>serves B img\<close> the documented behaviour of its disk service for a disk with the content \<open>img\<close>.
    The locale \<open>sector_reader\<close> is the contract of the two routines that read a sector.
  \<^item> Genromfs, Genromfs_Image, Genromfs_Tree, Genromfs_Properties, Genromfs_Align, Genromfs_Readback: the tool
    others/genromfs.c, with which the makefile builds the file-system image. Its nodes are a store \<open>tree\<close>, its output
    a stream of bytes (\<open>holding\<close>, \<open>writes\<close>); the file system of the machine it runs on is the record \<open>Host\<close>, an
    argument. Readback composes the tool with the file system of the kernel.
  \<^item> Syscall, Exchange, Rendezvous, Clock_Service, Sys_Call: syscall.c, asm_syscall.S, systask.c, io/k_stdio_k.c, k_assert.c. The code of a
    process is a resumption \<open>prog\<close>: it runs to its next message-passing call, the kernel carries the
    call out, and the process goes on when the kernel resumes it. Exchange and Rendezvous give the outcomes of
    such a call, Clock_Service composes any number of clients in \<open>get_ticks\<close> with \<open>task_sys\<close>. Sys_Call is the entry of
    system calls in asm_syscall.S, which selects the routine by the number in a register.
  \<^item> Mm_Task, Mm_Properties, Fork_Call, Exec_Load: \<open>task_mm\<close> of systask.c with \<open>do_fork\<close>, \<open>do_exit\<close>, \<open>do_wait\<close> and
    \<open>do_execl\<close> of mm/mm.c. Fork_Call runs \<open>fork\<close> of syscall.c and \<open>task_mm\<close> against each other.
  \<^item> System_Runs, Mm_Writes: the kernel as a transition system. A step is a system call, a clock
    interrupt, computation of a process, or a write \<open>mm_write\<close> of the memory manager to the process table
    (mm.c changes flags and slots of other processes directly); Mm_Writes shows that between its system calls
    \<open>task_mm\<close> makes no other change to the table.
  \<^item> Vga_Mode, Start: switch_vga_mode.c; start.c, the tables of the processor and the list of
    initialisation functions that brings all components up.

  \<^bold>\<open>What is shown.\<close>

  \<^item> Message passing. \<open>ipc_inv\<close> relates the flags of the slots, the linked queues and the graph of
    who waits for whom. The boot table establishes it, and every step of the kernel keeps it up to
    the marks \<open>WAITING\<close> and \<open>HANGING\<close> that the memory manager sets on top of the flags of a process. In
    every state that is reached from the boot state, with the memory manager writing only what leaves message passing
    alone (\<open>undisturbed\<close>), no chain of senders is a cycle, and a system call with a legal partner fails an assertion only
    when the process it would complete with carries a mark (\<open>marked_sender_fails\<close> shows a state in which it does). The deadlock check reports exactly the sends that would close one, and messages from \<open>ANY\<close> are taken
    first come, first served. \<open>msg_send\<close> and \<open>msg_receive\<close> refine the abstract mailboxes of Mailbox,
    in which a message is either delivered or kept with its blocked sender. The clock and the scheduler
    give every runnable process its turn.
  \<^item> Services. Whatever number of the table a process passes to the system call entry, the invariant survives and the
    process finds its answer in its register, or the kernel halts for a reason that is stated. Any number of processes in \<open>get_ticks\<close>, in any interleaving, are answered by the system task with a value the clock had
    during the call, and requests that come while the task is busy are queued; \<open>fork\<close> and the memory manager, run to the end
    against each other, return the number of the child in the parent and 0 in the child;
    \<open>wait\<close> is answered with the status of an exiting child; \<open>do_execl\<close> puts the segments of the
    file into the memory of the caller and lets it continue at the entry address. The branches that do not do what they
    mean to (a failed fork, an exit without a waiting parent) are stated as they are.
  \<^item> Text and devices. Number conversion is inverted by reading the digits back; formatted text is
    what the format says; a console writes inside its own share of video memory; a keystroke reaches
    the selected terminal and is echoed; the input buffers are bounded queues; memory blocks
    that are handed out are disjoint.
  \<^item> Files and loading. A lookup finds exactly the first entry of the image with the name; booting
    mounts the file system. The image that the tool writes for a directory of regular files has a valid checksum, its
    files are aligned as asked for, and the lookup of the kernel finds every short-named file in it with its size and content. The boot sector loads the first sector of the loader; the loader
    decodes the twelve-bit table, follows a chain to its end (chains have no repetition, so that it ends
    whenever the last entry is 0xfff) and leaves the file at 0x300000; together with \<open>copy_elf_code\<close>
    the segments of the kernel file on the disk are at their addresses.
  \<^item> Processor tables. Selectors of the local tables designate the right descriptors, and the system
    call gate is the only one user code may raise; the table has the handler of start.c at each of its vectors.

  \<^bold>\<open>Parameters, bounds and fuel.\<close> What the linker or the assembler decides is an argument: addresses
  of tables and strings, entry points, the font and picture tables (\<open>Assets\<close>). The state of
  the processor that the C code only asks for (the ring of the caller) is read from the state of the model; which addresses
  answer to a write (\<open>ram\<close>) and what the processor leaves of its flags (\<open>popf\<close>) are arguments of the memory probe. Loops that count are folds; the ones that follow
  pointers are functions with a measure, or \<open>partial_function (option)\<close> where bad data lets
  them run forever, with lemmas that they return on good data. \<open>milli_delay\<close> takes the number
  of questions it may ask, since a resumption is finite. \<open>findnode\<close> and \<open>dumpnode\<close> take the number of nodes as
  the bound of the depth of the tree, \<open>processdir\<close> a bound of the depth of the directories; one is enough for a
  directory without subdirectories. The queue walks of message passing use as many
  steps as the table has slots; the invariant says that no queue is longer.

  \<^bold>\<open>Not modelled.\<close> Assembly beyond the routines named above (interrupt entry, the switch to
  protected mode, the BIOS text of vga/): no C code to translate. vga/font_rawdata.c is the data of
  a font. others/genromfs_2.c is an earlier version of genromfs.c that the makefile does not use. b.c,
  b_by_bootloader.c and c-bootloader/cb.c, vbr.c and the C++ variants are demonstrations that are not part of
  the kernel image, as are apps/echo.c and ut/ut.c. The bodies of the demonstration processes
  \<open>proc_a\<close>, \<open>proc_b\<close> and \<open>proc_c\<close> are endless loops over calls that are modelled. Code under
  \<open>#if 0\<close> or undefined symbols is left out. The processor's own timing and nested interrupts
  other than the clock are outside the model.
\<close>

end
